(* ===== verification/Py_Prelude.thy ===== *)
theory Py_Prelude
  imports Main "HOL-Library.Sublist" "HOL-Library.AList" "HOL-Library.Monad_Syntax"
begin

text \<open>
  The part of Python's language and standard library that the modelled modules share:
  strings (lists of code points below 256, the range a latin-1 decoded log line has),
  decimal numbers, list access that may fail, results that may raise, dictionaries in
  insertion order, and runs of a step function with an invariant.  The locales
  \<open>dict_ops\<close> and \<open>machine\<close> are the two interfaces the components are written against.
\<close>

named_theorems py_str \<open>rules that evaluate the string operations\<close>
named_theorems py_inv \<open>preservation of component invariants\<close>

section \<open>Results\<close>

text \<open>A Python call returns (\<open>Inr\<close>) or raises (\<open>Inl\<close>).\<close>

fun res_bind :: "'e + 'a \<Rightarrow> ('a \<Rightarrow> 'e + 'b) \<Rightarrow> 'e + 'b" where
  "res_bind (Inl e) f = Inl e"
| "res_bind (Inr x) f = f x"

lemma res_bind_eq_Inr: "res_bind r f = Inr y \<longleftrightarrow> (\<exists>x. r = Inr x \<and> f x = Inr y)"
  by (cases r) auto

lemma res_bind_eq_Inl:
  "res_bind r f = Inl e \<longleftrightarrow> r = Inl e \<or> (\<exists>x. r = Inr x \<and> f x = Inl e)"
  by (cases r) auto

lemma map_sum_Inl [simp]: "map_sum id f r = Inl e \<longleftrightarrow> r = Inl e"
  by (cases r) auto

text \<open>\<open>x if x is not None else y\<close>.\<close>

definition or_else :: "'a option \<Rightarrow> 'a option \<Rightarrow> 'a option" where
  "or_else x y = (case x of None \<Rightarrow> y | Some v \<Rightarrow> Some v)"

definition is_ok :: "'e + 'a \<Rightarrow> bool" where
  "is_ok r = (case r of Inl _ \<Rightarrow> False | Inr _ \<Rightarrow> True)"

lemma is_ok_simps [simp]: "is_ok (Inr x)" "\<not> is_ok (Inl e)"
  by (simp_all add: is_ok_def)

text \<open>A list of results, \<open>None\<close> as soon as one of them is.\<close>

fun all_some :: "'a option list \<Rightarrow> 'a list option" where
  "all_some [] = Some []"
| "all_some (None # xs) = None"
| "all_some (Some x # xs) = map_option (Cons x) (all_some xs)"

lemma all_some_Some: "all_some xs = Some ys \<Longrightarrow> xs = map Some ys"
  by (induction xs arbitrary: ys rule: all_some.induct) auto

text \<open>\<open>xs[i]\<close>, with \<open>None\<close> where Python raises \<open>IndexError\<close>, and \<open>xs[i:j]\<close>.\<close>

definition at :: "'a list \<Rightarrow> nat \<Rightarrow> 'a option" where
  "at xs i = (if i < length xs then Some (xs ! i) else None)"

lemma at_eq_Some [simp]: "at xs i = Some x \<longleftrightarrow> i < length xs \<and> xs ! i = x"
  by (auto simp: at_def)

lemma at_eq_None [simp]: "at xs i = None \<longleftrightarrow> length xs \<le> i"
  by (auto simp: at_def)

lemma at_less: "i < length xs \<Longrightarrow> at xs i = Some (xs ! i)"
  by simp

definition slice :: "'a list \<Rightarrow> nat \<Rightarrow> nat \<Rightarrow> 'a list" where
  "slice xs i j = take (j - i) (drop i xs)"

lemma length_slice: "length (slice xs i j) = min (j - i) (length xs - i)"
  by (simp add: slice_def min.commute)

lemma length_slice_le: "length (slice xs i j) \<le> j - i"
  by (simp add: length_slice)

lemma slice_full: "j \<le> length xs \<Longrightarrow> length (slice xs i j) = j - i"
  by (simp add: length_slice)

lemma set_slice: "set (slice xs i j) \<subseteq> set xs"
  by (auto simp: slice_def dest: in_set_takeD in_set_dropD)

section \<open>Characters and strings\<close>

abbreviation code_of :: "char \<Rightarrow> nat" where
  "code_of c \<equiv> of_char c"

text \<open>\<open>str.isspace\<close>, and \<open>\\s\<close> in a regular expression on \<open>str\<close>.\<close>

definition py_isspace :: "char \<Rightarrow> bool" where
  "py_isspace c = (let n = code_of c in
     (9 \<le> n \<and> n \<le> 13) \<or> (28 \<le> n \<and> n \<le> 32) \<or> n = 133 \<or> n = 160)"

text \<open>\<open>\\d\<close>: the only decimal digits below 256 are the ASCII ones.\<close>

definition py_isdecimal :: "char \<Rightarrow> bool" where
  "py_isdecimal c = (let n = code_of c in 48 \<le> n \<and> n \<le> 57)"

text \<open>\<open>str.isdigit\<close> also accepts the superscripts two, three and one.\<close>

definition py_isdigit :: "char \<Rightarrow> bool" where
  "py_isdigit c = (py_isdecimal c \<or> code_of c \<in> {178, 179, 185})"

text \<open>\<open>\\w\<close>: \<open>str.isalnum\<close> or an underscore.\<close>

definition py_isword :: "char \<Rightarrow> bool" where
  "py_isword c = (let n = code_of c in
     (48 \<le> n \<and> n \<le> 57) \<or> (65 \<le> n \<and> n \<le> 90) \<or> n = 95 \<or> (97 \<le> n \<and> n \<le> 122)
     \<or> n \<in> {170, 178, 179, 181, 185, 186, 188, 189, 190}
     \<or> (192 \<le> n \<and> n \<noteq> 215 \<and> n \<noteq> 247))"

text \<open>\<open>str.lower\<close>: ASCII capitals and the latin-1 capitals from A-grave to Thorn.\<close>

definition lower_char :: "char \<Rightarrow> char" where
  "lower_char c = (let n = code_of c in
     if (65 \<le> n \<and> n \<le> 90) \<or> (192 \<le> n \<and> n \<le> 222 \<and> n \<noteq> 215) then char_of (n + 32) else c)"

definition py_lower :: "string \<Rightarrow> string" where
  "py_lower s = map lower_char s"

lemma py_lower_simps [simp]:
  "py_lower [] = []" "py_lower (c # s) = lower_char c # py_lower s"
  "py_lower (s @ t) = py_lower s @ py_lower t" "length (py_lower s) = length s"
  by (simp_all add: py_lower_def)

lemma of_char_lt_256 [simp]: "(of_char c :: nat) < 256"
  by (metis of_char_mod_256 mod_less_divisor zero_less_numeral)

text \<open>
  How a character is compared when definitions are evaluated: by its bits, from the highest.
\<close>
fun bits_le :: "bool list \<Rightarrow> bool list \<Rightarrow> bool" where
  "bits_le (x # xs) (y # ys) = (if x then y \<and> bits_le xs ys else y \<or> bits_le xs ys)"
| "bits_le [] ys = True"
| "bits_le (x # xs) [] = False"

definition bits_val :: "bool list \<Rightarrow> nat" where
  "bits_val xs = foldl (\<lambda>n b. 2 * n + of_bool b) 0 xs"

lemma bits_fold: "foldl (\<lambda>n b. 2 * n + of_bool b) (m::nat) xs = m * 2 ^ length xs + bits_val xs"
proof (induction xs arbitrary: m)
  case (Cons x xs)
  have "bits_val (x # xs) = of_bool x * 2 ^ length xs + bits_val xs"
    using Cons.IH [of "of_bool x"] by (simp add: bits_val_def)
  with Cons.IH [of "2 * m + of_bool x"] show ?case by (simp add: algebra_simps)
qed (simp add: bits_val_def)

lemma bits_val_Cons: "bits_val (x # xs) = of_bool x * 2 ^ length xs + bits_val xs"
  using bits_fold [of "of_bool x" xs] by (simp add: bits_val_def)

lemma bits_val_less: "bits_val xs < 2 ^ length xs"
  by (induction xs) (auto simp: bits_val_Cons, simp add: bits_val_def)

lemma bits_le_iff: "length xs = length ys \<Longrightarrow> bits_le xs ys \<longleftrightarrow> bits_val xs \<le> bits_val ys"
proof (induction xs ys rule: bits_le.induct)
  case (1 x xs y ys)
  then show ?case using bits_val_less [of xs] bits_val_less [of ys] by (auto simp: bits_val_Cons)
qed (simp_all add: bits_val_def)

definition char_le :: "char \<Rightarrow> char \<Rightarrow> bool" where
  "char_le a b = (code_of a \<le> code_of b)"

lemma code_of_bits: "code_of (Char b0 b1 b2 b3 b4 b5 b6 b7) = bits_val [b7, b6, b5, b4, b3, b2, b1, b0]"
  by (simp add: bits_val_def of_char_Char)

lemma char_le_code [code]:
  "char_le (Char a0 a1 a2 a3 a4 a5 a6 a7) (Char b0 b1 b2 b3 b4 b5 b6 b7) = bits_le [a7, a6, a5, a4, a3, a2, a1, a0] [b7, b6, b5, b4, b3, b2, b1, b0]"
  unfolding char_le_def code_of_bits by (rule bits_le_iff [symmetric]) simp

definition char_in :: "char \<Rightarrow> char \<Rightarrow> char \<Rightarrow> bool" where
  "char_in a b c = (char_le a c \<and> char_le c b)"

lemma char_in_code: "char_in a b c = (code_of a \<le> code_of c \<and> code_of c \<le> code_of b)"
  by (simp add: char_in_def char_le_def)

lemma char_is_code: "c = d \<longleftrightarrow> code_of c = (code_of d :: nat)"
  by simp

lemma py_isdecimal_code [code]: "py_isdecimal c = char_in (CHR ''0'') (CHR ''9'') c"
  by (simp add: py_isdecimal_def char_in_code Let_def)

lemma py_isspace_code [code]: "py_isspace c = (char_in (CHR 0x09) (CHR 0x0D) c \<or> char_in (CHR 0x1C) (CHR 0x20) c \<or> c = CHR 0x85 \<or> c = CHR 0xA0)"
  by (simp add: py_isspace_def char_in_code Let_def char_is_code del: of_char_eq_iff)

lemma py_isword_code [code]: "py_isword c = (char_in (CHR ''0'') (CHR ''9'') c \<or> char_in (CHR ''A'') (CHR ''Z'') c \<or> c = CHR ''_'' \<or> char_in (CHR ''a'') (CHR ''z'') c
  \<or> (c = CHR 0xAA \<or> c = CHR 0xB2 \<or> c = CHR 0xB3 \<or> c = CHR 0xB5 \<or> c = CHR 0xB9 \<or> c = CHR 0xBA \<or> c = CHR 0xBC \<or> c = CHR 0xBD \<or> c = CHR 0xBE) \<or> (char_le (CHR 0xC0) c \<and> c \<noteq> CHR 0xD7 \<and> c \<noteq> CHR 0xF7))"
  by (simp add: py_isword_def char_in_code char_le_def Let_def char_is_code del: of_char_eq_iff)

lemma code_of_Char: "code_of (Char b0 b1 b2 b3 b4 b5 b6 b7) =
    bits_val [b4, b3, b2, b1, b0] + of_bool b5 * 32 + of_bool b6 * 64 + of_bool b7 * (128 :: nat)"
  by (simp add: bits_val_def of_char_Char)

lemma case_bit:
  assumes "\<not> b5"
  shows "char_of (code_of (Char b0 b1 b2 b3 b4 b5 b6 b7) + 32) = Char b0 b1 b2 b3 b4 True b6 b7"
    "char_of (code_of (Char b0 b1 b2 b3 b4 True b6 b7) - 32) = Char b0 b1 b2 b3 b4 b5 b6 b7"
proof -
  have "code_of (Char b0 b1 b2 b3 b4 True b6 b7) = code_of (Char b0 b1 b2 b3 b4 b5 b6 b7) + (32::nat)"
    using assms by (simp add: code_of_Char)
  then show "char_of (code_of (Char b0 b1 b2 b3 b4 b5 b6 b7) + 32) = Char b0 b1 b2 b3 b4 True b6 b7"
    "char_of (code_of (Char b0 b1 b2 b3 b4 True b6 b7) - 32) = Char b0 b1 b2 b3 b4 b5 b6 b7"
    by (metis char_of_char, metis add_diff_cancel_right' char_of_char)
qed

definition is_capital :: "char \<Rightarrow> bool" where
  "is_capital c = (char_in (CHR ''A'') (CHR ''Z'') c \<or> char_in (CHR 0xC0) (CHR 0xDE) c \<and> c \<noteq> CHR 0xD7)"

lemma capital_code: "is_capital c = ((65 \<le> code_of c \<and> code_of c \<le> 90) \<or> (192 \<le> code_of c \<and> code_of c \<le> 222 \<and> code_of c \<noteq> 215))"
  by (simp add: is_capital_def char_in_code char_is_code del: of_char_eq_iff)

lemma low_bits: "bits_val [b4, b3, b2, b1, b0] < 32"
  using bits_val_less [of "[b4, b3, b2, b1, b0]"] by simp

lemma capital_bit: "is_capital (Char b0 b1 b2 b3 b4 b5 b6 b7) \<Longrightarrow> \<not> b5"
  using low_bits [of b4 b3 b2 b1 b0] unfolding capital_code code_of_Char by (cases b5; cases b6; cases b7) auto

lemma lower_char_code [code]: "lower_char (Char b0 b1 b2 b3 b4 b5 b6 b7) =
   (if is_capital (Char b0 b1 b2 b3 b4 b5 b6 b7) then Char b0 b1 b2 b3 b4 True b6 b7 else Char b0 b1 b2 b3 b4 b5 b6 b7)"
proof -
  have "lower_char c = (if is_capital c then char_of (code_of c + 32) else c)" for c
    unfolding capital_code lower_char_def Let_def ..
  then show ?thesis using capital_bit case_bit(1) by metis
qed

lemma lower_char_idem [simp]: "lower_char (lower_char c) = lower_char c"
proof (cases "(65 \<le> code_of c \<and> code_of c \<le> 90) \<or> (192 \<le> code_of c \<and> code_of c \<le> 222 \<and> code_of c \<noteq> 215)")
  case True
  then have lt: "code_of c + 32 < 256" by auto
  from True have "lower_char c = char_of (code_of c + 32)"
    by (simp add: lower_char_def Let_def)
  with True lt show ?thesis by (auto simp: lower_char_def Let_def)
next
  case False
  then have "lower_char c = c" unfolding lower_char_def Let_def by (rule if_not_P)
  then show ?thesis by simp
qed

lemma py_lower_idem [simp]: "py_lower (py_lower s) = py_lower s"
  by (simp add: py_lower_def)

text \<open>\<open>str.lstrip\<close>, \<open>str.rstrip\<close> and \<open>str.strip\<close> for a predicate on characters.\<close>

definition lstrip_by :: "(char \<Rightarrow> bool) \<Rightarrow> string \<Rightarrow> string" where
  "lstrip_by p s = dropWhile p s"

definition rstrip_by :: "(char \<Rightarrow> bool) \<Rightarrow> string \<Rightarrow> string" where
  "rstrip_by p s = rev (dropWhile p (rev s))"

definition strip_by :: "(char \<Rightarrow> bool) \<Rightarrow> string \<Rightarrow> string" where
  "strip_by p s = rstrip_by p (lstrip_by p s)"

abbreviation py_strip :: "string \<Rightarrow> string" where
  "py_strip s \<equiv> strip_by py_isspace s"

lemma rstrip_by_last: "rstrip_by p s \<noteq> [] \<Longrightarrow> \<not> p (last (rstrip_by p s))"
  unfolding rstrip_by_def last_rev
  by (metis hd_dropWhile hd_rev last_rev rev_is_Nil_conv rev_rev_ident)

lemma rstrip_by_prefix: "prefix (rstrip_by p s) s"
  unfolding rstrip_by_def
  by (metis rev_rev_ident suffix_dropWhile suffix_to_prefix)

lemma strip_by_subset: "set (strip_by p s) \<subseteq> set s"
  by (auto simp: strip_by_def rstrip_by_def lstrip_by_def dest!: set_dropWhileD)

lemma strip_by_hd: "strip_by p s \<noteq> [] \<Longrightarrow> \<not> p (hd (strip_by p s))"
proof -
  assume ne: "strip_by p s \<noteq> []"
  have pre: "prefix (strip_by p s) (lstrip_by p s)"
    by (simp add: strip_by_def rstrip_by_prefix)
  with ne have "hd (strip_by p s) = hd (lstrip_by p s)"
    by (auto simp: prefix_def)
  moreover from pre ne have "lstrip_by p s \<noteq> []" by auto
  ultimately show ?thesis by (simp add: lstrip_by_def hd_dropWhile)
qed

lemma strip_by_last: "strip_by p s \<noteq> [] \<Longrightarrow> \<not> p (last (strip_by p s))"
  by (simp add: strip_by_def rstrip_by_last)

text \<open>\<open>s.find(sub)\<close> (with \<open>None\<close> for \<open>-1\<close>) and \<open>sub in s\<close>.\<close>

fun find_sub :: "string \<Rightarrow> string \<Rightarrow> nat option" where
  "find_sub sub [] = (if sub = [] then Some 0 else None)"
| "find_sub sub (c # s) =
     (if prefix sub (c # s) then Some 0 else map_option Suc (find_sub sub s))"

definition occurs :: "string \<Rightarrow> string \<Rightarrow> bool" where
  "occurs sub s = (find_sub sub s \<noteq> None)"

lemma find_sub_Some: "find_sub sub s = Some i \<Longrightarrow> prefix sub (drop i s) \<and> i \<le> length s"
  by (induction sub s arbitrary: i rule: find_sub.induct) (auto split: if_splits)

lemma find_sub_least: "find_sub sub s = Some i \<Longrightarrow> j < i \<Longrightarrow> \<not> prefix sub (drop j s)"
proof (induction sub s arbitrary: i j rule: find_sub.induct)
  case (1 sub)
  then show ?case by (auto split: if_splits)
next
  case (2 sub c s)
  then obtain k where k: "find_sub sub s = Some k" "i = Suc k" "\<not> prefix sub (c # s)"
    by (auto split: if_splits)
  with 2 show ?case by (cases j) auto
qed

lemma occurs_iff_sublist: "occurs sub s \<longleftrightarrow> sublist sub s"
  unfolding occurs_def
  by (induction sub s rule: find_sub.induct) (auto simp: sublist_Cons_right)

text \<open>\<open>s.partition(sep)\<close>.\<close>

definition partition_at :: "string \<Rightarrow> string \<Rightarrow> string \<times> string \<times> string" where
  "partition_at sep s = (case find_sub sep s of
       None \<Rightarrow> (s, [], [])
     | Some i \<Rightarrow> (take i s, sep, drop (i + length sep) s))"

lemma partition_at_join: "(case partition_at sep s of (a, b, c) \<Rightarrow> a @ b @ c) = s"
proof (cases "find_sub sep s")
  case None
  then show ?thesis by (simp add: partition_at_def)
next
  case (Some i)
  from find_sub_Some [OF Some] have "prefix sep (drop i s)" by simp
  then obtain zs where zs: "drop i s = sep @ zs" by (auto simp: prefix_def)
  then have "drop (i + length sep) s = zs"
    by (metis add.commute append_eq_conv_conj drop_drop)
  then have "take i s @ sep @ drop (i + length sep) s = take i s @ drop i s"
    by (simp add: zs)
  with Some show ?thesis by (simp add: partition_at_def)
qed

text \<open>\<open>s.replace(old, new)\<close> for a non-empty \<open>old\<close>: left to right, without overlaps.\<close>

function replace_all :: "string \<Rightarrow> string \<Rightarrow> string \<Rightarrow> string" where
  "replace_all old new [] = []"
| "replace_all old new (c # s) =
     (if old \<noteq> [] \<and> prefix old (c # s) then new @ replace_all old new (drop (length old) (c # s))
      else c # replace_all old new s)"
  by pat_completeness auto
termination
  by (relation "measure (\<lambda>(old, new, s). length s)") auto

text \<open>\<open>s.split(sep)\<close> for a separator of one character, and \<open>sep.join(parts)\<close>.\<close>

fun split_on :: "char \<Rightarrow> string \<Rightarrow> string list" where
  "split_on d [] = [[]]"
| "split_on d (c # s) =
     (if c = d then [] # split_on d s
      else case split_on d s of [] \<Rightarrow> [[c]] | p # ps \<Rightarrow> (c # p) # ps)"

fun join_with :: "string \<Rightarrow> string list \<Rightarrow> string" where
  "join_with sep [] = []"
| "join_with sep [p] = p"
| "join_with sep (p # q # ps) = p @ sep @ join_with sep (q # ps)"

text \<open>\<open>k.rsplit(":", 1)[0]\<close>\<close>

definition rsplit_colon :: "string \<Rightarrow> string" where
  "rsplit_colon k = (if CHR '':'' \<in> set k then rev (drop 1 (dropWhile (\<lambda>c. c \<noteq> CHR '':'') (rev k))) else k)"

lemma split_on_not_Nil [simp]: "split_on d s \<noteq> []"
  by (induction s) (auto split: list.splits)

lemma join_split: "join_with [d] (split_on d s) = s"
proof (induction s)
  case Nil
  then show ?case by simp
next
  case (Cons c s)
  obtain p ps where ps: "split_on d s = p # ps"
    by (meson list.exhaust split_on_not_Nil)
  with Cons show ?case by (cases ps) auto
qed

lemma split_on_no_sep: "p \<in> set (split_on d s) \<Longrightarrow> d \<notin> set p"
  by (induction s arbitrary: p) (fastforce split: if_splits list.splits)+

lemma split_on_single: "d \<notin> set s \<Longrightarrow> split_on d s = [s]"
  by (induction s) auto

lemma split_on_append: "d \<notin> set p \<Longrightarrow> split_on d (p @ d # s) = p # split_on d s"
  by (induction p) auto

section \<open>Decimal numbers\<close>

definition digit_char :: "nat \<Rightarrow> char" where
  "digit_char n = char_of (48 + n)"

definition digit_val :: "char \<Rightarrow> nat" where
  "digit_val c = code_of c - 48"

text \<open>\<open>int(s)\<close> for a string of decimal digits, and \<open>str(n)\<close> for a natural number.\<close>

definition nat_of_digits :: "string \<Rightarrow> nat" where
  "nat_of_digits s = foldl (\<lambda>n c. 10 * n + digit_val c) 0 s"

fun str_of_nat :: "nat \<Rightarrow> string" where
  "str_of_nat n = (if n < 10 then [digit_char n] else str_of_nat (n div 10) @ [digit_char (n mod 10)])"

declare str_of_nat.simps [simp del]

lemma digit_val_char: "n < 10 \<Longrightarrow> digit_val (digit_char n) = n"
  by (simp add: digit_val_def digit_char_def)

lemma py_isdecimal_digit_char: "n < 10 \<Longrightarrow> py_isdecimal (digit_char n)"
  by (simp add: py_isdecimal_def digit_char_def Let_def)

lemma str_of_nat_decimal: "list_all py_isdecimal (str_of_nat n)"
proof (induction n rule: str_of_nat.induct)
  case (1 n)
  then show ?case
    by (cases "n < 10") (simp_all add: str_of_nat.simps [of n] py_isdecimal_digit_char)
qed

lemma str_of_nat_not_Nil [simp]: "str_of_nat n \<noteq> []"
  by (subst str_of_nat.simps) simp

lemma nat_of_str_of_nat [simp]: "nat_of_digits (str_of_nat n) = n"
proof (induction n rule: str_of_nat.induct)
  case (1 n)
  show ?case
  proof (cases "n < 10")
    case True
    then show ?thesis
      by (simp add: str_of_nat.simps [of n] nat_of_digits_def digit_val_char)
  next
    case False
    with 1 have "nat_of_digits (str_of_nat (n div 10)) = n div 10" by simp
    with False show ?thesis
      by (simp add: str_of_nat.simps [of n] nat_of_digits_def digit_val_char)
  qed
qed

lemma str_of_nat_inj [simp]: "str_of_nat m = str_of_nat n \<longleftrightarrow> m = n"
  by (metis nat_of_str_of_nat)

text \<open>
  \<open>int(s)\<close>: surrounding white space, an optional sign, and decimal digits that single
  underscores may separate; \<open>None\<close> is \<open>ValueError\<close>.
\<close>

fun digits_us :: "bool \<Rightarrow> string \<Rightarrow> string option" where
  "digits_us prev [] = (if prev then Some [] else None)"
| "digits_us prev (c # s) =
     (if py_isdecimal c then map_option (Cons c) (digits_us True s)
      else if c = CHR ''_'' \<and> prev then digits_us False s else None)"

definition py_int :: "string \<Rightarrow> int option" where
  "py_int s = (case py_strip s of
       [] \<Rightarrow> None
     | c # t \<Rightarrow>
         if c = CHR ''-'' then map_option (\<lambda>ds. - int (nat_of_digits ds)) (digits_us False t)
         else if c = CHR ''+'' then map_option (\<lambda>ds. int (nat_of_digits ds)) (digits_us False t)
         else map_option (\<lambda>ds. int (nat_of_digits ds)) (digits_us False (c # t)))"

definition str_of_int :: "int \<Rightarrow> string" where
  "str_of_int i = (if i < 0 then CHR ''-'' # str_of_nat (nat (- i)) else str_of_nat (nat i))"

text \<open>\<open>int\<close> on plain digits, and \<open>format(n, "0wd")\<close>.\<close>

lemma digits_us_decimal: "list_all py_isdecimal s \<Longrightarrow> digits_us p s = (if p \<or> s \<noteq> [] then Some s else None)"
  by (induction s arbitrary: p) auto

lemma py_isdecimal_not: "py_isdecimal c \<Longrightarrow> \<not> py_isspace c \<and> c \<notin> {CHR ''-'', CHR ''+'', CHR '':'', CHR ''.'', CHR '' '', CHR '')'', CHR ''(''}"
  by (auto simp: py_isdecimal_def py_isspace_def Let_def)

lemma py_int_decimal:
  assumes "list_all py_isdecimal s" "s \<noteq> []"
  shows "py_int s = Some (int (nat_of_digits s))"
proof -
  from assms have "list_all (\<lambda>c. \<not> py_isspace c) s"
    by (auto simp: list_all_iff dest: py_isdecimal_not)
  then have "list_all (\<lambda>c. \<not> py_isspace c) (rev s)" and "list_all (\<lambda>c. \<not> py_isspace c) s"
    by (simp_all add: list_all_iff)
  moreover have "dropWhile py_isspace u = u" if "list_all (\<lambda>c. \<not> py_isspace c) u" for u
    using that by (cases u) auto
  ultimately have strip: "py_strip s = s"
    by (simp add: strip_by_def lstrip_by_def rstrip_by_def)
  obtain c t where s: "s = c # t" using assms(2) by (cases s) auto
  with assms(1) have "c \<noteq> CHR ''-'' \<and> c \<noteq> CHR ''+''" by (auto dest: py_isdecimal_not)
  then show ?thesis
    using strip digits_us_decimal [OF assms(1), of False] by (simp add: py_int_def s)
qed

definition pad :: "nat \<Rightarrow> nat \<Rightarrow> string" where
  "pad w n = (let s = str_of_nat n in replicate (w - length s) CHR ''0'' @ s)"

lemma pad_decimal: "list_all py_isdecimal (pad w n)"
  using str_of_nat_decimal [of n]
  by (auto simp: pad_def Let_def list_all_iff py_isdecimal_def)

lemma pad_not_Nil [simp]: "pad w n \<noteq> []"
  by (simp add: pad_def Let_def)

lemma nat_of_pad [simp]: "nat_of_digits (pad w n) = n"
proof -
  have "nat_of_digits (replicate k CHR ''0'' @ s) = nat_of_digits s" for k s
    by (induction k) (simp_all add: nat_of_digits_def digit_val_def)
  then show ?thesis by (simp add: pad_def Let_def)
qed

lemma length_str_of_nat: "n < 10 ^ w \<Longrightarrow> 0 < w \<Longrightarrow> length (str_of_nat n) \<le> w"
proof (induction w arbitrary: n)
  case 0
  then show ?case by simp
next
  case (Suc w)
  show ?case
  proof (cases "n < 10")
    case True
    then show ?thesis by (simp add: str_of_nat.simps [of n])
  next
    case False
    with Suc.prems have "n div 10 < 10 ^ w" "0 < w" by (cases w; force)+
    with Suc.IH False show ?thesis by (simp add: str_of_nat.simps [of n])
  qed
qed

lemma length_pad: "n < 10 ^ w \<Longrightarrow> 0 < w \<Longrightarrow> length (pad w n) = w"
  using length_str_of_nat [of n w] by (simp add: pad_def Let_def)

lemma py_int_pad [simp]: "py_int (pad w n) = Some (int n)"
  by (simp add: py_int_decimal pad_decimal)

section \<open>Dictionaries\<close>

text \<open>
  The operations a Python dictionary offers its clients.  Keys are kept in insertion
  order and a store to a present key leaves its place alone, which is what the
  association lists of the library do.
\<close>

type_synonym ('k, 'v) dict = "('k \<times> 'v) list"

abbreviation dict_get :: "('k, 'v) dict \<Rightarrow> 'k \<Rightarrow> 'v option" where
  "dict_get d k \<equiv> map_of d k"

definition dict_getd :: "('k, 'v) dict \<Rightarrow> 'k \<Rightarrow> 'v \<Rightarrow> 'v" where
  "dict_getd d k v = (case dict_get d k of None \<Rightarrow> v | Some w \<Rightarrow> w)"

definition dict_set :: "'k \<Rightarrow> 'v \<Rightarrow> ('k, 'v) dict \<Rightarrow> ('k, 'v) dict" where
  "dict_set k v d = AList.update k v d"

abbreviation dict_keys :: "('k, 'v) dict \<Rightarrow> 'k list" where
  "dict_keys d \<equiv> map fst d"

text \<open>\<open>d[k] = d.get(k, 0) + n\<close>\<close>

definition dict_add :: "'k \<Rightarrow> nat \<Rightarrow> ('k, nat) dict \<Rightarrow> ('k, nat) dict" where
  "dict_add k n d = dict_set k (dict_getd d k 0 + n) d"

locale dict_ops =
  fixes empty_d :: "'d"
    and get :: "'d \<Rightarrow> 'k \<Rightarrow> 'v option"
    and put :: "'k \<Rightarrow> 'v \<Rightarrow> 'd \<Rightarrow> 'd"
    and ok :: "'d \<Rightarrow> bool"
  assumes get_empty: "get empty_d k = None"
    and get_put: "ok d \<Longrightarrow> get (put k v d) j = (if j = k then Some v else get d j)"
    and ok_empty: "ok empty_d"
    and ok_put: "ok d \<Longrightarrow> ok (put k v d)"
begin

lemma get_put_same: "ok d \<Longrightarrow> get (put k v d) k = Some v"
  by (simp add: get_put)

lemma get_put_other: "ok d \<Longrightarrow> j \<noteq> k \<Longrightarrow> get (put k v d) j = get d j"
  by (simp add: get_put)

lemma ok_fold: "ok d \<Longrightarrow> ok (fold (\<lambda>(k, v). put k v) kvs d)"
  by (induction kvs arbitrary: d) (auto simp: ok_put)

lemma get_fold:
  "ok d \<Longrightarrow> get (fold (\<lambda>(k, v). put k v) kvs d) j =
     (case map_of (rev kvs) j of None \<Rightarrow> get d j | Some v \<Rightarrow> Some v)"
  by (induction kvs rule: rev_induct) (auto simp: get_put ok_fold split: option.splits)

text \<open>Updating a key from its old value, once per element of a list, counts the elements.\<close>

lemma get_fold_upd:
  assumes "ok d"
  shows "get (fold (\<lambda>x d. put (key x) (upd x (get d (key x))) d) xs d) j =
    (case filter (\<lambda>x. key x = j) xs of [] \<Rightarrow> get d j
     | ys \<Rightarrow> fold (\<lambda>x acc. Some (upd x acc)) ys (get d j))"
  using assms
proof (induction xs arbitrary: d)
  case Nil
  then show ?case by simp
next
  case (Cons x xs)
  let ?d = "put (key x) (upd x (get d (key x))) d"
  have "ok ?d" by (simp add: Cons.prems ok_put)
  from Cons.IH [OF this] show ?case
    by (cases "key x = j") (auto simp: get_put Cons.prems split: list.splits)
qed

end

interpretation alist: dict_ops "[]" dict_get dict_set "\<lambda>d. distinct (dict_keys d)"
  by unfold_locales (auto simp: dict_set_def update_conv' distinct_update)

lemma dict_get_set: "dict_get (dict_set k v d) j = (if j = k then Some v else dict_get d j)"
  by (auto simp: dict_set_def update_conv')

lemma dict_getd_add: "dict_getd (dict_add k n d) j 0 = dict_getd d j 0 + (if j = k then n else 0)"
  by (simp add: dict_add_def dict_getd_def dict_get_set)

lemma dict_keys_set: "set (dict_keys (dict_set k v d)) = insert k (set (dict_keys d))"
  by (simp add: dict_set_def dom_update)

lemma dict_keys_add: "set (dict_keys (dict_add k n d)) = insert k (set (dict_keys d))"
  unfolding dict_add_def by (rule dict_keys_set)

lemma distinct_dict_add: "distinct (dict_keys d) \<Longrightarrow> distinct (dict_keys (dict_add k n d))"
  by (simp add: dict_add_def alist.ok_put)

lemma dict_getd_notin: "k \<notin> set (dict_keys d) \<Longrightarrow> dict_getd d k v = v"
  by (metis (no_types, lifting) dict_getd_def list.set_map map_of_eq_None_iff option.case(1))

text \<open>The total of a table of counters grows by exactly what is added.\<close>

definition dict_total :: "('k, nat) dict \<Rightarrow> nat" where
  "dict_total d = sum_list (map snd d)"

lemma dict_total_add:
  "distinct (dict_keys d) \<Longrightarrow> dict_total (dict_add k n d) = dict_total d + n"
proof (induction d)
  case Nil
  then show ?case by (simp add: dict_total_def dict_add_def dict_set_def dict_getd_def)
next
  case (Cons p d)
  then show ?case
    by (cases p) (auto simp: dict_total_def dict_add_def dict_set_def dict_getd_def)
qed

section \<open>Runs of a step function\<close>

text \<open>
  A component with state is a step function; a call sequence is a list of events.  The
  contract: an invariant that the start state has and every step keeps holds after
  every run, and a measure no step lowers is monotone along it.
\<close>

locale machine =
  fixes step :: "'s \<Rightarrow> 'e \<Rightarrow> 's"
    and inv :: "'s \<Rightarrow> bool"
  assumes inv_step: "inv s \<Longrightarrow> inv (step s e)"
begin

lemma inv_run: "inv s \<Longrightarrow> inv (foldl step s es)"
  by (induction es arbitrary: s) (auto simp: inv_step)

lemma inv_prefix: "inv s \<Longrightarrow> prefix es fs \<Longrightarrow> inv (foldl step s es)"
  by (rule inv_run)

lemma run_induct:
  assumes "inv s" and "P s" and "\<And>t e. inv t \<Longrightarrow> P t \<Longrightarrow> P (step t e)"
  shows "P (foldl step s es)"
proof -
  have "inv (foldl step s es) \<and> P (foldl step s es)"
    by (induction es rule: rev_induct) (auto simp: assms inv_step)
  then show ?thesis ..
qed

end

end
