(* ===== verification/Py_Regex.thy ===== *)
theory Py_Regex
  imports Py_Prelude
begin

text \<open>
  The part of Python's \<open>re\<close> module the program uses.  A pattern is a term of type
  \<open>rx\<close>; matching is backtracking in the engine's order of preference, as the list of
  all successes: the first one is the match that \<open>re\<close> reports.  A position in the
  subject is a pair (text before it, reversed; text after it), so that anchors and
  word boundaries can look both ways.  The bodies of the program's repetitions never
  match the empty string; an iteration that consumes nothing is not repeated.
\<close>

section \<open>Patterns\<close>

datatype cset =
    CLit char
  | CRange char char
  | CDigit
  | CWord
  | CSpace

datatype rx =
    REmpty
  | RSet "cset list"
  | RNot "cset list"
  | RDot
  | RSeq rx rx
  | RAlt rx rx
  | RStar rx
  | RStarLazy rx
  | RTimes nat rx
  | RGroup nat rx
  | RBegin
  | REnd
  | RBound
  | RNotBehind "cset list list"
  | RNotAhead "cset list"

fun cset_has :: "char \<Rightarrow> cset \<Rightarrow> bool" where
  "cset_has c (CLit d) = (c = d)"
| "cset_has c (CRange a b) = (code_of a \<le> code_of c \<and> code_of c \<le> code_of b)"
| "cset_has c CDigit = py_isdecimal c"
| "cset_has c CWord = py_isword c"
| "cset_has c CSpace = py_isspace c"

text \<open>\<open>str.upper\<close> on the characters whose capital is below 256 and a single one.\<close>

definition upper_char :: "char \<Rightarrow> char" where
  "upper_char c = (let n = code_of c in
     if (97 \<le> n \<and> n \<le> 122) \<or> (224 \<le> n \<and> n \<le> 254 \<and> n \<noteq> 247) then char_of (n - 32) else c)"

lemma cset_has_code [code]: "cset_has c (CLit d) = (c = d)" "cset_has c (CRange a b) = (char_in a b c)"
  "cset_has c CDigit = py_isdecimal c" "cset_has c CWord = py_isword c" "cset_has c CSpace = py_isspace c"
  by (simp_all add: char_in_code)

definition is_small :: "char \<Rightarrow> bool" where
  "is_small c = (char_in (CHR ''a'') (CHR ''z'') c \<or> char_in (CHR 0xE0) (CHR 0xFE) c \<and> c \<noteq> CHR 0xF7)"

lemma small_code: "is_small c = ((97 \<le> code_of c \<and> code_of c \<le> 122) \<or> (224 \<le> code_of c \<and> code_of c \<le> 254 \<and> code_of c \<noteq> 247))"
  by (simp add: is_small_def char_in_code char_is_code del: of_char_eq_iff)

lemma small_bit: "is_small (Char b0 b1 b2 b3 b4 b5 b6 b7) \<Longrightarrow> b5"
  using low_bits [of b4 b3 b2 b1 b0] unfolding small_code code_of_Char by (cases b5; cases b6; cases b7) auto

lemma upper_char_code [code]: "upper_char (Char b0 b1 b2 b3 b4 b5 b6 b7) =
   (if is_small (Char b0 b1 b2 b3 b4 b5 b6 b7) then Char b0 b1 b2 b3 b4 False b6 b7 else Char b0 b1 b2 b3 b4 b5 b6 b7)"
proof -
  have "upper_char c = (if is_small c then char_of (code_of c - 32) else c)" for c
    unfolding small_code upper_char_def Let_def ..
  moreover have "char_of (code_of (Char b0 b1 b2 b3 b4 b5 b6 b7) - 32) = Char b0 b1 b2 b3 b4 False b6 b7"
    if "is_small (Char b0 b1 b2 b3 b4 b5 b6 b7)"
    using case_bit(2) [of False b0 b1 b2 b3 b4 b6 b7] small_bit [OF that] by (cases b5) (simp_all del: char_of_char)
  ultimately show ?thesis by (metis (no_types))
qed

text \<open>\<open>s.upper()\<close>: sharp s becomes two letters; capitals above 255 are left alone.\<close>

definition py_upper :: "string \<Rightarrow> string" where
  "py_upper s = concat (map (\<lambda>c. if code_of c = 223 then ''SS'' else [upper_char c]) s)"

text \<open>Under \<open>re.IGNORECASE\<close> a character is in a set when one of its case variants is.\<close>

definition in_csets :: "bool \<Rightarrow> cset list \<Rightarrow> char \<Rightarrow> bool" where
  "in_csets ic cs c =
     (list_ex (cset_has c) cs
      \<or> (ic \<and> (list_ex (cset_has (lower_char c)) cs \<or> list_ex (cset_has (upper_char c)) cs)))"

section \<open>Matching\<close>

type_synonym caps = "(nat \<times> string) list"
type_synonym rpos = "string \<times> string \<times> caps"

fun step_if :: "(char \<Rightarrow> bool) \<Rightarrow> rpos \<Rightarrow> rpos list" where
  "step_if p (b, [], g) = []"
| "step_if p (b, c # a, g) = (if p c then [(c # b, a, g)] else [])"

text \<open>Only iterations that consume are repeated, so the text left bounds their number.\<close>

definition consumed :: "rpos \<Rightarrow> rpos \<Rightarrow> bool" where
  "consumed s t = (length (fst (snd t)) < length (fst (snd s)))"

fun rep_greedy :: "nat \<Rightarrow> (rpos \<Rightarrow> rpos list) \<Rightarrow> rpos \<Rightarrow> rpos list" where
  "rep_greedy 0 f s = [s]"
| "rep_greedy (Suc n) f s = concat (map (rep_greedy n f) (filter (consumed s) (f s))) @ [s]"

fun rep_lazy :: "nat \<Rightarrow> (rpos \<Rightarrow> rpos list) \<Rightarrow> rpos \<Rightarrow> rpos list" where
  "rep_lazy 0 f s = [s]"
| "rep_lazy (Suc n) f s = s # concat (map (rep_lazy n f) (filter (consumed s) (f s)))"

fun rep_times :: "nat \<Rightarrow> (rpos \<Rightarrow> rpos list) \<Rightarrow> rpos \<Rightarrow> rpos list" where
  "rep_times 0 f s = [s]"
| "rep_times (Suc n) f s = concat (map (rep_times n f) (f s))"

lemma rep_times_numeral [simp]:
  "rep_times (numeral k) f s = concat (map (rep_times (pred_numeral k) f) (f s))"
  by (simp add: numeral_eq_Suc)

definition is_bound :: "rpos \<Rightarrow> bool" where
  "is_bound s = (let w = (\<lambda>xs. case xs of [] \<Rightarrow> False | c # _ \<Rightarrow> py_isword c) in
     w (fst s) \<noteq> w (fst (snd s)))"

text \<open>\<open>$\<close> matches at the end, or before a newline that ends the subject.\<close>

definition is_end :: "rpos \<Rightarrow> bool" where
  "is_end s = (fst (snd s) = [] \<or> fst (snd s) = [CHR 0x0A])"

text \<open>\<open>(?<!...)\<close>: the characters just before do not match, one set per character.\<close>

definition behind :: "bool \<Rightarrow> cset list list \<Rightarrow> rpos \<Rightarrow> bool" where
  "behind ic css s = (length css \<le> length (fst s) \<and> list_all2 (in_csets ic) css (rev (take (length css) (fst s))))"

text \<open>\<open>(?![...])\<close>: the next character is not in the set.\<close>

definition ahead :: "bool \<Rightarrow> cset list \<Rightarrow> rpos \<Rightarrow> bool" where
  "ahead ic cs s = (case fst (snd s) of [] \<Rightarrow> False | c # _ \<Rightarrow> in_csets ic cs c)"

definition close_group :: "nat \<Rightarrow> rpos \<Rightarrow> rpos \<Rightarrow> rpos" where
  "close_group n s t = (fst t, fst (snd t),
     dict_set n (rev (take (length (fst t) - length (fst s)) (fst t))) (snd (snd t)))"

primrec rx_run :: "bool \<Rightarrow> rx \<Rightarrow> rpos \<Rightarrow> rpos list" where
  "rx_run ic REmpty s = [s]"
| "rx_run ic (RSet cs) s = step_if (in_csets ic cs) s"
| "rx_run ic (RNot cs) s = step_if (\<lambda>c. \<not> in_csets ic cs c) s"
| "rx_run ic RDot s = step_if (\<lambda>c. c \<noteq> CHR 0x0A) s"
| "rx_run ic (RSeq r q) s = concat (map (rx_run ic q) (rx_run ic r s))"
| "rx_run ic (RAlt r q) s = rx_run ic r s @ rx_run ic q s"
| "rx_run ic (RStar r) s = rep_greedy (length (fst (snd s))) (rx_run ic r) s"
| "rx_run ic (RStarLazy r) s = rep_lazy (length (fst (snd s))) (rx_run ic r) s"
| "rx_run ic (RTimes n r) s = rep_times n (rx_run ic r) s"
| "rx_run ic (RGroup n r) s = map (close_group n s) (rx_run ic r s)"
| "rx_run ic RBegin s = (if fst s = [] then [s] else [])"
| "rx_run ic REnd s = (if is_end s then [s] else [])"
| "rx_run ic RBound s = (if is_bound s then [s] else [])"
| "rx_run ic (RNotBehind css) s = (if behind ic css s then [] else [s])"
| "rx_run ic (RNotAhead cs) s = (if ahead ic cs s then [] else [s])"

definition head_opt :: "'a list \<Rightarrow> 'a option" where
  "head_opt xs = (case xs of [] \<Rightarrow> None | x # _ \<Rightarrow> Some x)"

text \<open>\<open>pattern.match(s)\<close>, \<open>pattern.match(s, i)\<close> with what comes before as context, \<open>pattern.search(s)\<close>.\<close>

definition rx_match_at :: "bool \<Rightarrow> rx \<Rightarrow> string \<Rightarrow> string \<Rightarrow> rpos option" where
  "rx_match_at ic r b a = head_opt (rx_run ic r (b, a, []))"

definition rx_match :: "bool \<Rightarrow> rx \<Rightarrow> string \<Rightarrow> rpos option" where
  "rx_match ic r s = rx_match_at ic r [] s"

fun rx_search_from :: "bool \<Rightarrow> rx \<Rightarrow> string \<Rightarrow> string \<Rightarrow> rpos option" where
  "rx_search_from ic r b [] = rx_match_at ic r b []"
| "rx_search_from ic r b (c # a) = (case rx_match_at ic r b (c # a) of
       Some t \<Rightarrow> Some t
     | None \<Rightarrow> rx_search_from ic r (c # b) a)"

definition rx_search :: "bool \<Rightarrow> rx \<Rightarrow> string \<Rightarrow> rpos option" where
  "rx_search ic r s = rx_search_from ic r [] s"

definition rx_group :: "nat \<Rightarrow> rpos \<Rightarrow> string option" where
  "rx_group n t = dict_get (snd (snd t)) n"

text \<open>The text a match from position \<open>b\<close> has consumed: \<open>m.group(0)\<close>.\<close>

definition rx_consumed :: "string \<Rightarrow> rpos \<Rightarrow> string" where
  "rx_consumed b t = rev (take (length (fst t) - length b) (fst t))"

text \<open>
  \<open>pattern.finditer(s)\<close> for a pattern that never matches the empty string: each search goes on
  where the last match ended.
\<close>

function rx_finditer_from :: "bool \<Rightarrow> rx \<Rightarrow> string \<Rightarrow> string \<Rightarrow> rpos list" where
  "rx_finditer_from ic r b a = (case rx_search_from ic r b a of
       None \<Rightarrow> []
     | Some t \<Rightarrow> t # (if length (fst (snd t)) < length a then rx_finditer_from ic r (fst t) (fst (snd t)) else []))"
  by pat_completeness auto
termination
  by (relation "measure (\<lambda>(ic, r, b, a). length a)") auto

declare rx_finditer_from.simps [simp del]

definition rx_finditer :: "bool \<Rightarrow> rx \<Rightarrow> string \<Rightarrow> rpos list" where
  "rx_finditer ic r s = rx_finditer_from ic r [] s"

text \<open>
  \<open>pattern.sub(f, s)\<close> with a function that threads a state, for a pattern that never matches
  the empty string: group 0 records the match, and the text before it is kept.
\<close>

definition matched_text :: "rpos \<Rightarrow> string" where
  "matched_text t = (case rx_group 0 t of None \<Rightarrow> [] | Some w \<Rightarrow> w)"

function rx_sub_from :: "bool \<Rightarrow> rx \<Rightarrow> (string \<Rightarrow> 's \<Rightarrow> string \<times> 's) \<Rightarrow> string \<Rightarrow> string \<Rightarrow> 's \<Rightarrow> string \<times> 's" where
  "rx_sub_from ic r f b a st = (case rx_search_from ic (RGroup 0 r) b a of
       None \<Rightarrow> (a, st)
     | Some t \<Rightarrow>
         let rest = fst (snd t); w = matched_text t; (out, st1) = f w st in
         if length rest < length a
         then case rx_sub_from ic r f (fst t) rest st1 of (tail, st2) \<Rightarrow>
                (take (length a - length w - length rest) a @ out @ tail, st2)
         else (a, st))"
  by pat_completeness auto
termination
  by (relation "measure (\<lambda>(ic, r, f, b, a, st). length a)") auto

declare rx_sub_from.simps [simp del]

definition rx_sub :: "bool \<Rightarrow> rx \<Rightarrow> (string \<Rightarrow> 's \<Rightarrow> string \<times> 's) \<Rightarrow> string \<Rightarrow> 's \<Rightarrow> string \<times> 's" where
  "rx_sub ic r f s st = rx_sub_from ic r f [] s st"

section \<open>Derived patterns\<close>

abbreviation RLit :: "char \<Rightarrow> rx" where
  "RLit c \<equiv> RSet [CLit c]"

fun RStr :: "string \<Rightarrow> rx" where
  "RStr [] = REmpty"
| "RStr (c # s) = RSeq (RLit c) (RStr s)"

definition RPlus :: "rx \<Rightarrow> rx" where
  "RPlus r = RSeq r (RStar r)"

definition ROpt :: "rx \<Rightarrow> rx" where
  "ROpt r = RAlt r REmpty"

fun RSeqs :: "rx list \<Rightarrow> rx" where
  "RSeqs [] = REmpty"
| "RSeqs (r # rs) = RSeq r (RSeqs rs)"

text \<open>\<open>r{0,k}\<close>, greedy.\<close>

fun RUpTo :: "nat \<Rightarrow> rx \<Rightarrow> rx" where
  "RUpTo 0 r = REmpty"
| "RUpTo (Suc k) r = ROpt (RSeq r (RUpTo k r))"

text \<open>\<open>r{k,}\<close>, greedy.\<close>

definition RAtLeast :: "nat \<Rightarrow> rx \<Rightarrow> rx" where
  "RAtLeast k r = RSeq (RTimes k r) (RStar r)"

fun RAlts :: "rx list \<Rightarrow> rx" where
  "RAlts [] = RSet []"
| "RAlts [r] = r"
| "RAlts (r # q # rs) = RAlt r (RAlts (q # rs))"

definition RStrs :: "string list \<Rightarrow> rx" where
  "RStrs ss = RAlts (map RStr ss)"

section \<open>Every success is a later position of the same subject\<close>

text \<open>\<open>advance s t\<close>: \<open>t\<close> is reached from \<open>s\<close> by moving characters across.\<close>

definition advance :: "rpos \<Rightarrow> rpos \<Rightarrow> bool" where
  "advance s t = (\<exists>w. fst (snd s) = w @ fst (snd t) \<and> fst t = rev w @ fst s)"

lemma advance_refl [simp]: "advance s s"
  by (simp add: advance_def)

lemma advance_trans: "advance s t \<Longrightarrow> advance t u \<Longrightarrow> advance s u"
proof -
  assume "advance s t" "advance t u"
  then obtain w v where "fst (snd s) = w @ fst (snd t)" "fst t = rev w @ fst s"
      "fst (snd t) = v @ fst (snd u)" "fst u = rev v @ fst t"
    by (auto simp: advance_def)
  then have "fst (snd s) = (w @ v) @ fst (snd u) \<and> fst u = rev (w @ v) @ fst s"
    by simp
  then show ?thesis unfolding advance_def by blast
qed

lemma advance_step_if: "t \<in> set (step_if p s) \<Longrightarrow> advance s t"
  by (cases "(p, s)" rule: step_if.cases) (auto simp: advance_def split: if_splits)

lemma advance_rep_greedy:
  assumes "\<And>s t. t \<in> set (f s) \<Longrightarrow> advance s t"
  shows "t \<in> set (rep_greedy n f s) \<Longrightarrow> advance s t"
proof (induction n arbitrary: s t)
  case 0
  then show ?case by simp
next
  case (Suc n)
  then consider "t = s" | u where "u \<in> set (f s)" "t \<in> set (rep_greedy n f u)" by auto
  then show ?case by cases (auto intro: advance_trans [OF assms Suc.IH])
qed

lemma advance_rep_lazy:
  assumes "\<And>s t. t \<in> set (f s) \<Longrightarrow> advance s t"
  shows "t \<in> set (rep_lazy n f s) \<Longrightarrow> advance s t"
proof (induction n arbitrary: s t)
  case 0
  then show ?case by simp
next
  case (Suc n)
  then consider "t = s" | u where "u \<in> set (f s)" "t \<in> set (rep_lazy n f u)" by auto
  then show ?case by cases (auto intro: advance_trans [OF assms Suc.IH])
qed

lemma advance_rep_times:
  assumes "\<And>s t. t \<in> set (f s) \<Longrightarrow> advance s t"
  shows "t \<in> set (rep_times n f s) \<Longrightarrow> advance s t"
proof (induction n arbitrary: s t)
  case 0
  then show ?case by simp
next
  case (Suc n)
  then obtain u where "u \<in> set (f s)" "t \<in> set (rep_times n f u)" by auto
  then show ?case by (auto intro: advance_trans [OF assms Suc.IH])
qed

lemma advance_close_group [simp]: "advance s (close_group n u t) = advance s t"
  by (simp add: advance_def close_group_def)

lemma rx_run_advance: "t \<in> set (rx_run ic r s) \<Longrightarrow> advance s t"
proof (induction r arbitrary: s t)
  case (RSeq r q)
  from RSeq.prems obtain u where "u \<in> set (rx_run ic r s)" "t \<in> set (rx_run ic q u)" by auto
  then show ?case by (rule advance_trans [OF RSeq.IH])
next
  case (RStar r)
  then show ?case unfolding rx_run.simps by (rule advance_rep_greedy)
next
  case (RStarLazy r)
  then show ?case unfolding rx_run.simps by (rule advance_rep_lazy)
next
  case (RTimes n r)
  then show ?case unfolding rx_run.simps by (rule advance_rep_times)
qed (auto simp: advance_step_if split: if_splits)

lemma head_opt_in: "head_opt xs = Some x \<Longrightarrow> x \<in> set xs"
  by (auto simp: head_opt_def split: list.splits)

lemma rx_match_at_advance: "rx_match_at ic r b a = Some t \<Longrightarrow> advance (b, a, []) t"
  unfolding rx_match_at_def by (blast dest: head_opt_in rx_run_advance)

lemma rx_match_at_split:
  "rx_match_at ic r b a = Some t \<Longrightarrow> a = rx_consumed b t @ fst (snd t)"
  by (drule rx_match_at_advance) (auto simp: advance_def rx_consumed_def)

lemma rx_match_at_length:
  "rx_match_at ic r b a = Some t \<Longrightarrow> length (fst (snd t)) \<le> length a"
  by (drule rx_match_at_split) (metis le_add2 length_append)

lemma rx_match_split: "rx_match ic r s = Some t \<Longrightarrow> s = rx_consumed [] t @ fst (snd t)"
  unfolding rx_match_def by (rule rx_match_at_split)

section \<open>Evaluation of a repetition that is delimited\<close>

text \<open>
  A greedy run of characters of a set, followed by a character outside the set, has one
  way to go on with a pattern that starts with that character: consume the whole run.
\<close>

definition starts_off :: "bool \<Rightarrow> rx \<Rightarrow> (char \<Rightarrow> bool) \<Rightarrow> bool" where
  "starts_off ic q p = (\<forall>b c a g. p c \<longrightarrow> rx_run ic q (b, c # a, g) = [])"

lemma starts_offD: "starts_off ic q p \<Longrightarrow> p c \<Longrightarrow> rx_run ic q (b, c # a, g) = []"
  by (simp add: starts_off_def)

lemma starts_off_set:
  "(\<And>c. p c \<Longrightarrow> \<not> in_csets ic cs c) \<Longrightarrow> starts_off ic (RSet cs) p"
  by (simp add: starts_off_def)

lemma starts_off_seq: "starts_off ic r p \<Longrightarrow> starts_off ic (RSeq r q) p"
  by (simp add: starts_off_def)

lemma starts_off_alt:
  "starts_off ic r p \<Longrightarrow> starts_off ic q p \<Longrightarrow> starts_off ic (RAlt r q) p"
  by (simp add: starts_off_def)

lemma starts_off_group: "starts_off ic r p \<Longrightarrow> starts_off ic (RGroup n r) p"
  by (simp add: starts_off_def)

lemma starts_off_lit: "\<not> p d \<Longrightarrow> starts_off False (RLit d) p"
  by (auto simp: starts_off_def in_csets_def)

text \<open>
  \<open>chain f k s t\<close>: from \<open>s\<close> the body \<open>f\<close> has one way to go on, again and again until it
  fails at \<open>t\<close>, and the continuation \<open>k\<close> fails at every stage before.
\<close>

inductive chain :: "(rpos \<Rightarrow> rpos list) \<Rightarrow> (rpos \<Rightarrow> 'a list) \<Rightarrow> rpos \<Rightarrow> rpos \<Rightarrow> bool" where
  stop: "f s = [] \<Longrightarrow> chain f k s s"
| more: "f s = [u] \<Longrightarrow> consumed s u \<Longrightarrow> k s = [] \<Longrightarrow> chain f k u t \<Longrightarrow> chain f k s t"

lemma run_star_chain:
  "chain f k s t \<Longrightarrow> length (fst (snd s)) \<le> n \<Longrightarrow> concat (map k (rep_greedy n f s)) = k t"
proof (induction arbitrary: n rule: chain.induct)
  case (stop f s k)
  then show ?case by (cases n) simp_all
next
  case (more f s u k t)
  from more.hyps(2) more.prems obtain m where m: "n = Suc m" "length (fst (snd u)) \<le> m"
    by (cases n) (auto simp: consumed_def)
  from more.IH [OF m(2)] more.hyps(1-3) show ?case by (simp add: m(1))
qed

lemma run_star_seq_chain:
  "chain (rx_run ic r) (rx_run ic q) s t \<Longrightarrow> rx_run ic (RSeq (RStar r) q) s = rx_run ic q t"
  using run_star_chain [of "rx_run ic r" "rx_run ic q" s t "length (fst (snd s))"] by simp

lemma chain_char:
  assumes f: "\<And>s. f s = step_if p s"
    and off: "\<And>b c a. p c \<Longrightarrow> k (b, c # a, g) = []"
    and w: "list_all p w"
    and stop: "\<And>c rest. a = c # rest \<Longrightarrow> \<not> p c"
  shows "chain f k (b, w @ a, g) (rev w @ b, a, g)"
  using w
proof (induction w arbitrary: b)
  case Nil
  have "f (b, a, g) = []" unfolding f by (cases a) (auto dest: stop)
  then show ?case by (simp add: chain.stop)
next
  case (Cons c w)
  then have "chain f k (c # b, w @ a, g) (rev w @ c # b, a, g)" by simp
  moreover have "f (b, c # w @ a, g) = [(c # b, w @ a, g)]" using Cons.prems by (simp add: f)
  moreover have "k (b, c # w @ a, g) = []" using Cons.prems by (auto intro: off)
  ultimately show ?case by (auto intro: chain.more simp: consumed_def)
qed

lemma run_star_set:
  assumes "starts_off ic q (in_csets ic cs)" and "list_all (in_csets ic cs) w"
    and "\<And>c rest. a = c # rest \<Longrightarrow> \<not> in_csets ic cs c"
  shows "rx_run ic (RSeq (RStar (RSet cs)) q) (b, w @ a, g) = rx_run ic q (rev w @ b, a, g)"
  using assms
  by (intro run_star_seq_chain chain_char [where p = "in_csets ic cs"]) (auto simp: starts_off_def)

lemma run_plus_set:
  assumes "starts_off ic q (in_csets ic cs)" and "w \<noteq> []" and "list_all (in_csets ic cs) w"
    and "\<And>c rest. a = c # rest \<Longrightarrow> \<not> in_csets ic cs c"
  shows "rx_run ic (RSeq (RPlus (RSet cs)) q) (b, w @ a, g) = rx_run ic q (rev w @ b, a, g)"
proof (cases w)
  case Nil
  with assms show ?thesis by simp
next
  case (Cons c v)
  with assms(3) have c: "in_csets ic cs c" "list_all (in_csets ic cs) v" by simp_all
  have "rx_run ic (RSeq (RStar (RSet cs)) q) (c # b, v @ a, g) = rx_run ic q (rev v @ c # b, a, g)"
    using assms c by (intro run_star_set) auto
  with Cons c(1) show ?thesis by (simp add: RPlus_def)
qed

lemma concat_map_concat: "concat (map k (concat (map f xs))) = concat (map (\<lambda>x. concat (map k (f x))) xs)"
  by (induction xs) auto

lemma run_seq_assoc: "rx_run ic (RSeq (RSeq r q) p) s = rx_run ic (RSeq r (RSeq q p)) s"
  by (simp add: concat_map_concat cong: map_cong)

section \<open>Matching in continuation style\<close>

text \<open>
  \<open>rx_go r s k\<close> collects what the continuation \<open>k\<close> returns on every success of \<open>r\<close>.  Its
  rules run a pattern from left to right on a subject with symbolic parts.
\<close>

definition rx_go :: "bool \<Rightarrow> rx \<Rightarrow> rpos \<Rightarrow> (rpos \<Rightarrow> 'a list) \<Rightarrow> 'a list" where
  "rx_go ic r s k = concat (map k (rx_run ic r s))"

lemma rx_match_at_go: "rx_match_at ic r b a = head_opt (rx_go ic r (b, a, []) (\<lambda>t. [t]))"
proof -
  have "concat (map (\<lambda>t. [t]) xs) = xs" for xs :: "rpos list" by (induction xs) auto
  then show ?thesis by (simp add: rx_match_at_def rx_go_def)
qed

lemma go_empty: "rx_go ic REmpty s k = k s"
  and go_seq: "rx_go ic (RSeq r q) s k = rx_go ic r s (\<lambda>t. rx_go ic q t k)"
  and go_alt: "rx_go ic (RAlt r q) s k = rx_go ic r s k @ rx_go ic q s k"
  and go_group: "rx_go ic (RGroup n r) s k = rx_go ic r s (\<lambda>t. k (close_group n s t))"
  and go_begin: "rx_go ic RBegin s k = (if fst s = [] then k s else [])"
  and go_end: "rx_go ic REnd s k = (if is_end s then k s else [])"
  and go_set: "rx_go ic (RSet cs) (b, c # a, g) k = (if in_csets ic cs c then k (c # b, a, g) else [])"
  and go_set_Nil: "rx_go ic (RSet cs) (b, [], g) k = []"
  by (simp_all add: rx_go_def concat_map_concat comp_def)

lemma go_times: "rx_go ic (RTimes (Suc n) r) s k = rx_go ic r s (\<lambda>t. rx_go ic (RTimes n r) t k)"
  and go_times_0: "rx_go ic (RTimes 0 r) s k = k s"
  by (simp_all add: rx_go_def concat_map_concat)

lemma go_star:
  assumes "list_all (in_csets ic cs) w" and "\<And>c rest. a = c # rest \<Longrightarrow> \<not> in_csets ic cs c"
    and "\<And>b c a. in_csets ic cs c \<Longrightarrow> k (b, c # a, g) = []"
  shows "rx_go ic (RStar (RSet cs)) (b, w @ a, g) k = k (rev w @ b, a, g)"
proof -
  have "chain (rx_run ic (RSet cs)) k (b, w @ a, g) (rev w @ b, a, g)"
    using assms by (intro chain_char [where p = "in_csets ic cs"]) auto
  then show ?thesis by (simp add: rx_go_def run_star_chain)
qed

lemma go_plus:
  assumes "w \<noteq> []" "list_all (in_csets ic cs) w" and "\<And>c rest. a = c # rest \<Longrightarrow> \<not> in_csets ic cs c"
    and "\<And>b c a. in_csets ic cs c \<Longrightarrow> k (b, c # a, g) = []"
  shows "rx_go ic (RPlus (RSet cs)) (b, w @ a, g) k = k (rev w @ b, a, g)"
proof (cases w)
  case Nil
  with assms show ?thesis by simp
next
  case (Cons c v)
  with assms(2) have c: "in_csets ic cs c" "list_all (in_csets ic cs) v" by simp_all
  have "rx_go ic (RStar (RSet cs)) (c # b, v @ a, g) k = k (rev v @ c # b, a, g)"
    using assms c by (intro go_star) auto
  with Cons c(1) show ?thesis by (simp add: RPlus_def go_seq go_set)
qed

text \<open>\<open>.*\<close> up to the end of a text without a line break.\<close>

lemma go_rest:
  assumes "CHR 0x0A \<notin> set w" and "\<And>b c a. k (b, c # a, g) = []"
  shows "rx_go ic (RStar RDot) (b, w, g) k = k (rev w @ b, [], g)"
proof -
  have "chain (rx_run ic RDot) k (b, w @ [], g) (rev w @ b, [], g)"
    using assms by (intro chain_char [where p = "\<lambda>c. c \<noteq> CHR 0x0A"]) (auto simp: list_all_iff)
  then show ?thesis by (simp add: rx_go_def run_star_chain)
qed

lemmas go_rules = go_empty go_seq go_alt go_group go_begin go_end go_set go_set_Nil go_times go_times_0

text \<open>A pattern that begins with a character consumes at least one.\<close>

lemma rx_match_at_consumes:
  assumes "rx_match_at ic (RSeq r q) b a = Some t"
    and "\<And>s u. u \<in> set (rx_run ic r s) \<Longrightarrow> length (fst (snd u)) < length (fst (snd s))"
  shows "length (fst (snd t)) < length a"
proof -
  from assms(1) have "t \<in> set (rx_run ic (RSeq r q) (b, a, []))"
    unfolding rx_match_at_def by (rule head_opt_in)
  then obtain u where u: "u \<in> set (rx_run ic r (b, a, []))" "t \<in> set (rx_run ic q u)" by auto
  from rx_run_advance [OF u(2)] have "length (fst (snd t)) \<le> length (fst (snd u))"
    by (auto simp: advance_def)
  with assms(2) [OF u(1)] show ?thesis by simp
qed

lemma step_if_consumes: "u \<in> set (step_if p s) \<Longrightarrow> length (fst (snd u)) < length (fst (snd s))"
  by (cases "(p, s)" rule: step_if.cases) (auto split: if_splits)

lemma run_seq_single: "rx_run ic r s = [t] \<Longrightarrow> rx_run ic (RSeq r q) s = rx_run ic q t"
  by simp

section \<open>Literals a pattern cannot do without\<close>

lemma lower_upper_char [simp]: "lower_char (upper_char c) = lower_char c"
proof -
  let ?n = "code_of c"
  show ?thesis
  proof (cases "(97 \<le> ?n \<and> ?n \<le> 122) \<or> (224 \<le> ?n \<and> ?n \<le> 254 \<and> ?n \<noteq> 247)")
    case True
    have "?n < 256" by simp
    then have "?n - 32 < 256" by linarith
    then have n: "code_of (char_of (?n - 32) :: char) = ?n - 32" by simp
    have "lower_char (upper_char c) = char_of (?n - 32 + 32)"
      using True by (auto simp: upper_char_def lower_char_def Let_def n)
    also have "\<dots> = lower_char c" using True by (auto simp: lower_char_def Let_def)
    finally show ?thesis .
  next
    case False
    then show ?thesis by (auto simp: upper_char_def Let_def)
  qed
qed

lemma in_csets_lit_lower: "in_csets ic [CLit c] x \<Longrightarrow> lower_char x = lower_char c"
  by (auto simp: in_csets_def)

text \<open>\<open>needs ic r lits\<close>: the text of every match of \<open>r\<close> contains one of the literals, in lower case.\<close>

definition spans :: "rpos \<Rightarrow> rpos \<Rightarrow> string \<Rightarrow> bool" where
  "spans s t w = (fst (snd s) = w @ fst (snd t) \<and> fst t = rev w @ fst s)"

definition needs :: "bool \<Rightarrow> rx \<Rightarrow> string list \<Rightarrow> bool" where
  "needs ic r lits = (\<forall>s t w. t \<in> set (rx_run ic r s) \<longrightarrow> spans s t w \<longrightarrow> (\<exists>l \<in> set lits. sublist l (py_lower w)))"

lemma advance_spans: "advance s t \<longleftrightarrow> (\<exists>w. spans s t w)"
  by (auto simp: advance_def spans_def)

lemma spans_trans: "spans s t w \<Longrightarrow> spans t u v \<Longrightarrow> spans s u (w @ v)"
  by (simp add: spans_def)

lemma spans_unique: "spans s t w \<Longrightarrow> spans s t v \<Longrightarrow> w = v"
  by (simp add: spans_def)

lemma py_lower_append: "py_lower (a @ b) = py_lower a @ py_lower b"
  by (simp add: py_lower_def)

lemma run_seq_spans:
  assumes "t \<in> set (rx_run ic (RSeq r q) s)" "spans s t w"
  obtains u v v' where "u \<in> set (rx_run ic r s)" "t \<in> set (rx_run ic q u)" "spans s u v" "spans u t v'" "w = v @ v'"
proof -
  from assms(1) obtain u where u: "u \<in> set (rx_run ic r s)" "t \<in> set (rx_run ic q u)" by auto
  obtain v v' where v: "spans s u v" "spans u t v'"
    using rx_run_advance [OF u(1)] rx_run_advance [OF u(2)] unfolding advance_spans by blast
  from spans_unique [OF assms(2) spans_trans [OF v]] that u v show ?thesis by blast
qed

lemma needs_seq: "needs ic r lits \<or> needs ic q lits \<Longrightarrow> needs ic (RSeq r q) lits"
  unfolding needs_def
proof (intro allI impI)
  fix s t w
  assume h: "(\<forall>s t w. t \<in> set (rx_run ic r s) \<longrightarrow> spans s t w \<longrightarrow> (\<exists>l \<in> set lits. sublist l (py_lower w))) \<or>
      (\<forall>s t w. t \<in> set (rx_run ic q s) \<longrightarrow> spans s t w \<longrightarrow> (\<exists>l \<in> set lits. sublist l (py_lower w)))"
    and t: "t \<in> set (rx_run ic (RSeq r q) s)" and w: "spans s t w"
  from t w obtain u v v' where "u \<in> set (rx_run ic r s)" "t \<in> set (rx_run ic q u)" "spans s u v" "spans u t v'" and wv: "w = v @ v'"
    by (rule run_seq_spans)
  with h obtain l where "l \<in> set lits" "sublist l (py_lower v) \<or> sublist l (py_lower v')" by blast
  then show "\<exists>l \<in> set lits. sublist l (py_lower w)"
    unfolding wv py_lower_append by (metis sublist_appendI sublist_append_leftI sublist_append_rightI sublist_order.order_trans)
qed

lemma needs_seqs: "r \<in> set rs \<Longrightarrow> needs ic r lits \<Longrightarrow> needs ic (RSeqs rs) lits"
  by (induction rs) (auto intro: needs_seq)

lemma needs_plus: "needs ic r lits \<Longrightarrow> needs ic (RPlus r) lits"
  by (simp add: RPlus_def needs_seq)

lemma needs_alt: "needs ic r lits \<Longrightarrow> needs ic q lits \<Longrightarrow> needs ic (RAlt r q) lits"
  by (auto simp: needs_def)

lemma needs_none: "needs ic (RSet []) lits"
proof -
  have "step_if (in_csets ic []) s = []" for s
    by (cases "(in_csets ic [], s)" rule: step_if.cases) (auto simp: in_csets_def)
  then show ?thesis by (simp add: needs_def)
qed

lemma needs_alts: "list_all (\<lambda>r. needs ic r lits) rs \<Longrightarrow> needs ic (RAlts rs) lits"
  by (induction rs rule: RAlts.induct) (simp_all add: needs_alt needs_none)

lemma spans_close_group [simp]: "spans s (close_group n u t) w = spans s t w"
  by (simp add: spans_def close_group_def)

lemma needs_group: "needs ic r lits \<Longrightarrow> needs ic (RGroup n r) lits"
  by (auto simp: needs_def)

lemma run_str_spans: "t \<in> set (rx_run ic (RStr v) s) \<Longrightarrow> spans s t w \<Longrightarrow> py_lower w = py_lower v"
proof (induction v arbitrary: s w)
  case Nil
  then show ?case by (simp add: spans_def py_lower_def)
next
  case (Cons c v)
  from Cons.prems have "t \<in> set (rx_run ic (RSeq (RLit c) (RStr v)) s)" by simp
  from run_seq_spans [OF this Cons.prems(2)] obtain u x y
    where u: "u \<in> set (rx_run ic (RLit c) s)" "t \<in> set (rx_run ic (RStr v) u)" "spans s u x" "spans u t y" "w = x @ y"
    by blast
  obtain b a g where s: "s = (b, a, g)" by (cases s)
  from u(1,3) have "py_lower x = [lower_char c]"
    by (cases a) (auto simp: s spans_def py_lower_def dest: in_csets_lit_lower split: if_splits)
  moreover have "py_lower y = py_lower v" by (rule Cons.IH [OF u(2,4)])
  ultimately show ?case by (simp add: u(5) py_lower_def)
qed

lemma needs_str: "list_ex (\<lambda>l. occurs l (py_lower v)) lits \<Longrightarrow> needs ic (RStr v) lits"
  by (auto simp: needs_def list_ex_iff occurs_iff_sublist dest!: run_str_spans)

lemma run_lit_spans: "t \<in> set (rx_run ic (RLit c) s) \<Longrightarrow> spans s t w \<Longrightarrow> py_lower w = [lower_char c]"
  by (cases s; cases "fst (snd s)") (auto simp: spans_def py_lower_def dest: in_csets_lit_lower split: if_splits)

lemma needs_lit: "[lower_char c] \<in> set lits \<Longrightarrow> needs ic (RLit c) lits"
  unfolding needs_def using run_lit_spans by fastforce

text \<open>A pattern without its literals in the text does not match there.\<close>

lemma needs_search:
  assumes "needs ic r lits" "\<not> list_ex (\<lambda>l. occurs l (py_lower a)) lits"
  shows "rx_search_from ic r b a = None"
proof -
  have at: "rx_match_at ic r b a = None" if no: "\<not> list_ex (\<lambda>l. occurs l (py_lower a)) lits" for b a
  proof (rule ccontr)
    assume "rx_match_at ic r b a \<noteq> None"
    then obtain t where "head_opt (rx_run ic r (b, a, [])) = Some t" unfolding rx_match_at_def by blast
    then have t: "t \<in> set (rx_run ic r (b, a, []))" by (rule head_opt_in)
    obtain w where w: "spans (b, a, []) t w" using rx_run_advance [OF t] unfolding advance_spans by blast
    with t assms(1) obtain l where l: "l \<in> set lits" "sublist l (py_lower w)" unfolding needs_def by blast
    from w have "a = w @ fst (snd t)" by (simp add: spans_def)
    then have "py_lower a = py_lower w @ py_lower (fst (snd t))" by (metis py_lower_append)
    then have "sublist l (py_lower a)" using l(2) by (metis sublist_append_rightI sublist_order.order_trans)
    with l(1) no show False by (auto simp: list_ex_iff occurs_iff_sublist)
  qed
  from assms(2) show ?thesis
  proof (induction a arbitrary: b)
    case Nil
    then show ?case using at by simp
  next
    case (Cons c a)
    have "\<not> list_ex (\<lambda>l. occurs l (py_lower a)) lits"
    proof
      assume "list_ex (\<lambda>l. occurs l (py_lower a)) lits"
      then have "list_ex (\<lambda>l. occurs l (py_lower (c # a))) lits"
        unfolding list_ex_iff occurs_iff_sublist py_lower_simps by (metis sublist_Cons_right)
      with Cons.prems show False by blast
    qed
    from Cons.IH [OF this] at [OF Cons.prems] show ?case by simp
  qed
qed

lemma needs_finditer:
  "needs ic r lits \<Longrightarrow> \<not> list_ex (\<lambda>l. occurs l (py_lower a)) lits \<Longrightarrow> rx_finditer ic r a = []"
  by (simp add: rx_finditer_def rx_finditer_from.simps needs_search)

end
