(* ===== verification/Py_Time.thy ===== *)
theory Py_Time
  imports Py_Prelude
begin

text \<open>
  The part of Python's \<open>datetime\<close> the program uses.  An aware UTC datetime is the number
  of microseconds since 0001-01-01T00:00:00, and a timedelta a number of microseconds.
  The constructor refuses a field out of range (\<open>None\<close>, Python's \<open>ValueError\<close>), and
  arithmetic refuses a result outside the years 1 to 9999 (\<open>None\<close>, \<open>OverflowError\<close>).
\<close>

section \<open>The calendar\<close>

definition leap :: "nat \<Rightarrow> bool" where
  "leap y = (y mod 4 = 0 \<and> (y mod 100 \<noteq> 0 \<or> y mod 400 = 0))"

definition days_in_month :: "nat \<Rightarrow> nat \<Rightarrow> nat" where
  "days_in_month y m =
     (if m = 2 then (if leap y then 29 else 28) else if m \<in> {4, 6, 9, 11} then 30 else 31)"

definition days_before_year :: "nat \<Rightarrow> nat" where
  "days_before_year y = (let z = y - 1 in z * 365 + z div 4 - z div 100 + z div 400)"

definition days_before_month :: "nat \<Rightarrow> nat \<Rightarrow> nat" where
  "days_before_month y m = sum_list (map (days_in_month y) [1..<m])"

definition ordinal :: "nat \<Rightarrow> nat \<Rightarrow> nat \<Rightarrow> nat" where
  "ordinal y m d = days_before_year y + days_before_month y m + (d - 1)"

record civil =
  cy :: nat
  cmo :: nat
  cd :: nat
  ch :: nat
  cmi :: nat
  csec :: nat
  cus :: nat

definition civil_ok :: "civil \<Rightarrow> bool" where
  "civil_ok c = (1 \<le> cy c \<and> cy c \<le> 9999 \<and> 1 \<le> cmo c \<and> cmo c \<le> 12
     \<and> 1 \<le> cd c \<and> cd c \<le> days_in_month (cy c) (cmo c)
     \<and> ch c \<le> 23 \<and> cmi c \<le> 59 \<and> csec c \<le> 59 \<and> cus c \<le> 999999)"

definition civil_us :: "civil \<Rightarrow> nat" where
  "civil_us c = (((ordinal (cy c) (cmo c) (cd c) * 24 + ch c) * 60 + cmi c) * 60 + csec c) * 1000000 + cus c"

definition mk_dt :: "civil \<Rightarrow> int option" where
  "mk_dt c = (if civil_ok c then Some (int (civil_us c)) else None)"

definition dt_limit :: int where
  "dt_limit = 3652059 * 86400000000"

definition dt_shift :: "int \<Rightarrow> int \<Rightarrow> int option" where
  "dt_shift t d = (if 0 \<le> t + d \<and> t + d < dt_limit then Some (t + d) else None)"

text \<open>\<open>timedelta\<close> refuses more than 999999999 days.\<close>

definition mk_delta :: "int \<Rightarrow> int option" where
  "mk_delta us = (if \<bar>us\<bar> \<le> 999999999 * 86400000000 + 86399999999 then Some us else None)"

section \<open>The order of datetimes is the lexicographic order of their fields\<close>

definition civil_key :: "civil \<Rightarrow> nat list" where
  "civil_key c = [cy c, cmo c, cd c, ch c, cmi c, csec c, cus c]"

fun lex_less :: "nat list \<Rightarrow> nat list \<Rightarrow> bool" where
  "lex_less (x # xs) (y # ys) = (x < y \<or> (x = y \<and> lex_less xs ys))"
| "lex_less _ _ = False"

lemma days_before_month_Suc:
  "1 \<le> m \<Longrightarrow> days_before_month y (Suc m) = days_before_month y m + days_in_month y m"
  by (simp add: days_before_month_def)

lemma days_before_month_mono:
  assumes "1 \<le> m" "m < n"
  shows "days_before_month y m + days_in_month y m \<le> days_before_month y n"
  using assms(2)
proof (induction n)
  case 0
  then show ?case by simp
next
  case (Suc n)
  show ?case
  proof (cases "m = n")
    case True
    then show ?thesis using assms(1) by (simp add: days_before_month_Suc)
  next
    case False
    with Suc have "days_before_month y m + days_in_month y m \<le> days_before_month y n" by simp
    moreover have "1 \<le> n" using assms Suc.prems by simp
    ultimately show ?thesis by (simp add: days_before_month_Suc)
  qed
qed

lemma year_days: "days_before_month y 12 + days_in_month y 12 = (if leap y then 366 else 365)"
proof -
  have "[1..<12] = [1, 2, 3, 4, 5, 6, 7, 8, 9, 10, 11::nat]" by (simp add: upt_rec)
  then show ?thesis by (simp add: days_before_month_def days_in_month_def)
qed

lemma days_before_year_int:
  "int (days_before_year (Suc z)) = int z * 365 + int (z div 4) - int (z div 100) + int (z div 400)"
proof -
  have "z div 100 \<le> z * 365 + z div 4" by simp
  then show ?thesis
    by (simp add: days_before_year_def Let_def of_nat_diff del: zdiv_int of_nat_div)
qed

lemma days_before_year_Suc:
  assumes "1 \<le> y"
  shows "days_before_year (Suc y) = days_before_year y + (if leap y then 366 else 365)"
proof -
  obtain z where y: "y = Suc z" using assms by (cases y) auto
  have m4: "(y mod 100 = 0 \<longrightarrow> y mod 4 = 0) \<and> (y mod 400 = 0 \<longrightarrow> y mod 100 = 0)"
    using dvd_trans [of 4 100 y] dvd_trans [of 100 400 y] by (auto simp: mod_eq_0_iff_dvd)
  have steps: "y div 4 = z div 4 + (if y mod 4 = 0 then 1 else 0)"
    "y div 100 = z div 100 + (if y mod 100 = 0 then 1 else 0)"
    "y div 400 = z div 400 + (if y mod 400 = 0 then 1 else 0)"
    unfolding y by (simp_all add: div_Suc)
  have "int (days_before_year (Suc y)) = int (days_before_year (Suc z)) + (if leap y then 366 else 365)"
    unfolding days_before_year_int steps leap_def using m4 by (auto simp: y)
  then have "int (days_before_year (Suc y)) = int (days_before_year y + (if leap y then 366 else 365))"
    by (simp add: y)
  then show ?thesis by (simp only: of_nat_eq_iff)
qed

lemma days_before_year_mono:
  assumes "1 \<le> y" "y < z"
  shows "days_before_year y + (if leap y then 366 else 365) \<le> days_before_year z"
  using assms(2)
proof (induction z)
  case 0
  then show ?case by simp
next
  case (Suc z)
  show ?case
  proof (cases "y = z")
    case True
    then show ?thesis using assms(1) by (simp add: days_before_year_Suc)
  next
    case False
    with Suc have "days_before_year y + (if leap y then 366 else 365) \<le> days_before_year z" by simp
    moreover have "1 \<le> z" using assms Suc.prems by simp
    ultimately show ?thesis by (simp add: days_before_year_Suc split: if_splits)
  qed
qed

lemma month_within_year:
  assumes "1 \<le> m" "m \<le> 12"
  shows "days_before_month y m + days_in_month y m \<le> (if leap y then 366 else 365)"
proof (cases "m = 12")
  case True
  then show ?thesis by (simp add: year_days)
next
  case False
  then have "days_before_month y m + days_in_month y m \<le> days_before_month y 12"
    using assms by (intro days_before_month_mono) auto
  then show ?thesis using year_days [of y] by linarith
qed

lemma ordinal_less:
  assumes "1 \<le> y" "1 \<le> m" "m \<le> 12" "1 \<le> d" "d \<le> days_in_month y m"
    and "1 \<le> m'" "1 \<le> d'"
    and "y < y' \<or> (y = y' \<and> (m < m' \<or> (m = m' \<and> d < d')))"
  shows "ordinal y m d < ordinal y' m' d'"
proof -
  consider "y < y'" | "y = y'" "m < m'" | "y = y'" "m = m'" "d < d'" using assms(8) by blast
  then show ?thesis
  proof cases
    case 1
    have "days_before_month y m + (d - 1) < (if leap y then 366 else 365)"
      using month_within_year [of m y] assms by linarith
    then show ?thesis
      using days_before_year_mono [of y y'] 1 assms by (simp add: ordinal_def split: if_splits)
  next
    case 2
    then show ?thesis
      using days_before_month_mono [of m m' y] assms by (simp add: ordinal_def)
  next
    case 3
    then show ?thesis using assms by (simp add: ordinal_def)
  qed
qed

lemma ordinal_bound:
  assumes "1 \<le> y" "y \<le> 9999" "1 \<le> m" "m \<le> 12" "1 \<le> d" "d \<le> days_in_month y m"
  shows "ordinal y m d < 3652059"
proof -
  have "days_before_month y m + (d - 1) < (if leap y then 366 else 365)"
    using month_within_year [of m y] assms by linarith
  moreover have "days_before_year y + (if leap y then 366 else 365) \<le> days_before_year 10000"
    using assms by (intro days_before_year_mono) auto
  moreover have "days_before_year 10000 = 3652059" by (simp add: days_before_year_def)
  ultimately show ?thesis by (simp add: ordinal_def)
qed

definition same_day :: "civil \<Rightarrow> civil \<Rightarrow> bool" where
  "same_day a b = (cy a = cy b \<and> cmo a = cmo b \<and> cd a = cd b)"

lemma radix_less: "(a::nat) < b \<Longrightarrow> u < k \<Longrightarrow> a * k + u < b * k + v"
proof -
  assume "a < b" "u < k"
  then have "a * k + u < Suc a * k" by simp
  also have "\<dots> \<le> b * k" using \<open>a < b\<close> by (intro mult_le_mono1) simp
  finally show ?thesis by simp
qed

lemma civil_us_less:
  assumes a: "civil_ok a" and b: "civil_ok b" and l: "lex_less (civil_key a) (civil_key b)"
  shows "civil_us a < civil_us b"
proof -
  define A where "A = ordinal (cy a) (cmo a) (cd a)"
  define B where "B = ordinal (cy b) (cmo b) (cd b)"
  have day: "A < B" if "cy a < cy b \<or> (cy a = cy b \<and> (cmo a < cmo b \<or> (cmo a = cmo b \<and> cd a < cd b)))"
    unfolding A_def B_def using a b that by (intro ordinal_less) (auto simp: civil_ok_def)
  have le: "lex_less [A, ch a, cmi a, csec a, cus a] [B, ch b, cmi b, csec b, cus b]"
    using l day by (auto simp: civil_key_def A_def B_def)
  have bounds: "ch a < 24" "cmi a < 60" "csec a < 60" "cus a < 1000000"
    using a by (auto simp: civil_ok_def)
  show ?thesis
    unfolding civil_us_def A_def [symmetric] B_def [symmetric]
    using le bounds by (fastforce intro: radix_less)
qed

lemma civil_key_inj: "civil_key a = civil_key b \<Longrightarrow> a = (b::civil)"
  by (simp add: civil_key_def)

lemma lex_less_total: "length xs = length ys \<Longrightarrow> xs = ys \<or> lex_less xs ys \<or> lex_less ys xs"
  by (induction xs ys rule: list_induct2) auto

lemma lex_less_civil_irrefl: "\<not> lex_less xs xs"
  by (induction xs) auto

lemma mk_dt_less_iff:
  assumes "mk_dt a = Some s" and "mk_dt b = Some t"
  shows "s < t \<longleftrightarrow> lex_less (civil_key a) (civil_key b)"
proof -
  from assms have ok: "civil_ok a" "civil_ok b" and st: "s = int (civil_us a)" "t = int (civil_us b)"
    by (auto simp: mk_dt_def split: if_splits)
  consider "civil_key a = civil_key b" | "lex_less (civil_key a) (civil_key b)"
    | "lex_less (civil_key b) (civil_key a)"
    using lex_less_total [of "civil_key a" "civil_key b"] by (auto simp: civil_key_def)
  then show ?thesis
  proof cases
    case 1
    then show ?thesis using st civil_key_inj [OF 1] by (simp add: lex_less_civil_irrefl)
  next
    case 2
    then show ?thesis using st civil_us_less [OF ok] by simp
  next
    case 3
    then have "civil_us b < civil_us a" by (rule civil_us_less [OF ok(2) ok(1)])
    moreover have "\<not> lex_less (civil_key a) (civil_key b)"
      using civil_us_less [OF ok] \<open>civil_us b < civil_us a\<close> by fastforce
    ultimately show ?thesis using st by simp
  qed
qed

lemma mk_dt_range: "mk_dt c = Some t \<Longrightarrow> 0 \<le> t \<and> t < dt_limit"
proof -
  assume "mk_dt c = Some t"
  then have ok: "civil_ok c" and t: "t = int (civil_us c)" by (auto simp: mk_dt_def split: if_splits)
  have "ordinal (cy c) (cmo c) (cd c) < 3652059"
    using ok by (intro ordinal_bound) (auto simp: civil_ok_def)
  then have "civil_us c < 3652059 * 86400000000"
    using ok by (simp add: civil_us_def civil_ok_def)
  then show ?thesis by (simp add: t dt_limit_def)
qed

end
