(* ===== verification/Query_Lang.thy ===== *)
theory Query_Lang
  imports Py_Regex Py_Time
begin

text \<open>
  The ZCC-aware search language of \<open>zcc_diag/query.py\<close>: the token scanner, the
  recursive-descent parser, the node classes with their \<open>matches\<close> methods and the
  evaluator \<open>find_matches\<close>.  A pattern the user typed is kept as its text: whether
  \<open>re.compile(..., re.IGNORECASE)\<close> accepts it is the argument \<open>rx_ok\<close>, and whether the
  compiled pattern is found in a body the argument \<open>rx_srch\<close>.  An exception is a value of
  \<open>query_exc\<close>.
\<close>

section \<open>Nodes\<close>

record line =
  l_ts :: "int option"
  l_pid :: string
  l_tid :: string
  l_level :: string
  l_body :: string
  l_component :: string
  l_source_file :: string
  l_line_no :: nat
  l_session_id :: "string option"
  l_host :: "string option"

datatype query_node =
    AndNode "query_node list"
  | OrNode "query_node list"
  | NotNode query_node
  | TextMatch string
  | RegexMatch string
  | FieldEquals string string
  | FieldContains string string
  | TimeRange int int
  | ErrCodeMatch int
  | CodeMatch string
  | EventMatch string

datatype query_exc =
    UnterminatedQuote nat
  | UnterminatedRegex nat
  | UnexpectedChar char nat
  | EmptyQuery
  | TrailingToken string
  | UnexpectedEnd
  | ExpectedAtom
  | MissingParen
  | UnexpectedToken string
  | BadRegex string
  | UnknownField string
  | UnknownEvent string
  | BadTimestamp string
  | BadDuration string
  | BadErrCode string
  | OverflowExc
  | NoFuel

text \<open>\<open>QueryError\<close> is what the module's callers expect; \<open>OverflowError\<close> is not one.\<close>

definition is_query_error :: "query_exc \<Rightarrow> bool" where
  "is_query_error e = (e \<noteq> OverflowExc \<and> e \<noteq> NoFuel)"

text \<open>\<open>getattr(line, name, None)\<close> for the attributes of \<open>IndexedLine\<close> with text in them.\<close>

definition line_attr :: "string \<Rightarrow> line \<Rightarrow> string option" where
  "line_attr nm l =
     (if nm = ''component'' then Some (l_component l)
      else if nm = ''level'' then Some (l_level l)
      else if nm = ''pid'' then Some (l_pid l)
      else if nm = ''tid'' then Some (l_tid l)
      else if nm = ''session_id'' then l_session_id l
      else if nm = ''host'' then l_host l
      else if nm = ''source_file'' then Some (l_source_file l)
      else None)"

definition err_code_rx :: "int \<Rightarrow> rx" where
  "err_code_rx n = RSeqs
     [RAlt (RSeqs [RStr ''err'', ROpt (RSet [CLit CHR ''_'', CLit CHR '' '']), RStr ''code'',
                   RStar (RSet [CSpace]), RSet [CLit CHR '':'', CLit CHR ''=''], RStar (RSet [CSpace])])
           (RSeqs [RStr ''error'', RPlus (RSet [CSpace])]),
      RStr (str_of_int n), RBound]"

definition code_rx :: "string \<Rightarrow> rx" where
  "code_rx code = RSeqs [RBound, RStr code, RBound]"

abbreviation RAny :: rx where
  "RAny \<equiv> RStar RDot"

abbreviation sep_us_sp :: rx where
  "sep_us_sp \<equiv> RSet [CLit CHR ''_'', CLit CHR '' '']"

text \<open>\<open>_EVENT_PATTERNS\<close>, in the order of the source; all are compiled with \<open>IGNORECASE\<close>.\<close>

definition event_patterns :: "(string \<times> rx) list" where
  "event_patterns =
    [(''auth_transition'',
      RAlts [RSeqs [RStr ''auth'', RAny, RStr ''state'', RAny,
                    RStrs [''AUTHENTICATED'', ''AUTHENTICATION_REQUIRED'']],
             RSeqs [RStr ''zpn'', RAny, RStr ''auth'', RAny, RStr ''state''],
             RSeqs [RStr ''Auth::'', RAny, RStr ''State'']]),
     (''mtunnel_setup'',
      RAlts [RSeqs [RStr ''mtunnel'', ROpt sep_us_sp, RStrs [''setup'', ''request'', ''open'', ''start'']],
             RStr ''BRK_MT_SETUP'']),
     (''mtunnel_close'',
      RAlts [RSeqs [RStr ''mtunnel'', ROpt sep_us_sp, RStrs [''close'', ''end'', ''terminate'']],
             RSeqs [RStr ''BRK_MT_'', RStrs [''CLOSED'', ''TERMINATED'']],
             RStr ''zpn_mtunnel_end'']),
     (''broker_redirect'',
      RAlts [RStr ''BRK_REDIRECT'', RSeqs [RStr ''broker'', RAny, RStr ''redirect''],
             RSeqs [RStr ''BRK_MT_'', RAny, RStr ''BALANCE'']]),
     (''power_change'',
      RStrs [''Power Change Event'', ''Modern Standby'', ''force_reauth_sleep_trigger'']),
     (''saml_expired'',
      RAlts [RStr ''SAML_EXPIRED'', RSeqs [RStr ''saml'', RAny, RStr ''expir''],
             RStr ''saml force expired'']),
     (''service_start'',
      RAlts [RSeqs [RStr ''service '', RStrs [''started'', ''starting'', ''initialized'']],
             RSeqs [RStr ''ZSAService '', RStrs [''up'', ''start'']],
             RSeqs [RStr ''ZCC '', RStrs [''starting'', ''up'']]]),
     (''network_change'',
      RAlts [RSeqs [RStr ''network'', sep_us_sp, RStrs [''change'', ''transition'', ''state'']],
             RSeqs [RStr ''adapter '', RStrs [''up'', ''down'', ''state'']]]),
     (''dc_changed'',
      RAlts [RSeqs [RStr ''zcc_tunnel'', RAny, RStr ''dc_changed''],
             RSeqs [RStr ''SME'', RAny, RStr ''chang''],
             RSeqs [RStr ''Service Edge'', RAny, RStr ''chang'']]),
     (''trust_state_change'',
      RAlts [RSeqs [RStr ''trusted'', ROpt sep_us_sp, RStr ''network'', RAny,
                    RStrs [''enter'', ''exit'', ''change'']],
             RStr ''OFF_TRUSTED'', RStr ''NON_TRUSTED'', RStr ''TRUSTED_NETWORK'']),
     (''captive_portal'', RSeqs [RStr ''captive'', ROpt sep_us_sp, RStr ''portal'']),
     (''cert_expiry_check'',
      RAlts [RStr ''getCertExpiryDaySec'', RSeqs [RStr ''cert'', RAny, RStr ''expir'']]),
     (''dtls_fallback'',
      RAlts [RSeqs [RStr ''DTLS'', RAny, RStrs [''fallback'', ''fail''], RAny, RStr ''TLS''],
             RStr ''falling back to TLS'']),
     (''kerberos_lookup'',
      RAlts [RStr ''_kerberos._tcp'', RSeqs [RStr ''kerberos'', RAny, RStr ''SRV''],
             RStr ''_ldap._tcp'', RStr ''_gc._tcp'']),
     (''policy_push'',
      RAlts [RSeqs [RStr ''zpn_'', RStrs [''trusted_networks'', ''posture_profile'', ''forwarding_profile''],
                    RStr ''_ack''],
             RStr ''TrayPolicy::serialize'', RSeqs [RStr ''policy'', RAny, RStr ''push'']]),
     (''pac_download'',
      RAlts [RSeqs [RStr ''PAC'', RAny, RStrs [''download'', ''fetch'']],
             RStr ''pac_download'', RStr ''PACFile'']),
     (''tray_notification'',
      RAlts [RStr ''send ZSATray Notification'', RSeqs [RStr ''tray'', RAny, RStr ''notif'']]),
     (''wfp_sublayer'',
      RAlts [RSeqs [RStr ''WFP'', RAny, RStr ''SubLayer''],
             RStr ''ZEVENT_FW_SUBLAYER_WEIGHT_MISMATCH'', RStr ''SenseNdr'']),
     (''posture_result'',
      RAlts [RSeqs [RStr ''posture'', RAny, RStrs [''pass'', ''fail'', ''result'']],
             RStr ''POSTURE_CHECK''])]"

definition searches :: "bool \<Rightarrow> rx \<Rightarrow> string \<Rightarrow> bool" where
  "searches ic r s = (rx_search ic r s \<noteq> None)"

fun matches :: "(string \<Rightarrow> string \<Rightarrow> bool) \<Rightarrow> query_node \<Rightarrow> line \<Rightarrow> bool" where
  "matches rx_srch (AndNode cs) l = list_all (\<lambda>c. matches rx_srch c l) cs"
| "matches rx_srch (OrNode cs) l = list_ex (\<lambda>c. matches rx_srch c l) cs"
| "matches rx_srch (NotNode c) l = (\<not> matches rx_srch c l)"
| "matches rx_srch (TextMatch needle) l = occurs (py_lower needle) (py_lower (l_body l))"
| "matches rx_srch (RegexMatch pat) l = rx_srch pat (l_body l)"
| "matches rx_srch (FieldEquals nm v) l = (case line_attr nm l of
       None \<Rightarrow> False | Some w \<Rightarrow> py_lower w = py_lower v)"
| "matches rx_srch (FieldContains nm needle) l = (case line_attr nm l of
       None \<Rightarrow> False | Some w \<Rightarrow> occurs (py_lower needle) (py_lower w))"
| "matches rx_srch (TimeRange t u) l = (case l_ts l of None \<Rightarrow> False | Some ts \<Rightarrow> t \<le> ts \<and> ts \<le> u)"
| "matches rx_srch (ErrCodeMatch n) l = searches True (err_code_rx n) (l_body l)"
| "matches rx_srch (CodeMatch code) l = searches False (code_rx code) (l_body l)"
| "matches rx_srch (EventMatch ev) l = (case dict_get event_patterns ev of
       None \<Rightarrow> False | Some r \<Rightarrow> searches True r (l_body l))"

section \<open>Tokens\<close>

datatype token = LPAREN | RPAREN | AND | OR | NOT | ATOM string

fun tok_text :: "token \<Rightarrow> string" where
  "tok_text LPAREN = ''(''"
| "tok_text RPAREN = '')''"
| "tok_text AND = ''AND''"
| "tok_text OR = ''OR''"
| "tok_text NOT = ''NOT''"
| "tok_text (ATOM t) = t"

abbreviation quote_ch :: char where
  "quote_ch \<equiv> CHR 0x22"

abbreviation back_ch :: char where
  "back_ch \<equiv> CHR 0x5C"

definition delimited_item :: "char \<Rightarrow> rx" where
  "delimited_item d = RAlt (RNot [CLit d, CLit back_ch]) (RSeq (RLit back_ch) RDot)"

definition delimited_rx :: "char \<Rightarrow> rx" where
  "delimited_rx d = RSeq (RLit d) (RSeq (RStar (delimited_item d)) (RLit d))"

definition quoted_rx :: rx where
  "quoted_rx = delimited_rx quote_ch"

definition regex_rx :: rx where
  "regex_rx = delimited_rx CHR ''/''"

definition bareword_rx :: rx where
  "bareword_rx = RPlus (RNot [CSpace, CLit CHR ''('', CLit CHR '')''])"

text \<open>\<open>word.upper()\<close> is compared with three ASCII words, so its ASCII letters decide.\<close>

definition word_token :: "string \<Rightarrow> token" where
  "word_token w = (let u = map upper_char w in
     if u = ''AND'' then AND else if u = ''OR'' then OR else if u = ''NOT'' then NOT else ATOM w)"

lemma delimited_consumes:
  "rx_match_at False (delimited_rx d) b a = Some t \<Longrightarrow> length (fst (snd t)) < length a"
  unfolding delimited_rx_def
  by (erule rx_match_at_consumes) (simp add: step_if_consumes)

lemma quoted_consumes [termination_simp]:
  "rx_match_at False quoted_rx b a = Some (u, v, g) \<Longrightarrow> length v < length a"
  unfolding quoted_rx_def by (drule delimited_consumes) simp

lemma regex_consumes [termination_simp]:
  "rx_match_at False regex_rx b a = Some (u, v, g) \<Longrightarrow> length v < length a"
  unfolding regex_rx_def by (drule delimited_consumes) simp

lemma bareword_consumes [termination_simp]:
  "rx_match_at False bareword_rx b a = Some (u, v, g) \<Longrightarrow> length v < length a"
  unfolding bareword_rx_def RPlus_def
  by (drule rx_match_at_consumes) (simp_all add: step_if_consumes)

text \<open>The scanner: \<open>b\<close> is the part of the query already read, reversed, so \<open>i\<close> is its length.\<close>

function (sequential) tokenize_from :: "string \<Rightarrow> string \<Rightarrow> query_exc + token list" where
  "tokenize_from b [] = Inr []"
| "tokenize_from b (c # a) =
     (if py_isspace c then tokenize_from (c # b) a
      else if c = CHR ''('' then map_sum id (Cons LPAREN) (tokenize_from (c # b) a)
      else if c = CHR '')'' then map_sum id (Cons RPAREN) (tokenize_from (c # b) a)
      else if c = quote_ch then
        (case rx_match_at False quoted_rx b (c # a) of
           None \<Rightarrow> Inl (UnterminatedQuote (length b))
         | Some (b', a', g) \<Rightarrow>
             map_sum id (Cons (ATOM (rx_consumed b (b', a', g)))) (tokenize_from b' a'))
      else if c = CHR ''/'' then
        (case rx_match_at False regex_rx b (c # a) of
           None \<Rightarrow> Inl (UnterminatedRegex (length b))
         | Some (b', a', g) \<Rightarrow>
             map_sum id (Cons (ATOM (rx_consumed b (b', a', g)))) (tokenize_from b' a'))
      else
        (case rx_match_at False bareword_rx b (c # a) of
           None \<Rightarrow> Inl (UnexpectedChar c (length b))
         | Some (b', a', g) \<Rightarrow>
             map_sum id (Cons (word_token (rx_consumed b (b', a', g)))) (tokenize_from b' a')))"
  by pat_completeness auto
termination
  by (relation "measure (\<lambda>(b, a). length a)")
     (auto dest: quoted_consumes regex_consumes bareword_consumes)

definition tokenize :: "string \<Rightarrow> query_exc + token list" where
  "tokenize q = tokenize_from [] q"

section \<open>Time values\<close>

text \<open>The directives of \<open>strptime\<close> the formats use, as \<open>_strptime\<close> compiles them.\<close>

definition dir_Y :: rx where
  "dir_Y = RGroup 1 (RTimes 4 (RSet [CDigit]))"

definition dir_m :: rx where
  "dir_m = RGroup 2 (RAlts [RSeq (RLit CHR ''1'') (RSet [CRange CHR ''0'' CHR ''2'']),
     RSeq (RLit CHR ''0'') (RSet [CRange CHR ''1'' CHR ''9'']), RSet [CRange CHR ''1'' CHR ''9'']])"

definition dir_d :: rx where
  "dir_d = RGroup 3 (RAlts [RSeq (RLit CHR ''3'') (RSet [CRange CHR ''0'' CHR ''1'']),
     RSeq (RSet [CRange CHR ''1'' CHR ''2'']) (RSet [CDigit]),
     RSeq (RLit CHR ''0'') (RSet [CRange CHR ''1'' CHR ''9'']),
     RSet [CRange CHR ''1'' CHR ''9''],
     RSeq (RLit CHR '' '') (RSet [CRange CHR ''1'' CHR ''9''])])"

definition dir_H :: rx where
  "dir_H = RGroup 4 (RAlts [RSeq (RLit CHR ''2'') (RSet [CRange CHR ''0'' CHR ''3'']),
     RSeq (RSet [CRange CHR ''0'' CHR ''1'']) (RSet [CDigit]), RSet [CDigit]])"

definition dir_M :: rx where
  "dir_M = RGroup 5 (RAlt (RSeq (RSet [CRange CHR ''0'' CHR ''5'']) (RSet [CDigit])) (RSet [CDigit]))"

definition dir_S :: rx where
  "dir_S = RGroup 6 (RAlts [RSeq (RLit CHR ''6'') (RSet [CRange CHR ''0'' CHR ''1'']),
     RSeq (RSet [CRange CHR ''0'' CHR ''5'']) (RSet [CDigit]), RSet [CDigit]])"

definition ymd_rx :: "rx list" where
  "ymd_rx = [dir_Y, RLit CHR ''-'', dir_m, RLit CHR ''-'', dir_d]"

definition ts_fmts :: "rx list" where
  "ts_fmts =
     [RSeqs (ymd_rx @ [RPlus (RSet [CSpace]), dir_H, RLit CHR '':'', dir_M, RLit CHR '':'', dir_S]),
      RSeqs (ymd_rx @ [RLit CHR ''T'', dir_H, RLit CHR '':'', dir_M, RLit CHR '':'', dir_S]),
      RSeqs (ymd_rx @ [RPlus (RSet [CSpace]), dir_H, RLit CHR '':'', dir_M]),
      RSeqs (ymd_rx @ [RLit CHR ''T'', dir_H, RLit CHR '':'', dir_M]),
      RSeqs ymd_rx]"

definition group_nat :: "nat \<Rightarrow> nat \<Rightarrow> rpos \<Rightarrow> nat" where
  "group_nat d n t = (case rx_group n t of
      None \<Rightarrow> d | Some s \<Rightarrow> nat_of_digits (dropWhile py_isspace s))"

text \<open>\<open>datetime.strptime\<close>: the match must reach the end of the text, and the fields be a date.\<close>

definition strptime :: "rx \<Rightarrow> string \<Rightarrow> int option" where
  "strptime fmt s = (case rx_match True fmt s of
       None \<Rightarrow> None
     | Some t \<Rightarrow> if fst (snd t) \<noteq> [] then None
         else mk_dt \<lparr>cy = group_nat 1900 1 t, cmo = group_nat 1 2 t, cd = group_nat 1 3 t,
                     ch = group_nat 0 4 t, cmi = group_nat 0 5 t, csec = group_nat 0 6 t, cus = 0\<rparr>)"

fun first_some :: "('a \<Rightarrow> 'b option) \<Rightarrow> 'a list \<Rightarrow> 'b option" where
  "first_some f [] = None"
| "first_some f (x # xs) = (case f x of None \<Rightarrow> first_some f xs | Some y \<Rightarrow> Some y)"

definition parse_ts :: "string \<Rightarrow> query_exc + int" where
  "parse_ts s = (let s' = py_strip s in
     case first_some (\<lambda>fmt. strptime fmt s') ts_fmts of
       None \<Rightarrow> Inl (BadTimestamp s') | Some t \<Rightarrow> Inr t)"

definition dur_rx :: rx where
  "dur_rx = RSeqs [RBegin, RStar (RSet [CSpace]), RGroup 1 (RPlus (RSet [CDigit])), RStar (RSet [CSpace]),
     RGroup 2 (RStrs [''s'', ''sec'', ''second'', ''m'', ''min'', ''minute'', ''h'', ''hr'', ''hour'', ''d'', ''day'']),
     ROpt (RLit CHR ''s''), RStar (RSet [CSpace]), REnd]"

text \<open>\<open>timedelta(...)\<close> of \<open>n\<close> units.\<close>

definition delta_of :: "nat \<Rightarrow> int \<Rightarrow> query_exc + int" where
  "delta_of n unit_us = (case mk_delta (int n * unit_us) of None \<Rightarrow> Inl OverflowExc | Some d \<Rightarrow> Inr d)"

definition parse_duration :: "string \<Rightarrow> query_exc + int" where
  "parse_duration s = (case rx_match True dur_rx s of
       None \<Rightarrow> Inl (BadDuration s)
     | Some t \<Rightarrow>
         let n = group_nat 0 1 t;
             u = (case rx_group 2 t of None \<Rightarrow> [] | Some x \<Rightarrow> py_lower x)
         in if prefix ''s'' u then delta_of n 1000000
            else if prefix ''m'' u \<and> \<not> prefix ''mo'' u then delta_of n 60000000
            else if prefix ''h'' u then delta_of n 3600000000
            else if prefix ''d'' u then delta_of n 86400000000
            else Inl (BadDuration s))"

definition shift_ts :: "int \<Rightarrow> int \<Rightarrow> query_exc + int" where
  "shift_ts t d = (case dt_shift t d of None \<Rightarrow> Inl OverflowExc | Some u \<Rightarrow> Inr u)"

definition window :: "int \<Rightarrow> int \<Rightarrow> query_exc + query_node" where
  "window centre d = res_bind (shift_ts centre (- d))
     (\<lambda>lo. res_bind (shift_ts centre d) (\<lambda>hi. Inr (TimeRange lo hi)))"

definition window_seps :: "string list" where
  "window_seps = [[CHR 0xB1], ''+-'', ''+/-'']"

definition parse_time :: "string \<Rightarrow> query_exc + query_node" where
  "parse_time v0 = (let v = py_strip v0 in
     if occurs ''..'' v then
       (case partition_at ''..'' v of (left, _, right) \<Rightarrow>
          res_bind (parse_ts left) (\<lambda>t. res_bind (parse_ts right) (\<lambda>u.
            Inr (if u < t then TimeRange u t else TimeRange t u))))
     else (case filter (\<lambda>sep. occurs sep v) window_seps of
         sep # _ \<Rightarrow> (case partition_at sep v of (left, _, right) \<Rightarrow>
            res_bind (parse_ts left) (\<lambda>c. res_bind (parse_duration right) (\<lambda>d. window c d)))
       | [] \<Rightarrow> res_bind (parse_ts v) (\<lambda>c.
            res_bind (shift_ts c 1000000) (\<lambda>e. Inr (TimeRange c e)))))"

section \<open>Atoms\<close>

datatype field_mode = Equals | Contains

definition direct_fields :: "(string \<times> string \<times> field_mode) list" where
  "direct_fields =
     [(''component'', ''component'', Equals), (''level'', ''level'', Equals), (''pid'', ''pid'', Equals),
      (''tid'', ''tid'', Equals), (''session_id'', ''session_id'', Contains), (''host'', ''host'', Contains),
      (''source_file'', ''source_file'', Contains)]"

definition enclosed :: "char \<Rightarrow> string \<Rightarrow> bool" where
  "enclosed d s = (2 \<le> length s \<and> hd s = d \<and> last s = d)"

definition inner :: "string \<Rightarrow> string" where
  "inner s = butlast (tl s)"

definition parse_field :: "(string \<Rightarrow> bool) \<Rightarrow> string \<Rightarrow> string \<Rightarrow> query_exc + query_node" where
  "parse_field rx_ok key v0 = (let v = (if enclosed quote_ch v0 then inner v0 else v0) in
     case dict_get direct_fields key of
       Some (attr, Equals) \<Rightarrow> Inr (FieldEquals attr v)
     | Some (attr, Contains) \<Rightarrow> Inr (FieldContains attr v)
     | None \<Rightarrow>
        if key = ''contains'' then Inr (TextMatch v)
        else if key = ''re'' then
          (if rx_ok v then Inr (RegexMatch v) else Inl (BadRegex v))
        else if key = ''time'' then parse_time v
        else if key = ''event'' then
          (if dict_get event_patterns (py_strip v) = None then Inl (UnknownEvent (py_strip v))
           else Inr (EventMatch (py_strip v)))
        else if key = ''err_code'' then
          (case py_int v of None \<Rightarrow> Inl (BadErrCode v) | Some n \<Rightarrow> Inr (ErrCodeMatch n))
        else if key = ''code'' then Inr (CodeMatch (py_strip v))
        else Inl (UnknownField key))"

definition unescape :: "string \<Rightarrow> string" where
  "unescape s = replace_all [back_ch, back_ch] [back_ch] (replace_all [back_ch, quote_ch] [quote_ch] s)"

definition parse_atom_token :: "(string \<Rightarrow> bool) \<Rightarrow> string \<Rightarrow> query_exc + query_node" where
  "parse_atom_token rx_ok text =
     (if enclosed CHR ''/'' text then
        (if rx_ok (inner text) then Inr (RegexMatch (inner text)) else Inl (BadRegex (inner text)))
      else if enclosed quote_ch text then Inr (TextMatch (unescape (inner text)))
      else case partition_at '':'' text of (key, sep, v) \<Rightarrow>
        if sep \<noteq> [] \<and> key \<noteq> [] \<and> v \<noteq> [] then parse_field rx_ok (py_lower key) v
        else Inr (TextMatch text))"

section \<open>The parser\<close>

definition mk_or :: "query_node list \<Rightarrow> query_node" where
  "mk_or ns = (case ns of [n] \<Rightarrow> n | _ \<Rightarrow> OrNode ns)"

definition mk_and :: "query_node list \<Rightarrow> query_node" where
  "mk_and ns = (case ns of [n] \<Rightarrow> n | _ \<Rightarrow> AndNode ns)"

lemma mk_single [simp]: "mk_or [n] = n" "mk_and [n] = n"
  by (simp_all add: mk_or_def mk_and_def)

type_synonym 'a pres = "query_exc + 'a \<times> token list"

text \<open>
  \<open>self.tokens[self.pos:]\<close> is the token list each function takes, and returns what is
  left of; \<open>_peek\<close> reads its head and \<open>_consume\<close> drops it.  The recursion of the source
  is not structural.  The functions below \<open>_parse_unary\<close> take it as an argument \<open>u\<close>;
  each loop has fuel for one round per token, and \<open>_parse_unary\<close> fuel for one nesting per
  token, of which none ever runs out.
\<close>

definition peek :: "token list \<Rightarrow> token option" where
  "peek ts = (case ts of [] \<Rightarrow> None | t # _ \<Rightarrow> Some t)"

definition consume :: "token list \<Rightarrow> token list" where
  "consume ts = tl ts"

fun is_atom :: "token option \<Rightarrow> bool" where
  "is_atom (Some (ATOM _)) = True"
| "is_atom _ = False"

text \<open>The last two branches of \<open>_parse_atom\<close>: an atom, or a token that is not one.\<close>

definition leaf_or_error :: "(string \<Rightarrow> query_exc + query_node) \<Rightarrow> token list \<Rightarrow> query_node pres" where
  "leaf_or_error leaf ts = (case peek ts of
       None \<Rightarrow> Inl ExpectedAtom
     | Some (ATOM text) \<Rightarrow> res_bind (leaf text) (\<lambda>node. Inr (node, consume ts))
     | Some t \<Rightarrow> Inl (UnexpectedToken (tok_text t)))"

definition close_paren :: "query_node \<times> token list \<Rightarrow> query_node pres" where
  "close_paren r = (if peek (snd r) = Some RPAREN then Inr (fst r, consume (snd r)) else Inl MissingParen)"

fun and_loop :: "(token list \<Rightarrow> query_node pres) \<Rightarrow> nat \<Rightarrow> token list \<Rightarrow> query_node list pres" where
  "and_loop u 0 ts = Inl NoFuel"
| "and_loop u (Suc k) ts =
     (if peek ts = None then Inr ([], ts)
      else if peek ts = Some AND then
        res_bind (u (consume ts)) (\<lambda>c. res_bind (and_loop u k (snd c))
          (\<lambda>r. Inr (fst c # fst r, snd r)))
      else if is_atom (peek ts) \<or> peek ts = Some NOT \<or> peek ts = Some LPAREN then
        res_bind (u ts) (\<lambda>c. res_bind (and_loop u k (snd c))
          (\<lambda>r. Inr (fst c # fst r, snd r)))
      else Inr ([], ts))"

definition p_and :: "(token list \<Rightarrow> query_node pres) \<Rightarrow> token list \<Rightarrow> query_node pres" where
  "p_and u ts = res_bind (u ts) (\<lambda>c.
     res_bind (and_loop u (Suc (length (snd c))) (snd c)) (\<lambda>r. Inr (mk_and (fst c # fst r), snd r)))"

fun or_loop :: "(token list \<Rightarrow> query_node pres) \<Rightarrow> nat \<Rightarrow> token list \<Rightarrow> query_node list pres" where
  "or_loop u 0 ts = Inl NoFuel"
| "or_loop u (Suc k) ts =
     (if peek ts = Some OR then
        res_bind (p_and u (consume ts)) (\<lambda>c. res_bind (or_loop u k (snd c))
          (\<lambda>r. Inr (fst c # fst r, snd r)))
      else Inr ([], ts))"

definition p_or :: "(token list \<Rightarrow> query_node pres) \<Rightarrow> token list \<Rightarrow> query_node pres" where
  "p_or u ts = res_bind (p_and u ts) (\<lambda>c.
     res_bind (or_loop u (Suc (length (snd c))) (snd c)) (\<lambda>r. Inr (mk_or (fst c # fst r), snd r)))"

definition p_atom :: "(string \<Rightarrow> query_exc + query_node) \<Rightarrow> (token list \<Rightarrow> query_node pres)
    \<Rightarrow> token list \<Rightarrow> query_node pres" where
  "p_atom leaf u ts =
     (if peek ts = Some LPAREN then res_bind (p_or u (consume ts)) close_paren
      else leaf_or_error leaf ts)"

fun p_unary :: "(string \<Rightarrow> query_exc + query_node) \<Rightarrow> nat \<Rightarrow> token list \<Rightarrow> query_node pres" where
  "p_unary leaf 0 ts = Inl NoFuel"
| "p_unary leaf (Suc n) ts =
     (if peek ts = None then Inl UnexpectedEnd
      else if peek ts = Some NOT then
        res_bind (p_unary leaf n (consume ts)) (\<lambda>c. Inr (NotNode (fst c), snd c))
      else p_atom leaf (p_unary leaf n) ts)"

definition parse_tokens :: "(string \<Rightarrow> query_exc + query_node) \<Rightarrow> token list \<Rightarrow> query_exc + query_node" where
  "parse_tokens leaf ts = res_bind (p_or (p_unary leaf (Suc (length ts))) ts) (\<lambda>r.
     (case peek (snd r) of None \<Rightarrow> Inr (fst r) | Some t \<Rightarrow> Inl (TrailingToken (tok_text t))))"

definition parse_query :: "(string \<Rightarrow> bool) \<Rightarrow> string \<Rightarrow> query_exc + query_node" where
  "parse_query rx_ok q =
     (if q = [] \<or> py_strip q = [] then Inl EmptyQuery
      else res_bind (tokenize q) (\<lambda>ts.
        if ts = [] then Inl EmptyQuery else parse_tokens (parse_atom_token rx_ok) ts))"

section \<open>The evaluator\<close>

text \<open>What the generator \<open>find_matches\<close> yields, with the count it keeps and its early return.\<close>

fun yield_matches :: "(string \<Rightarrow> string \<Rightarrow> bool) \<Rightarrow> query_node \<Rightarrow> nat option \<Rightarrow> nat \<Rightarrow> line list \<Rightarrow> line list" where
  "yield_matches rx_srch node limit yielded [] = []"
| "yield_matches rx_srch node limit yielded (l # ls) =
     (if matches rx_srch node l then
        l # (case limit of
               Some n \<Rightarrow> if n \<le> Suc yielded then [] else yield_matches rx_srch node limit (Suc yielded) ls
             | None \<Rightarrow> yield_matches rx_srch node limit (Suc yielded) ls)
      else yield_matches rx_srch node limit yielded ls)"

definition find_matches :: "(string \<Rightarrow> bool) \<Rightarrow> (string \<Rightarrow> string \<Rightarrow> bool) \<Rightarrow> line list \<Rightarrow> string \<Rightarrow> nat option \<Rightarrow> query_exc + line list" where
  "find_matches rx_ok rx_srch ls q limit =
     res_bind (parse_query rx_ok q) (\<lambda>node. Inr (yield_matches rx_srch node limit 0 ls))"

end
