(* ===== verification/Query_Grammar.thy ===== *)
theory Query_Grammar
  imports Query_Lang
begin

text \<open>
  The documented grammar of the query language as an inductive definition, and the proof
  that the recursive-descent parser of \<open>Query_Lang\<close> accepts exactly its sentences with
  exactly their trees; totality of the parser; the round trip of quoted text; and the
  evaluator against its specification as a filter.
\<close>

section \<open>The grammar\<close>

text \<open>
  \<open>g_ands\<close> and \<open>g_ors\<close> derive the operand lists of \<open>and_expr\<close> and \<open>or_expr\<close>; the operator
  \<open>AND\<close> may be left out.
\<close>

inductive g_unary :: "(string \<Rightarrow> query_exc + query_node) \<Rightarrow> token list \<Rightarrow> query_node \<Rightarrow> bool"
  and g_ands :: "(string \<Rightarrow> query_exc + query_node) \<Rightarrow> token list \<Rightarrow> query_node list \<Rightarrow> bool"
  and g_ors :: "(string \<Rightarrow> query_exc + query_node) \<Rightarrow> token list \<Rightarrow> query_node list \<Rightarrow> bool"
  for leaf :: "string \<Rightarrow> query_exc + query_node" where
  g_atom: "leaf t = Inr c \<Longrightarrow> g_unary leaf [ATOM t] c"
| g_not: "g_unary leaf ts c \<Longrightarrow> g_unary leaf (NOT # ts) (NotNode c)"
| g_paren: "g_ors leaf ts ns \<Longrightarrow> g_unary leaf (LPAREN # ts @ [RPAREN]) (mk_or ns)"
| g_and_one: "g_unary leaf ts c \<Longrightarrow> g_ands leaf ts [c]"
| g_and_imp: "g_unary leaf ts c \<Longrightarrow> g_ands leaf us cs \<Longrightarrow> g_ands leaf (ts @ us) (c # cs)"
| g_and_exp: "g_unary leaf ts c \<Longrightarrow> g_ands leaf us cs \<Longrightarrow> g_ands leaf (ts @ AND # us) (c # cs)"
| g_or_one: "g_ands leaf ts cs \<Longrightarrow> g_ors leaf ts [mk_and cs]"
| g_or_more: "g_ands leaf ts cs \<Longrightarrow> g_ors leaf us ms \<Longrightarrow> g_ors leaf (ts @ OR # us) (mk_and cs # ms)"

definition g_query :: "(string \<Rightarrow> query_exc + query_node) \<Rightarrow> token list \<Rightarrow> query_node \<Rightarrow> bool" where
  "g_query leaf ts node = (\<exists>ns. g_ors leaf ts ns \<and> node = mk_or ns)"

lemma peek_simps [simp]: "peek [] = None" "peek (t # ts) = Some t"
  by (simp_all add: peek_def)

lemma consume_simp [simp]: "consume (t # ts) = ts"
  by (simp add: consume_def)

lemma peek_eq_Some: "peek ts = Some t \<longleftrightarrow> (\<exists>us. ts = t # us)"
  by (cases ts) auto

lemma is_atom_iff: "is_atom x \<longleftrightarrow> (\<exists>t. x = Some (ATOM t))"
  by (cases x rule: is_atom.cases) auto

section \<open>The parser returns only sentences of the grammar\<close>

definition sound_u :: "(string \<Rightarrow> query_exc + query_node) \<Rightarrow> (token list \<Rightarrow> query_node pres) \<Rightarrow> bool" where
  "sound_u leaf u = (\<forall>ts c rest. u ts = Inr (c, rest) \<longrightarrow> (\<exists>pre. ts = pre @ rest \<and> g_unary leaf pre c))"

lemma sound_uE:
  assumes "sound_u leaf u" "u ts = Inr r"
  obtains pre where "ts = pre @ snd r" "g_unary leaf pre (fst r)"
  using assms by (metis sound_u_def prod.collapse)

lemma and_loop_sound:
  assumes u: "sound_u leaf u"
  shows "g_unary leaf pre0 c \<Longrightarrow> and_loop u k ts = Inr r \<Longrightarrow>
    \<exists>pre. ts = pre @ snd r \<and> g_ands leaf (pre0 @ pre) (c # fst r)"
proof (induction k arbitrary: pre0 c ts r)
  case 0
  then show ?case by simp
next
  case (Suc k)
  have step: "\<exists>pre. us = pre @ snd r \<and> (\<exists>p. g_ands leaf pre p \<and> p = fst r)"
    if "res_bind (u us) (\<lambda>d. res_bind (and_loop u k (snd d)) (\<lambda>q. Inr (fst d # fst q, snd q))) = Inr r" for us
  proof -
    from that obtain d q where d: "u us = Inr d" and q: "and_loop u k (snd d) = Inr q"
      and r: "r = (fst d # fst q, snd q)" by (auto simp: res_bind_eq_Inr)
    from u d obtain p1 where p1: "us = p1 @ snd d" "g_unary leaf p1 (fst d)" by (rule sound_uE)
    from Suc.IH [OF p1(2) q] p1(1) r show ?thesis by auto
  qed
  show ?case
  proof (cases "peek ts = Some AND")
    case True
    then obtain us where ts: "ts = AND # us" by (auto simp: peek_eq_Some)
    with Suc.prems(2) step [of us] obtain pre where "us = pre @ snd r" "g_ands leaf pre (fst r)"
      by auto
    then show ?thesis using ts g_and_exp [OF Suc.prems(1)] by (intro exI [of _ "AND # pre"]) simp
  next
    case False
    show ?thesis
    proof (cases "fst r = [] \<and> snd r = ts")
      case True
      then show ?thesis using Suc.prems(1) by (intro exI [of _ "[]"]) (simp add: g_and_one)
    next
      case False2: False
      with False Suc.prems(2) step [of ts] obtain pre where "ts = pre @ snd r" "g_ands leaf pre (fst r)"
        by (auto split: if_splits)
      then show ?thesis using g_and_imp [OF Suc.prems(1)] by auto
    qed
  qed
qed

lemma p_and_sound:
  assumes u: "sound_u leaf u" and r: "p_and u ts = Inr r"
  shows "\<exists>pre cs. ts = pre @ snd r \<and> g_ands leaf pre cs \<and> fst r = mk_and cs"
proof -
  from r obtain c q where c: "u ts = Inr c" and q: "and_loop u (Suc (length (snd c))) (snd c) = Inr q"
    and r': "r = (mk_and (fst c # fst q), snd q)" by (auto simp: p_and_def res_bind_eq_Inr)
  from u c obtain p where p: "ts = p @ snd c" "g_unary leaf p (fst c)" by (rule sound_uE)
  from and_loop_sound [OF u p(2) q] obtain p2 where "snd c = p2 @ snd q" "g_ands leaf (p @ p2) (fst c # fst q)"
    by blast
  with p(1) r' show ?thesis by (intro exI [of _ "p @ p2"]) auto
qed

lemma or_loop_sound:
  assumes u: "sound_u leaf u"
  shows "g_ands leaf pre0 cs \<Longrightarrow> or_loop u k ts = Inr r \<Longrightarrow>
    \<exists>pre. ts = pre @ snd r \<and> g_ors leaf (pre0 @ pre) (mk_and cs # fst r)"
proof (induction k arbitrary: pre0 cs ts r)
  case 0
  then show ?case by simp
next
  case (Suc k)
  show ?case
  proof (cases "peek ts = Some OR")
    case True
    then obtain us where ts: "ts = OR # us" by (auto simp: peek_eq_Some)
    with Suc.prems(2) obtain c q where c: "p_and u us = Inr c" and q: "or_loop u k (snd c) = Inr q"
      and r: "r = (fst c # fst q, snd q)" by (auto simp: res_bind_eq_Inr)
    from p_and_sound [OF u c] obtain p ds where p: "us = p @ snd c" "g_ands leaf p ds" "fst c = mk_and ds"
      by blast
    from Suc.IH [OF p(2) q] obtain p2 where "snd c = p2 @ snd q" "g_ors leaf (p @ p2) (mk_and ds # fst q)"
      by blast
    with ts p r g_or_more [OF Suc.prems(1), of "p @ p2"] show ?thesis
      by (intro exI [of _ "OR # p @ p2"]) auto
  next
    case False
    with Suc.prems show ?thesis by (auto simp: g_or_one)
  qed
qed

lemma p_or_sound:
  assumes u: "sound_u leaf u" and r: "p_or u ts = Inr r"
  shows "\<exists>pre ns. ts = pre @ snd r \<and> g_ors leaf pre ns \<and> fst r = mk_or ns"
proof -
  from r obtain c q where c: "p_and u ts = Inr c" and q: "or_loop u (Suc (length (snd c))) (snd c) = Inr q"
    and r': "r = (mk_or (fst c # fst q), snd q)" by (auto simp: p_or_def res_bind_eq_Inr)
  from p_and_sound [OF u c] obtain p ds where p: "ts = p @ snd c" "g_ands leaf p ds" "fst c = mk_and ds"
    by blast
  from or_loop_sound [OF u p(2) q] obtain p2 where "snd c = p2 @ snd q" "g_ors leaf (p @ p2) (mk_and ds # fst q)"
    by blast
  with p r' show ?thesis by (intro exI [of _ "p @ p2"]) auto
qed

lemma p_atom_sound:
  assumes u: "sound_u leaf u" and r: "p_atom leaf u ts = Inr r"
  shows "\<exists>pre. ts = pre @ snd r \<and> g_unary leaf pre (fst r)"
proof (cases "peek ts = Some LPAREN")
  case True
  then obtain us where ts: "ts = LPAREN # us" by (auto simp: peek_eq_Some)
  with r obtain q where q: "p_or u us = Inr q" and cl: "close_paren q = Inr r"
    by (auto simp: p_atom_def res_bind_eq_Inr)
  from cl obtain vs where vs: "snd q = RPAREN # vs" "r = (fst q, vs)"
    by (auto simp: close_paren_def peek_eq_Some split: if_splits)
  from p_or_sound [OF u q] obtain p ns where "us = p @ snd q" "g_ors leaf p ns" "fst q = mk_or ns"
    by blast
  with vs ts g_paren [of leaf p ns] show ?thesis by (intro exI [of _ "LPAREN # p @ [RPAREN]"]) auto
next
  case False
  then obtain t us c where "ts = ATOM t # us" "leaf t = Inr c" "r = (c, us)"
    using r by (cases ts) (auto simp: p_atom_def leaf_or_error_def res_bind_eq_Inr split: token.splits)
  then show ?thesis by (intro exI [of _ "[ATOM t]"]) (simp add: g_atom)
qed

lemma p_unary_sound: "sound_u leaf (p_unary leaf n)"
proof (induction n)
  case 0
  then show ?case by (simp add: sound_u_def)
next
  case (Suc n)
  have "\<exists>pre. ts = pre @ snd r \<and> g_unary leaf pre (fst r)" if r: "p_unary leaf (Suc n) ts = Inr r" for ts r
  proof (cases "peek ts = Some NOT")
    case True
    then obtain us where ts: "ts = NOT # us" by (auto simp: peek_eq_Some)
    with r obtain c where c: "p_unary leaf n us = Inr c" and r': "r = (NotNode (fst c), snd c)"
      by (auto simp: res_bind_eq_Inr)
    from Suc.IH c obtain pre where "us = pre @ snd c" "g_unary leaf pre (fst c)" by (rule sound_uE)
    with ts r' show ?thesis by (intro exI [of _ "NOT # pre"]) (simp add: g_not)
  next
    case False
    with r have "p_atom leaf (p_unary leaf n) ts = Inr r" by (auto split: if_splits)
    then show ?thesis by (rule p_atom_sound [OF Suc.IH])
  qed
  then show ?case by (auto simp: sound_u_def)
qed

section \<open>The parser returns every sentence of the grammar\<close>

definition and_stop :: "token list \<Rightarrow> bool" where
  "and_stop ts = (ts = [] \<or> peek ts = Some OR \<or> peek ts = Some RPAREN)"

definition or_stop :: "token list \<Rightarrow> bool" where
  "or_stop ts = (ts = [] \<or> peek ts = Some RPAREN)"

lemma g_unary_head:
  "g_unary leaf ts c \<Longrightarrow> (\<exists>us. ts = NOT # us) \<or> (\<exists>us. ts = LPAREN # us) \<or> (\<exists>t us. ts = ATOM t # us)"
  by (auto elim: g_unary.cases)

lemma g_ands_head:
  "g_ands leaf ts cs \<Longrightarrow> (\<exists>us. ts = NOT # us) \<or> (\<exists>us. ts = LPAREN # us) \<or> (\<exists>t us. ts = ATOM t # us)"
  by (cases rule: g_ands.cases) (auto dest: g_unary_head)

text \<open>
  \<open>and_done u ts cs rest\<close>: on \<open>ts\<close> the operand parser \<open>u\<close> and then the loop, with any
  fuel that covers what is left, return the operands \<open>cs\<close> and leave \<open>rest\<close>.
\<close>

definition and_done :: "(token list \<Rightarrow> query_node pres) \<Rightarrow> token list \<Rightarrow> query_node list \<Rightarrow> token list \<Rightarrow> bool" where
  "and_done u ts cs rest = (\<exists>c mid ds. u ts = Inr (c, mid) \<and> cs = c # ds \<and> length mid < length ts
     \<and> (\<forall>k. length mid < k \<longrightarrow> and_loop u k mid = Inr (ds, rest)))"

definition or_done :: "(token list \<Rightarrow> query_node pres) \<Rightarrow> token list \<Rightarrow> query_node list \<Rightarrow> token list \<Rightarrow> bool" where
  "or_done u ts ms rest = (\<exists>c mid ds. p_and u ts = Inr (c, mid) \<and> ms = c # ds \<and> length mid < length ts
     \<and> (\<forall>k. length mid < k \<longrightarrow> or_loop u k mid = Inr (ds, rest)))"

lemma and_done_p_and: "and_done u ts cs rest \<Longrightarrow> p_and u ts = Inr (mk_and cs, rest)"
  by (auto simp: and_done_def p_and_def simp del: and_loop.simps)

lemma or_done_p_or: "or_done u ts ms rest \<Longrightarrow> p_or u ts = Inr (mk_or ms, rest)"
  by (auto simp: or_done_def p_or_def simp del: or_loop.simps)

lemma and_done_length: "and_done u ts cs rest \<Longrightarrow> u ts = Inr (c, mid) \<Longrightarrow> length mid < length ts"
  by (auto simp: and_done_def)

lemma and_loop_stop: "and_stop ts \<Longrightarrow> 0 < k \<Longrightarrow> and_loop u k ts = Inr ([], ts)"
  by (cases k) (auto simp: and_stop_def)

lemma and_loop_done:
  assumes "and_done u ts cs rest"
  shows "length ts < k \<Longrightarrow> and_loop u (Suc k) (AND # ts) = Inr (cs, rest)"
    and "(\<exists>us. ts = NOT # us) \<or> (\<exists>us. ts = LPAREN # us) \<or> (\<exists>t us. ts = ATOM t # us) \<Longrightarrow>
      length ts \<le> k \<Longrightarrow> and_loop u (Suc k) ts = Inr (cs, rest)"
  using assms by (auto simp: and_done_def)

lemma or_loop_stop: "or_stop ts \<Longrightarrow> 0 < k \<Longrightarrow> or_loop u k ts = Inr ([], ts)"
  by (cases k) (auto simp: or_stop_def)

lemma or_loop_done:
  "or_done u ts ms rest \<Longrightarrow> length ts < k \<Longrightarrow> or_loop u (Suc k) (OR # ts) = Inr (ms, rest)"
  by (auto simp: or_done_def)

lemma and_done_one:
  "u (ts @ rest) = Inr (c, rest) \<Longrightarrow> ts \<noteq> [] \<Longrightarrow> and_stop rest \<Longrightarrow> and_done u (ts @ rest) [c] rest"
  by (auto simp: and_done_def and_loop_stop)

lemma and_done_more:
  assumes "u (ts @ us) = Inr (c, us)" "ts \<noteq> []" "and_done u us cs rest"
    and "(\<exists>vs. us = NOT # vs) \<or> (\<exists>vs. us = LPAREN # vs) \<or> (\<exists>t vs. us = ATOM t # vs)"
  shows "and_done u (ts @ us) (c # cs) rest"
proof -
  have "and_loop u k us = Inr (cs, rest)" if "length us < k" for k
    using that and_loop_done(2) [OF assms(3,4), of "k - 1"] by (cases k) auto
  with assms(1,2) show ?thesis unfolding and_done_def by auto
qed

lemma and_done_AND:
  assumes "u (ts @ AND # us) = Inr (c, AND # us)" "ts \<noteq> []" "and_done u us cs rest"
  shows "and_done u (ts @ AND # us) (c # cs) rest"
proof -
  have "and_loop u k (AND # us) = Inr (cs, rest)" if "Suc (length us) < k" for k
    using that and_loop_done(1) [OF assms(3), of "k - 1"] by (cases k) auto
  with assms(1,2) show ?thesis unfolding and_done_def by auto
qed

lemma or_done_one:
  assumes "and_done u (ts @ rest) cs rest" "ts \<noteq> []" "or_stop rest"
  shows "or_done u (ts @ rest) [mk_and cs] rest"
  using and_done_p_and [OF assms(1)] assms(2,3) by (auto simp: or_done_def or_loop_stop)

lemma or_done_more:
  assumes "and_done u (ts @ OR # us) cs (OR # us)" "ts \<noteq> []" "or_done u us ms rest"
  shows "or_done u (ts @ OR # us) (mk_and cs # ms) rest"
proof -
  have "or_loop u k (OR # us) = Inr (ms, rest)" if "Suc (length us) < k" for k
    using that or_loop_done [OF assms(3), of "k - 1"] by (cases k) auto
  with and_done_p_and [OF assms(1)] assms(2) show ?thesis unfolding or_done_def by auto
qed

lemma g_nonempty:
  "g_unary leaf ts c \<Longrightarrow> ts \<noteq> []" "g_ands leaf us cs \<Longrightarrow> us \<noteq> []" "g_ors leaf vs ms \<Longrightarrow> vs \<noteq> []"
  by (induction rule: g_unary_g_ands_g_ors.inducts) auto

lemma grammar_complete:
  shows "g_unary leaf ts c \<Longrightarrow>
      (\<And>n rest. length ts \<le> n \<Longrightarrow> p_unary leaf n (ts @ rest) = Inr (c, rest))"
    and "g_ands leaf us cs \<Longrightarrow>
      (\<And>n rest. length us \<le> n \<Longrightarrow> and_stop rest \<Longrightarrow> and_done (p_unary leaf n) (us @ rest) cs rest)"
    and "g_ors leaf vs ms \<Longrightarrow>
      (\<And>n rest. length vs \<le> n \<Longrightarrow> or_stop rest \<Longrightarrow> or_done (p_unary leaf n) (vs @ rest) ms rest)"
proof (induction rule: g_unary_g_ands_g_ors.inducts)
  case (g_atom t c)
  then obtain m where "n = Suc m" by (cases n) auto
  then show ?case using g_atom by (simp add: p_atom_def leaf_or_error_def)
next
  case (g_not ts c)
  then obtain m where "n = Suc m" "length ts \<le> m" by (cases n) auto
  then show ?case using g_not.IH by simp
next
  case (g_paren ts ns)
  then obtain m where m: "n = Suc m" "length ts \<le> m" by (cases n) auto
  then have "or_done (p_unary leaf m) (ts @ RPAREN # rest) ns (RPAREN # rest)"
    using g_paren.IH by (simp add: or_stop_def)
  then show ?case using m(1) by (simp add: p_atom_def close_paren_def or_done_p_or)
next
  case (g_and_one ts c)
  then show ?case by (simp add: and_done_one g_nonempty)
next
  case (g_and_imp ts c us cs)
  then have "p_unary leaf n (ts @ us @ rest) = Inr (c, us @ rest)"
    and "and_done (p_unary leaf n) (us @ rest) cs rest" by simp_all
  moreover have "ts \<noteq> []" by (rule g_nonempty(1) [OF g_and_imp(1)])
  ultimately have "and_done (p_unary leaf n) (ts @ us @ rest) (c # cs) rest"
    using g_ands_head [OF g_and_imp(3)] by (intro and_done_more) auto
  then show ?case by simp
next
  case (g_and_exp ts c us cs)
  then have "p_unary leaf n (ts @ AND # us @ rest) = Inr (c, AND # us @ rest)"
    and "and_done (p_unary leaf n) (us @ rest) cs rest" by simp_all
  then have "and_done (p_unary leaf n) (ts @ AND # us @ rest) (c # cs) rest"
    using g_nonempty(1) [OF g_and_exp(1)] by (intro and_done_AND) auto
  then show ?case by simp
next
  case (g_or_one ts cs)
  from g_or_one(1) have "ts \<noteq> []" by (rule g_nonempty(2))
  with g_or_one show ?case by (auto intro!: or_done_one simp: and_stop_def or_stop_def)
next
  case (g_or_more ts cs us ms)
  then have "and_done (p_unary leaf n) (ts @ OR # us @ rest) cs (OR # us @ rest)"
    and "or_done (p_unary leaf n) (us @ rest) ms rest" by (simp_all add: and_stop_def)
  then have "or_done (p_unary leaf n) (ts @ OR # us @ rest) (mk_and cs # ms) rest"
    using g_nonempty(2) [OF g_or_more(1)] by (intro or_done_more) auto
  then show ?case by simp
qed

text \<open>
  C3: the parser implements the documented grammar: a token list has a parse exactly
  when it is a sentence, and the tree returned is the sentence's.
\<close>

theorem parse_tokens_iff_grammar: "parse_tokens leaf ts = Inr node \<longleftrightarrow> g_query leaf ts node"
proof
  assume "parse_tokens leaf ts = Inr node"
  then obtain r where r: "p_or (p_unary leaf (Suc (length ts))) ts = Inr r"
    and e: "snd r = []" "node = fst r"
    by (auto simp: parse_tokens_def res_bind_eq_Inr peek_def split: option.splits list.splits)
  from p_or_sound [OF p_unary_sound r] e show "g_query leaf ts node" by (auto simp: g_query_def)
next
  assume "g_query leaf ts node"
  then obtain ns where g: "g_ors leaf ts ns" and n: "node = mk_or ns" by (auto simp: g_query_def)
  have "or_done (p_unary leaf (Suc (length ts))) (ts @ []) ns []"
    by (rule grammar_complete(3) [OF g]) (simp_all add: or_stop_def)
  then show "parse_tokens leaf ts = Inr node" by (simp add: parse_tokens_def or_done_p_or n)
qed

section \<open>The parser always returns\<close>

definition fuel_ok :: "nat \<Rightarrow> (token list \<Rightarrow> query_node pres) \<Rightarrow> bool" where
  "fuel_ok b u = (\<forall>ts. length ts \<le> b \<longrightarrow> u ts \<noteq> Inl NoFuel)"

lemma sound_u_shorter: "sound_u leaf u \<Longrightarrow> u ts = Inr r \<Longrightarrow> length (snd r) < length ts"
  by (erule (1) sound_uE) (auto dest: g_nonempty(1))

lemma and_loop_fuel:
  assumes "sound_u leaf u" "fuel_ok b u"
  shows "length ts < k \<Longrightarrow> length ts \<le> b \<Longrightarrow> and_loop u k ts \<noteq> Inl NoFuel"
proof (induction k arbitrary: ts)
  case 0
  then show ?case by simp
next
  case (Suc k)
  have rec: "res_bind (u us) (\<lambda>c. res_bind (and_loop u k (snd c)) (\<lambda>r. Inr (fst c # fst r, snd r))) \<noteq> Inl NoFuel"
    if "length us \<le> length ts" for us
  proof (cases "u us")
    case (Inl e)
    with that assms(2) Suc.prems(2) show ?thesis by (auto simp: fuel_ok_def)
  next
    case (Inr c)
    then have "length (snd c) < length us" by (rule sound_u_shorter [OF assms(1)])
    then have "and_loop u k (snd c) \<noteq> Inl NoFuel" using that Suc by simp
    with Inr show ?thesis by (auto simp: res_bind_eq_Inl)
  qed
  have "length (consume ts) \<le> length ts" by (simp add: consume_def)
  then show ?case using rec [of ts] rec [of "consume ts"] by auto
qed

lemma p_and_fuel:
  assumes "sound_u leaf u" "fuel_ok b u" "length ts \<le> b"
  shows "p_and u ts \<noteq> Inl NoFuel"
proof (cases "u ts")
  case (Inl e)
  with assms show ?thesis by (auto simp: fuel_ok_def p_and_def)
next
  case (Inr c)
  then have "length (snd c) < length ts" by (rule sound_u_shorter [OF assms(1)])
  then have "and_loop u (Suc (length (snd c))) (snd c) \<noteq> Inl NoFuel"
    using assms by (intro and_loop_fuel) auto
  with Inr show ?thesis by (auto simp: p_and_def res_bind_eq_Inl simp del: and_loop.simps)
qed

lemma p_and_shorter: "sound_u leaf u \<Longrightarrow> p_and u ts = Inr r \<Longrightarrow> length (snd r) < length ts"
  using p_and_sound by (fastforce dest: g_nonempty(2))

lemma or_loop_fuel:
  assumes "sound_u leaf u" "fuel_ok b u"
  shows "length ts < k \<Longrightarrow> length ts \<le> b \<Longrightarrow> or_loop u k ts \<noteq> Inl NoFuel"
proof (induction k arbitrary: ts)
  case 0
  then show ?case by simp
next
  case (Suc k)
  have cs: "length (consume ts) \<le> length ts" by (simp add: consume_def)
  show ?case
  proof (cases "p_and u (consume ts)")
    case (Inl e)
    moreover have "p_and u (consume ts) \<noteq> Inl NoFuel"
      by (rule p_and_fuel [OF assms]) (use Suc.prems cs in simp)
    ultimately show ?thesis by simp
  next
    case (Inr c)
    then have "length (snd c) < length (consume ts)" by (rule p_and_shorter [OF assms(1)])
    then have "or_loop u k (snd c) \<noteq> Inl NoFuel" using cs Suc by simp
    with Inr show ?thesis by (auto simp: res_bind_eq_Inl)
  qed
qed

lemma p_or_fuel:
  assumes "sound_u leaf u" "fuel_ok b u" "length ts \<le> b"
  shows "p_or u ts \<noteq> Inl NoFuel"
proof (cases "p_and u ts")
  case (Inl e)
  with p_and_fuel [OF assms] show ?thesis by (simp add: p_or_def)
next
  case (Inr c)
  then have "length (snd c) < length ts" by (rule p_and_shorter [OF assms(1)])
  then have "or_loop u (Suc (length (snd c))) (snd c) \<noteq> Inl NoFuel"
    using assms by (intro or_loop_fuel) auto
  with Inr show ?thesis by (auto simp: p_or_def res_bind_eq_Inl simp del: or_loop.simps)
qed

lemma p_unary_fuel:
  assumes leaf: "\<And>t. leaf t \<noteq> Inl NoFuel"
  shows "fuel_ok n (p_unary leaf (Suc n))"
proof (induction n)
  case 0
  then show ?case by (simp add: fuel_ok_def)
next
  case (Suc n)
  have "p_unary leaf (Suc (Suc n)) ts \<noteq> Inl NoFuel" if "length ts \<le> Suc n" for ts
  proof -
    have short: "peek ts \<noteq> None \<Longrightarrow> length (consume ts) \<le> n" using that by (cases ts) auto
    have "p_unary leaf (Suc n) (consume ts) \<noteq> Inl NoFuel" if "peek ts \<noteq> None"
      using Suc.IH short [OF that] by (simp only: fuel_ok_def) blast
    moreover have "p_or (p_unary leaf (Suc n)) (consume ts) \<noteq> Inl NoFuel" if "peek ts \<noteq> None"
      by (rule p_or_fuel [OF p_unary_sound Suc.IH short [OF that]])
    moreover have "leaf_or_error leaf ts \<noteq> Inl NoFuel"
      using leaf by (auto simp: leaf_or_error_def res_bind_eq_Inl split: option.splits token.splits)
    ultimately show ?thesis
      by (subst p_unary.simps) (auto simp: p_atom_def res_bind_eq_Inl close_paren_def simp del: p_unary.simps split: if_splits)
  qed
  then show ?case unfolding fuel_ok_def by blast
qed

lemma parse_tokens_fuel:
  assumes "\<And>t. leaf t \<noteq> Inl NoFuel"
  shows "parse_tokens leaf ts \<noteq> Inl NoFuel"
proof -
  have "p_or (p_unary leaf (Suc (length ts))) ts \<noteq> Inl NoFuel"
    by (rule p_or_fuel [OF p_unary_sound p_unary_fuel [OF assms]]) simp
  then show ?thesis by (auto simp: parse_tokens_def res_bind_eq_Inl split: option.splits)
qed

text \<open>\<open>returns r\<close>: \<open>r\<close> is not the exhausted fuel; the rules follow the shape of a definition.\<close>

definition returns :: "query_exc + 'a \<Rightarrow> bool" where
  "returns r = (r \<noteq> Inl NoFuel)"

lemma returns_Inr: "returns (Inr x)" and returns_Inl: "e \<noteq> NoFuel \<Longrightarrow> returns (Inl e)"
  by (simp_all add: returns_def)

lemma returns_if: "(p \<Longrightarrow> returns a) \<Longrightarrow> (\<not> p \<Longrightarrow> returns b) \<Longrightarrow> returns (if p then a else b)"
  by simp

lemma returns_option:
  "(x = None \<Longrightarrow> returns a) \<Longrightarrow> (\<And>y. x = Some y \<Longrightarrow> returns (f y)) \<Longrightarrow> returns (case x of None \<Rightarrow> a | Some y \<Rightarrow> f y)"
  by (cases x) auto

lemma returns_list:
  "(xs = [] \<Longrightarrow> returns a) \<Longrightarrow> (\<And>y ys. xs = y # ys \<Longrightarrow> returns (f y ys)) \<Longrightarrow> returns (case xs of [] \<Rightarrow> a | y # ys \<Rightarrow> f y ys)"
  by (cases xs) auto

lemma returns_prod: "(\<And>x y. p = (x, y) \<Longrightarrow> returns (f x y)) \<Longrightarrow> returns (case p of (x, y) \<Rightarrow> f x y)"
  by (cases p) auto

lemma returns_mode:
  "returns a \<Longrightarrow> returns b \<Longrightarrow> returns (case m of Equals \<Rightarrow> a | Contains \<Rightarrow> b)"
  by (cases m) auto

lemma returns_bind: "returns r \<Longrightarrow> (\<And>x. r = Inr x \<Longrightarrow> returns (f x)) \<Longrightarrow> returns (res_bind r f)"
  by (cases r) (auto simp: returns_def)

lemma returns_map: "returns r \<Longrightarrow> returns (map_sum id f r)"
  by (simp add: returns_def)

lemmas returns_rules = returns_Inr returns_Inl returns_if returns_option returns_list returns_prod
  returns_mode returns_bind returns_map

lemma parse_ts_returns: "returns (parse_ts s)"
  unfolding parse_ts_def Let_def by (intro returns_rules) simp_all

lemma shift_ts_returns: "returns (shift_ts t d)"
  unfolding shift_ts_def by (intro returns_rules) simp_all

lemma parse_duration_returns: "returns (parse_duration s)"
  unfolding parse_duration_def delta_of_def Let_def by (intro returns_rules) simp_all

lemma parse_time_returns: "returns (parse_time v)"
  unfolding parse_time_def window_def Let_def
  by (intro returns_rules parse_ts_returns shift_ts_returns parse_duration_returns)

lemma parse_field_returns: "returns (parse_field rx_ok k v)"
  unfolding parse_field_def Let_def by (intro returns_rules parse_time_returns) simp_all

lemma parse_atom_token_returns: "returns (parse_atom_token rx_ok t)"
  unfolding parse_atom_token_def by (intro returns_rules parse_field_returns) simp_all

lemma returns_match:
  "(\<And>b' a' g. m = Some (b', a', g) \<Longrightarrow> returns (f b' a' g)) \<Longrightarrow> e \<noteq> NoFuel \<Longrightarrow>
     returns (case m of None \<Rightarrow> Inl e | Some (b', a', g) \<Rightarrow> f b' a' g)"
  by (auto simp: returns_Inl split: option.split prod.split)

lemma tokenize_from_returns: "returns (tokenize_from b a)"
proof (induction b a rule: tokenize_from.induct)
  case (1 b)
  show ?case by (simp add: returns_Inr)
next
  case (2 b c a)
  show ?case
    unfolding tokenize_from.simps(2)
    by (intro returns_if returns_map returns_match 2 query_exc.distinct) (assumption | rule refl)+
qed


section \<open>Quoted text\<close>

definition esc_char :: "char \<Rightarrow> string" where
  "esc_char c = (if c = back_ch \<or> c = quote_ch then [back_ch, c] else [c])"

definition escape :: "string \<Rightarrow> string" where
  "escape s = concat (map esc_char s)"

definition quoted :: "string \<Rightarrow> string" where
  "quoted s = quote_ch # escape s @ [quote_ch]"

lemma escape_simps [simp]: "escape [] = []" "escape (c # s) = esc_char c @ escape s"
  by (simp_all add: escape_def)

lemma delimited_chain:
  "chain (rx_run False (delimited_item quote_ch)) (rx_run False (RLit quote_ch))
     (b, escape s @ quote_ch # a, g) (rev (escape s) @ b, quote_ch # a, g)"
proof (induction s arbitrary: b)
  case Nil
  then show ?case by (auto intro!: chain.stop simp: delimited_item_def in_csets_def)
next
  case (Cons c s)
  let ?e = "esc_char c"
  from Cons.IH [of "rev ?e @ b"]
  have IH: "chain (rx_run False (delimited_item quote_ch)) (rx_run False (RLit quote_ch))
     (rev ?e @ b, escape s @ quote_ch # a, g) (rev (escape (c # s)) @ b, quote_ch # a, g)"
    by (simp del: rx_run.simps)
  show ?case
    by (rule chain.more [where u = "(rev ?e @ b, escape s @ quote_ch # a, g)", OF _ _ _ IH])
       (auto simp: delimited_item_def in_csets_def consumed_def esc_char_def)
qed

lemma quoted_match:
  "rx_match_at False quoted_rx [] (quoted s) = Some (rev (quoted s), [], [])"
proof -
  have "rx_run False (RSeq (RStar (delimited_item quote_ch)) (RLit quote_ch))
      ([quote_ch], escape s @ [quote_ch], []) = [(quote_ch # rev (escape s) @ [quote_ch], [], [])]"
    using run_star_seq_chain [OF delimited_chain [of "[quote_ch]" s "[]" "[]"]]
    by (simp add: in_csets_def)
  then show ?thesis
    by (simp add: rx_match_at_def quoted_rx_def delimited_rx_def quoted_def in_csets_def head_opt_def)
qed

lemma replace_quotes:
  "replace_all [back_ch, quote_ch] [quote_ch] (escape s) =
     concat (map (\<lambda>c. if c = back_ch then [back_ch, back_ch] else [c]) s)"
proof (induction s)
  case Nil
  then show ?case by simp
next
  case (Cons c s)
  have "\<not> prefix [back_ch, quote_ch] (back_ch # escape s)"
    by (cases s) (auto simp: esc_char_def)
  with Cons show ?case by (auto simp: esc_char_def)
qed

lemma replace_backs:
  "replace_all [back_ch, back_ch] [back_ch]
     (concat (map (\<lambda>c. if c = back_ch then [back_ch, back_ch] else [c]) s)) = s"
  by (induction s) auto

lemma unescape_escape: "unescape (escape s) = s"
  by (simp add: unescape_def replace_quotes replace_backs)

lemma strip_not_Nil: "s \<noteq> [] \<Longrightarrow> \<not> py_isspace (hd s) \<Longrightarrow> py_strip s \<noteq> []"
  by (cases s) (auto simp: strip_by_def rstrip_by_def lstrip_by_def)

text \<open>
  A text written between quotes, with its quotes and backslashes escaped, is one
  token and means the search for exactly that text.
\<close>

theorem parse_query_quoted: "parse_query rx_ok (quoted s) = Inr (TextMatch s)"
proof -
  have "tokenize (quoted s) = Inr [ATOM (quoted s)]"
    using quoted_match [of s]
    by (simp add: tokenize_def quoted_def rx_consumed_def py_isspace_def)
  moreover have "py_strip (quoted s) \<noteq> []"
    by (rule strip_not_Nil) (simp_all add: quoted_def py_isspace_def)
  moreover have "parse_atom_token rx_ok (quoted s) = Inr (TextMatch s)"
    by (simp add: parse_atom_token_def enclosed_def inner_def quoted_def unescape_escape)
  ultimately show ?thesis
    by (simp add: parse_query_def quoted_def parse_tokens_def p_or_def p_and_def p_atom_def
        leaf_or_error_def)
qed

section \<open>The evaluator\<close>

lemma yield_matches_take:
  "yield_matches rx_srch node (Some n) k ls = take (max 1 (n - k)) (filter (matches rx_srch node) ls)"
  by (induction ls arbitrary: k) (auto simp: max_def take_Cons')

lemma yield_matches_all: "yield_matches rx_srch node None k ls = filter (matches rx_srch node) ls"
  by (induction ls arbitrary: k) auto

text \<open>
  What \<open>find_matches\<close> yields is the lines that match, in order, cut at the limit,
  where a limit of zero still lets one line through.
\<close>

theorem find_matches_spec:
  "find_matches rx_ok rx_srch ls q limit = res_bind (parse_query rx_ok q) (\<lambda>node.
     Inr (case limit of None \<Rightarrow> filter (matches rx_srch node) ls
          | Some n \<Rightarrow> take (max 1 n) (filter (matches rx_srch node) ls)))"
  by (cases limit) (simp_all add: find_matches_def yield_matches_take yield_matches_all)

section \<open>Time windows\<close>

lemma first_some_Some: "first_some f xs = Some y \<Longrightarrow> \<exists>x \<in> set xs. f x = Some y"
  by (induction xs) (auto split: option.splits)

lemma strptime_range: "strptime fmt s = Some t \<Longrightarrow> 0 \<le> t \<and> t < dt_limit"
  by (auto simp: strptime_def dest: mk_dt_range split: option.splits if_splits)

lemma parse_ts_range: "parse_ts s = Inr t \<Longrightarrow> 0 \<le> t \<and> t < dt_limit"
  by (auto simp: parse_ts_def Let_def dest!: first_some_Some strptime_range split: option.splits)

lemma delta_of_nonneg: "delta_of n k = Inr d \<Longrightarrow> 0 \<le> k \<Longrightarrow> 0 \<le> d"
  by (auto simp: delta_of_def mk_delta_def split: option.splits if_splits)

lemma parse_duration_nonneg: "parse_duration s = Inr d \<Longrightarrow> 0 \<le> d"
  by (auto simp: parse_duration_def Let_def dest: delta_of_nonneg split: option.splits if_splits)

lemma shift_ts_Inr: "shift_ts t d = Inr u \<longleftrightarrow> u = t + d \<and> 0 \<le> u \<and> u < dt_limit"
  by (auto simp: shift_ts_def dt_shift_def split: option.splits if_splits)

lemma window_range:
  "window c d = Inr node \<Longrightarrow> 0 \<le> d \<Longrightarrow> \<exists>t u. node = TimeRange t u \<and> 0 \<le> t \<and> t \<le> u \<and> u < dt_limit"
  by (auto simp: window_def res_bind_eq_Inr shift_ts_Inr)

text \<open>
  An accepted time filter is a window inside the years 1 to 9999 whose bounds are in
  order, whichever way round they were written.
\<close>

theorem parse_time_window:
  assumes "parse_time v = Inr node"
  shows "\<exists>t u. node = TimeRange t u \<and> 0 \<le> t \<and> t \<le> u \<and> u < dt_limit"
proof -
  let ?v = "py_strip v"
  consider "occurs ''..'' ?v" | sep seps where "\<not> occurs ''..'' ?v" "filter (\<lambda>sep. occurs sep ?v) window_seps = sep # seps"
    | "\<not> occurs ''..'' ?v" "filter (\<lambda>sep. occurs sep ?v) window_seps = []"
    by (cases "filter (\<lambda>sep. occurs sep ?v) window_seps") auto
  then show ?thesis
  proof cases
    case 1
    then show ?thesis using assms
      by (auto simp: parse_time_def Let_def res_bind_eq_Inr dest!: parse_ts_range split: prod.splits if_splits)
  next
    case 2
    then show ?thesis using assms
      by (auto simp: parse_time_def Let_def res_bind_eq_Inr dest: parse_duration_nonneg window_range split: prod.splits)
  next
    case 3
    then show ?thesis using assms
      by (auto simp: parse_time_def Let_def res_bind_eq_Inr shift_ts_Inr dest: parse_ts_range)
  qed
qed

text \<open>Unfolding rules with which the simplifier runs the query language on closed inputs.\<close>

lemmas rx_eval = rx_match_at_def rx_match_def rx_search_def head_opt_def RPlus_def ROpt_def RStrs_def
  in_csets_def py_isspace_def py_isword_def py_isdecimal_def consumed_def is_bound_def is_end_def
  close_group_def rx_group_def rx_consumed_def upper_char_def lower_char_def dict_set_def Let_def

lemmas query_eval = parse_query_def tokenize_def quoted_rx_def regex_rx_def bareword_rx_def delimited_rx_def
  delimited_item_def word_token_def parse_tokens_def p_or_def p_and_def p_atom_def leaf_or_error_def
  parse_atom_token_def enclosed_def partition_at_def parse_field_def direct_fields_def inner_def
  strip_by_def lstrip_by_def rstrip_by_def

lemmas time_eval = parse_time_def parse_ts_def strptime_def ts_fmts_def ymd_rx_def dir_Y_def dir_m_def
  dir_d_def dir_H_def dir_M_def dir_S_def group_nat_def nat_of_digits_def digit_val_def occurs_def
  mk_dt_def civil_ok_def civil_us_def ordinal_def days_in_month_def leap_def days_before_year_def
  days_before_month_def window_seps_def parse_duration_def dur_rx_def delta_of_def mk_delta_def
  window_def shift_ts_def dt_shift_def dt_limit_def

theorem parse_time_window_witness:
  "parse_time ''2026-07-07..2026-07-06'' = Inr (TimeRange 63918892800000000 63918979200000000)
   \<and> (63918892800000000::int) \<le> 63918979200000000"
proof -
  have "parse_time ''2026-07-07..2026-07-06'' = Inr (TimeRange 63918892800000000 63918979200000000)"
    by (simp add: time_eval query_eval rx_eval upt_rec)
  with parse_time_window [OF this] show ?thesis by simp
qed

text \<open>
  The example of the module's own documentation is refused: the scanner splits the
  time value at its spaces, and \<open>18:02\<close> is then taken for a field.
\<close>

theorem documented_window_refused:
  "parse_query rx_ok (''time:2026-07-07 18:02 UTC '' @ [CHR 0xB1] @ '' 5min'') = Inl (UnknownField ''18'')"
proof -
  have "parse_time ''2026-07-07'' = Inr (TimeRange 63918979200000000 63918979201000000)"
    by (simp add: time_eval query_eval rx_eval upt_rec)
  then show ?thesis by (simp add: query_eval rx_eval)
qed

text \<open>
  A window wider than the calendar escapes as an \<open>OverflowError\<close>, which is not a
  \<open>QueryError\<close>.
\<close>

theorem wide_window_overflows:
  "parse_query rx_ok ''time:2026-01-01+-999999d'' = Inl OverflowExc \<and> \<not> is_query_error OverflowExc"
proof -
  have "parse_time ''2026-01-01+-999999d'' = Inl OverflowExc"
    by (simp add: time_eval query_eval rx_eval upt_rec)
  then show ?thesis by (simp add: query_eval rx_eval is_query_error_def)
qed

end
