(* ===== verification/Log_Parser.thy ===== *)
theory Log_Parser
  imports Py_Regex Py_Time
begin

text \<open>
  The streaming log parser \<open>zcc_diag/log_parser.py\<close>: the two record formats, the hand
  written timestamp parser, the record assembly of \<open>parse_file\<close> with its continuation
  lines and record cap, and the classification of log files by name.  A file is the list
  of its raw lines with their terminators, decoded as latin-1; an unreadable file is
  \<open>None\<close>.
\<close>

section \<open>Record formats\<close>

definition digits :: "nat \<Rightarrow> rx" where
  "digits n = RTimes n (RSet [CDigit])"

definition ts_rx :: rx where
  "ts_rx = RSeqs [digits 4, RLit CHR ''-'', digits 2, RLit CHR ''-'', digits 2, RLit CHR '' '',
     digits 2, RLit CHR '':'', digits 2, RLit CHR '':'', digits 2, RLit CHR ''.'', RPlus (RSet [CDigit])]"

definition tz_rx :: rx where
  "tz_rx = RSeqs [RSet [CLit CHR ''+'', CLit CHR ''-''], digits 2, ROpt (RLit CHR '':''), digits 2]"

definition head_rx :: "rx list" where
  "head_rx = [RBegin, RGroup 1 ts_rx, RLit CHR ''('', RGroup 2 tz_rx, RLit CHR '')'',
     RLit CHR ''['', RGroup 3 (RPlus (RSet [CDigit])), RLit CHR '':'', RGroup 4 (RPlus (RSet [CDigit])),
     RLit CHR '']'']"

text \<open>Groups: 1 \<open>ts\<close>, 2 \<open>tz\<close>, 3 \<open>pid\<close>, 4 \<open>tid\<close>, 5 \<open>level\<close>, 6 \<open>msg\<close>.\<close>

definition levels_a :: "string list" where
  "levels_a = [''INF'', ''DBG'', ''ERR'', ''WRN'', ''TRC'', ''VRB'', ''FTL'']"

definition format_a_rx :: rx where
  "format_a_rx = RSeqs (head_rx @ [RPlus (RSet [CSpace]), RGroup 5 (RStrs levels_a), RPlus (RSet [CSpace]),
     RGroup 6 (RStar RDot), REnd])"

definition format_b_rx :: rx where
  "format_b_rx = RSeqs (head_rx @ [RPlus (RSet [CSpace]), RLit CHR ''['', RGroup 5 (RPlus (RSet [CWord])),
     RLit CHR '']'', RStar (RSet [CSpace]), RGroup 6 (RStar RDot), REnd])"

definition ts_prefix_rx :: rx where
  "ts_prefix_rx = RSeqs [RBegin, digits 4, RLit CHR ''-'', digits 2, RLit CHR ''-'', digits 2, RLit CHR '' '',
     digits 2, RLit CHR '':'', digits 2, RLit CHR '':'', digits 2, RLit CHR ''.'']"

definition level_normalise :: "(string \<times> string) list" where
  "level_normalise =
     [(''INF'', ''INFO''), (''DBG'', ''DEBUG''), (''ERR'', ''ERROR''), (''WRN'', ''WARN''),
      (''TRC'', ''TRACE''), (''VRB'', ''VERBOSE''), (''FTL'', ''FATAL''),
      (''info'', ''INFO''), (''debug'', ''DEBUG''), (''error'', ''ERROR''),
      (''warn'', ''WARN''), (''warning'', ''WARN''), (''trace'', ''TRACE''),
      (''verbose'', ''VERBOSE''), (''fatal'', ''FATAL'')]"

record log_line =
  timestamp :: int
  level :: string
  pid :: nat
  tid :: nat
  message :: string
  raw :: string
  line_no :: nat

definition match_record :: "string \<Rightarrow> rpos option" where
  "match_record text = (case rx_match False format_a_rx text of
       Some m \<Rightarrow> Some m
     | None \<Rightarrow> rx_match False format_b_rx text)"

definition grp :: "nat \<Rightarrow> rpos \<Rightarrow> string" where
  "grp n m = (case rx_group n m of None \<Rightarrow> [] | Some s \<Rightarrow> s)"

section \<open>Timestamps\<close>

text \<open>\<open>s.split(d, k)\<close>: at most \<open>k\<close> splits.\<close>

fun split_max :: "char \<Rightarrow> nat \<Rightarrow> string \<Rightarrow> string list" where
  "split_max d 0 s = [s]"
| "split_max d (Suc k) s = (case partition_at [d] s of (a, sep, b) \<Rightarrow>
     if sep = [] then [s] else a # split_max d k b)"

text \<open>\<open>datetime(...)\<close> on integers that may be negative; \<open>None\<close> is \<open>ValueError\<close>.\<close>

definition mk_dt_int :: "int list \<Rightarrow> int option" where
  "mk_dt_int xs = (case xs of
       [y, mo, d, h, mi, s, us] \<Rightarrow>
         if list_all (\<lambda>x. 0 \<le> x) xs
         then mk_dt \<lparr>cy = nat y, cmo = nat mo, cd = nat d, ch = nat h, cmi = nat mi, csec = nat s, cus = nat us\<rparr>
         else None
     | _ \<Rightarrow> None)"

text \<open>
  \<open>_parse_ts\<close>: an unpacking with the wrong number of parts and an \<open>int\<close> that fails are
  the \<open>ValueError\<close>s it catches.  The fraction is padded and cut to six digits.
\<close>

definition parse_ts :: "string \<Rightarrow> int option" where
  "parse_ts ts =
     (case split_max CHR '' '' 1 ts of [date_part, time_part] \<Rightarrow>
       (case split_on CHR ''-'' date_part of [y, mo, d] \<Rightarrow>
         (case split_max CHR '':'' 2 time_part of [h, mi, rest] \<Rightarrow>
           (case split_max CHR ''.'' 1 rest of [s, frac] \<Rightarrow>
              Option.bind (all_some (map py_int [y, mo, d, h, mi, s, take 6 (frac @ ''000000'')])) mk_dt_int
            | _ \<Rightarrow> None)
          | _ \<Rightarrow> None)
        | _ \<Rightarrow> None)
      | _ \<Rightarrow> None)"

datatype tz_exc = TzIndexError | TzValueError

text \<open>\<open>_tz_for\<close>: the offset in minutes; \<open>timezone\<close> refuses a full day or more.\<close>

definition tz_for :: "string \<Rightarrow> tz_exc + int" where
  "tz_for tz0 = (let tz = replace_all '':'' '''' tz0 in
     if tz = [] then Inl TzIndexError
     else let sign = (if hd tz = CHR ''+'' then 1 else -1) in
       case (py_int (slice tz 1 3), py_int (slice tz 3 5)) of
         (Some h, Some m) \<Rightarrow>
           (let off = sign * (60 * h + m) in if \<bar>off\<bar> < 1440 then Inr off else Inl TzValueError)
       | _ \<Rightarrow> Inl TzValueError)"

section \<open>Assembling records\<close>

datatype line_kind = Blank | Cont string | BadStart | Start log_line

text \<open>What the body of the loop finds in one physical line.\<close>

definition classify_text :: "nat \<Rightarrow> string \<Rightarrow> line_kind" where
  "classify_text n text =
     (if text = [] then Blank
      else if rx_match False ts_prefix_rx text = None then Cont text
      else case match_record text of
        None \<Rightarrow> Cont text
      | Some m \<Rightarrow> (case parse_ts (grp 1 m) of
          None \<Rightarrow> BadStart
        | Some t \<Rightarrow> Start \<lparr>timestamp = t,
            level = (case dict_get level_normalise (grp 5 m) of
               Some l \<Rightarrow> l | None \<Rightarrow> map upper_char (grp 5 m)),
            pid = nat_of_digits (grp 3 m), tid = nat_of_digits (grp 4 m),
            message = grp 6 m, raw = text, line_no = n\<rparr>))"

definition strip_eol :: "string \<Rightarrow> string" where
  "strip_eol s = rstrip_by (\<lambda>c. c = CHR 0x0D \<or> c = CHR 0x0A) s"

record pstate =
  pending :: "log_line option"
  cont_buf :: "string list"
  yielded :: nat
  out :: "log_line list"
  stopped :: bool

definition init_state :: pstate where
  "init_state = \<lparr>pending = None, cont_buf = [], yielded = 0, out = [], stopped = False\<rparr>"

definition attach :: "log_line \<Rightarrow> string list \<Rightarrow> log_line" where
  "attach r cs = (if cs = [] then r
     else r\<lparr>message := message r @ [CHR 0x0A] @ join_with [CHR 0x0A] cs\<rparr>)"

text \<open>The flush before a new record: the record is yielded and the cap tested.\<close>

definition flush :: "nat option \<Rightarrow> pstate \<Rightarrow> pstate" where
  "flush max_lines s = (case pending s of
       None \<Rightarrow> s
     | Some r \<Rightarrow> s\<lparr>pending := None, cont_buf := [], out := out s @ [attach r (cont_buf s)],
         yielded := Suc (yielded s),
         stopped := (case max_lines of None \<Rightarrow> False | Some n \<Rightarrow> n \<le> Suc (yielded s))\<rparr>)"

definition feed :: "nat option \<Rightarrow> pstate \<Rightarrow> line_kind \<Rightarrow> pstate" where
  "feed max_lines s k =
     (if stopped s then s
      else case k of
        Blank \<Rightarrow> s
      | Cont text \<Rightarrow> (if pending s = None then s else s\<lparr>cont_buf := cont_buf s @ [text]\<rparr>)
      | BadStart \<Rightarrow> flush max_lines s
      | Start r \<Rightarrow> (let s' = flush max_lines s in
          if stopped s' then s' else s'\<lparr>pending := Some r\<rparr>))"

definition finish :: "pstate \<Rightarrow> log_line list" where
  "finish s = (if stopped s then out s else out s @ (case pending s of
       None \<Rightarrow> [] | Some r \<Rightarrow> [attach r (cont_buf s)]))"

definition kinds_from :: "nat \<Rightarrow> string list \<Rightarrow> line_kind list" where
  "kinds_from k raws = map (\<lambda>(n, b). classify_text n (strip_eol b)) (enumerate k raws)"

definition kinds_of :: "string list \<Rightarrow> line_kind list" where
  "kinds_of raws = kinds_from 1 raws"

definition parse_file :: "string list option \<Rightarrow> nat option \<Rightarrow> log_line list" where
  "parse_file file max_lines = (case file of
       None \<Rightarrow> []
     | Some raws \<Rightarrow> finish (foldl (feed max_lines) init_state (kinds_of raws)))"

section \<open>Classification by file name\<close>

definition classify_rules :: "(string \<times> string) list" where
  "classify_rules =
     [(''zsatunnel'', ''tunnel''), (''trptunnel'', ''tunnel''),
      (''zsaservice'', ''service''), (''com.zscaler.zscalerservice'', ''service''),
      (''ztraceroute'', ''zdx_traceroute''), (''zwebload'', ''zdx_webload''),
      (''devicestats'', ''upm_devicestats''), (''zsystemevents'', ''upm_sysevents''),
      (''zdeviceevents'', ''upm_devevents''),
      (''zsatraymanager'', ''tray_manager''), (''zsatray'', ''tray''),
      (''zsahelper'', ''helper''), (''zsaupm'', ''upm''),
      (''com.zscaler.upmservicecontroller'', ''upm_controller''),
      (''zep_'', ''zep''), (''zsaupdater'', ''updater'')]"

definition classify_log_file :: "string \<Rightarrow> string" where
  "classify_log_file name = (let n = py_lower name in
     if suffix ''.zip'' n then ''other''
     else case find (\<lambda>(needle, kind). occurs needle n) classify_rules of
       Some (needle, kind) \<Rightarrow> kind | None \<Rightarrow> ''other'')"

definition zdx_kinds :: "string list" where
  "zdx_kinds = [''zdx_traceroute'', ''zdx_webload'']"

definition is_zdx_log :: "string \<Rightarrow> bool" where
  "is_zdx_log name = List.member zdx_kinds (classify_log_file name)"

text \<open>A file is its name and its size, \<open>None\<close> where \<open>stat\<close> fails.\<close>

fun detect_zdx_enabled :: "(string \<times> nat option) list \<Rightarrow> bool" where
  "detect_zdx_enabled [] = False"
| "detect_zdx_enabled ((nm, sz) # ps) =
     (if \<not> is_zdx_log nm then detect_zdx_enabled ps
      else case sz of None \<Rightarrow> detect_zdx_enabled ps
        | Some n \<Rightarrow> if 4096 < n then True else detect_zdx_enabled ps)"

end
