(* ===== verification/Log_Records.thy ===== *)
theory Log_Records
  imports Log_Parser
begin

text \<open>
  What \<open>parse_file\<close> returns: the records of a file are its sections, each a line that
  starts a record with the continuation lines after it; the record cap cuts the list;
  line numbers grow; a record printed in the newer format is read back; and a \<open>WAR\<close>
  record is not recognised.
\<close>

section \<open>The sections of a file\<close>

fun starts :: "line_kind \<Rightarrow> bool" where
  "starts (Start r) = True"
| "starts BadStart = True"
| "starts _ = False"

fun cont_texts :: "line_kind list \<Rightarrow> string list" where
  "cont_texts [] = []"
| "cont_texts (Cont t # ks) = t # cont_texts ks"
| "cont_texts (_ # ks) = cont_texts ks"

abbreviation before_start :: "line_kind list \<Rightarrow> line_kind list" where
  "before_start ks \<equiv> takeWhile (\<lambda>k. \<not> starts k) ks"

abbreviation from_start :: "line_kind list \<Rightarrow> line_kind list" where
  "from_start ks \<equiv> dropWhile (\<lambda>k. \<not> starts k) ks"

fun sections :: "line_kind list \<Rightarrow> (log_line \<times> string list) list" where
  "sections [] = []"
| "sections (Start r # ks) = (r, cont_texts (before_start ks)) # sections ks"
| "sections (_ # ks) = sections ks"

lemma sections_from_start: "sections (from_start ks) = sections ks"
  by (induction ks rule: sections.induct) auto

definition joined :: "log_line \<times> string list \<Rightarrow> log_line" where
  "joined p = attach (fst p) (snd p)"

definition tail_records :: "pstate \<Rightarrow> line_kind list \<Rightarrow> log_line list" where
  "tail_records s ks = (case pending s of
       None \<Rightarrow> map joined (sections ks)
     | Some r \<Rightarrow> attach r (cont_buf s @ cont_texts (before_start ks)) # map joined (sections ks))"

text \<open>The state between two lines: buffered lines belong to a pending record, every yield is counted.\<close>

definition linv :: "pstate \<Rightarrow> bool" where
  "linv s = ((pending s = None \<longrightarrow> cont_buf s = []) \<and> yielded s = length (out s))"

lemma linv_init: "linv init_state"
  by (simp add: linv_def init_state_def)

lemma linv_flush: "linv s \<Longrightarrow> linv (flush m s)"
  by (auto simp: linv_def flush_def split: option.splits)

lemma linv_feed: "linv s \<Longrightarrow> linv (feed m s k)"
  using linv_flush [of s m]
  by (cases k) (auto simp: feed_def Let_def, auto simp: linv_def)

interpretation reader: machine "feed m" linv for m
  by unfold_locales (rule linv_feed)

lemma feed_stopped: "stopped s \<Longrightarrow> foldl (feed m) s ks = s"
  by (induction ks) (auto simp: feed_def)

lemma finish_uncapped:
  "linv s \<Longrightarrow> \<not> stopped s \<Longrightarrow> finish (foldl (feed None) s ks) = out s @ tail_records s ks"
proof (induction ks arbitrary: s)
  case Nil
  then show ?case by (simp add: finish_def tail_records_def split: option.splits)
next
  case (Cons k ks)
  have st: "\<not> stopped (feed None s k)"
    using Cons.prems by (cases k) (auto simp: feed_def flush_def Let_def split: option.splits)
  have "finish (foldl (feed None) s (k # ks)) = out (feed None s k) @ tail_records (feed None s k) ks"
    using Cons.IH [OF linv_feed [OF Cons.prems(1)] st] by simp
  also have "\<dots> = out s @ tail_records s (k # ks)"
    using Cons.prems
    by (cases k; cases "pending s")
       (auto simp: feed_def flush_def tail_records_def joined_def linv_def Let_def)
  finally show ?case .
qed

text \<open>
  C22: without a cap, the records of a file are its sections in order, each with its
  continuation lines joined to the message.
\<close>

theorem parse_file_sections:
  "parse_file (Some raws) None = map joined (sections (kinds_of raws))"
  using finish_uncapped [OF linv_init, of "kinds_of raws"]
  by (simp add: parse_file_def tail_records_def init_state_def)

section \<open>The cap\<close>

lemma feed_capped_stop:
  "linv s \<Longrightarrow> \<not> stopped s \<Longrightarrow> stopped (feed (Some n) s k) \<Longrightarrow>
     out (feed (Some n) s k) = out (feed None s k)
     \<and> n \<le> length (out (feed None s k)) \<and> length (out (feed None s k)) = Suc (length (out s))"
  by (cases k; cases "pending s") (auto simp: feed_def flush_def linv_def Let_def split: if_splits)

lemma feed_capped_run:
  "linv s \<Longrightarrow> \<not> stopped s \<Longrightarrow> \<not> stopped (feed (Some n) s k) \<Longrightarrow> length (out s) < max 1 n \<Longrightarrow>
     feed (Some n) s k = feed None s k \<and> length (out (feed None s k)) < max 1 n"
  by (cases k; cases "pending s") (auto simp: feed_def flush_def linv_def Let_def split: if_splits)

lemma feed_uncapped_running: "\<not> stopped s \<Longrightarrow> \<not> stopped (feed None s k)"
  by (cases k) (auto simp: feed_def flush_def Let_def split: option.splits)

lemma finish_capped:
  "linv s \<Longrightarrow> \<not> stopped s \<Longrightarrow> length (out s) < max 1 n \<Longrightarrow>
     finish (foldl (feed (Some n)) s ks) = take (max 1 n) (finish (foldl (feed None) s ks))"
proof (induction ks arbitrary: s)
  case Nil
  then show ?case by (auto simp: finish_def split: option.splits)
next
  case (Cons k ks)
  let ?t = "feed (Some n) s k" and ?u = "feed None s k"
  have u: "linv ?u" "\<not> stopped ?u"
    using Cons.prems linv_feed feed_uncapped_running by auto
  show ?case
  proof (cases "stopped ?t")
    case True
    from feed_capped_stop [OF Cons.prems(1,2) True] Cons.prems(3)
    have "out ?t = out ?u" "length (out ?u) = max 1 n" by auto
    then show ?thesis
      using True finish_uncapped [OF u, of ks] by (simp add: feed_stopped finish_def)
  next
    case False
    from feed_capped_run [OF Cons.prems(1,2) False Cons.prems(3)]
    have "?t = ?u" "length (out ?u) < max 1 n" by auto
    with Cons.IH [OF u] show ?thesis by simp
  qed
qed

text \<open>
  A cap of \<open>n\<close> records returns the first \<open>n\<close> records of the whole file, except that
  a cap of zero still returns one.
\<close>

theorem parse_file_cap:
  "parse_file f (Some n) = take (max 1 n) (parse_file f None)"
proof (cases f)
  case None
  then show ?thesis by (simp add: parse_file_def)
next
  case (Some raws)
  then show ?thesis
    using finish_capped [OF linv_init, of n "kinds_of raws"]
    by (simp add: parse_file_def init_state_def)
qed

section \<open>Line numbers\<close>

fun start_nos :: "line_kind list \<Rightarrow> nat list" where
  "start_nos [] = []"
| "start_nos (Start r # ks) = line_no r # start_nos ks"
| "start_nos (_ # ks) = start_nos ks"

lemma attach_line_no [simp]: "line_no (attach r cs) = line_no r"
  by (simp add: attach_def)

lemma sections_line_nos: "map (\<lambda>p. line_no (joined p)) (sections ks) = start_nos ks"
  by (induction ks rule: sections.induct) (auto simp: joined_def)

lemma classify_line_no: "classify_text n t = Start r \<Longrightarrow> line_no r = n"
  by (auto simp: classify_text_def Let_def split: if_splits option.splits)

lemma kinds_from_Cons: "kinds_from k (b # bs) = classify_text k (strip_eol b) # kinds_from (Suc k) bs"
  by (simp add: kinds_from_def)

lemma start_nos_kinds:
  "sorted_wrt (<) (start_nos (kinds_from k raws)) \<and>
   set (start_nos (kinds_from k raws)) \<subseteq> {k ..< k + length raws}"
proof (induction raws arbitrary: k)
  case Nil
  then show ?case by (simp add: kinds_from_def)
next
  case (Cons b bs)
  note IH = Cons.IH [of "Suc k"]
  show ?case
  proof (cases "classify_text k (strip_eol b)")
    case (Start r)
    with classify_line_no have "line_no r = k" by blast
    with Start IH show ?thesis by (fastforce simp: kinds_from_Cons)
  qed (use IH in \<open>force simp: kinds_from_Cons\<close>)+
qed

lemma sorted_wrt_take: "sorted_wrt r xs \<Longrightarrow> sorted_wrt r (take n xs)"
  by (metis append_take_drop_id sorted_wrt_append)

text \<open>
  The records carry the numbers of their first lines, strictly growing and within
  the file, whatever the cap.
\<close>

theorem parse_file_line_nos:
  "sorted_wrt (<) (map line_no (parse_file (Some raws) m))
   \<and> set (map line_no (parse_file (Some raws) m)) \<subseteq> {1 .. length raws}"
proof -
  let ?all = "map line_no (parse_file (Some raws) None)"
  have all: "sorted_wrt (<) ?all \<and> set ?all \<subseteq> {1 .. length raws}"
    using start_nos_kinds [of 1 raws]
    by (auto simp: parse_file_sections kinds_of_def comp_def sections_line_nos)
  have "\<exists>n. map line_no (parse_file (Some raws) m) = take n ?all"
  proof (cases m)
    case None
    then show ?thesis by (intro exI [of _ "length ?all"]) simp
  next
    case (Some n)
    then show ?thesis by (intro exI [of _ "max 1 n"]) (simp add: parse_file_cap take_map)
  qed
  then obtain n where n: "map line_no (parse_file (Some raws) m) = take n ?all" ..
  show ?thesis
    unfolding n using all sorted_wrt_take [of "(<)" ?all n] set_take_subset [of n ?all] by blast
qed

lemma in_csets_digit [simp]: "in_csets False [CDigit] = py_isdecimal"
  by (rule ext) (simp add: in_csets_def)

lemma in_csets_lit [simp]: "in_csets False [CLit d] c = (c = d)"
  by (simp add: in_csets_def)

lemma in_csets_space [simp]: "in_csets False [CSpace] = py_isspace"
  by (rule ext) (simp add: in_csets_def)

section \<open>Rules for the header of a record\<close>

lemma go_digits:
  "length w = n \<Longrightarrow> list_all py_isdecimal w \<Longrightarrow>
     rx_go False (RTimes n (RSet [CDigit])) (b, w @ a, g) k = k (rev w @ b, a, g)"
  by (induction w arbitrary: n b) (auto simp: go_rules)

lemma go_str: "rx_go False (RStr w) (b, w @ a, g) k = k (rev w @ b, a, g)"
  by (induction w arbitrary: b) (simp_all add: go_rules)

lemma go_digit_run:
  assumes "w \<noteq> []" "list_all py_isdecimal w" "\<not> py_isdecimal d"
    and "\<And>b c a. py_isdecimal c \<Longrightarrow> k (b, c # a, g) = []"
  shows "rx_go False (RPlus (RSet [CDigit])) (b, w @ d # a, g) k = k (rev w @ b, d # a, g)"
  using assms by (intro go_plus) auto

section \<open>Printing a record of the newer format\<close>

definition render_ts :: "civil \<Rightarrow> string" where
  "render_ts c = pad 4 (cy c) @ ''-'' @ pad 2 (cmo c) @ ''-'' @ pad 2 (cd c) @ '' '' @ pad 2 (ch c) @ '':''
     @ pad 2 (cmi c) @ '':'' @ pad 2 (csec c) @ ''.'' @ pad 6 (cus c)"

definition render_head :: "civil \<Rightarrow> string \<Rightarrow> nat \<Rightarrow> nat \<Rightarrow> string" where
  "render_head c tz p t = render_ts c @ ''('' @ tz @ '')['' @ str_of_nat p @ '':'' @ str_of_nat t @ '']''"

definition civil_fits :: "civil \<Rightarrow> bool" where
  "civil_fits c = (cy c < 10000 \<and> cmo c < 100 \<and> cd c < 100 \<and> ch c < 100 \<and> cmi c < 100
     \<and> csec c < 100 \<and> cus c < 1000000)"

lemma civil_ok_fits: "civil_ok c \<Longrightarrow> civil_fits c"
  by (auto simp: civil_ok_def civil_fits_def days_in_month_def split: if_splits)

definition tz_ok :: "string \<Rightarrow> bool" where
  "tz_ok tz = (case tz of [s, a, b, c, d] \<Rightarrow> (s = CHR ''+'' \<or> s = CHR ''-'') \<and> list_all py_isdecimal [a, b, c, d]
     | _ \<Rightarrow> False)"

lemma split_max_0: "split_max d 0 s = [s]" by simp

lemma go_ts:
  assumes "civil_fits c" "\<And>b c a. py_isdecimal c \<Longrightarrow> k (b, c # a, g) = []" "\<not> py_isdecimal d"
  shows "rx_go False ts_rx (b, render_ts c @ d # a, g) k = k (rev (render_ts c) @ b, d # a, g)"
  using assms
  by (simp add: ts_rx_def render_ts_def digits_def go_seq go_digits length_pad pad_decimal civil_fits_def
        go_set go_empty go_digit_run)

section \<open>Matching a printed record\<close>

lemma go_levels:
  "lev \<in> set levels_a \<Longrightarrow> rx_go False (RStrs levels_a) (b, lev @ a, g) k = k (rev lev @ b, a, g)"
  by (auto simp: levels_a_def RStrs_def go_rules)

lemma go_levels_space: "py_isspace c \<Longrightarrow> rx_go False (RStrs levels_a) (b, c # a, g) k = []"
proof -
  assume s: "py_isspace c"
  have "\<not> py_isspace CHR ''I''" "\<not> py_isspace CHR ''D''" "\<not> py_isspace CHR ''E''" "\<not> py_isspace CHR ''W''"
    "\<not> py_isspace CHR ''T''" "\<not> py_isspace CHR ''V''" "\<not> py_isspace CHR ''F''"
    by (simp_all add: py_isspace_def)
  with s have "c \<notin> {CHR ''I'', CHR ''D'', CHR ''E'', CHR ''W'', CHR ''T'', CHR ''V'', CHR ''F''}" by auto
  then show ?thesis by (simp add: levels_a_def RStrs_def go_rules)
qed

lemma close_group_run:
  "close_group n (b, w @ a, g) (rev w @ b, a, g') = (rev w @ b, a, dict_set n w g')"
  by (simp add: close_group_def)

lemma go_lit: "rx_go False (RLit d) (b, d # a, g) k = k (d # b, a, g)"
  by (simp add: go_set)

lemma go_lit_not: "c \<noteq> d \<Longrightarrow> rx_go False (RLit d) (b, c # a, g) k = []"
  by (simp add: go_set)

lemma digit_not: "py_isdecimal c \<Longrightarrow> c \<noteq> CHR '':''" "py_isdecimal c \<Longrightarrow> c \<noteq> CHR '']''"
   "py_isdecimal c \<Longrightarrow> c \<noteq> CHR ''(''" "\<not> py_isdecimal CHR '':''" "\<not> py_isdecimal CHR '']''" "\<not> py_isdecimal CHR ''(''"
  by (auto simp: py_isdecimal_def)

lemma go_tz:
  assumes "tz_ok tz"
  shows "rx_go False tz_rx (b, tz @ a, g) k = k (rev tz @ b, a, g)"
proof -
  obtain s z1 z2 z3 z4 where tz: "tz = [s, z1, z2, z3, z4]" "s = CHR ''+'' \<or> s = CHR ''-''"
    "py_isdecimal z1" "py_isdecimal z2" "py_isdecimal z3" "py_isdecimal z4"
    using assms by (auto simp: tz_ok_def split: list.splits)
  have d: "rx_go False (RTimes 2 (RSet [CDigit])) (b', x # y # a', g) k = k (y # x # b', a', g)"
    if "py_isdecimal x" "py_isdecimal y" for x y b' a' and k :: "rpos \<Rightarrow> 'a list"
    using go_digits [of "[x, y]" 2] that by simp
  have s: "in_csets False [CLit CHR ''+'', CLit CHR ''-''] s"
    using tz(2) by (auto simp: in_csets_def)
  show ?thesis
    using digit_not(1) [OF tz(5)] tz(3-6) s
    by (simp add: tz(1) tz_rx_def digits_def go_seq go_empty go_alt go_set d ROpt_def)
qed

lemma go_head:
  assumes "civil_fits c" "tz_ok tz"
  shows "rx_go False (RSeqs (head_rx @ rs)) ([], render_head c tz p t @ a, []) k =
     rx_go False (RSeqs rs) (rev (render_head c tz p t), a,
       [(1, render_ts c), (2, tz), (3, str_of_nat p), (4, str_of_nat t)]) k"
  using assms
  by (simp add: head_rx_def render_head_def go_seq go_begin go_group go_ts go_tz go_lit go_lit_not
       go_digit_run str_of_nat_decimal digit_not close_group_def dict_set_def)
lemma go_space:
  assumes "\<And>c rest. a = c # rest \<Longrightarrow> \<not> py_isspace c"
  shows "rx_go False (RPlus (RSet [CSpace])) (b, CHR '' '' # a, g) k = k (CHR '' '' # b, a, g)"
proof -
  have "chain (rx_run False (RSet [CSpace])) k (CHR '' '' # b, a, g) (CHR '' '' # b, a, g)"
    using assms by (cases a) (auto intro: chain.stop)
  then show ?thesis by (simp add: RPlus_def go_seq go_set) (simp add: rx_go_def run_star_chain py_isspace_def)
qed

definition render_a :: "civil \<Rightarrow> string \<Rightarrow> nat \<Rightarrow> nat \<Rightarrow> string \<Rightarrow> string \<Rightarrow> string" where
  "render_a c tz p t lev msg = render_head c tz p t @ '' '' @ lev @ '' '' @ msg"

definition msg_ok :: "string \<Rightarrow> bool" where
  "msg_ok msg = (CHR 0x0A \<notin> set msg \<and> (msg = [] \<or> \<not> py_isspace (hd msg)))"

lemma levels_hd: "lev \<in> set levels_a \<Longrightarrow> lev @ a = c # rest \<Longrightarrow> \<not> py_isspace c"
  by (auto simp: levels_a_def py_isspace_def)

lemma is_end_dot: "rx_go False (RStar RDot) (b, msg, g) k = k (rev msg @ b, [], g)"
  if "CHR 0x0A \<notin> set msg" "\<And>b c a. c \<noteq> CHR 0x0A \<Longrightarrow> k (b, c # a, g) = []"
proof -
  have "chain (rx_run False RDot) k (b, msg @ [], g) (rev msg @ b, [], g)"
    using that by (intro chain_char [where p = "\<lambda>c. c \<noteq> CHR 0x0A"]) (auto simp: list_all_iff)
  then show ?thesis by (simp add: rx_go_def run_star_chain)
qed

lemma msg_ok_hd: "msg_ok msg \<Longrightarrow> msg = c # rest \<Longrightarrow> \<not> py_isspace c"
  by (auto simp: msg_ok_def)

lemma format_a_match:
  assumes "civil_fits c" "tz_ok tz" "lev \<in> set levels_a" "msg_ok msg"
  shows "rx_match False format_a_rx (render_a c tz p t lev msg) =
    Some (rev (render_a c tz p t lev msg), [],
      [(1, render_ts c), (2, tz), (3, str_of_nat p), (4, str_of_nat t), (5, lev), (6, msg)])"
  using assms(3,4) msg_ok_hd [OF assms(4)]
  by (simp add: rx_match_def rx_match_at_go format_a_rx_def render_a_def go_head [OF assms(1,2)]
      go_seq go_group go_space go_levels go_levels_space levels_hd is_end_dot msg_ok_def go_end go_empty
      is_end_def close_group_def dict_set_def head_opt_def)

lemma prefix_match:
  assumes "civil_fits c"
  shows "rx_match False ts_prefix_rx (render_head c tz p t @ a) \<noteq> None"
  using assms
  by (simp add: rx_match_def rx_match_at_go ts_prefix_rx_def render_head_def render_ts_def digits_def go_seq
      go_begin go_digits length_pad pad_decimal civil_fits_def go_lit go_empty head_opt_def)

section \<open>Reading the timestamp back\<close>

lemma find_sub_char: "d \<notin> set a \<Longrightarrow> find_sub [d] (a @ d # b) = Some (length a)"
  by (induction a) auto

lemma split_max_app: "d \<notin> set a \<Longrightarrow> split_max d (Suc k) (a @ d # b) = a # split_max d k b"
  by (simp add: partition_at_def find_sub_char)

lemma pad_not_in: "\<not> py_isdecimal d \<Longrightarrow> d \<notin> set (pad w n)"
  using pad_decimal [of w n] by (auto simp: list_all_iff)

lemma split_on_app3: "d \<notin> set a \<Longrightarrow> d \<notin> set b \<Longrightarrow> d \<notin> set c \<Longrightarrow> split_on d (a @ d # b @ d # c) = [a, b, c]"
  by (simp add: split_on_append split_on_single)

lemma mk_dt_int_fields:
  "mk_dt_int [int (cy c), int (cmo c), int (cd c), int (ch c), int (cmi c), int (csec c), int (cus c)] = mk_dt c"
  by (cases c) (simp add: mk_dt_int_def)

lemma parse_render_ts_more:
  assumes "civil_fits c"
  shows "parse_ts (render_ts c @ extra) = mk_dt c"
proof -
  have nd: "\<not> py_isdecimal CHR '' ''" "\<not> py_isdecimal CHR ''-''" "\<not> py_isdecimal CHR '':''" "\<not> py_isdecimal CHR ''.''"
    by (simp_all add: py_isdecimal_def)
  define dp where "dp = pad 4 (cy c) @ CHR ''-'' # pad 2 (cmo c) @ CHR ''-'' # pad 2 (cd c)"
  define rest where "rest = pad 2 (csec c) @ CHR ''.'' # pad 6 (cus c) @ extra"
  have l6: "length (pad 6 (cus c)) = 6" using assms by (simp add: civil_fits_def length_pad)
  have "render_ts c @ extra = dp @ CHR '' '' # pad 2 (ch c) @ CHR '':'' # pad 2 (cmi c) @ CHR '':'' # rest"
    by (simp add: render_ts_def dp_def rest_def)
  moreover have "CHR '' '' \<notin> set dp" by (simp add: dp_def pad_not_in nd)
  moreover have "split_on CHR ''-'' dp = [pad 4 (cy c), pad 2 (cmo c), pad 2 (cd c)]"
    unfolding dp_def by (intro split_on_app3) (simp_all add: pad_not_in nd)
  moreover have "split_max CHR ''.'' 1 rest = [pad 2 (csec c), pad 6 (cus c) @ extra]"
    using split_max_app [of "CHR ''.''" "pad 2 (csec c)" 0 "pad 6 (cus c) @ extra"] by (simp add: rest_def pad_not_in nd)
  moreover have "split_max CHR '' '' 1 (dp @ CHR '' '' # z) = [dp, z]" for z
    using split_max_app [of "CHR '' ''" dp 0 z] calculation(2) by simp
  moreover have "split_max CHR '':'' 2 (pad 2 (ch c) @ CHR '':'' # pad 2 (cmi c) @ CHR '':'' # rest) =
      [pad 2 (ch c), pad 2 (cmi c), rest]"
    using split_max_app [of "CHR '':''" "pad 2 (ch c)" "Suc 0" "pad 2 (cmi c) @ CHR '':'' # rest"]
      split_max_app [of "CHR '':''" "pad 2 (cmi c)" 0 rest]
    by (simp add: pad_not_in nd numeral_2_eq_2)
  ultimately show ?thesis
    by (simp add: parse_ts_def l6 mk_dt_int_fields del: split_max.simps)
qed

lemma parse_render_ts: "civil_fits c \<Longrightarrow> parse_ts (render_ts c) = mk_dt c"
  using parse_render_ts_more [of c "[]"] by simp

text \<open>
  A record printed in the newer format is read back: its numbers, its level in the
  normalised spelling, its message to the last character.
\<close>

theorem format_a_roundtrip:
  assumes "mk_dt c = Some us" and "tz_ok tz" and "lev \<in> set levels_a" and "msg_ok msg"
  shows "classify_text n (render_a c tz p t lev msg) = Start \<lparr>timestamp = us,
    level = the (dict_get level_normalise lev), pid = p, tid = t, message = msg,
    raw = render_a c tz p t lev msg, line_no = n\<rparr>"
proof -
  have c: "civil_fits c" using assms(1) by (auto simp: mk_dt_def intro: civil_ok_fits split: if_splits)
  obtain l where l: "dict_get level_normalise lev = Some l"
    using assms(3) by (auto simp: levels_a_def level_normalise_def)
  have pre: "rx_match False ts_prefix_rx (render_a c tz p t lev msg) \<noteq> None"
    unfolding render_a_def using c by (rule prefix_match)
  then have "render_a c tz p t lev msg \<noteq> []" by (auto simp: render_a_def render_head_def)
  with pre l show ?thesis
    using format_a_match [OF c assms(2-4), of p t] assms(1)
    by (simp add: classify_text_def match_record_def grp_def rx_group_def parse_render_ts [OF c])
qed

theorem format_a_roundtrip_witness:
  "classify_text 7 (render_a \<lparr>cy = 2025, cmo = 3, cd = 25, ch = 16, cmi = 51, csec = 20, cus = 127977\<rparr>
      ''+0530'' 3524 3512 ''INF'' ''tunnel up (DTLS)'') =
    Start \<lparr>timestamp = int (civil_us \<lparr>cy = 2025, cmo = 3, cd = 25, ch = 16, cmi = 51, csec = 20, cus = 127977\<rparr>),
      level = ''INFO'', pid = 3524, tid = 3512, message = ''tunnel up (DTLS)'',
      raw = render_a \<lparr>cy = 2025, cmo = 3, cd = 25, ch = 16, cmi = 51, csec = 20, cus = 127977\<rparr>
        ''+0530'' 3524 3512 ''INF'' ''tunnel up (DTLS)'', line_no = 7\<rparr>"
  by (subst format_a_roundtrip)
     (simp_all add: mk_dt_def civil_ok_def days_in_month_def tz_ok_def levels_a_def msg_ok_def
        level_normalise_def py_isdecimal_def py_isspace_def)

lemma go_str_no: "\<not> prefix w a \<Longrightarrow> rx_go False (RStr w) (b, a, g) k = []"
proof (induction w arbitrary: a b)
  case Nil
  then show ?case by simp
next
  case (Cons x w)
  then show ?case by (cases a) (auto simp: go_seq go_set go_set_Nil)
qed

lemma go_none: "rx_go ic (RSet []) (b, a, g) k = []"
  by (cases a) (simp_all add: go_rules in_csets_def)

lemma go_strs_no: "list_all (\<lambda>w. \<not> prefix w a) ws \<Longrightarrow> rx_go False (RStrs ws) (b, a, g) k = []"
  unfolding RStrs_def
  by (induction ws rule: induct_list012) (auto simp: go_rules go_str_no go_none)

text \<open>
  A line with a complete header but a level outside the list, such as \<open>WAR\<close>, is no
  record: it becomes a continuation line of the record before it.
\<close>

theorem unknown_level:
  assumes "civil_fits c" and "tz_ok tz" and "rest = x # xs" "x \<noteq> CHR ''[''" "\<not> py_isspace x"
    and "list_all (\<lambda>l. \<not> prefix l rest) levels_a"
  shows "classify_text n (render_head c tz p t @ '' '' @ rest) = Cont (render_head c tz p t @ '' '' @ rest)"
proof -
  have sp: "rx_go False (RPlus (RSet [CSpace])) (b, CHR '' '' # x # xs, g) k = k (CHR '' '' # b, x # xs, g)"
    for b g and k :: "rpos \<Rightarrow> rpos list"
    using assms(5) by (intro go_space) auto
  have "rx_match False format_a_rx (render_head c tz p t @ '' '' @ rest) = None"
    using assms(3,6) sp
    by (simp add: rx_match_def rx_match_at_go format_a_rx_def go_head [OF assms(1,2)] go_seq go_group
       go_strs_no head_opt_def)
  moreover have "rx_match False format_b_rx (render_head c tz p t @ '' '' @ rest) = None"
    using assms(3,4) sp
    by (simp add: rx_match_def rx_match_at_go format_b_rx_def go_head [OF assms(1,2)] go_seq go_group
       go_set head_opt_def)
  moreover have "render_head c tz p t \<noteq> []" by (simp add: render_head_def)
  ultimately show ?thesis
    using prefix_match [OF assms(1), of tz p t "'' '' @ rest"]
    by (simp add: classify_text_def match_record_def)
qed

theorem unknown_level_witness:
  "classify_text 3 (render_head \<lparr>cy = 2025, cmo = 3, cd = 25, ch = 16, cmi = 51, csec = 20, cus = 127977\<rparr>
      ''+0530'' 3524 3512 @ '' '' @ ''WAR disk is full'') =
    Cont (render_head \<lparr>cy = 2025, cmo = 3, cd = 25, ch = 16, cmi = 51, csec = 20, cus = 127977\<rparr>
      ''+0530'' 3524 3512 @ '' '' @ ''WAR disk is full'')"
  by (rule unknown_level [where x = "CHR ''W''" and xs = "''AR disk is full''"])
     (simp_all add: civil_fits_def tz_ok_def levels_a_def py_isdecimal_def py_isspace_def)

text \<open>
  The order of the classification rules hides none of them: a file whose name is a
  rule's needle gets that rule's kind.
\<close>

theorem classify_rules_reached: "list_all (\<lambda>(needle, kind). classify_log_file needle = kind) classify_rules"
  by code_simp

end
