(* ===== verification/Py_Paths.thy ===== *)
theory Py_Paths
  imports Py_Prelude
begin

text \<open>
  The part of \<open>pathlib\<close> the program uses, on POSIX: a path is the list of its components,
  and a file system maps paths to directories and files.  No operation of the program
  creates a symbolic link, so resolving a path only removes the dots.
\<close>

section \<open>Names\<close>

type_synonym path = "string list"

text \<open>The components of a relative path, as \<open>Path(root) / name\<close> reads it.\<close>

definition parts :: "string \<Rightarrow> path" where
  "parts name = filter (\<lambda>p. p \<noteq> [] \<and> p \<noteq> ''.'') (split_on CHR ''/'' name)"

definition path_resolve :: "path \<Rightarrow> path" where
  "path_resolve p = foldl (\<lambda>acc c. if c = ''..'' then butlast acc else acc @ [c]) [] p"

definition path_name :: "path \<Rightarrow> string" where
  "path_name p = (if p = [] then [] else last p)"

text \<open>
  The last dot of a file name splits it into \<open>stem\<close> and \<open>suffix\<close>, unless it is the first
  or the last character.
\<close>

definition dot_at :: "string \<Rightarrow> nat" where
  "dot_at s = (let k = length (takeWhile (\<lambda>c. c \<noteq> CHR ''.'') (rev s)) in
     if k < length s \<and> 0 < k \<and> Suc k < length s then length s - Suc k else length s)"

definition name_stem :: "string \<Rightarrow> string" where
  "name_stem s = take (dot_at s) s"

definition name_suffix :: "string \<Rightarrow> string" where
  "name_suffix s = drop (dot_at s) s"

lemma stem_suffix: "name_stem s @ name_suffix s = s"
  by (simp add: name_stem_def name_suffix_def)

lemma path_resolve_plain: "''..'' \<notin> set p \<Longrightarrow> path_resolve p = p"
proof -
  have "''..'' \<notin> set p \<Longrightarrow> foldl (\<lambda>acc c. if c = ''..'' then butlast acc else acc @ [c]) a p = a @ p" for a
    by (induction p arbitrary: a) auto
  then show "''..'' \<notin> set p \<Longrightarrow> path_resolve p = p" by (simp add: path_resolve_def)
qed

section \<open>The file system\<close>

datatype node = Dir | File string

type_synonym fs = "(path, node) dict"

fun node_size :: "node \<Rightarrow> nat" where
  "node_size Dir = 0"
| "node_size (File s) = length s"

definition fs_total :: "fs \<Rightarrow> nat" where
  "fs_total m = sum_list (map (node_size \<circ> snd) m)"

definition is_file_node :: "node option \<Rightarrow> bool" where
  "is_file_node n = (case n of Some (File _) \<Rightarrow> True | _ \<Rightarrow> False)"

text \<open>\<open>mkdir(parents=True, exist_ok=True)\<close>; \<open>None\<close> is an \<open>OSError\<close>: something on the way is a file.\<close>

fun mk_dirs :: "path \<Rightarrow> path \<Rightarrow> fs \<Rightarrow> fs option" where
  "mk_dirs base [] m = (if is_file_node (dict_get m base) then None
     else Some (if dict_get m base = None then dict_set base Dir m else m))"
| "mk_dirs base (c # cs) m = (if is_file_node (dict_get m base) then None
     else mk_dirs (base @ [c]) cs (if dict_get m base = None then dict_set base Dir m else m))"

text \<open>\<open>open(p, "wb")\<close> below an existing directory; a directory cannot be opened.\<close>

definition open_write :: "path \<Rightarrow> fs \<Rightarrow> fs option" where
  "open_write p m = (if dict_get m p = Some Dir then None else Some (dict_set p (File []) m))"

definition append_file :: "path \<Rightarrow> string \<Rightarrow> fs \<Rightarrow> fs" where
  "append_file p s m = (case dict_get m p of
       Some (File t) \<Rightarrow> dict_set p (File (t @ s)) m
     | _ \<Rightarrow> m)"

text \<open>\<open>shutil.rmtree(root, ignore_errors=True)\<close>\<close>

definition rm_tree :: "path \<Rightarrow> fs \<Rightarrow> fs" where
  "rm_tree root m = filter (\<lambda>(p, n). \<not> prefix root p) m"

lemma fs_total_set:
  "distinct (dict_keys m) \<Longrightarrow>
     fs_total (dict_set p n m) + (case dict_get m p of None \<Rightarrow> 0 | Some o' \<Rightarrow> node_size o') = fs_total m + node_size n"
proof (induction m)
  case Nil
  then show ?case by (simp add: fs_total_def dict_set_def)
next
  case (Cons x m)
  then show ?case
    by (cases x) (auto simp: fs_total_def dict_set_def dest: weak_map_of_SomeI split: option.splits)
qed

lemma rm_tree_get: "dict_get (rm_tree root m) p = (if prefix root p then None else dict_get m p)"
  by (induction m) (auto simp: rm_tree_def)

end
