(* ===== verification/Bundle_Extract.thy ===== *)
theory Bundle_Extract
  imports Py_Paths "HOL-Library.Word"
begin

unbundle bit_operations_syntax

text \<open>
  The hardened extraction of \<open>zcc_diag/bundle.py\<close>.  An archive is the list of its members;
  reading the ZIP format itself belongs to \<open>zipfile\<close> and is the argument \<open>unzip\<close>, with
  \<open>None\<close> for \<open>BadZipFile\<close>.  A member carries what its header claims and, separately, the
  chunks that decompressing it really delivers, as an attacker chooses both.
\<close>

section \<open>Limits, members, state\<close>

record bundle_limits =
  max_total_uncompressed :: nat
  max_member_uncompressed :: nat
  max_members :: nat
  max_compression_ratio :: nat
  max_zip_depth :: nat

definition default_limits :: bundle_limits where
  "default_limits = \<lparr>max_total_uncompressed = 2 * 1024 * 1024 * 1024,
     max_member_uncompressed = 512 * 1024 * 1024, max_members = 50000,
     max_compression_ratio = 200, max_zip_depth = 2\<rparr>"

text \<open>\<open>open_fails\<close> and \<open>read_fails\<close>: opening the member, or reading past its last chunk, raises.\<close>

record zip_info =
  filename :: string
  create_system :: nat
  external_attr :: "32 word"
  file_size :: nat
  compress_size :: nat
  chunks :: "string list"
  open_fails :: bool
  read_fails :: bool

datatype bundle_exc =
    CorruptZip
  | TooManyMembers nat
  | TotalExceeded
  | StreamExceeded string
  | ReadError
  | OsError
  | NotRegularFile
  | NotAZip

text \<open>The subclass \<open>BundleSecurityError\<close>.\<close>

fun security_exc :: "bundle_exc \<Rightarrow> bool" where
  "security_exc (TooManyMembers n) = True"
| "security_exc TotalExceeded = True"
| "security_exc (StreamExceeded f) = True"
| "security_exc _ = False"

record bundle_state =
  root :: path
  files :: "path list"
  skipped :: "string list"
  bytes_written :: nat
  disk :: fs

section \<open>The guards\<close>

definition is_symlink :: "zip_info \<Rightarrow> bool" where
  "is_symlink zi = (create_system zi = 3 \<and>
     (drop_bit 16 (external_attr zi) AND 0xFFFF) AND 0xF000 = 0xA000)"

text \<open>\<open>None\<close> when the name is safe below the directory, else the reason.\<close>

definition safe_target :: "path \<Rightarrow> string \<Rightarrow> string option" where
  "safe_target dest name =
     (if name = [] then Some ''empty member name''
      else if hd name = CHR ''/'' \<or> hd name = CHR 0x5C then Some ''absolute path''
      else if 2 \<le> length name \<and> name ! 1 = CHR '':'' then Some ''drive-letter path''
      else if CHR 0x00 \<in> set name then Some ''null byte in path''
      else if list_ex (\<lambda>p. p = ''..'') (split_on CHR ''/'' (replace_all [CHR 0x5C] ''/'' name))
        then Some ''path traversal''
      else if \<not> prefix (path_resolve dest) (path_resolve (dest @ parts name)) then Some ''zip-slip rejected''
      else None)"

text \<open>
  The quotient of two integers below \<open>2\<^sup>5\<^sup>3\<close> is rounded to a double above the integer
  limit exactly when it is above it, so the test is the one without division.
\<close>

definition ratio_exceeds :: "nat \<Rightarrow> nat \<Rightarrow> nat \<Rightarrow> bool" where
  "ratio_exceeds usize csize r = (0 < csize \<and> r * csize < usize)"

definition is_dir_member :: "zip_info \<Rightarrow> bool" where
  "is_dir_member zi = (filename zi \<noteq> [] \<and> last (filename zi) = CHR ''/'')"

definition skip :: "string \<Rightarrow> string \<Rightarrow> bundle_state \<Rightarrow> bundle_state" where
  "skip name why s = s\<lparr>skipped := skipped s @ [name @ '': '' @ why]\<rparr>"

section \<open>Extraction\<close>

text \<open>The copy loop.  The shared counter moves before it is tested, the file after.\<close>

fun stream :: "bundle_limits \<Rightarrow> string \<Rightarrow> path \<Rightarrow> bool \<Rightarrow> nat \<Rightarrow> string list \<Rightarrow> bundle_state
    \<Rightarrow> bundle_exc option \<times> bundle_state" where
  "stream lim fname target fails written [] s = (if fails then Some ReadError else None, s)"
| "stream lim fname target fails written (c # cs) s =
     (let written' = written + length c; s' = s\<lparr>bytes_written := bytes_written s + length c\<rparr> in
      if max_total_uncompressed lim < bytes_written s' then (Some TotalExceeded, s')
      else if max_member_uncompressed lim < written' then (Some (StreamExceeded fname), s')
      else stream lim fname target fails written' cs (s'\<lparr>disk := append_file target c (disk s')\<rparr>))"

text \<open>The reason why a member is skipped, if any, in the order of the tests.\<close>

definition skip_reason :: "bundle_limits \<Rightarrow> path \<Rightarrow> zip_info \<Rightarrow> string option" where
  "skip_reason lim dest zi =
     (if is_symlink zi then Some ''symlink rejected''
      else case safe_target dest (filename zi) of
        Some reason \<Rightarrow> Some reason
      | None \<Rightarrow>
          if max_member_uncompressed lim < file_size zi then Some ''member size exceeds cap''
          else if ratio_exceeds (file_size zi) (compress_size zi) (max_compression_ratio lim)
          then Some ''compression ratio too high'' else None)"

text \<open>The file of a member: the exception, whether it is a nested archive, and the new state.\<close>

definition copy_member :: "bundle_limits \<Rightarrow> path \<Rightarrow> zip_info \<Rightarrow> bundle_state
    \<Rightarrow> bundle_exc option \<times> path list \<times> bundle_state" where
  "copy_member lim target zi s = (case mk_dirs [] (butlast target) (disk s) of
       None \<Rightarrow> (Some OsError, [], s)
     | Some m \<Rightarrow>
         if open_fails zi then (Some ReadError, [], s\<lparr>disk := m\<rparr>)
         else (case open_write target m of
             None \<Rightarrow> (Some OsError, [], s\<lparr>disk := m\<rparr>)
           | Some m' \<Rightarrow>
               (case stream lim (filename zi) target (read_fails zi) 0 (chunks zi) (s\<lparr>disk := m'\<rparr>) of
                 (Some e, s') \<Rightarrow> (Some e, [], s')
               | (None, s') \<Rightarrow> (None,
                   if py_lower (name_suffix (path_name target)) = ''.zip'' then [target] else [],
                   s'\<lparr>files := files s' @ [target]\<rparr>))))"

definition extract_member :: "bundle_limits \<Rightarrow> path \<Rightarrow> zip_info \<Rightarrow> bundle_state
    \<Rightarrow> bundle_exc option \<times> path list \<times> bundle_state" where
  "extract_member lim dest zi s = (case skip_reason lim dest zi of
       Some reason \<Rightarrow> (None, [], skip (filename zi) reason s)
     | None \<Rightarrow> (let target = dest @ parts (filename zi) in
         if is_dir_member zi
         then (case mk_dirs [] target (disk s) of
             None \<Rightarrow> (Some OsError, [], s)
           | Some m \<Rightarrow> (None, [], s\<lparr>disk := m\<rparr>))
         else copy_member lim target zi s))"

fun extract_members :: "bundle_limits \<Rightarrow> path \<Rightarrow> zip_info list \<Rightarrow> bundle_state
    \<Rightarrow> bundle_exc option \<times> path list \<times> bundle_state" where
  "extract_members lim dest [] s = (None, [], s)"
| "extract_members lim dest (zi # zis) s = (case extract_member lim dest zi s of
       (Some e, nz, s') \<Rightarrow> (Some e, nz, s')
     | (None, nz, s') \<Rightarrow> (case extract_members lim dest zis s' of
         (e, nzs, s'') \<Rightarrow> (e, nz @ nzs, s'')))"

text \<open>The nested archives one after the other: the first exception ends the loop.\<close>

fun run_serial :: "('a \<Rightarrow> 's \<Rightarrow> 'e option \<times> 's) \<Rightarrow> 'a list \<Rightarrow> 's \<Rightarrow> 'e option \<times> 's" where
  "run_serial f [] s = (None, s)"
| "run_serial f (x # xs) s = (case f x s of
       (Some e, s') \<Rightarrow> (Some e, s')
     | (None, s') \<Rightarrow> run_serial f xs s')"

text \<open>
  The thread pool, in the schedule that runs the tasks in the order they were submitted:
  every task runs, then the first exception in that order is raised again.  The other
  schedules are the step relation of the concurrent model.
\<close>

fun run_pool :: "('a \<Rightarrow> 's \<Rightarrow> 'e option \<times> 's) \<Rightarrow> 'a list \<Rightarrow> 's \<Rightarrow> 'e option \<times> 's" where
  "run_pool f [] s = (None, s)"
| "run_pool f (x # xs) s = (case f x s of
       (e, s') \<Rightarrow> (case run_pool f xs s' of
         (e', s'') \<Rightarrow> (if e = None then e' else e, s'')))"

definition read_bytes :: "fs \<Rightarrow> path \<Rightarrow> string" where
  "read_bytes m p = (case dict_get m p of Some (File t) \<Rightarrow> t | _ \<Rightarrow> [])"

definition nested_dest :: "path \<Rightarrow> path" where
  "nested_dest nz = butlast nz @ [name_stem (path_name nz) @ ''_extracted'']"

text \<open>
  \<open>left\<close> is the number of archive levels still allowed: \<open>depth\<close> exceeds the limit when it
  is zero.
\<close>

primrec extract_zip :: "nat \<Rightarrow> (string \<Rightarrow> zip_info list option) \<Rightarrow> bundle_limits \<Rightarrow> nat \<Rightarrow> path \<Rightarrow> path
    \<Rightarrow> bundle_state \<Rightarrow> bundle_exc option \<times> bundle_state" where
  "extract_zip 0 unzip lim depth zip_path dest s = (None, skip (path_name zip_path) ''max recursion depth'' s)"
| "extract_zip (Suc left) unzip lim depth zip_path dest s =
     (case unzip (read_bytes (disk s) zip_path) of
        None \<Rightarrow> (if depth = 1 then (Some CorruptZip, s) else (None, skip (path_name zip_path) ''not a zip'' s))
      | Some members \<Rightarrow>
          (if max_members lim < length members then (Some (TooManyMembers (length members)), s)
           else case extract_members lim dest members s of
               (Some e, nzs, s') \<Rightarrow> (Some e, s')
             | (None, nzs, s') \<Rightarrow>
                 (let nested = (\<lambda>nz. extract_zip left unzip lim (Suc depth) nz (nested_dest nz)) in
                  if depth = 1 \<and> 1 < length nzs then run_pool nested nzs s' else run_serial nested nzs s')))"

definition cleanup :: "bundle_state \<Rightarrow> fs" where
  "cleanup s = rm_tree (root s) (disk s)"

text \<open>
  \<open>open_bundle()\<close>: \<open>fresh\<close> is the directory \<open>mkdtemp\<close> makes.  An exception of any kind removes
  the directory and is raised again; the file system is returned in both cases.
\<close>

definition py_open_bundle :: "(string \<Rightarrow> zip_info list option) \<Rightarrow> (string \<Rightarrow> bool) \<Rightarrow> path \<Rightarrow> bundle_limits \<Rightarrow> path
    \<Rightarrow> fs \<Rightarrow> (bundle_exc + bundle_state) \<times> fs" where
  "py_open_bundle unzip is_zip fresh lim bundle_path m =
     (if \<not> is_file_node (dict_get m bundle_path) then (Inl NotRegularFile, m)
      else if \<not> is_zip (read_bytes m bundle_path) then (Inl NotAZip, m)
      else case extract_zip (max_zip_depth lim) unzip lim 1 bundle_path fresh
             \<lparr>root = fresh, files = [], skipped = [], bytes_written = 0, disk = dict_set fresh Dir m\<rparr> of
          (Some e, s) \<Rightarrow> (Inl e, cleanup s)
        | (None, s) \<Rightarrow> (Inr s, disk s))"

text \<open>\<open>bundle_session\<close>: the body of the \<open>with\<close> block runs between, and may raise.\<close>

definition bundle_session :: "(string \<Rightarrow> zip_info list option) \<Rightarrow> (string \<Rightarrow> bool) \<Rightarrow> path \<Rightarrow> bundle_limits \<Rightarrow> path
    \<Rightarrow> (bundle_state \<Rightarrow> 'r \<times> bundle_state) \<Rightarrow> fs \<Rightarrow> (bundle_exc + 'r) \<times> fs" where
  "bundle_session unzip is_zip fresh lim bundle_path body m =
     (case py_open_bundle unzip is_zip fresh lim bundle_path m of
        (Inl e, m') \<Rightarrow> (Inl e, m')
      | (Inr s, m') \<Rightarrow> (case body s of (r, s') \<Rightarrow> (Inr r, cleanup s')))"

text \<open>\<open>list_log_files\<close>, in the order in which the model's file system holds the files.\<close>

definition list_log_files :: "bundle_state \<Rightarrow> bool \<Rightarrow> bool \<Rightarrow> path list" where
  "list_log_files s include_helper include_updater =
     map fst (filter (\<lambda>(p, n). strict_prefix (root s) p \<and> suffix ''.log'' (path_name p) \<and> is_file_node (Some n)
        \<and> (include_helper \<or> \<not> prefix ''ZSAHelper'' (path_name p))
        \<and> (include_updater \<or> \<not> prefix ''ZSAUpdater'' (path_name p))) (disk s))"

end
