(* ===== verification/Bundle_Safety.thy ===== *)
theory Bundle_Safety
  imports Bundle_Extract
begin

text \<open>
  What the extraction guarantees against a hostile archive: nothing outside the fresh
  directory changes, the bytes that reach the disk stay below the total cap even while an
  exception is on its way, and a failed extraction leaves the file system as it was.
\<close>

section \<open>Names\<close>

lemma split_replace_backslash:
  assumes "split_on CHR ''/'' s = q # qs" "split_on CHR ''/'' (replace_all [CHR 0x5C] ''/'' s) = r # rs"
  shows "(CHR 0x5C \<notin> set q \<longrightarrow> r = q) \<and> (\<forall>p\<in>set qs. CHR 0x5C \<notin> set p \<longrightarrow> p \<in> set rs)"
  using assms
proof (induction s arbitrary: q qs r rs)
  case Nil
  then show ?case by simp
next
  case (Cons c s)
  obtain q' qs' where q: "split_on CHR ''/'' s = q' # qs'" by (meson list.exhaust split_on_not_Nil)
  obtain r' rs' where r: "split_on CHR ''/'' (replace_all [CHR 0x5C] ''/'' s) = r' # rs'"
    by (meson list.exhaust split_on_not_Nil)
  from Cons.IH [OF q r] Cons.prems show ?case by (auto simp: q r split: if_splits)
qed

lemma split_replace_dots:
  "''..'' \<in> set (split_on CHR ''/'' s) \<Longrightarrow> ''..'' \<in> set (split_on CHR ''/'' (replace_all [CHR 0x5C] ''/'' s))"
proof -
  assume d: "''..'' \<in> set (split_on CHR ''/'' s)"
  obtain q qs where q: "split_on CHR ''/'' s = q # qs" by (meson list.exhaust split_on_not_Nil)
  obtain r rs where r: "split_on CHR ''/'' (replace_all [CHR 0x5C] ''/'' s) = r # rs"
    by (meson list.exhaust split_on_not_Nil)
  from split_replace_backslash [OF q r] d q r show ?thesis by auto
qed

lemma safe_target_no_dots: "safe_target dest name = None \<Longrightarrow> ''..'' \<notin> set (parts name)"
  using split_replace_dots [of name]
  by (auto simp: safe_target_def parts_def list_ex_iff split: if_splits)

section \<open>Steps on the file system\<close>

lemma mk_dirs_get:
  "mk_dirs base cs m = Some m' \<Longrightarrow>
     dict_get m' q = (if (\<exists>k\<le>length cs. q = base @ take k cs) \<and> dict_get m q = None then Some Dir else dict_get m q)"
proof (induction base cs m arbitrary: m' rule: mk_dirs.induct)
  case (1 base m)
  then show ?case by (auto simp: dict_get_set split: if_splits)
next
  case (2 base c cs m)
  let ?m = "if dict_get m base = None then dict_set base Dir m else m"
  from "2.prems" have nf: "\<not> is_file_node (dict_get m base)" and md: "mk_dirs (base @ [c]) cs ?m = Some m'"
    by (auto split: if_splits)
  have ex: "(\<exists>k\<le>length (c # cs). q = base @ take k (c # cs)) \<longleftrightarrow>
      q = base \<or> (\<exists>k\<le>length cs. q = (base @ [c]) @ take k cs)"
  proof
    assume "\<exists>k\<le>length (c # cs). q = base @ take k (c # cs)"
    then obtain k where "k \<le> length (c # cs)" "q = base @ take k (c # cs)" by blast
    then show "q = base \<or> (\<exists>k\<le>length cs. q = (base @ [c]) @ take k cs)" by (cases k) auto
  next
    assume "q = base \<or> (\<exists>k\<le>length cs. q = (base @ [c]) @ take k cs)"
    then show "\<exists>k\<le>length (c # cs). q = base @ take k (c # cs)"
    proof
      assume "q = base"
      then show ?thesis by (intro exI [of _ 0]) simp
    next
      assume "\<exists>k\<le>length cs. q = (base @ [c]) @ take k cs"
      then obtain k where "k \<le> length cs" "q = (base @ [c]) @ take k cs" by blast
      then show ?thesis by (intro exI [of _ "Suc k"]) simp
    qed
  qed
  from "2.IH" [OF nf md] show ?case unfolding ex by (auto simp: dict_get_set)
qed

lemma fs_total_new: "distinct (dict_keys m) \<Longrightarrow> dict_get m p = None \<Longrightarrow> fs_total (dict_set p Dir m) = fs_total m"
  using fs_total_set [of m p Dir] by simp

lemma mk_dirs_total:
  "mk_dirs base cs m = Some m' \<Longrightarrow> distinct (dict_keys m) \<Longrightarrow>
     distinct (dict_keys m') \<and> fs_total m' = fs_total m"
  by (induction base cs m rule: mk_dirs.induct) (auto simp: fs_total_new alist.ok_put split: if_splits)

text \<open>
  The invariant: below the directory \<open>r\<close> anything may happen, outside nothing, the
  directory and those above it stay directories, and the size on the disk is covered by
  what was counted and by the cap.
\<close>

definition binv :: "path \<Rightarrow> fs \<Rightarrow> nat \<Rightarrow> bundle_state \<Rightarrow> bool" where
  "binv r m0 cap s = (root s = r \<and> distinct (dict_keys (disk s))
     \<and> (\<forall>k\<le>length r. dict_get (disk s) (take k r) = Some Dir)
     \<and> (\<forall>q. \<not> prefix r q \<longrightarrow> dict_get (disk s) q = dict_get m0 q)
     \<and> fs_total (disk s) \<le> fs_total m0 + min (bytes_written s) cap
     \<and> (\<forall>p\<in>set (files s). strict_prefix r p \<and> is_file_node (dict_get (disk s) p)))"

lemma binvI:
  assumes "binv r m0 cap s" "distinct (dict_keys m)" "fs_total m \<le> fs_total m0 + min (bytes_written s) cap"
    and "\<And>q. dict_get m q \<noteq> dict_get (disk s) q \<Longrightarrow>
        prefix r q \<and> (dict_get (disk s) q = None \<or> is_file_node (dict_get (disk s) q) \<and> is_file_node (dict_get m q))"
  shows "binv r m0 cap (s\<lparr>disk := m\<rparr>)"
proof -
  have "dict_get m (take k r) = Some Dir" if "k \<le> length r" for k
  proof (rule ccontr)
    assume ne: "dict_get m (take k r) \<noteq> Some Dir"
    have "dict_get (disk s) (take k r) = Some Dir" using assms(1) that by (auto simp: binv_def)
    with ne assms(4) [of "take k r"] show False by (auto simp: is_file_node_def)
  qed
  moreover have "dict_get m q = dict_get m0 q" if "\<not> prefix r q" for q
    using assms(1) assms(4) [of q] that by (auto simp: binv_def)
  moreover have "is_file_node (dict_get m p)" if "p \<in> set (files s)" for p
    using assms(1) assms(4) [of p] that
    by (cases "dict_get m p = dict_get (disk s) p") (auto simp: binv_def is_file_node_def)
  ultimately show ?thesis using assms(1-3) by (auto simp: binv_def)
qed

lemma skip_bytes [simp]: "bytes_written (skip f w s) = bytes_written s"
  by (simp add: skip_def)

lemma binv_skip: "binv r m0 cap s \<Longrightarrow> binv r m0 cap (skip f w s)"
  by (simp add: binv_def skip_def)

lemma binv_count: "binv r m0 cap s \<Longrightarrow> binv r m0 cap (s\<lparr>bytes_written := bytes_written s + n\<rparr>)"
  by (auto simp: binv_def min_def split: if_splits)

lemma binv_mk_dirs:
  assumes s: "binv r m0 cap s" and m: "mk_dirs [] p (disk s) = Some m" and p: "prefix r p \<or> prefix p r"
  shows "binv r m0 cap (s\<lparr>disk := m\<rparr>)"
proof (rule binvI [OF s])
  from mk_dirs_total [OF m] s show "distinct (dict_keys m)"
    and "fs_total m \<le> fs_total m0 + min (bytes_written s) cap"
    by (simp_all add: binv_def)
  fix q
  assume "dict_get m q \<noteq> dict_get (disk s) q"
  with mk_dirs_get [OF m, of q] obtain k where q: "k \<le> length p" "q = take k p" "dict_get (disk s) q = None"
    by (auto split: if_splits)
  have "prefix r q"
  proof (cases "k \<le> length r")
    case True
    with p q(1,2) have q': "q = take k r \<or> r = p"
      by (auto simp: prefix_def)
    show ?thesis
    proof (cases "q = take k r")
      case True
      with s \<open>k \<le> length r\<close> q(3) show ?thesis by (auto simp: binv_def)
    next
      case False
      with q' q(2) show ?thesis by simp
    qed
  next
    case False
    with p q(1,2) show ?thesis by (auto simp: prefix_def)
  qed
  with q(3) show "prefix r q \<and> (dict_get (disk s) q = None
      \<or> is_file_node (dict_get (disk s) q) \<and> is_file_node (dict_get m q))" by simp
qed

lemma binv_open_write:
  assumes s: "binv r m0 cap s" and m: "open_write p (disk s) = Some m" and p: "prefix r p"
  shows "binv r m0 cap (s\<lparr>disk := m\<rparr>) \<and> strict_prefix r p \<and> is_file_node (dict_get m p)"
proof -
  from m have nd: "dict_get (disk s) p \<noteq> Some Dir" and m': "m = dict_set p (File []) (disk s)"
    by (auto simp: open_write_def split: if_splits)
  have d: "distinct (dict_keys (disk s))" using s by (simp add: binv_def)
  have "binv r m0 cap (s\<lparr>disk := m\<rparr>)"
  proof (rule binvI [OF s])
    show "distinct (dict_keys m)" unfolding m' using d by (rule alist.ok_put)
    show "fs_total m \<le> fs_total m0 + min (bytes_written s) cap"
      using fs_total_set [OF d, of p "File []"] s by (auto simp: m' binv_def)
    fix q
    assume "dict_get m q \<noteq> dict_get (disk s) q"
    then have "q = p" by (auto simp: m' dict_get_set split: if_splits)
    then show "prefix r q \<and> (dict_get (disk s) q = None
        \<or> is_file_node (dict_get (disk s) q) \<and> is_file_node (dict_get m q))"
      using p nd by (auto simp: m' dict_get_set is_file_node_def split: option.splits node.splits)
  qed
  moreover have "p \<noteq> r"
  proof
    assume "p = r"
    with s nd show False unfolding binv_def by (metis le_refl take_all)
  qed
  ultimately show ?thesis using p by (auto simp: m' dict_get_set is_file_node_def)
qed

lemma binv_append:
  assumes s: "binv r m0 cap s" and p: "prefix r p" and b: "bytes_written s + length c \<le> cap"
  shows "binv r m0 cap (s\<lparr>bytes_written := bytes_written s + length c, disk := append_file p c (disk s)\<rparr>)
     \<and> (is_file_node (dict_get (disk s) p) \<longrightarrow> is_file_node (dict_get (append_file p c (disk s)) p))"
proof (cases "\<exists>t. dict_get (disk s) p = Some (File t)")
  case True
  then obtain t where t: "dict_get (disk s) p = Some (File t)" ..
  have d: "distinct (dict_keys (disk s))" using s by (simp add: binv_def)
  let ?s = "s\<lparr>bytes_written := bytes_written s + length c\<rparr>"
  have a: "append_file p c (disk s) = dict_set p (File (t @ c)) (disk s)" by (simp add: append_file_def t)
  have "binv r m0 cap (?s\<lparr>disk := append_file p c (disk s)\<rparr>)"
  proof (rule binvI [OF binv_count [OF s]])
    show "distinct (dict_keys (append_file p c (disk s)))" unfolding a using d by (rule alist.ok_put)
    show "fs_total (append_file p c (disk s)) \<le> fs_total m0 + min (bytes_written ?s) cap"
      using fs_total_set [OF d, of p "File (t @ c)"] s b by (auto simp: a t binv_def)
    fix q
    assume "dict_get (append_file p c (disk s)) q \<noteq> dict_get (disk ?s) q"
    then have "q = p" by (auto simp: a dict_get_set split: if_splits)
    then show "prefix r q \<and> (dict_get (disk ?s) q = None
        \<or> is_file_node (dict_get (disk ?s) q) \<and> is_file_node (dict_get (append_file p c (disk s)) q))"
      using p t by (simp add: a dict_get_set is_file_node_def)
  qed
  then show ?thesis by (simp add: a dict_get_set is_file_node_def)
next
  case False
  then have "append_file p c (disk s) = disk s"
    by (auto simp: append_file_def split: option.splits node.splits)
  then show ?thesis using binv_count [OF s, of "length c"] by simp
qed

section \<open>Extraction keeps the invariant\<close>

text \<open>The counter stays below the cap as long as no exception is raised.\<close>

definition counted :: "bundle_limits \<Rightarrow> bundle_state \<Rightarrow> bool" where
  "counted lim s = (bytes_written s \<le> max_total_uncompressed lim)"

abbreviation dinv :: "path \<Rightarrow> fs \<Rightarrow> bundle_limits \<Rightarrow> bundle_state \<Rightarrow> bool" where
  "dinv r m0 lim \<equiv> binv r m0 (max_total_uncompressed lim)"

lemma stream_safe:
  "stream lim f target fails w cs s = (e, s') \<Longrightarrow> dinv r m0 lim s \<Longrightarrow> prefix r target \<Longrightarrow>
     is_file_node (dict_get (disk s) target) \<Longrightarrow>
     dinv r m0 lim s' \<and> is_file_node (dict_get (disk s') target) \<and> (e = None \<longrightarrow> counted lim s \<longrightarrow> counted lim s')"
proof (induction cs arbitrary: w s)
  case Nil
  then show ?case by auto
next
  case (Cons c cs)
  let ?n = "bytes_written s + length c"
  let ?t = "s\<lparr>bytes_written := ?n, disk := append_file target c (disk s)\<rparr>"
  consider "e \<noteq> None" "s' = s\<lparr>bytes_written := ?n\<rparr>"
    | "?n \<le> max_total_uncompressed lim" "stream lim f target fails (w + length c) cs ?t = (e, s')"
    using Cons.prems(1) by (auto simp: Let_def split: if_splits)
  then show ?case
  proof cases
    case 1
    with Cons.prems(2-4) show ?thesis by (auto intro: binv_count)
  next
    case 2
    with binv_append [OF Cons.prems(2,3) 2(1)] Cons.prems(4)
    have "dinv r m0 lim ?t" "is_file_node (dict_get (disk ?t) target)" "counted lim ?t"
      by (simp_all add: counted_def)
    with Cons.IH [OF 2(2)] Cons.prems(3) show ?thesis by simp
  qed
qed

lemma butlast_prefix: "prefix r p \<Longrightarrow> prefix r (butlast p) \<or> prefix (butlast p) r"
  by (metis butlast_conv_take prefix_length_prefix nle_le take_is_prefix)

lemma copy_member_safe:
  assumes e: "copy_member lim target zi s = (e, nz, s')" and s: "dinv r m0 lim s" and t: "prefix r target"
  shows "dinv r m0 lim s' \<and> (\<forall>p\<in>set nz. strict_prefix r p) \<and> (e = None \<longrightarrow> counted lim s \<longrightarrow> counted lim s')"
proof (cases "mk_dirs [] (butlast target) (disk s)")
  case None
  with e s show ?thesis by (auto simp: copy_member_def)
next
  case (Some m)
  have m: "dinv r m0 lim (s\<lparr>disk := m\<rparr>)"
    using s Some butlast_prefix [OF t] by (rule binv_mk_dirs)
  show ?thesis
  proof (cases "open_fails zi \<or> open_write target m = None")
    case True
    with e Some m show ?thesis by (auto simp: copy_member_def split: if_splits)
  next
    case False
    then obtain m' where w: "open_write target m = Some m'" and o: "\<not> open_fails zi" by auto
    obtain e' f where st: "stream lim (filename zi) target (read_fails zi) 0 (chunks zi) (s\<lparr>disk := m'\<rparr>) = (e', f)"
      by (metis prod.exhaust)
    from binv_open_write [OF m _ t, of m'] w
    have m': "dinv r m0 lim (s\<lparr>disk := m'\<rparr>)" "strict_prefix r target" "is_file_node (dict_get m' target)"
      by auto
    from stream_safe [OF st m'(1) t] m'(3)
    have f: "dinv r m0 lim f" "is_file_node (dict_get (disk f) target)"
        "e' = None \<longrightarrow> counted lim s \<longrightarrow> counted lim f"
      by (auto simp: counted_def)
    from e Some o w st have r: "e = e'" "set nz \<subseteq> {target}"
        "s' = (if e = None then f\<lparr>files := files f @ [target]\<rparr> else f)"
      by (auto simp: copy_member_def split: option.splits if_splits)
    from f m'(2) r show ?thesis by (auto simp: binv_def counted_def)
  qed
qed

lemma extract_member_safe:
  assumes e: "extract_member lim dest zi s = (e, nz, s')" and s: "dinv r m0 lim s" and d: "prefix r dest"
  shows "dinv r m0 lim s' \<and> (\<forall>p\<in>set nz. strict_prefix r p) \<and> (e = None \<longrightarrow> counted lim s \<longrightarrow> counted lim s')"
proof (cases "skip_reason lim dest zi")
  case (Some w)
  with e s show ?thesis by (auto simp: extract_member_def binv_skip counted_def)
next
  case None
  let ?target = "dest @ parts (filename zi)"
  have t: "prefix r ?target" using d by (simp add: prefix_prefix)
  show ?thesis
  proof (cases "is_dir_member zi")
    case True
    with None e s t show ?thesis
      by (auto simp: extract_member_def counted_def intro: binv_mk_dirs split: option.splits)
  next
    case False
    with None e have "copy_member lim ?target zi s = (e, nz, s')" by (simp add: extract_member_def)
    from copy_member_safe [OF this s t] show ?thesis .
  qed
qed

lemma extract_members_safe:
  "extract_members lim dest zis s = (e, nz, s') \<Longrightarrow> dinv r m0 lim s \<Longrightarrow> prefix r dest \<Longrightarrow>
     dinv r m0 lim s' \<and> (\<forall>p\<in>set nz. strict_prefix r p) \<and> (e = None \<longrightarrow> counted lim s \<longrightarrow> counted lim s')"
proof (induction zis arbitrary: s e nz s')
  case Nil
  then show ?case by simp
next
  case (Cons zi zis)
  obtain e1 nz1 s1 where m: "extract_member lim dest zi s = (e1, nz1, s1)" by (metis prod_cases3)
  note one = extract_member_safe [OF m Cons.prems(2,3)]
  show ?case
  proof (cases e1)
    case None
    obtain e2 nz2 s2 where ms: "extract_members lim dest zis s1 = (e2, nz2, s2)" by (metis prod_cases3)
    from Cons.IH [OF ms] one Cons.prems None m ms show ?thesis by auto
  next
    case (Some x)
    with one Cons.prems m show ?thesis by auto
  qed
qed

text \<open>A runner of tasks keeps what each of its tasks keeps.\<close>

locale task_runner =
  fixes run :: "('a \<Rightarrow> 's \<Rightarrow> 'e option \<times> 's) \<Rightarrow> 'a list \<Rightarrow> 's \<Rightarrow> 'e option \<times> 's"
  assumes run_Nil: "run f [] s = (None, s)"
    and run_Cons: "\<exists>e s'. f x s = (e, s') \<and>
      (run f (x # xs) s = (e, s') \<and> e \<noteq> None
       \<or> (let (e2, s2) = run f xs s' in run f (x # xs) s = (if e = None then e2 else e, s2)))"
begin

lemma run_pres:
  assumes "\<And>x s e s'. x \<in> set xs \<Longrightarrow> f x s = (e, s') \<Longrightarrow> I s \<Longrightarrow> I s' \<and> (e = None \<longrightarrow> C s \<longrightarrow> C s')"
    and "run f xs s = (e, s')" "I s"
  shows "I s' \<and> (e = None \<longrightarrow> C s \<longrightarrow> C s')"
  using assms
proof (induction xs arbitrary: s e s')
  case Nil
  then show ?case by (simp add: run_Nil)
next
  case (Cons x xs)
  obtain e1 s1 where f: "f x s = (e1, s1)" by (metis prod.exhaust)
  obtain e2 s2 where r: "run f xs s1 = (e2, s2)" by (metis prod.exhaust)
  have one: "I s1 \<and> (e1 = None \<longrightarrow> C s \<longrightarrow> C s1)"
    using Cons.prems(1) [OF _ f Cons.prems(3)] by simp
  have rest: "I s2 \<and> (e2 = None \<longrightarrow> C s1 \<longrightarrow> C s2)"
    using Cons.IH [OF _ r] Cons.prems(1) one by auto
  from run_Cons [of f x s xs] f r Cons.prems(2) one rest show ?case
    by (auto split: if_splits)
qed

end

interpretation serial: task_runner run_serial
proof unfold_locales
  fix f :: "'a \<Rightarrow> 's \<Rightarrow> 'e option \<times> 's" and x xs s
  obtain e s' where "f x s = (e, s')" by (metis prod.exhaust)
  then show "\<exists>e s'. f x s = (e, s') \<and> (run_serial f (x # xs) s = (e, s') \<and> e \<noteq> None
       \<or> (let (e2, s2) = run_serial f xs s' in run_serial f (x # xs) s = (if e = None then e2 else e, s2)))"
    by (cases e) auto
qed simp

interpretation pool: task_runner run_pool
proof unfold_locales
  fix f :: "'a \<Rightarrow> 's \<Rightarrow> 'e option \<times> 's" and x xs s
  obtain e s' where "f x s = (e, s')" by (metis prod.exhaust)
  then show "\<exists>e s'. f x s = (e, s') \<and> (run_pool f (x # xs) s = (e, s') \<and> e \<noteq> None
       \<or> (let (e2, s2) = run_pool f xs s' in run_pool f (x # xs) s = (if e = None then e2 else e, s2)))"
    by (auto split: prod.splits)
qed simp

lemma nested_dest_under: "strict_prefix r p \<Longrightarrow> prefix r (nested_dest p)"
proof -
  assume r: "strict_prefix r p"
  then have p: "p \<noteq> []" by auto
  with r have "prefix r (butlast p @ [last p])" "r \<noteq> butlast p @ [last p]" by (auto simp: strict_prefix_def)
  then have "prefix r (butlast p)" unfolding prefix_snoc by blast
  then show ?thesis by (simp add: nested_dest_def prefix_prefix)
qed

lemma extract_zip_safe:
  "extract_zip left unzip lim depth zp dest s = (e, s') \<Longrightarrow> dinv r m0 lim s \<Longrightarrow> prefix r dest \<Longrightarrow>
     dinv r m0 lim s' \<and> (e = None \<longrightarrow> counted lim s \<longrightarrow> counted lim s')"
proof (induction left arbitrary: depth zp dest s e s')
  case 0
  then show ?case by (auto simp: binv_skip counted_def)
next
  case (Suc left)
  let ?nested = "\<lambda>nz. extract_zip left unzip lim (Suc depth) nz (nested_dest nz)"
  consider (skip) w where "e = None" "s' = skip (path_name zp) w s"
    | (fail) "e \<noteq> None" "s' = s"
    | (body) zis e1 nz s1 where "extract_members lim dest zis s = (e1, nz, s1)"
        "e1 \<noteq> None \<and> e = e1 \<and> s' = s1
         \<or> e1 = None \<and> ((e, s') = run_pool ?nested nz s1 \<or> (e, s') = run_serial ?nested nz s1)"
    using Suc.prems(1) by (auto simp: Let_def split: if_splits option.splits prod.splits)
  then show ?case
  proof cases
    case skip
    with Suc.prems show ?thesis by (auto simp: binv_skip counted_def)
  next
    case fail
    with Suc.prems show ?thesis by simp
  next
    case body
    note ms = extract_members_safe [OF body(1) Suc.prems(2,3)]
    have task: "dinv r m0 lim t' \<and> (e' = None \<longrightarrow> counted lim t \<longrightarrow> counted lim t')"
      if "nz' \<in> set nz" "?nested nz' t = (e', t')" "dinv r m0 lim t" for nz' t e' t'
      using that ms by (intro Suc.IH [OF that(2,3)] nested_dest_under) auto
    show ?thesis
    proof (cases "e1 = None")
      case True
      from True body(2) have "run_pool ?nested nz s1 = (e, s') \<or> run_serial ?nested nz s1 = (e, s')" by auto
      then have "dinv r m0 lim s' \<and> (e = None \<longrightarrow> counted lim s1 \<longrightarrow> counted lim s')"
      proof
        assume "run_pool ?nested nz s1 = (e, s')"
        from task this conjunct1 [OF ms] show ?thesis
          by (rule pool.run_pres [where f = ?nested and I = "dinv r m0 lim" and C = "counted lim"])
      next
        assume "run_serial ?nested nz s1 = (e, s')"
        from task this conjunct1 [OF ms] show ?thesis
          by (rule serial.run_pres [where f = ?nested and I = "dinv r m0 lim" and C = "counted lim"])
      qed
      with ms True show ?thesis by blast
    next
      case False
      with ms body(2) show ?thesis by auto
    qed
  qed
qed

section \<open>Opening a bundle\<close>

text \<open>What \<open>mkdtemp\<close> promises: a new directory below existing ones.\<close>

definition fresh_dir :: "path \<Rightarrow> fs \<Rightarrow> bool" where
  "fresh_dir r m = (distinct (dict_keys m) \<and> (\<forall>k<length r. dict_get m (take k r) = Some Dir)
     \<and> (\<forall>(p, n)\<in>set m. \<not> prefix r p))"

definition start_state :: "path \<Rightarrow> fs \<Rightarrow> bundle_state" where
  "start_state r m = \<lparr>root = r, files = [], skipped = [], bytes_written = 0, disk = dict_set r Dir m\<rparr>"

lemma fresh_dir_none: "fresh_dir r m \<Longrightarrow> prefix r p \<Longrightarrow> dict_get m p = None"
  by (auto simp: fresh_dir_def map_of_eq_None_iff)

lemma dinv_start:
  assumes "fresh_dir r m"
  shows "dinv r m lim (start_state r m)"
proof -
  have "dict_get (dict_set r Dir m) (take k r) = Some Dir" if "k \<le> length r" for k
    using assms that by (cases "k = length r") (auto simp: dict_get_set fresh_dir_def)
  moreover have "dict_get m r = None" using fresh_dir_none [OF assms] by simp
  ultimately show ?thesis
    using assms by (auto simp: binv_def start_state_def fresh_dir_def dict_get_set fs_total_new alist.ok_put)
qed

text \<open>
  C33: whatever the archive, an extraction has never put more than the total cap on the
  disk, also at the moment it raises, and has touched nothing outside its directory.
\<close>

theorem extraction_confined:
  assumes "fresh_dir r m"
    and "extract_zip left unzip lim depth zp r (start_state r m) = (e, s)"
  shows "fs_total (disk s) \<le> fs_total m + max_total_uncompressed lim
    \<and> (\<forall>q. \<not> prefix r q \<longrightarrow> dict_get (disk s) q = dict_get m q)"
  using extract_zip_safe [OF assms(2) dinv_start [OF assms(1)]]
  by (auto simp: binv_def)

lemma open_bundle_cases:
  assumes fresh: "fresh_dir r m"
    and run: "py_open_bundle unzip is_zip r lim bundle_path m = (res, m')"
  obtains (raised) e where "res = Inl e" "\<And>q. dict_get m' q = dict_get m q"
    | (opened) s where "res = Inr s" "m' = disk s" "dinv r m lim s" "counted lim s"
proof (cases "is_file_node (dict_get m bundle_path) \<and> is_zip (read_bytes m bundle_path)")
  case False
  with run show thesis by (auto simp: py_open_bundle_def split: if_splits intro: raised)
next
  case True
  obtain e s where x: "extract_zip (max_zip_depth lim) unzip lim 1 bundle_path r (start_state r m) = (e, s)"
    by (metis prod.exhaust)
  from extract_zip_safe [OF x dinv_start [OF fresh]]
  have s: "dinv r m lim s" "e = None \<Longrightarrow> counted lim s"
    by (auto simp: counted_def start_state_def)
  show thesis
  proof (cases e)
    case None
    with run True x s show thesis by (intro opened [of s]) (auto simp: py_open_bundle_def start_state_def)
  next
    case (Some y)
    with run True x have "res = Inl y" "m' = cleanup s"
      by (auto simp: py_open_bundle_def start_state_def)
    with s fresh show thesis
      by (intro raised [of y]) (auto simp: cleanup_def rm_tree_get binv_def fresh_dir_none)
  qed
qed

text \<open>
  C1: opening a bundle either raises and leaves the file system exactly as it was, or
  returns a bundle whose files all lie strictly below its fresh directory, are there, and
  together stay below the cap.
\<close>

theorem open_bundle_all_or_nothing:
  assumes "fresh_dir r m"
    and "py_open_bundle unzip is_zip r lim bundle_path m = (res, m')"
  shows "case res of
      Inl e \<Rightarrow> (\<forall>q. dict_get m' q = dict_get m q)
    | Inr s \<Rightarrow> (\<forall>q. \<not> prefix r q \<longrightarrow> dict_get m' q = dict_get m q)
        \<and> fs_total m' \<le> fs_total m + max_total_uncompressed lim
        \<and> bytes_written s \<le> max_total_uncompressed lim
        \<and> (\<forall>p\<in>set (files s). strict_prefix r p \<and> is_file_node (dict_get m' p))"
  using assms by (cases rule: open_bundle_cases) (auto simp: binv_def counted_def)

text \<open>
  Leaving a session removes everything that was extracted, provided its body writes
  below the bundle's directory only.
\<close>

theorem bundle_session_restores:
  assumes fresh: "fresh_dir r m"
    and body: "\<And>s q. root s = r \<Longrightarrow> root (snd (body s)) = r
        \<and> (\<not> prefix r q \<longrightarrow> dict_get (disk (snd (body s))) q = dict_get (disk s) q)"
    and run: "bundle_session unzip is_zip r lim bundle_path body m = (res, m')"
  shows "dict_get m' q = dict_get m q"
proof -
  obtain b m1 where b: "py_open_bundle unzip is_zip r lim bundle_path m = (b, m1)" by (metis prod.exhaust)
  from fresh b show ?thesis
  proof (cases rule: open_bundle_cases)
    case (raised e)
    with run b show ?thesis by (simp add: bundle_session_def)
  next
    case (opened s)
    then have s: "root s = r" "\<And>q. \<not> prefix r q \<Longrightarrow> dict_get (disk s) q = dict_get m q"
      by (auto simp: binv_def)
    have "m' = cleanup (snd (body s))"
      using run b opened by (auto simp: bundle_session_def split: prod.splits)
    with body [OF s(1)] s show ?thesis
      by (auto simp: cleanup_def rm_tree_get fresh_dir_none [OF fresh])
  qed
qed

section \<open>Examples\<close>

definition member :: "string \<Rightarrow> string \<Rightarrow> zip_info" where
  "member f c = \<lparr>filename = f, create_system = 3, external_attr = 0, file_size = length c,
     compress_size = length c, chunks = (if c = [] then [] else [c]), open_fails = False, read_fails = False\<rparr>"

definition small_limits :: bundle_limits where
  "small_limits = \<lparr>max_total_uncompressed = 20, max_member_uncompressed = 10, max_members = 2,
     max_compression_ratio = 5, max_zip_depth = 2\<rparr>"

definition ex_unzip :: "string \<Rightarrow> zip_info list option" where
  "ex_unzip b = map_of
     [(''Z'', [member ''a.zip'' ''A'', member ''b.zip'' ''A'']),
      (''Y'', [member ''a.zip'' ''A'', member ''a.ZIP'' ''B'']),
      (''X'', [member ''d/x.log'' ''hello'', member ''../../etc/passwd'' ''root'']),
      (''A'', [member ''x.log'' ''1'', member ''y.log'' ''2'']),
      (''B'', [member ''x.log'' ''3'', member ''y.log'' ''4''])] b"

definition ex_fs :: "string \<Rightarrow> fs" where
  "ex_fs b = [([], Dir), ([''tmp''], Dir), ([''tmp'', ''in.zip''], File b)]"

definition ex_open :: "string \<Rightarrow> (bundle_exc + bundle_state) \<times> fs" where
  "ex_open b = py_open_bundle ex_unzip (\<lambda>b. True) [''tmp'', ''r''] small_limits [''tmp'', ''in.zip''] (ex_fs b)"

lemma ex_fresh: "fresh_dir [''tmp'', ''r''] (ex_fs b)"
  by (auto simp: fresh_dir_def ex_fs_def less_Suc_eq numeral_2_eq_2)

theorem extraction_confined_witness:
  "fs_total (disk (snd (extract_zip 2 ex_unzip small_limits 1 [''tmp'', ''in.zip''] [''tmp'', ''r'']
      (start_state [''tmp'', ''r''] (ex_fs ''X''))))) \<le> fs_total (ex_fs ''X'') + 20
   \<and> dict_get (disk (snd (extract_zip 2 ex_unzip small_limits 1 [''tmp'', ''in.zip''] [''tmp'', ''r'']
      (start_state [''tmp'', ''r''] (ex_fs ''X''))))) [''etc'', ''passwd''] = None"
  using extraction_confined [OF ex_fresh surjective_pairing, of 2 ex_unzip small_limits 1 "[''tmp'', ''in.zip'']" "''X''"]
  by (simp add: small_limits_def ex_fs_def)

theorem open_bundle_all_or_nothing_witness:
  "case ex_open ''X'' of
      (Inl e, m') \<Rightarrow> False
    | (Inr s, m') \<Rightarrow> length (files s) = 1 \<and> bytes_written s \<le> 20 \<and> fs_total m' \<le> 1 + 20
        \<and> list_all (strict_prefix [''tmp'', ''r'']) (files s)"
proof -
  obtain res m' where o: "ex_open ''X'' = (res, m')" by (metis prod.exhaust)
  have "case ex_open ''X'' of (Inl e, m') \<Rightarrow> False | (Inr s, m') \<Rightarrow> length (files s) = 1" by code_simp
  with open_bundle_all_or_nothing [OF ex_fresh, of ex_unzip "\<lambda>b. True" small_limits "[''tmp'', ''in.zip'']" "''X''" res m'] o
  show ?thesis
    by (auto simp: ex_open_def small_limits_def ex_fs_def fs_total_def list_all_iff split: sum.splits)
qed

theorem bundle_session_restores_witness:
  "dict_get (snd (bundle_session ex_unzip (\<lambda>b. True) [''tmp'', ''r''] small_limits [''tmp'', ''in.zip'']
     (\<lambda>s. (files s, s\<lparr>disk := dict_set (root s @ [''out'']) (File ''x'') (disk s)\<rparr>)) (ex_fs ''X'')))
     [''tmp'', ''r'', ''d''] = dict_get (ex_fs ''X'') [''tmp'', ''r'', ''d'']"
  by (rule bundle_session_restores [OF ex_fresh _ surjective_pairing]) (auto simp: dict_get_set)

text \<open>
  The member cap holds for each archive on its own, not for the bundle: two members
  allowed, and a bundle of two nested archives yields six files.
\<close>

theorem member_cap_per_archive:
  "case ex_open ''Z'' of
      (Inl e, m') \<Rightarrow> False
    | (Inr s, m') \<Rightarrow> max_members small_limits = 2 \<and> length (files s) = 6 \<and> skipped s = []"
  by code_simp

text \<open>
  Nested archives whose names differ in the extension's case share one directory: the
  second overwrites the logs of the first, which are still listed twice.
\<close>

theorem nested_archives_collide:
  "case ex_open ''Y'' of
      (Inl e, m') \<Rightarrow> False
    | (Inr s, m') \<Rightarrow> length (files s) = 6 \<and> \<not> distinct (files s)
        \<and> dict_get m' [''tmp'', ''r'', ''a_extracted'', ''x.log''] = Some (File ''3'')"
  by code_simp

end
