(* ===== verification/Bundle_Pool.thy ===== *)
theory Bundle_Pool
  imports Bundle_Safety
begin

text \<open>
  The thread pool of \<open>_extract_zip\<close>: workers copy their members chunk by chunk and share
  the counter \<open>bytes_written\<close>.  Counting a chunk happens under the lock, testing the
  counter does not, so between the two any other worker may move.  A schedule is a path
  of the step relation.
\<close>

section \<open>Workers\<close>

text \<open>
  A worker has chunks to read, the first of a member flagged, at most one chunk counted and
  not yet tested, and the bytes of its current member; it is broken when it has raised.
\<close>

record worker =
  todo :: "(bool \<times> nat) list"
  held :: "nat option"
  cur :: nat
  broken :: bool

record pool =
  counter :: nat
  on_disk :: nat
  workers :: "worker list"

definition take_chunk :: "worker \<Rightarrow> (worker \<times> nat) option" where
  "take_chunk w = (if broken w \<or> held w \<noteq> None then None
     else case todo w of [] \<Rightarrow> None
       | (new, n) # cs \<Rightarrow> Some (w\<lparr>todo := cs, held := Some n, cur := (if new then 0 else cur w) + n\<rparr>, n))"

definition over :: "bundle_limits \<Rightarrow> nat \<Rightarrow> worker \<Rightarrow> bool" where
  "over lim tot w = (max_total_uncompressed lim < tot \<or> max_member_uncompressed lim < cur w)"

inductive pool_step :: "bundle_limits \<Rightarrow> pool \<Rightarrow> pool \<Rightarrow> bool" for lim where
  count: "i < length (workers p) \<Longrightarrow> take_chunk (workers p ! i) = Some (w, n) \<Longrightarrow>
    pool_step lim p (p\<lparr>counter := counter p + n, workers := (workers p)[i := w]\<rparr>)"
| store: "i < length (workers p) \<Longrightarrow> held (workers p ! i) = Some n \<Longrightarrow> \<not> over lim (counter p) (workers p ! i) \<Longrightarrow>
    pool_step lim p (p\<lparr>on_disk := on_disk p + n, workers := (workers p)[i := (workers p ! i)\<lparr>held := None\<rparr>]\<rparr>)"
| raise: "i < length (workers p) \<Longrightarrow> held (workers p ! i) = Some n \<Longrightarrow> over lim (counter p) (workers p ! i) \<Longrightarrow>
    pool_step lim p (p\<lparr>workers := (workers p)[i := (workers p ! i)\<lparr>held := None, broken := True\<rparr>]\<rparr>)"

inductive_cases pool_stepE [consumes 1, case_names count store raise]: "pool_step lim p q"

abbreviation pool_run :: "bundle_limits \<Rightarrow> pool \<Rightarrow> pool \<Rightarrow> bool" where
  "pool_run lim \<equiv> (pool_step lim)\<^sup>*\<^sup>*"

definition held_bytes :: "worker \<Rightarrow> nat" where
  "held_bytes w = (case held w of None \<Rightarrow> 0 | Some n \<Rightarrow> n)"

definition todo_bytes :: "worker \<Rightarrow> nat" where
  "todo_bytes w = sum_list (map snd (todo w))"

definition all_held :: "pool \<Rightarrow> nat" where
  "all_held p = sum_list (map held_bytes (workers p))"

definition all_todo :: "pool \<Rightarrow> nat" where
  "all_todo p = sum_list (map todo_bytes (workers p))"

text \<open>Before the pool starts: nothing held, nothing broken, the counter is on the disk.\<close>

definition pool_start :: "bundle_limits \<Rightarrow> pool \<Rightarrow> bool" where
  "pool_start lim p = (list_all (\<lambda>w. held w = None \<and> \<not> broken w) (workers p)
     \<and> on_disk p = counter p \<and> counter p \<le> max_total_uncompressed lim)"

definition stuck :: "bundle_limits \<Rightarrow> pool \<Rightarrow> bool" where
  "stuck lim p = (\<nexists>q. pool_step lim p q)"

section \<open>Sums over the workers\<close>

lemma sum_list_upd:
  "i < length xs \<Longrightarrow> sum_list (map f (xs[i := y])) + f (xs ! i) = sum_list (map f xs) + (f y :: nat)"
proof (induction xs arbitrary: i)
  case Nil
  then show ?case by simp
next
  case (Cons x xs)
  then show ?case by (cases i) (auto simp: algebra_simps)
qed

lemma take_chunk_Some:
  assumes "take_chunk w = Some (w', n)"
  obtains new cs where "\<not> broken w" "held w = None" "todo w = (new, n) # cs"
    "w' = w\<lparr>todo := cs, held := Some n, cur := (if new then 0 else cur w) + n\<rparr>"
  using assms by (auto simp: take_chunk_def split: if_splits list.splits prod.splits)

lemma step_counts:
  assumes "pool_step lim p q"
  shows "counter q + all_todo q = counter p + all_todo p"
  using assms
proof (cases rule: pool_stepE)
  case (count i w n)
  then obtain new cs where "todo (workers p ! i) = (new, n) # cs"
      "w = (workers p ! i)\<lparr>todo := cs, held := Some n, cur := (if new then 0 else cur (workers p ! i)) + n\<rparr>"
    by (elim take_chunk_Some)
  then have "todo_bytes w + n = todo_bytes (workers p ! i)" by (simp add: todo_bytes_def)
  with sum_list_upd [OF count(2), of todo_bytes w] count show ?thesis by (simp add: all_todo_def)
next
  case (store i n)
  with sum_list_upd [OF store(2), of todo_bytes "(workers p ! i)\<lparr>held := None\<rparr>"]
  show ?thesis by (simp add: all_todo_def todo_bytes_def)
next
  case (raise i n)
  with sum_list_upd [OF raise(2), of todo_bytes "(workers p ! i)\<lparr>held := None, broken := True\<rparr>"]
  show ?thesis by (simp add: all_todo_def todo_bytes_def)
qed

text \<open>Counted bytes are on the disk, held, or lost by a worker that raised.\<close>

definition covered :: "bundle_limits \<Rightarrow> pool \<Rightarrow> bool" where
  "covered lim p = (on_disk p + all_held p \<le> counter p \<and> on_disk p \<le> max_total_uncompressed lim
     \<and> (list_all (\<lambda>w. \<not> broken w) (workers p) \<longrightarrow> on_disk p + all_held p = counter p))"

lemma covered_start: "pool_start lim p \<Longrightarrow> covered lim p"
proof -
  assume s: "pool_start lim p"
  then have "list_all (\<lambda>w. held_bytes w = 0) (workers p)"
    by (auto simp: pool_start_def list_all_iff held_bytes_def)
  with s show ?thesis by (auto simp: pool_start_def covered_def all_held_def list_all_iff)
qed

lemma list_all_update: "i < length xs \<Longrightarrow> list_all P (xs[i := y]) \<Longrightarrow> P (xs ! i) \<Longrightarrow> list_all P xs"
proof -
  assume i: "i < length xs" and u: "list_all P (xs[i := y])" and p: "P (xs ! i)"
  have "P (xs ! j)" if "j < length xs" for j
    using u p that by (cases "j = i") (auto simp: list_all_length nth_list_update split: if_splits)
  then show ?thesis by (simp add: list_all_length)
qed

lemma covered_step:
  assumes "pool_step lim p q" and "covered lim p"
  shows "covered lim q"
  using assms(1)
proof (cases rule: pool_stepE)
  case (count i w n)
  then obtain new cs where w: "\<not> broken (workers p ! i)" "held (workers p ! i) = None"
      "w = (workers p ! i)\<lparr>todo := cs, held := Some n, cur := (if new then 0 else cur (workers p ! i)) + n\<rparr>"
    by (elim take_chunk_Some)
  have "all_held q = all_held p + n"
    using sum_list_upd [OF count(2), of held_bytes w] count w by (simp add: all_held_def held_bytes_def)
  moreover have "list_all (\<lambda>w. \<not> broken w) (workers q) \<Longrightarrow> list_all (\<lambda>w. \<not> broken w) (workers p)"
    using list_all_update [OF count(2)] count w by auto
  ultimately show ?thesis using assms(2) count by (auto simp: covered_def)
next
  case (store i n)
  let ?w = "(workers p ! i)\<lparr>held := None\<rparr>"
  have h: "all_held q + n = all_held p"
    using sum_list_upd [OF store(2), of held_bytes ?w] store by (simp add: all_held_def held_bytes_def)
  moreover have "list_all (\<lambda>w. \<not> broken w) (workers q) \<Longrightarrow> list_all (\<lambda>w. \<not> broken w) (workers p)"
    using store by (auto simp: list_all_length nth_list_update split: if_splits)
  moreover have "counter p \<le> max_total_uncompressed lim" using store by (simp add: over_def)
  ultimately show ?thesis using assms(2) store by (auto simp: covered_def)
next
  case (raise i n)
  let ?w = "(workers p ! i)\<lparr>held := None, broken := True\<rparr>"
  have "all_held q + n = all_held p"
    using sum_list_upd [OF raise(2), of held_bytes ?w] raise by (simp add: all_held_def held_bytes_def)
  moreover have "\<not> list_all (\<lambda>w. \<not> broken w) (workers q)"
    using raise by (auto simp: list_all_length intro!: exI [of _ i])
  ultimately show ?thesis using assms(2) raise by (auto simp: covered_def)
qed

lemma covered_run: "pool_run lim p q \<Longrightarrow> covered lim p \<Longrightarrow> covered lim q"
  by (induction rule: rtranclp_induct) (auto intro: covered_step)

lemma counts_run: "pool_run lim p q \<Longrightarrow> counter q + all_todo q = counter p + all_todo p"
  by (induction rule: rtranclp_induct) (auto dest: step_counts)


section \<open>Every schedule ends\<close>

definition work :: "pool \<Rightarrow> nat" where
  "work p = sum_list (map (\<lambda>w. 2 * length (todo w) + (if held w = None then 0 else 1)) (workers p))"

text \<open>Every step makes progress, so no schedule runs forever.\<close>

theorem pool_step_progress:
  assumes "pool_step lim p q"
  shows "work q < work p"
  using assms
proof (cases rule: pool_stepE)
  case (count i w n)
  then obtain new cs where w: "held (workers p ! i) = None" "todo (workers p ! i) = (new, n) # cs"
      "w = (workers p ! i)\<lparr>todo := cs, held := Some n, cur := (if new then 0 else cur (workers p ! i)) + n\<rparr>"
    by (elim take_chunk_Some)
  show ?thesis
    using sum_list_upd [OF count(2), of "\<lambda>w. 2 * length (todo w) + (if held w = None then 0 else 1)" w] count w
    by (simp add: work_def)
next
  case (store i n)
  then show ?thesis
    using sum_list_upd [OF store(2), of "\<lambda>w. 2 * length (todo w) + (if held w = None then 0 else 1)"
        "(workers p ! i)\<lparr>held := None\<rparr>"]
    by (simp add: work_def)
next
  case (raise i n)
  then show ?thesis
    using sum_list_upd [OF raise(2), of "\<lambda>w. 2 * length (todo w) + (if held w = None then 0 else 1)"
        "(workers p ! i)\<lparr>held := None, broken := True\<rparr>"]
    by (simp add: work_def)
qed

section \<open>The outcome does not depend on the schedule\<close>

fun fits :: "nat \<Rightarrow> nat \<Rightarrow> (bool \<times> nat) list \<Rightarrow> bool" where
  "fits cap c [] = True"
| "fits cap c ((new, n) # cs) = (let c' = (if new then 0 else c) + n in c' \<le> cap \<and> fits cap c' cs)"

definition fits_worker :: "bundle_limits \<Rightarrow> worker \<Rightarrow> bool" where
  "fits_worker lim w = ((held w \<noteq> None \<longrightarrow> cur w \<le> max_member_uncompressed lim)
     \<and> fits (max_member_uncompressed lim) (cur w) (todo w))"

text \<open>What a worker's past says about its first state \<open>w0\<close>, where \<open>tot\<close> is all the bytes of the run.\<close>

definition explains :: "bundle_limits \<Rightarrow> nat \<Rightarrow> worker \<Rightarrow> worker \<Rightarrow> bool" where
  "explains lim tot w0 w = (if broken w then max_total_uncompressed lim < tot \<or> \<not> fits_worker lim w0
     else fits_worker lim w = fits_worker lim w0)"

lemma explains_step:
  assumes "pool_step lim p q" and "counter p + all_todo p = tot"
    and "list_all2 (explains lim tot) ws (workers p)"
  shows "list_all2 (explains lim tot) ws (workers q)"
proof -
  have upd: "list_all2 (explains lim tot) ws ((workers p)[i := w])"
    if "i < length (workers p)" "\<And>w0. explains lim tot w0 (workers p ! i) \<Longrightarrow> explains lim tot w0 w" for i w
    using assms(3) that by (auto simp: list_all2_conv_all_nth nth_list_update)
  from assms(1) show ?thesis
  proof (cases rule: pool_stepE)
    case (count i w n)
    then obtain new cs where w: "\<not> broken (workers p ! i)" "held (workers p ! i) = None"
        "todo (workers p ! i) = (new, n) # cs"
        "w = (workers p ! i)\<lparr>todo := cs, held := Some n, cur := (if new then 0 else cur (workers p ! i)) + n\<rparr>"
      by (elim take_chunk_Some)
    then have "fits_worker lim w = fits_worker lim (workers p ! i)"
      by (auto simp: fits_worker_def Let_def)
    with count(1,2) w(1,4) show ?thesis by (auto simp: explains_def intro!: upd)
  next
    case (store i n)
    then have "fits_worker lim ((workers p ! i)\<lparr>held := None\<rparr>) = fits_worker lim (workers p ! i)"
      by (auto simp: fits_worker_def over_def)
    with store(1,2) show ?thesis by (auto simp: explains_def intro!: upd)
  next
    case (raise i n)
    have "max_total_uncompressed lim < tot \<or> \<not> fits_worker lim (workers p ! i)"
      using raise(3,4) assms(2) by (auto simp: over_def fits_worker_def)
    with raise(1,2) show ?thesis by (auto simp: explains_def intro!: upd split: if_splits)
  qed
qed

lemma explains_run:
  "pool_run lim p q \<Longrightarrow> list_all2 (explains lim (counter p + all_todo p)) ws (workers p) \<Longrightarrow>
     list_all2 (explains lim (counter p + all_todo p)) ws (workers q)"
  by (induction rule: rtranclp_induct) (auto intro: explains_step dest: counts_run)

lemma stuck_worker: "stuck lim p \<Longrightarrow> w \<in> set (workers p) \<Longrightarrow> held w = None \<and> (broken w \<or> todo w = [])"
proof -
  assume st: "stuck lim p" and "w \<in> set (workers p)"
  then obtain i where i: "i < length (workers p)" "workers p ! i = w" by (auto simp: in_set_conv_nth)
  have h: "held w = None"
  proof (rule ccontr)
    assume "held w \<noteq> None"
    then obtain n where "held w = Some n" by auto
    with i st pool_step.store [of i p n lim] pool_step.raise [of i p n lim] show False
      by (auto simp: stuck_def)
  qed
  have "broken w \<or> todo w = []"
  proof (rule ccontr)
    assume "\<not> (broken w \<or> todo w = [])"
    with h obtain w' n where "take_chunk w = Some (w', n)"
      by (cases "todo w") (auto simp: take_chunk_def)
    with i st pool_step.count [of i p w' n lim] show False by (auto simp: stuck_def)
  qed
  with h show ?thesis by simp
qed

text \<open>
  Whether the pool raises is decided by the archive alone: some worker has raised at
  the end of a schedule exactly when the bytes together exceed the total cap or a member
  exceeds its own; otherwise every byte is on the disk.
\<close>

theorem pool_outcome:
  assumes "pool_start lim p" "pool_run lim p q" "stuck lim q"
  shows "((\<exists>w\<in>set (workers q). broken w) \<longleftrightarrow>
        max_total_uncompressed lim < counter p + all_todo p
        \<or> (\<exists>w\<in>set (workers p). \<not> fits (max_member_uncompressed lim) (cur w) (todo w)))
    \<and> ((\<exists>w\<in>set (workers q). broken w) \<or> on_disk q = counter p + all_todo p)"
proof -
  let ?total = "counter p + all_todo p"
  have start: "\<And>w. w \<in> set (workers p) \<Longrightarrow> held w = None \<and> \<not> broken w"
    using assms(1) by (auto simp: pool_start_def list_all_iff)
  then have "list_all2 (explains lim ?total) (workers p) (workers p)"
    by (auto simp: list_all2_conv_all_nth explains_def)
  with assms(2) have ex: "list_all2 (explains lim ?total) (workers p) (workers q)" by (rule explains_run)
  have fw: "fits_worker lim w \<longleftrightarrow> fits (max_member_uncompressed lim) (cur w) (todo w)" if "w \<in> set (workers p)" for w
    using start [OF that] by (simp add: fits_worker_def)
  show ?thesis
  proof (cases "\<exists>w\<in>set (workers q). broken w")
    case True
    then obtain i where "i < length (workers q)" "broken (workers q ! i)" by (auto simp: in_set_conv_nth)
    with ex have "max_total_uncompressed lim < ?total \<or> \<not> fits_worker lim (workers p ! i)"
      and "workers p ! i \<in> set (workers p)"
      by (auto simp: list_all2_conv_all_nth explains_def)
    with fw True show ?thesis by blast
  next
    case False
    have q: "held w = None" "todo w = []" if "w \<in> set (workers q)" for w
      using stuck_worker [OF assms(3) that] False that by auto
    then have zero: "all_held q = 0" "all_todo q = 0"
      by (auto simp: all_held_def all_todo_def held_bytes_def todo_bytes_def)
    from covered_run [OF assms(2) covered_start [OF assms(1)]] False
    have d: "on_disk q = counter q" "on_disk q \<le> max_total_uncompressed lim"
      by (auto simp: covered_def zero list_all_iff)
    have tot: "counter q = ?total" using counts_run [OF assms(2)] zero by simp
    have "fits_worker lim w" if "w \<in> set (workers p)" for w
    proof -
      from that obtain i where i: "i < length (workers p)" "w = workers p ! i" by (auto simp: in_set_conv_nth)
      then have "workers q ! i \<in> set (workers q)" "explains lim ?total w (workers q ! i)"
        using ex by (auto simp: list_all2_conv_all_nth)
      with q False show ?thesis by (auto simp: explains_def fits_worker_def)
    qed
    with fw d tot False show ?thesis by auto
  qed
qed

section \<open>The pool finishes\<close>

lemma run_to_stuck: "\<exists>r. pool_run lim q r \<and> stuck lim r"
proof (induction "work q" arbitrary: q rule: less_induct)
  case less
  show ?case
  proof (cases "stuck lim q")
    case False
    then obtain q' where q': "pool_step lim q q'" by (auto simp: stuck_def)
    from less [OF pool_step_progress [OF q']] obtain r where "pool_run lim q' r" "stuck lim r" by blast
    with q' show ?thesis by (blast intro: converse_rtranclp_into_rtranclp)
  qed blast
qed

lemma work_left: "(\<And>n. pool_step lim (\<sigma> n) (\<sigma> (Suc n))) \<Longrightarrow> work (\<sigma> n) + n \<le> work (\<sigma> 0)"
proof (induction n)
  case (Suc n)
  have "work (\<sigma> (Suc n)) < work (\<sigma> n)" using Suc.prems by (rule pool_step_progress)
  with Suc.IH [OF Suc.prems] show ?case by simp
qed simp


section \<open>An example\<close>

definition ex_worker :: "(bool \<times> nat) list \<Rightarrow> nat option \<Rightarrow> nat \<Rightarrow> worker" where
  "ex_worker cs h c = \<lparr>todo = cs, held = h, cur = c, broken = False\<rparr>"

definition ex_pool :: "nat \<Rightarrow> nat \<Rightarrow> worker list \<Rightarrow> pool" where
  "ex_pool c d ws = \<lparr>counter = c, on_disk = d, workers = ws\<rparr>"

definition ex_first :: pool where
  "ex_first = ex_pool 0 0 [ex_worker [(True, 8)] None 0, ex_worker [(True, 9)] None 0]"

definition ex_last :: pool where
  "ex_last = ex_pool 17 17 [ex_worker [] None 8, ex_worker [] None 9]"

lemmas pool_eval = ex_pool_def ex_worker_def take_chunk_def over_def small_limits_def

lemma ex_steps:
  "pool_step small_limits ex_first (ex_pool 8 0 [ex_worker [] (Some 8) 8, ex_worker [(True, 9)] None 0])"
  "pool_step small_limits (ex_pool 8 0 [ex_worker [] (Some 8) 8, ex_worker [(True, 9)] None 0])
     (ex_pool 17 0 [ex_worker [] (Some 8) 8, ex_worker [] (Some 9) 9])"
  "pool_step small_limits (ex_pool 17 0 [ex_worker [] (Some 8) 8, ex_worker [] (Some 9) 9])
     (ex_pool 17 9 [ex_worker [] (Some 8) 8, ex_worker [] None 9])"
  "pool_step small_limits (ex_pool 17 9 [ex_worker [] (Some 8) 8, ex_worker [] None 9]) ex_last"
  using pool_step.count [of 0 ex_first "ex_worker [] (Some 8) 8" 8 small_limits]
    pool_step.count [of 1 "ex_pool 8 0 [ex_worker [] (Some 8) 8, ex_worker [(True, 9)] None 0]" "ex_worker [] (Some 9) 9" 9 small_limits]
    pool_step.store [of 1 "ex_pool 17 0 [ex_worker [] (Some 8) 8, ex_worker [] (Some 9) 9]" 9 small_limits]
    pool_step.store [of 0 "ex_pool 17 9 [ex_worker [] (Some 8) 8, ex_worker [] None 9]" 8 small_limits]
  by (simp_all add: pool_eval ex_first_def ex_last_def)

lemma ex_run: "pool_run small_limits ex_first ex_last"
  using ex_steps by (meson converse_rtranclp_into_rtranclp rtranclp.rtrancl_refl)

lemma ex_start: "pool_start small_limits ex_first"
  by (simp add: pool_start_def ex_first_def pool_eval)

lemma ex_stuck: "stuck small_limits ex_last"
proof -
  have "False" if "pool_step small_limits ex_last q" for q
    using that by (cases rule: pool_stepE) (auto simp: ex_last_def pool_eval less_Suc_eq numeral_2_eq_2)
  then show ?thesis by (auto simp: stuck_def)
qed


theorem pool_step_progress_witness:
  "work (ex_pool 8 0 [ex_worker [] (Some 8) 8, ex_worker [(True, 9)] None 0]) < work ex_first"
  by (rule pool_step_progress [OF ex_steps(1)])

theorem pool_outcome_witness:
  "(\<not> (\<exists>w\<in>set (workers ex_last). broken w)) \<and> on_disk ex_last = counter ex_first + all_todo ex_first"
  using pool_outcome [OF ex_start ex_run ex_stuck] by (auto simp: ex_last_def pool_eval)

end
