(* ===== verification/Transient_Runtime.thy ===== *)
theory Transient_Runtime
  imports Bundle_Safety
begin

text \<open>
  The custody of uploaded data, \<open>zcc_diag/transient_runtime.py\<close>: one run per process, its
  workspace directory, the callbacks that clean it up, and the manager that replaces it.
  Run objects are indices into the list of all runs ever made, since a page may still hold
  one after the manager has dropped it.  Cached values and callbacks are opaque numbers;
  an exception of a callback is swallowed by the code and changes nothing.
\<close>

section \<open>Runs and the manager\<close>

datatype cleanup_fn = Callback nat | CloseHandle nat

record trun =
  session_token :: string
  upload_digest :: string
  run_root :: path
  memo :: "(string, nat) dict"
  cleanups :: "cleanup_fn list"
  owned_ids :: "nat list"
  run_closed :: bool

text \<open>\<open>ran\<close> is the log of the callbacks that were called.\<close>

record rtime =
  active :: "string option"
  cur_run :: "nat option"
  runs :: "trun list"
  rt_disk :: fs
  ran :: "cleanup_fn list"

datatype rt_exc = RuntimeError | FileNotFound | KeyMissing

definition workspace_prefix :: string where
  "workspace_prefix = ''zcc-diag-ephemeral-''"

definition upload_path :: "trun \<Rightarrow> path" where
  "upload_path r = run_root r @ [''input.zip'']"

definition upd_run :: "nat \<Rightarrow> (trun \<Rightarrow> trun) \<Rightarrow> rtime \<Rightarrow> rtime" where
  "upd_run i f s = s\<lparr>runs := (runs s)[i := f (runs s ! i)]\<rparr>"

definition add_cleanup :: "nat \<Rightarrow> cleanup_fn \<Rightarrow> rtime \<Rightarrow> rt_exc option \<times> rtime" where
  "add_cleanup i c s =
     (if run_closed (runs s ! i) then (Some RuntimeError, s)
      else (None, upd_run i (\<lambda>r. r\<lparr>cleanups := cleanups r @ [c]\<rparr>) s))"

text \<open>Handles are an identity and whether they have a callable \<open>close\<close>.\<close>

fun own_upload_handles :: "nat \<Rightarrow> (nat \<times> bool) list \<Rightarrow> rtime \<Rightarrow> rt_exc option \<times> rtime" where
  "own_upload_handles i [] s = (None, s)"
| "own_upload_handles i ((h, closes) # hs) s =
     (if h \<in> set (owned_ids (runs s ! i)) \<or> \<not> closes then own_upload_handles i hs s
      else case add_cleanup i (CloseHandle h) (upd_run i (\<lambda>r. r\<lparr>owned_ids := h # owned_ids r\<rparr>) s) of
          (Some e, s') \<Rightarrow> (Some e, s')
        | (None, s') \<Rightarrow> own_upload_handles i hs s')"

definition close_run :: "nat \<Rightarrow> rtime \<Rightarrow> rtime" where
  "close_run i s = (let r = runs s ! i in
     if run_closed r then s
     else s\<lparr>runs := (runs s)[i := r\<lparr>run_closed := True, memo := [], cleanups := [], owned_ids := []\<rparr>],
            ran := ran s @ rev (cleanups r), rt_disk := rm_tree (run_root r) (rt_disk s)\<rparr>)"

text \<open>The entries of \<open>parent\<close> that a former process left behind; the model has no symbolic links.\<close>

definition orphan_roots :: "path \<Rightarrow> fs \<Rightarrow> path list" where
  "orphan_roots parent m = filter (\<lambda>p. p \<noteq> [] \<and> butlast p = parent \<and> prefix workspace_prefix (last p)
     \<and> dict_get m p = Some Dir) (dict_keys m)"

definition purge_orphans :: "path \<Rightarrow> fs \<Rightarrow> fs" where
  "purge_orphans parent m = fold rm_tree (orphan_roots parent m) m"

definition new_manager :: "path \<Rightarrow> fs \<Rightarrow> rtime" where
  "new_manager parent m = \<lparr>active = None, cur_run = None, runs = [], rt_disk = purge_orphans parent m, ran = []\<rparr>"

definition purge_locked :: "rtime \<Rightarrow> rtime" where
  "purge_locked s = (case cur_run s of
       None \<Rightarrow> s
     | Some i \<Rightarrow> (close_run i s)\<lparr>cur_run := None\<rparr>)"

definition activate_session :: "string \<Rightarrow> rtime \<Rightarrow> rtime" where
  "activate_session tok s =
     (if active s \<noteq> Some tok then (purge_locked s)\<lparr>active := Some tok\<rparr> else s)"

text \<open>\<open>fresh\<close> is the random part of the name that \<open>mkdtemp\<close> chooses.\<close>

definition make_run :: "path \<Rightarrow> string \<Rightarrow> string \<Rightarrow> string \<Rightarrow> rtime \<Rightarrow> nat \<times> rtime" where
  "make_run parent fresh tok digest s = (let s' = purge_locked s; r = parent @ [workspace_prefix @ fresh] in
     (length (runs s'), s'\<lparr>cur_run := Some (length (runs s')), rt_disk := dict_set r Dir (rt_disk s'),
        runs := runs s' @ [\<lparr>session_token = tok, upload_digest = digest, run_root = r, memo = [],
           cleanups = [], owned_ids = [], run_closed = False\<rparr>]\<rparr>))"

definition begin_run :: "path \<Rightarrow> string \<Rightarrow> string \<Rightarrow> string \<Rightarrow> rtime \<Rightarrow> nat \<times> rtime" where
  "begin_run parent fresh tok digest s = (let s' = activate_session tok s in
     case cur_run s' of
       Some i \<Rightarrow> (if upload_digest (runs s' ! i) = digest then (i, s') else make_run parent fresh tok digest s')
     | None \<Rightarrow> make_run parent fresh tok digest s')"

definition purge :: "string option \<Rightarrow> rtime \<Rightarrow> rtime" where
  "purge tok s = (if tok = None \<or> tok = active s then purge_locked s else s)"

section \<open>What a page may do\<close>

text \<open>
  The page works with the run it was given, possibly an old one: it caches a value, writes a
  file into the workspace (an \<open>open\<close> fails when the directory is gone), registers cleanups.
\<close>

definition memo_put :: "nat \<Rightarrow> string \<Rightarrow> nat \<Rightarrow> rtime \<Rightarrow> rtime" where
  "memo_put i k v s = upd_run i (\<lambda>r. r\<lparr>memo := dict_set k v (memo r)\<rparr>) s"

definition write_upload :: "nat \<Rightarrow> string \<Rightarrow> rtime \<Rightarrow> rt_exc option \<times> rtime" where
  "write_upload i data s = (let r = runs s ! i in
     if dict_get (rt_disk s) (run_root r) = Some Dir
     then (None, s\<lparr>rt_disk := dict_set (upload_path r) (File data) (rt_disk s)\<rparr>)
     else (Some FileNotFound, s))"

datatype rt_op =
    Activate string
  | Begin string string string
  | Purge "string option"
  | AddCleanup nat nat
  | OwnHandles nat "(nat \<times> bool) list"
  | MemoPut nat string nat
  | WriteUpload nat string

definition valid_run :: "nat \<Rightarrow> rtime \<Rightarrow> bool" where
  "valid_run i s = (i < length (runs s))"

fun rt_step :: "path \<Rightarrow> rtime \<Rightarrow> rt_op \<Rightarrow> rtime" where
  "rt_step parent s (Activate tok) = activate_session tok s"
| "rt_step parent s (Begin tok digest fresh) = snd (begin_run parent fresh tok digest s)"
| "rt_step parent s (Purge tok) = purge tok s"
| "rt_step parent s (AddCleanup i c) = (if valid_run i s then snd (add_cleanup i (Callback c) s) else s)"
| "rt_step parent s (OwnHandles i hs) = (if valid_run i s then snd (own_upload_handles i hs s) else s)"
| "rt_step parent s (MemoPut i k v) = (if valid_run i s then memo_put i k v s else s)"
| "rt_step parent s (WriteUpload i data) = (if valid_run i s then snd (write_upload i data s) else s)"

section \<open>The session state of the page\<close>

definition kept_keys :: "string list" where
  "kept_keys = [''_privacy_session_token'', ''_upload_widget_generation'', ''experience_level'',
     ''service_scope'', ''light_mode'']"

text \<open>\<open>deletes k\<close>: deleting the key does not raise; an exception leaves it in place.\<close>

definition clear_customer_session_state :: "(string \<Rightarrow> bool) \<Rightarrow> bool \<Rightarrow> (string, nat) dict \<Rightarrow> (string, nat) dict" where
  "clear_customer_session_state deletes preserve d =
     filter (\<lambda>(k, v). List.member kept_keys k \<or> (preserve \<and> prefix ''diagnostic_upload_'' k) \<or> \<not> deletes k) d"

section \<open>Custody\<close>

definition managed :: "path \<Rightarrow> path \<Rightarrow> bool" where
  "managed parent p = (\<exists>n. prefix (parent @ [workspace_prefix @ n]) p)"

definition rt_inv :: "path \<Rightarrow> rtime \<Rightarrow> bool" where
  "rt_inv parent s =
     ((\<forall>i<length (runs s). (cur_run s = Some i) = (\<not> run_closed (runs s ! i)))
      \<and> (\<forall>i. cur_run s = Some i \<longrightarrow> i < length (runs s) \<and> active s = Some (session_token (runs s ! i)))
      \<and> (\<forall>i<length (runs s). run_closed (runs s ! i) \<longrightarrow> cleanups (runs s ! i) = [])
      \<and> (\<forall>i<length (runs s). \<exists>n. run_root (runs s ! i) = parent @ [workspace_prefix @ n])
      \<and> (\<forall>p. dict_get (rt_disk s) p \<noteq> None \<longrightarrow> managed parent p \<longrightarrow>
           (\<exists>i. cur_run s = Some i \<and> prefix (run_root (runs s ! i)) p)))"

lemma rt_inv_purge_locked:
  assumes "rt_inv parent s"
  shows "rt_inv parent (purge_locked s) \<and> cur_run (purge_locked s) = None \<and> active (purge_locked s) = active s"
proof (cases "cur_run s")
  case None
  with assms show ?thesis by (simp add: purge_locked_def)
next
  case (Some i)
  with assms have i: "i < length (runs s)" "\<not> run_closed (runs s ! i)" by (auto simp: rt_inv_def)
  with Some assms show ?thesis
    by (auto simp: purge_locked_def close_run_def rt_inv_def nth_list_update rm_tree_get Let_def split: if_splits)
qed

lemma rt_inv_activate: "rt_inv parent s \<Longrightarrow> rt_inv parent (activate_session tok s) \<and> active (activate_session tok s) = Some tok"
  using rt_inv_purge_locked [of parent s] by (auto simp: activate_session_def rt_inv_def)

lemma rt_inv_make_run:
  assumes "rt_inv parent s" "active s = Some tok" "make_run parent fresh tok digest s = (i, s')"
  shows "rt_inv parent s' \<and> cur_run s' = Some i \<and> active s' = Some tok
    \<and> upload_digest (runs s' ! i) = digest \<and> memo (runs s' ! i) = [] \<and> i = length (runs s)"
proof -
  let ?t = "purge_locked s"
  have t: "rt_inv parent ?t" "cur_run ?t = None" "active ?t = Some tok"
    using rt_inv_purge_locked [OF assms(1)] assms(2) by simp_all
  have none: "dict_get (rt_disk ?t) p = None" if "managed parent p" for p
    using t that by (auto simp: rt_inv_def)
  have len: "length (runs ?t) = length (runs s)"
    by (simp add: purge_locked_def close_run_def Let_def split: option.splits)
  from assms(3) have s': "i = length (runs ?t)" "s' = ?t\<lparr>cur_run := Some (length (runs ?t)),
      rt_disk := dict_set (parent @ [workspace_prefix @ fresh]) Dir (rt_disk ?t),
      runs := runs ?t @ [\<lparr>session_token = tok, upload_digest = digest,
        run_root = parent @ [workspace_prefix @ fresh], memo = [], cleanups = [], owned_ids = [], run_closed = False\<rparr>]\<rparr>"
    by (auto simp: make_run_def Let_def)
  have "rt_inv parent s'"
    using t none unfolding s'(2) rt_inv_def by (auto simp: nth_append dict_get_set less_Suc_eq split: if_splits)
  with s' t(3) len show ?thesis by (simp add: nth_append)
qed

lemma rt_inv_begin:
  assumes "rt_inv parent s" "begin_run parent fresh tok digest s = (i, s')"
  shows "rt_inv parent s' \<and> cur_run s' = Some i \<and> active s' = Some tok
    \<and> upload_digest (runs s' ! i) = digest
    \<and> (i < length (runs s) \<and> s' = s \<or> i = length (runs s) \<and> memo (runs s' ! i) = [])"
proof -
  let ?a = "activate_session tok s"
  have a: "rt_inv parent ?a" "active ?a = Some tok" using rt_inv_activate [OF assms(1)] by simp_all
  have len: "length (runs ?a) = length (runs s)"
    by (simp add: activate_session_def purge_locked_def close_run_def Let_def split: option.splits)
  show ?thesis
  proof (cases "\<exists>j. cur_run ?a = Some j \<and> upload_digest (runs ?a ! j) = digest")
    case True
    then obtain j where j: "cur_run ?a = Some j" "upload_digest (runs ?a ! j) = digest" by blast
    have "?a = s"
      using j(1) rt_inv_purge_locked [OF assms(1)] by (auto simp: activate_session_def split: if_splits)
    with j a assms show ?thesis by (auto simp: begin_run_def rt_inv_def)
  next
    case False
    then have "make_run parent fresh tok digest ?a = (i, s')"
      using assms(2) by (auto simp: begin_run_def Let_def split: option.splits if_splits)
    with rt_inv_make_run [OF a] len show ?thesis by simp
  qed
qed

lemma rt_inv_upd:
  assumes "rt_inv parent s" "i < length (runs s)"
    and "run_closed (f (runs s ! i)) = run_closed (runs s ! i)" "session_token (f (runs s ! i)) = session_token (runs s ! i)"
      "run_root (f (runs s ! i)) = run_root (runs s ! i)"
      "run_closed (runs s ! i) \<Longrightarrow> cleanups (f (runs s ! i)) = cleanups (runs s ! i)"
  shows "rt_inv parent (upd_run i f s)"
proof -
  let ?rs = "(runs s)[i := f (runs s ! i)]"
  have same: "run_closed (?rs ! j) = run_closed (runs s ! j)" "session_token (?rs ! j) = session_token (runs s ! j)"
      "run_root (?rs ! j) = run_root (runs s ! j)" for j
    using assms(2-5) by (cases "j = i"; simp)+
  have "cleanups (?rs ! j) = []" if "j < length (runs s)" "run_closed (runs s ! j)" for j
    using assms that by (cases "j = i") (auto simp: rt_inv_def)
  with assms(1) show ?thesis by (simp add: rt_inv_def upd_run_def same)
qed

lemma rt_inv_add_cleanup:
  "rt_inv parent s \<Longrightarrow> i < length (runs s) \<Longrightarrow> rt_inv parent (snd (add_cleanup i c s))
     \<and> length (runs (snd (add_cleanup i c s))) = length (runs s)"
  by (auto simp: add_cleanup_def upd_run_def [of _ _ s] intro: rt_inv_upd [unfolded upd_run_def])

lemma rt_inv_own:
  "rt_inv parent s \<Longrightarrow> i < length (runs s) \<Longrightarrow> rt_inv parent (snd (own_upload_handles i hs s))"
proof (induction hs arbitrary: s)
  case Nil
  then show ?case by simp
next
  case (Cons h hs)
  obtain k c where h: "h = (k, c)" by (cases h)
  let ?t = "upd_run i (\<lambda>r. r\<lparr>owned_ids := k # owned_ids r\<rparr>) s"
  obtain e t where t: "add_cleanup i (CloseHandle k) ?t = (e, t)" by (metis prod.exhaust)
  have "rt_inv parent ?t" "length (runs ?t) = length (runs s)"
    using Cons.prems by (auto intro: rt_inv_upd) (simp add: upd_run_def)
  with rt_inv_add_cleanup [of parent ?t i "CloseHandle k"] Cons.prems(2) t
  have "rt_inv parent t" "length (runs t) = length (runs s)" by simp_all
  with Cons h t show ?case by (auto split: option.splits)
qed

lemma rt_inv_write:
  assumes "rt_inv parent s" "i < length (runs s)"
  shows "rt_inv parent (snd (write_upload i data s))"
proof (cases "dict_get (rt_disk s) (run_root (runs s ! i)) = Some Dir")
  case True
  obtain n where n: "run_root (runs s ! i) = parent @ [workspace_prefix @ n]"
    using assms by (auto simp: rt_inv_def)
  with True assms obtain j where j: "cur_run s = Some j" "prefix (run_root (runs s ! j)) (run_root (runs s ! i))"
    unfolding rt_inv_def managed_def by (metis option.distinct(1) prefix_order.refl)
  then show ?thesis
    using assms True by (auto simp: write_upload_def Let_def rt_inv_def dict_get_set upload_path_def prefix_prefix)
next
  case False
  with assms show ?thesis by (simp add: write_upload_def Let_def)
qed

interpretation custody: machine "rt_step parent" "rt_inv parent" for parent
proof unfold_locales
  fix s e
  assume s: "rt_inv parent s"
  show "rt_inv parent (rt_step parent s e)"
  proof (cases e)
    case (Begin tok digest fresh)
    with rt_inv_begin [OF s surjective_pairing] show ?thesis by simp
  next
    case (Purge tok)
    with s rt_inv_purge_locked [OF s] show ?thesis by (simp add: purge_def)
  next
    case (MemoPut i k v)
    with s show ?thesis by (auto simp: memo_put_def valid_run_def intro: rt_inv_upd)
  qed (use s rt_inv_activate [OF s] in \<open>simp_all add: rt_inv_add_cleanup rt_inv_own rt_inv_write valid_run_def\<close>)
qed

text \<open>What crash residue looks like: whatever lies below a workspace name lies in a directory.\<close>

definition residue_in_dirs :: "path \<Rightarrow> fs \<Rightarrow> bool" where
  "residue_in_dirs parent m = (\<forall>(p, n)\<in>set m. managed parent p \<longrightarrow> dict_get m (take (Suc (length parent)) p) = Some Dir)"

lemma fold_rm_tree: "dict_get (fold rm_tree rs m) p = (if \<exists>r\<in>set rs. prefix r p then None else dict_get m p)"
  by (induction rs arbitrary: m) (auto simp: rm_tree_get)

lemma purge_orphans_clean:
  assumes "residue_in_dirs parent m" "managed parent p"
  shows "dict_get (purge_orphans parent m) p = None"
proof (cases "dict_get m p")
  case None
  then show ?thesis by (simp add: purge_orphans_def fold_rm_tree)
next
  case (Some n)
  from assms(2) obtain k where k: "prefix (parent @ [workspace_prefix @ k]) p" by (auto simp: managed_def)
  then have take: "take (Suc (length parent)) p = parent @ [workspace_prefix @ k]" by (auto simp: prefix_def)
  from Some have "(p, n) \<in> set m" by (rule map_of_SomeD)
  with assms have d: "dict_get m (parent @ [workspace_prefix @ k]) = Some Dir"
    using take unfolding residue_in_dirs_def by fastforce
  then have "parent @ [workspace_prefix @ k] \<in> set (dict_keys m)"
    by (metis domI dom_map_of_conv_image_fst image_set)
  with d have "parent @ [workspace_prefix @ k] \<in> set (orphan_roots parent m)"
    by (simp add: orphan_roots_def)
  with k show ?thesis by (auto simp: purge_orphans_def fold_rm_tree)
qed

lemma rt_inv_new: "residue_in_dirs parent m \<Longrightarrow> rt_inv parent (new_manager parent m)"
  using purge_orphans_clean [of parent m] by (auto simp: rt_inv_def new_manager_def)


text \<open>
  A purge by the active session, or without a session, leaves no run and no workspace
  behind; a purge by another session does nothing.
\<close>

theorem purge_destroys:
  assumes "residue_in_dirs parent m" and "s = foldl (rt_step parent) (new_manager parent m) ops"
  shows "if tok = None \<or> tok = active s
    then cur_run (purge tok s) = None \<and> (\<forall>p. managed parent p \<longrightarrow> dict_get (rt_disk (purge tok s)) p = None)
    else purge tok s = s"
proof -
  have s: "rt_inv parent s" using custody.inv_run [OF rt_inv_new [OF assms(1)], of ops] assms(2) by simp
  from rt_inv_purge_locked [OF s] show ?thesis by (auto simp: purge_def rt_inv_def)
qed

text \<open>
  A run handed out for an upload is open, belongs to the session and the upload, and is
  either the one already there, unchanged, or a new one without any cached value.
\<close>

theorem begin_gives_own_run:
  assumes "residue_in_dirs parent m" and "s = foldl (rt_step parent) (new_manager parent m) ops"
    and "begin_run parent fresh tok digest s = (i, s')"
  shows "\<not> run_closed (runs s' ! i) \<and> session_token (runs s' ! i) = tok \<and> upload_digest (runs s' ! i) = digest
    \<and> (i < length (runs s) \<and> s' = s \<or> i = length (runs s) \<and> memo (runs s' ! i) = [])"
proof -
  have s: "rt_inv parent s" using custody.inv_run [OF rt_inv_new [OF assms(1)], of ops] assms(2) by simp
  from rt_inv_begin [OF s assms(3)] show ?thesis unfolding rt_inv_def by auto
qed

section \<open>An extraction that is still running\<close>

lemma stream_keeps:
  "dict_get (disk s) p \<noteq> None \<Longrightarrow> dict_get (disk (snd (stream lim f target fails w cs s))) p \<noteq> None"
proof (induction cs arbitrary: w s)
  case Nil
  then show ?case by simp
next
  case (Cons c cs)
  have "dict_get (append_file target c (disk s)) p \<noteq> None"
    using Cons.prems by (auto simp: append_file_def dict_get_set split: option.splits node.splits)
  with Cons show ?case by (simp add: Let_def)
qed

text \<open>
  An extraction that goes on after its run was closed puts customer data back: copying
  a member makes the removed workspace again, and no cleanup can be registered for it.
\<close>

theorem extraction_revives_workspace:
  assumes "rt_inv parent s" "valid_run i s" "\<not> run_closed (runs s ! i)" "s' = close_run i s"
    and "copy_member lim (run_root (runs s ! i) @ rest) zi b = (None, nz, b')" and "disk b = rt_disk s'"
  shows "dict_get (rt_disk s') (run_root (runs s ! i) @ rest) = None
    \<and> dict_get (disk b') (run_root (runs s ! i) @ rest) \<noteq> None
    \<and> add_cleanup i c s' = (Some RuntimeError, s')"
proof -
  let ?target = "run_root (runs s ! i) @ rest"
  from assms(2-4) have s': "rt_disk s' = rm_tree (run_root (runs s ! i)) (rt_disk s)" "run_closed (runs s' ! i)"
    by (simp_all add: close_run_def Let_def valid_run_def)
  from assms(5) obtain m m' where w: "open_write ?target m = Some m'"
      and st: "b' = (let t = snd (stream lim (filename zi) ?target (read_fails zi) 0 (chunks zi) (b\<lparr>disk := m'\<rparr>))
        in t\<lparr>files := files t @ [?target]\<rparr>)"
    by (auto simp: copy_member_def Let_def split: option.splits if_splits prod.splits)
  have "dict_get m' ?target \<noteq> None"
    using w by (auto simp: open_write_def dict_get_set split: if_splits)
  then have "dict_get (disk b') ?target \<noteq> None"
    using stream_keeps [of "b\<lparr>disk := m'\<rparr>" ?target] by (simp add: st Let_def)
  with s' show ?thesis by (simp add: rm_tree_get add_cleanup_def)
qed

section \<open>Examples\<close>

definition ex_parent :: path where
  "ex_parent = [''tmp'']"

definition ex_residue :: fs where
  "ex_residue = [([], Dir), ([''tmp''], Dir), ([''tmp'', workspace_prefix @ ''old''], Dir),
     ([''tmp'', workspace_prefix @ ''old'', ''input.zip''], File ''secret'')]"

definition ex_ops :: "rt_op list" where
  "ex_ops = [Activate ''A'', Begin ''A'' ''d1'' ''x1'', WriteUpload 0 ''PK'', AddCleanup 0 7, MemoPut 0 ''bundle'' 1,
     Begin ''B'' ''d2'' ''x2'', WriteUpload 1 ''PK2'']"

definition ex_rt :: rtime where
  "ex_rt = foldl (rt_step ex_parent) (new_manager ex_parent ex_residue) ex_ops"

lemma ex_residue_ok: "residue_in_dirs ex_parent ex_residue"
  by (auto simp: residue_in_dirs_def ex_residue_def ex_parent_def managed_def)


theorem purge_destroys_witness:
  "cur_run (purge (Some ''B'') ex_rt) = None
    \<and> dict_get (rt_disk (purge (Some ''B'') ex_rt)) [''tmp'', workspace_prefix @ ''x2'', ''input.zip''] = None
    \<and> purge (Some ''A'') ex_rt = ex_rt"
proof -
  have "active ex_rt = Some ''B''" by code_simp
  moreover have "managed ex_parent [''tmp'', workspace_prefix @ ''x2'', ''input.zip'']"
    by (auto simp: managed_def ex_parent_def)
  ultimately show ?thesis
    using purge_destroys [OF ex_residue_ok ex_rt_def, of "Some ''B''"]
      purge_destroys [OF ex_residue_ok ex_rt_def, of "Some ''A''"]
    by simp
qed

theorem begin_gives_own_run_witness:
  "\<not> run_closed (runs (snd (begin_run ex_parent ''x3'' ''B'' ''d3'' ex_rt)) ! fst (begin_run ex_parent ''x3'' ''B'' ''d3'' ex_rt))
   \<and> upload_digest (runs (snd (begin_run ex_parent ''x3'' ''B'' ''d3'' ex_rt)) ! fst (begin_run ex_parent ''x3'' ''B'' ''d3'' ex_rt)) = ''d3''"
  using begin_gives_own_run [OF ex_residue_ok ex_rt_def surjective_pairing] by blast

definition ex_extract :: bundle_state where
  "ex_extract = \<lparr>root = [''tmp'', workspace_prefix @ ''x2'', ''extracted-1''], files = [], skipped = [], bytes_written = 0,
     disk = rt_disk (close_run 1 ex_rt)\<rparr>"

definition ex_copied :: "bundle_exc option \<times> path list \<times> bundle_state" where
  "ex_copied = copy_member small_limits [''tmp'', workspace_prefix @ ''x2'', ''extracted-1'', ''a.log''] (member ''a.log'' ''data'') ex_extract"

theorem extraction_revives_workspace_witness:
  "dict_get (disk (snd (snd ex_copied))) [''tmp'', workspace_prefix @ ''x2'', ''extracted-1'', ''a.log''] \<noteq> None
   \<and> add_cleanup 1 (Callback 3) (close_run 1 ex_rt) = (Some RuntimeError, close_run 1 ex_rt)"
proof -
  have inv: "rt_inv ex_parent ex_rt"
    unfolding ex_rt_def by (rule custody.inv_run [OF rt_inv_new [OF ex_residue_ok]])
  have r: "run_root (runs ex_rt ! 1) = [''tmp'', workspace_prefix @ ''x2''] \<and> \<not> run_closed (runs ex_rt ! 1) \<and> valid_run 1 ex_rt"
    by code_simp
  have "fst ex_copied = None" by code_simp
  then have c: "copy_member small_limits (run_root (runs ex_rt ! 1) @ [''extracted-1'', ''a.log'']) (member ''a.log'' ''data'') ex_extract
      = (None, fst (snd ex_copied), snd (snd ex_copied))"
    by (metis append_Cons append_Nil ex_copied_def prod.collapse r)
  show ?thesis
    using extraction_revives_workspace [OF inv _ _ refl c, of "Callback 3"] r by (simp add: ex_extract_def)
qed

end
