(* ===== verification/Local_Intake.thy ===== *)
theory Local_Intake
  imports Bundle_Extract
begin

text \<open>
  Packing uploads into a bundle, \<open>zcc_diag/local_intake.py\<close>: names are cleaned and made
  distinct, sizes and types checked, and the files written into a fresh archive.  Writing
  and recognising a ZIP file is \<open>zipfile\<close>'s: the arguments \<open>mk_zip\<close> and \<open>is_zip\<close>.
\<close>

section \<open>Names\<close>

definition supported_extensions :: "string list" where
  "supported_extensions = [''.zip'', ''.log'', ''.txt'', ''.xml'', ''.json'', ''.csv'', ''.tsv'', ''.conf'', ''.ini'']"

definition max_standalone_files :: nat where
  "max_standalone_files = 250"

definition max_standalone_bytes :: nat where
  "max_standalone_bytes = 1 * 1024 * 1024 * 1024"

definition safe_char :: "char \<Rightarrow> bool" where
  "safe_char c = (let n = code_of c in (65 \<le> n \<and> n \<le> 90) \<or> (97 \<le> n \<and> n \<le> 122) \<or> (48 \<le> n \<and> n \<le> 57)
     \<or> c = CHR ''.'' \<or> c = CHR ''_'' \<or> c = CHR '' '' \<or> c = CHR ''-'')"

text \<open>\<open>_SAFE_CHARS.sub("_", s)\<close>: every run of other characters becomes one underscore.\<close>

fun sub_unsafe :: "bool \<Rightarrow> string \<Rightarrow> string" where
  "sub_unsafe in_run [] = []"
| "sub_unsafe in_run (c # s) =
     (if safe_char c then c # sub_unsafe False s
      else if in_run then sub_unsafe True s else CHR ''_'' # sub_unsafe True s)"

definition safe_name :: "string \<Rightarrow> string \<Rightarrow> string" where
  "safe_name raw fallback =
     (let name = py_strip (path_name (parts raw));
          name = strip_by (\<lambda>c. c = CHR '' '' \<or> c = CHR ''.'') (sub_unsafe False name)
      in if name = [] then fallback else name)"

text \<open>On the characters a cleaned name has, \<open>casefold\<close> is \<open>lower\<close>.\<close>

definition casefold :: "string \<Rightarrow> string" where
  "casefold s = py_lower s"

definition numbered :: "string \<Rightarrow> string \<Rightarrow> nat \<Rightarrow> string" where
  "numbered stem sfx counter = stem @ '' ('' @ str_of_nat counter @ '')'' @ sfx"

text \<open>The \<open>while\<close> loop of \<open>_dedupe_name\<close>, with a bound on its rounds.\<close>

fun dedupe_loop :: "nat \<Rightarrow> string \<Rightarrow> string \<Rightarrow> string \<Rightarrow> nat \<Rightarrow> string set \<Rightarrow> string option" where
  "dedupe_loop 0 candidate stem sfx counter used = None"
| "dedupe_loop (Suc k) candidate stem sfx counter used =
     (if casefold candidate \<in> used then dedupe_loop k (numbered stem sfx counter) stem sfx (Suc counter) used
      else Some candidate)"

definition dedupe_name :: "string \<Rightarrow> string set \<Rightarrow> string option" where
  "dedupe_name name used =
     (let n = path_name (parts name) in dedupe_loop (card used + 2) name (name_stem n) (name_suffix n) 2 used)"

section \<open>The loop over the files\<close>

datatype intake_exc =
    NoFiles
  | TooManyFiles nat
  | UnsupportedType string
  | TooLarge
  | UnreadableZip string
  | MixedZip
  | Diverges

definition lower_suffix :: "string \<Rightarrow> string" where
  "lower_suffix name = py_lower (name_suffix (path_name (parts name)))"

text \<open>\<open>Diverges\<close> stands for a \<open>while\<close> loop that does not end; it is never the result.\<close>

fun normalize_from :: "nat \<Rightarrow> nat \<Rightarrow> string set \<Rightarrow> (string \<times> string) list \<Rightarrow> intake_exc + (string \<times> string) list" where
  "normalize_from index tot used [] = Inr []"
| "normalize_from index tot used ((raw_name, data) # fs) =
     (case dedupe_name (safe_name raw_name (''log-'' @ str_of_nat index @ ''.log'')) used of
        None \<Rightarrow> Inl Diverges
      | Some name \<Rightarrow>
          if lower_suffix name \<notin> set supported_extensions then Inl (UnsupportedType name)
          else if max_standalone_bytes < tot + length data then Inl TooLarge
          else (case normalize_from (Suc index) (tot + length data) (insert (casefold name) used) fs of
              Inl e \<Rightarrow> Inl e
            | Inr rest \<Rightarrow> Inr ((name, data) # rest)))"

definition normalize :: "(string \<times> string) list \<Rightarrow> intake_exc + (string \<times> string) list" where
  "normalize fs = normalize_from 1 0 {} fs"

record prepared_input =
  bundle_bytes :: string
  display_name :: string
  source_kind :: string
  file_count :: nat

definition archive_members :: "(string \<times> string) list \<Rightarrow> (string \<times> string) list" where
  "archive_members fs = map (\<lambda>(name, data). (''standalone/'' @ name, data)) fs"

definition prepare_inputs :: "((string \<times> string) list \<Rightarrow> string) \<Rightarrow> (string \<Rightarrow> bool) \<Rightarrow> (string \<times> string) list
    \<Rightarrow> intake_exc + prepared_input" where
  "prepare_inputs mk_zip is_zip fs =
     (if fs = [] then Inl NoFiles
      else if max_standalone_files < length fs then Inl (TooManyFiles (length fs))
      else case normalize fs of
        Inl e \<Rightarrow> Inl e
      | Inr norm \<Rightarrow>
          if length norm = 1 \<and> lower_suffix (fst (hd norm)) = ''.zip''
          then (if \<not> is_zip (snd (hd norm)) then Inl (UnreadableZip (fst (hd norm)))
            else Inr \<lparr>bundle_bytes = snd (hd norm), display_name = fst (hd norm), source_kind = ''bundle'', file_count = 1\<rparr>)
          else if list_ex (\<lambda>(name, data). lower_suffix name = ''.zip'') norm then Inl MixedZip
          else Inr \<lparr>bundle_bytes = mk_zip (archive_members norm),
              display_name = (if length norm = 1 then fst (hd norm) else str_of_nat (length norm) @ '' individual logs''),
              source_kind = (if length norm = 1 then ''individual log'' else ''log set''),
              file_count = length norm\<rparr>)"

section \<open>The loop that makes a name distinct ends\<close>

lemma casefold_numbered: "casefold (numbered stem sfx c) = casefold stem @ '' ('' @ str_of_nat c @ '')'' @ casefold sfx"
proof -
  have "lower_char d = d" if "py_isdecimal d" for d
    using that by (auto simp: py_isdecimal_def lower_char_def Let_def)
  then have "map lower_char (str_of_nat c) = str_of_nat c"
    using str_of_nat_decimal [of c] by (auto simp: list_all_iff intro: map_idI)
  then show ?thesis by (simp add: casefold_def numbered_def py_lower_def lower_char_def)
qed

lemma numbered_inj: "casefold (numbered stem sfx c) = casefold (numbered stem sfx d) \<longleftrightarrow> c = d"
  by (simp add: casefold_numbered)

lemma dedupe_loop_ends:
  assumes "finite used" "card (used \<inter> {casefold (numbered stem sfx c) | c. counter \<le> c}) < k"
  shows "\<exists>r. dedupe_loop (Suc k) candidate stem sfx counter used = Some r"
  using assms(2)
proof (induction k arbitrary: candidate counter)
  case 0
  then show ?case by simp
next
  case (Suc k)
  let ?S = "\<lambda>n. used \<inter> {casefold (numbered stem sfx c) | c. n \<le> c}"
  let ?next = "casefold (numbered stem sfx counter)"
  show ?case
  proof (cases "casefold candidate \<in> used")
    case False
    then show ?thesis by simp
  next
    case True
    show ?thesis
    proof (cases "?next \<in> used")
      case False
      with True show ?thesis by simp
    next
      case next_used: True
      have "?S (Suc counter) \<subset> ?S counter"
      proof
        show "?S (Suc counter) \<subseteq> ?S counter" by (auto intro: Suc_leD)
        show "?S (Suc counter) \<noteq> ?S counter"
          using next_used by (auto simp: numbered_inj dest: equalityD2 [THEN subsetD [where c = ?next]])
      qed
      with assms(1) have "card (?S (Suc counter)) < card (?S counter)" by (intro psubset_card_mono) auto
      with Suc.prems have "card (?S (Suc counter)) < k" by simp
      from Suc.IH [OF this] True show ?thesis by simp
    qed
  qed
qed

lemma dedupe_loop_fresh: "dedupe_loop k candidate stem sfx counter used = Some r \<Longrightarrow>
    casefold r \<notin> used \<and> (r = candidate \<or> (\<exists>c. r = numbered stem sfx c))"
  by (induction k candidate stem sfx counter used rule: dedupe_loop.induct) (auto split: if_splits)

lemma dedupe_name_ends: "finite used \<Longrightarrow> \<exists>r. dedupe_name name used = Some r"
proof -
  assume f: "finite used"
  have "card (used \<inter> A) < Suc (card used)" for A
    using f by (simp add: card_mono less_Suc_eq_le)
  with f show ?thesis by (simp add: dedupe_name_def Let_def dedupe_loop_ends del: dedupe_loop.simps)
qed

section \<open>Clean names\<close>

definition name_char :: "char \<Rightarrow> bool" where
  "name_char c = (safe_char c \<or> c = CHR ''('' \<or> c = CHR '')'')"

definition clean_name :: "string \<Rightarrow> bool" where
  "clean_name n = (n \<noteq> [] \<and> hd n \<noteq> CHR ''.'' \<and> list_all name_char n)"

lemma safe_sub_unsafe: "list_all safe_char (sub_unsafe r s)"
  by (induction r s rule: sub_unsafe.induct) (auto simp: safe_char_def)

lemma list_all_strip: "list_all p s \<Longrightarrow> list_all p (strip_by q s)"
  using strip_by_subset [of q s] by (auto simp: list_all_iff)

lemma name_char_decimal: "py_isdecimal c \<Longrightarrow> name_char c"
  by (auto simp: py_isdecimal_def name_char_def safe_char_def Let_def)

lemma clean_safe_name:
  assumes "clean_name fallback"
  shows "clean_name (safe_name raw fallback)"
proof -
  define n where "n = strip_by (\<lambda>c. c = CHR '' '' \<or> c = CHR ''.'') (sub_unsafe False (py_strip (path_name (parts raw))))"
  have "list_all name_char n"
    using list_all_strip [OF safe_sub_unsafe] unfolding n_def by (auto simp: list_all_iff name_char_def)
  moreover have "n \<noteq> [] \<Longrightarrow> hd n \<noteq> CHR ''.''"
    using strip_by_hd [of "\<lambda>c. c = CHR '' '' \<or> c = CHR ''.''"] unfolding n_def by blast
  ultimately show ?thesis
    using assms by (auto simp: safe_name_def clean_name_def Let_def n_def [symmetric])
qed

lemma clean_fallback: "clean_name (''log-'' @ str_of_nat i @ ''.log'')"
  using str_of_nat_decimal [of i]
  by (auto simp: clean_name_def list_all_iff intro: name_char_decimal) (simp_all add: name_char_def safe_char_def)

lemma clean_no_slash: "clean_name n \<Longrightarrow> CHR ''/'' \<notin> set n \<and> CHR 0x5C \<notin> set n \<and> CHR 0x00 \<notin> set n"
  by (auto simp: clean_name_def list_all_iff name_char_def safe_char_def Let_def)

lemma clean_parts: "clean_name n \<Longrightarrow> parts n = [n]"
  using clean_no_slash [of n] by (auto simp: parts_def split_on_single clean_name_def)

lemma dot_at_pos: "s \<noteq> [] \<Longrightarrow> 0 < dot_at s"
  by (auto simp: dot_at_def Let_def)

lemma clean_numbered:
  assumes "clean_name n"
  shows "clean_name (numbered (name_stem n) (name_suffix n) c)"
proof -
  have "name_stem n \<noteq> []" "hd (name_stem n) = hd n"
    using assms dot_at_pos [of n] by (auto simp: name_stem_def clean_name_def hd_take)
  moreover have "list_all name_char (name_stem n)" "list_all name_char (name_suffix n)"
    using assms by (auto simp: clean_name_def name_stem_def name_suffix_def list_all_iff dest: in_set_takeD in_set_dropD)
  moreover have "list_all name_char (str_of_nat c)"
    using str_of_nat_decimal [of c] by (auto simp: list_all_iff intro: name_char_decimal)
  moreover have "name_char CHR '' ''" "name_char CHR ''(''" "name_char CHR '')''"
    by (simp_all add: name_char_def safe_char_def)
  ultimately show ?thesis using assms by (simp add: clean_name_def numbered_def)
qed

lemma clean_dedupe:
  assumes "clean_name name" "dedupe_name name used = Some r"
  shows "clean_name r \<and> casefold r \<notin> used"
proof -
  have n: "path_name (parts name) = name" using assms(1) by (simp add: clean_parts path_name_def)
  from assms(2) dedupe_loop_fresh show ?thesis
    unfolding dedupe_name_def n Let_def using clean_numbered [OF assms(1)] assms(1) by blast
qed

section \<open>What the loop returns\<close>

lemma normalize_from_ok:
  "normalize_from i tot used fs = Inr norm \<Longrightarrow> tot \<le> max_standalone_bytes \<Longrightarrow>
     map snd norm = map snd fs \<and> tot + sum_list (map (length \<circ> snd) fs) \<le> max_standalone_bytes
     \<and> (\<forall>n\<in>set (map fst norm). clean_name n \<and> lower_suffix n \<in> set supported_extensions \<and> casefold n \<notin> used)
     \<and> distinct (map (casefold \<circ> fst) norm)"
proof (induction i tot used fs arbitrary: norm rule: normalize_from.induct)
  case (1 i tot used)
  then show ?case by simp
next
  case (2 i tot used raw_name data fs)
  from "2.prems"(1) obtain name rest where
    n: "dedupe_name (safe_name raw_name (''log-'' @ str_of_nat i @ ''.log'')) used = Some name"
      "lower_suffix name \<in> set supported_extensions" "tot + length data \<le> max_standalone_bytes"
      "normalize_from (Suc i) (tot + length data) (insert (casefold name) used) fs = Inr rest"
      "norm = (name, data) # rest"
    by (auto split: option.splits if_splits sum.splits)
  have "clean_name name \<and> casefold name \<notin> used"
    using clean_dedupe [OF clean_safe_name [OF clean_fallback] n(1)] .
  moreover note "2.IH" [OF n(1) _ _ n(4) n(3)]
  ultimately show ?case using n by (auto simp: algebra_simps)
qed

lemma normalize_from_ends: "finite used \<Longrightarrow> normalize_from i tot used fs \<noteq> Inl Diverges"
proof (induction i tot used fs rule: normalize_from.induct)
  case (1 i tot used)
  then show ?case by simp
next
  case (2 i tot used raw_name data fs)
  obtain name where "dedupe_name (safe_name raw_name (''log-'' @ str_of_nat i @ ''.log'')) used = Some name"
    using dedupe_name_ends [OF "2.prems"] by blast
  with 2 show ?case by (auto split: sum.splits)
qed

text \<open>
  The loop that numbers equal names always ends, so preparing an input ends in a
  bundle or in one of the module's errors.
\<close>

theorem prepare_inputs_ends: "prepare_inputs mk_zip is_zip fs \<noteq> Inl Diverges"
  using normalize_from_ends [of "{}" 1 0 fs]
  by (auto simp: prepare_inputs_def normalize_def split: sum.splits)

lemma suffix_of_parts: "''..'' \<notin> set q \<Longrightarrow> path_resolve (d @ q) = path_resolve d @ q"
proof -
  have "''..'' \<notin> set q \<Longrightarrow> foldl (\<lambda>acc c. if c = ''..'' then butlast acc else acc @ [c]) a q = a @ q" for a
    by (induction q arbitrary: a) auto
  then show "''..'' \<notin> set q \<Longrightarrow> path_resolve (d @ q) = path_resolve d @ q" by (simp add: path_resolve_def)
qed

lemma replace_backslash_id: "CHR 0x5C \<notin> set s \<Longrightarrow> replace_all [CHR 0x5C] t s = s"
  by (induction s) auto

lemma standalone_member:
  assumes "clean_name n"
  shows "parts (''standalone/'' @ n) = [''standalone'', n]" and "safe_target dest (''standalone/'' @ n) = None"
proof -
  note c = clean_no_slash [OF assms]
  have sp: "split_on CHR ''/'' (''standalone/'' @ n) = [''standalone'', n]"
    using split_on_append [of "CHR ''/''" "''standalone''" n] c by (simp add: split_on_single)
  have n: "n \<noteq> []" "n \<noteq> ''.''" "n \<noteq> ''..''" using assms by (auto simp: clean_name_def)
  then show p: "parts (''standalone/'' @ n) = [''standalone'', n]" by (simp only: parts_def sp) simp
  have "replace_all [CHR 0x5C] ''/'' (''standalone/'' @ n) = ''standalone/'' @ n"
    using c by (intro replace_backslash_id) auto
  then have "\<not> list_ex (\<lambda>p. p = ''..'') (split_on CHR ''/'' (replace_all [CHR 0x5C] ''/'' (''standalone/'' @ n)))"
    using n by (simp only: sp) simp
  moreover have "prefix (path_resolve dest) (path_resolve (dest @ parts (''standalone/'' @ n)))"
    using n by (simp only: p) (simp add: suffix_of_parts)
  moreover have "CHR 0x00 \<notin> set (''standalone/'' @ n)" using c by auto
  ultimately show "safe_target dest (''standalone/'' @ n) = None"
    unfolding safe_target_def by simp
qed


text \<open>
  A prepared input holds between one and the allowed number of files; a lone archive is
  passed on byte for byte, anything else is packed anew and contains no archive.
\<close>

theorem prepare_inputs_result:
  assumes "prepare_inputs mk_zip is_zip fs = Inr p"
  shows "0 < length fs \<and> length fs \<le> max_standalone_files \<and> file_count p = length fs
    \<and> (if source_kind p = ''bundle'' then [bundle_bytes p] = map snd fs \<and> is_zip (bundle_bytes p)
       else \<exists>norm. normalize fs = Inr norm \<and> bundle_bytes p = mk_zip (archive_members norm)
         \<and> (\<forall>(n, d)\<in>set norm. lower_suffix n \<in> set supported_extensions - {''.zip''}))"
proof -
  have fs: "fs \<noteq> []" "length fs \<le> max_standalone_files"
    using assms by (auto simp: prepare_inputs_def split: if_splits)
  then obtain norm where norm: "normalize fs = Inr norm"
    using assms by (auto simp: prepare_inputs_def split: if_splits sum.splits)
  note ok = normalize_from_ok [of 1 0 "{}" fs norm]
  have same: "map snd norm = map snd fs" and ext: "\<And>n d. (n, d) \<in> set norm \<Longrightarrow> lower_suffix n \<in> set supported_extensions"
    using ok norm by (force simp: normalize_def)+
  from same have len: "length norm = length fs" by (metis length_map)
  show ?thesis
  proof (cases "length norm = 1 \<and> lower_suffix (fst (hd norm)) = ''.zip''")
    case True
    then obtain n d where e: "norm = [(n, d)]" by (auto simp: length_Suc_conv)
    with same obtain x where x: "fs = [(x, d)]" by (auto simp: map_eq_Cons_conv)
    from assms fs(2) norm True have "is_zip d"
        "p = \<lparr>bundle_bytes = d, display_name = n, source_kind = ''bundle'', file_count = 1\<rparr>"
      unfolding e x by (auto simp: prepare_inputs_def split: if_splits)
    with fs(2) show ?thesis by (simp add: x)
  next
    case False
    with assms fs norm have nz: "\<not> list_ex (\<lambda>(name, data). lower_suffix name = ''.zip'') norm"
      and p: "bundle_bytes p = mk_zip (archive_members norm)" "file_count p = length norm" "source_kind p \<noteq> ''bundle''"
      by (auto simp: prepare_inputs_def split: if_splits)
    with ext have "\<forall>(n, d)\<in>set norm. lower_suffix n \<in> set supported_extensions - {''.zip''}"
      by (auto simp: list_ex_iff)
    with fs norm p len show ?thesis by auto
  qed
qed

section \<open>Examples\<close>

definition ex_uploads :: "(string \<times> string) list" where
  "ex_uploads = [(''C/ZSATunnel.log'', ''one''), (''zsatunnel.LOG'', ''two''), (''../..'', ''three'')]"

lemma ex_names:
  "dedupe_name (safe_name ''C/ZSATunnel.log'' (''log-'' @ str_of_nat 1 @ ''.log'')) {} = Some ''ZSATunnel.log''"
  "casefold ''ZSATunnel.log'' = ''zsatunnel.log''"
  "dedupe_name (safe_name ''zsatunnel.LOG'' (''log-'' @ str_of_nat 2 @ ''.log'')) {''zsatunnel.log''} = Some ''zsatunnel (2).LOG''"
  "casefold ''zsatunnel (2).LOG'' = ''zsatunnel (2).log''"
  "dedupe_name (safe_name ''../..'' (''log-'' @ str_of_nat 3 @ ''.log'')) {''zsatunnel (2).log'', ''zsatunnel.log''} = Some ''log-3.log''"
  "lower_suffix ''ZSATunnel.log'' = ''.log''" "lower_suffix ''zsatunnel (2).LOG'' = ''.log''" "lower_suffix ''log-3.log'' = ''.log''"
  "str_of_nat 3 = ''3''"
  by code_simp+

lemma ex_normalize:
  "normalize ex_uploads = Inr [(''ZSATunnel.log'', ''one''), (''zsatunnel (2).LOG'', ''two''), (''log-3.log'', ''three'')]"
proof -
  note names = ex_names [unfolded One_nat_def numeral_2_eq_2 numeral_3_eq_3 append_Cons append_Nil]
  show ?thesis
    by (simp add: normalize_def ex_uploads_def supported_extensions_def max_standalone_bytes_def names(1-8))
qed


theorem prepare_inputs_result_witness:
  "\<exists>p. prepare_inputs (\<lambda>ms. concat (map snd ms)) (\<lambda>b. True) ex_uploads = Inr p \<and> file_count p = 3
     \<and> bundle_bytes p = ''onetwothree''"
proof -
  have "prepare_inputs (\<lambda>ms. concat (map snd ms)) (\<lambda>b. True) ex_uploads = Inr \<lparr>bundle_bytes = ''onetwothree'',
      display_name = ''3 individual logs'', source_kind = ''log set'', file_count = 3\<rparr>"
    unfolding prepare_inputs_def ex_normalize
    by (simp add: archive_members_def max_standalone_files_def ex_names ex_names(9) [unfolded numeral_3_eq_3]) (simp add: ex_uploads_def)
  from prepare_inputs_result [OF this] this show ?thesis by (simp add: ex_uploads_def)
qed

end
