(* ===== verification/Pcap_Reader.thy ===== *)
theory Pcap_Reader
  imports Py_Time "HOL-Library.Word"
begin

unbundle bit_operations_syntax

text \<open>
  The pcapng container of \<open>zcc_diag/pcap_review.py\<close>: blocks, the interface description's
  timestamp resolution, the packet blocks, and the floating-point conversion of a
  timestamp.  A generator is the list of what it yields and the exception that ends it.
\<close>

section \<open>Bytes\<close>

type_synonym bytes = "8 word list"

text \<open>\<open>int.from_bytes(b, "big")\<close> and \<open>"little"\<close>, and the shifts of the hand written readers.\<close>

definition int_be :: "bytes \<Rightarrow> nat" where
  "int_be bs = foldl (\<lambda>n b. 256 * n + unat b) 0 bs"

definition int_le :: "bytes \<Rightarrow> nat" where
  "int_le bs = int_be (rev bs)"

datatype endian = LE | BE

fun int_of :: "endian \<Rightarrow> bytes \<Rightarrow> nat" where
  "int_of LE bs = int_le bs"
| "int_of BE bs = int_be bs"

definition be16 :: "8 word \<Rightarrow> 8 word \<Rightarrow> nat" where
  "be16 hi lo = push_bit 8 (unat hi) OR unat lo"

definition sub :: "bytes \<Rightarrow> nat \<Rightarrow> nat \<Rightarrow> bytes" where
  "sub bs i n = take n (drop i bs)"

lemma int_be_simps [simp]:
  "int_be [] = 0" "int_be [a] = unat a" "int_be [a, b] = 256 * unat a + unat b"
  "int_be [a, b, c, d] = ((unat a * 256 + unat b) * 256 + unat c) * 256 + unat d"
  by (simp_all add: int_be_def algebra_simps)

lemma int_be_snoc: "int_be (bs @ [b]) = 256 * int_be bs + unat b"
  by (simp add: int_be_def)

lemma byte_less: "unat (b :: 8 word) < 256"
  using unsigned_less [of b] by simp

lemma int_be_less: "int_be bs < 256 ^ length bs"
proof (induction bs rule: rev_induct)
  case Nil
  then show ?case by simp
next
  case (snoc b bs)
  have "unat b < 256" by (rule byte_less)
  with snoc show ?case by (simp add: int_be_snoc)
qed

lemma be16_int_be: "be16 a b = int_be [a, b]"
proof -
  have "take_bit 8 (unat b) = unat b" using byte_less [of b] by (simp add: take_bit_nat_eq_self)
  then have "\<not> bit (unat b) n" if "8 \<le> n" for n using that by (metis bit_take_bit_iff not_le)
  then have "push_bit 8 (unat a) + unat b = push_bit 8 (unat a) OR unat b"
    by (intro disjunctive_add) (auto simp: bit_push_bit_iff)
  then show ?thesis by (simp add: be16_def push_bit_nat_def algebra_simps)
qed

section \<open>Blocks\<close>

text \<open>\<open>BadBlock\<close>: a \<open>ValueError\<close> of the reader; \<open>YearRange\<close>: a \<open>ValueError\<close> or \<open>OSError\<close> of \<open>fromtimestamp\<close>.\<close>

datatype read_exc = BadBlock string | YearRange | IndexErr | OverflowErr

definition block_section_header :: nat where "block_section_header = 0x0A0D0D0A"
definition block_interface_desc :: nat where "block_interface_desc = 1"
definition block_enhanced_packet :: nat where "block_enhanced_packet = 6"
definition bom_le :: nat where "bom_le = 0x1A2B3C4D"
definition bom_be :: nat where "bom_be = 0x4D3C2B1A"

definition plausible :: "nat \<Rightarrow> bool" where
  "plausible blen = (12 \<le> blen \<and> blen \<le> 64 * 1024 * 1024 \<and> blen mod 4 = 0)"

text \<open>Type and length are read as little endian first; the other order is a second try.\<close>

definition block_header :: "endian \<Rightarrow> bytes \<Rightarrow> (nat \<times> nat \<times> endian) option" where
  "block_header e hdr =
     (if plausible (int_le (sub hdr 4 4)) then Some (int_le (sub hdr 0 4), int_le (sub hdr 4 4), e)
      else if plausible (int_be (sub hdr 4 4)) then Some (int_be (sub hdr 0 4), int_be (sub hdr 4 4), BE)
      else None)"

definition lock_endian :: "nat \<Rightarrow> bytes \<Rightarrow> endian \<Rightarrow> endian" where
  "lock_endian btype body e =
     (if btype = block_section_header \<and> 4 \<le> length body
      then (if int_le (take 4 body) = bom_le then LE
            else if int_le (take 4 body) = bom_be then BE else e)
      else e)"

type_synonym block = "nat \<times> bytes \<times> endian"

function iter_blocks :: "endian \<Rightarrow> bytes \<Rightarrow> block list \<times> read_exc option" where
  "iter_blocks e bs =
     (if bs = [] then ([], None)
      else if length bs < 8 then ([], Some (BadBlock ''Truncated block header''))
      else case block_header e (take 8 bs) of
        None \<Rightarrow> ([], Some (BadBlock ''Implausible block''))
      | Some (btype, blen, e1) \<Rightarrow>
          let body_len = blen - 12; body = sub bs 8 body_len; after = drop (8 + body_len) bs in
          if length body < body_len then ([], Some (BadBlock ''Truncated block body''))
          else if length after < 4 then ([], Some (BadBlock ''Missing block trailer''))
          else let e2 = lock_endian btype body e1 in
            case iter_blocks e2 (drop 4 after) of (rest, ex) \<Rightarrow> ((btype, body, e2) # rest, ex))"
  by pat_completeness auto
termination
  by (relation "measure (length \<circ> snd)") (auto simp: sub_def)

declare iter_blocks.simps [simp del]

section \<open>Interfaces\<close>

function idb_loop :: "endian \<Rightarrow> bytes \<Rightarrow> nat \<Rightarrow> nat \<Rightarrow> read_exc + nat" where
  "idb_loop e body i ticks =
     (if i + 4 \<le> length body
      then let opt_code = int_of e (sub body i 2); opt_len = int_of e (sub body (i + 2) 2); j = i + 4;
               next_i = j + 4 * ((opt_len + 3) div 4) in
        if opt_code = 0 then Inr ticks
        else if opt_code = 9 \<and> 1 \<le> opt_len
        then (if length body \<le> j then Inl IndexErr
          else let v = body ! j in
            idb_loop e body next_i (if v AND 0x80 \<noteq> 0 then 2 ^ unat (v AND 0x7F) else 10 ^ unat (v AND 0x7F)))
        else idb_loop e body next_i ticks
      else Inr ticks)"
  by pat_completeness auto
termination
  by (relation "measure (\<lambda>(e, body, i, ticks). length body - i)") auto

declare idb_loop.simps [simp del]

definition parse_interface_description :: "bytes \<Rightarrow> endian \<Rightarrow> read_exc + nat" where
  "parse_interface_description body e = (if length body < 8 then Inr 1000000 else idb_loop e body 8 1000000)"

section \<open>Timestamps\<close>

text \<open>
  A positive double is a pair \<open>(m, s)\<close> of value \<open>m / 2\<^sup>s\<close> with \<open>m\<close> of 53 bits: the quotient
  of two integers is rounded to the nearest one, ties to even.
\<close>

fun bit_len :: "nat \<Rightarrow> nat" where
  "bit_len n = (if n = 0 then 0 else Suc (bit_len (n div 2)))"

declare bit_len.simps [simp del]

definition rne_div :: "nat \<Rightarrow> nat \<Rightarrow> nat" where
  "rne_div n d = (let q = n div d; r = n mod d in
     if 2 * r < d then q else if d < 2 * r then Suc q else if even q then q else Suc q)"

definition scaled :: "nat \<Rightarrow> nat \<Rightarrow> int \<Rightarrow> nat \<times> nat" where
  "scaled n d s = (if 0 \<le> s then (n * 2 ^ nat s, d) else (n, d * 2 ^ nat (- s)))"

definition double_div :: "nat \<Rightarrow> nat \<Rightarrow> nat \<times> int" where
  "double_div n d =
     (if n = 0 then (0, 0)
      else let s = 53 - int (bit_len n) + int (bit_len d);
               s' = (case scaled n d s of (a, b) \<Rightarrow> if b * 2 ^ 53 \<le> a then s - 1 else s) in
        case scaled n d s' of (a, b) \<Rightarrow> (rne_div a b, s'))"

fun double_floor :: "nat \<times> int \<Rightarrow> nat" where
  "double_floor (m, s) = (if 0 < s then m div 2 ^ nat s else m * 2 ^ nat (- s))"

fun double_round :: "nat \<times> int \<Rightarrow> nat" where
  "double_round (m, s) = (if 0 < s then rne_div m (2 ^ nat s) else m * 2 ^ nat (- s))"

text \<open>The fractional part times \<open>1e6\<close>, again rounded to a double.\<close>

fun frac_times_million :: "nat \<times> int \<Rightarrow> nat \<times> int" where
  "frac_times_million (m, s) =
     (if 0 < s then double_div ((m mod 2 ^ nat s) * 1000000) (2 ^ nat s) else (0, 0))"

definition epoch_us :: int where
  "epoch_us = 719162 * 86400000000"

definition year_10000 :: nat where
  "year_10000 = 253402300800"

text \<open>\<open>datetime.fromtimestamp(n / d, tz=timezone.utc)\<close>\<close>

definition from_timestamp :: "nat \<Rightarrow> nat \<Rightarrow> read_exc + int" where
  "from_timestamp n d =
     (let x = double_div n d; sec = double_floor x; us = double_round (frac_times_million x);
          sec' = (if 1000000 \<le> us then Suc sec else sec); us' = (if 1000000 \<le> us then us - 1000000 else us) in
      if 2 ^ 63 \<le> sec' then Inl OverflowErr
      else if year_10000 \<le> sec' then Inl YearRange
      else Inr (epoch_us + 1000000 * int sec' + int us'))"

section \<open>Packets\<close>

type_synonym packet = "int \<times> bytes"

fun packets_of :: "nat list \<Rightarrow> block list \<Rightarrow> packet list \<times> read_exc option" where
  "packets_of if_ticks [] = ([], None)"
| "packets_of if_ticks ((btype, body, e) # blocks) =
     (if btype = block_interface_desc
      then (case parse_interface_description body e of
          Inl ex \<Rightarrow> ([], Some ex)
        | Inr ticks \<Rightarrow> packets_of (if_ticks @ [ticks]) blocks)
      else if btype = block_enhanced_packet \<and> 20 \<le> length body
      then (let iface = int_of e (sub body 0 4); ts_high = int_of e (sub body 4 4);
                ts_low = int_of e (sub body 8 4); cap_len = int_of e (sub body 12 4);
                ticks = (if iface < length if_ticks then if_ticks ! iface else 1000000);
                ts_ticks = push_bit 32 ts_high OR ts_low in
          case from_timestamp ts_ticks ticks of
            Inl ex \<Rightarrow> ([], Some ex)
          | Inr ts \<Rightarrow> (case packets_of if_ticks blocks of
              (ps, ex) \<Rightarrow> ((ts, sub body 20 cap_len) # ps, ex)))
      else packets_of if_ticks blocks)"

text \<open>
  \<open>_read_pcapng\<close>: the blocks are processed as they are read, so an exception of the packet
  code comes before one of the block reader.
\<close>

definition read_pcapng :: "bytes \<Rightarrow> packet list \<times> read_exc option" where
  "read_pcapng bs = (case iter_blocks LE bs of (blocks, ex) \<Rightarrow>
     case packets_of [] blocks of (ps, ex') \<Rightarrow> (ps, if ex' = None then ex else ex'))"

end
