(* ===== verification/Pcap_Frames.thy ===== *)
theory Pcap_Frames
  imports Pcap_Reader "HOL-Library.Monad_Syntax"
begin

text \<open>
  Frame dissection of \<open>zcc_diag/pcap_review.py\<close>: Ethernet with a VLAN tag, IPv4 and IPv6
  with extension headers, TCP and UDP, and inside them DNS messages, TLS client hellos and
  TLS alerts.  An exception inside a parser that returns \<open>None\<close> on any exception is
  \<open>None\<close>.  A byte above 127 decodes to U+FFFD, for which the character 255 stands: no other
  byte decodes to it.
\<close>

section \<open>Addresses\<close>

definition dotted :: "bytes \<Rightarrow> string" where
  "dotted bs = join_with ''.'' (map (\<lambda>b. str_of_nat (unat b)) bs)"

definition hex_digit :: "nat \<Rightarrow> char" where
  "hex_digit n = (if n < 10 then char_of (48 + n) else char_of (87 + n))"

fun hex_of :: "nat \<Rightarrow> string" where
  "hex_of n = (if n < 16 then [hex_digit n] else hex_of (n div 16) @ [hex_digit (n mod 16)])"

declare hex_of.simps [simp del]

fun groups16 :: "bytes \<Rightarrow> string list" where
  "groups16 (a # b # bs) = hex_of (int_be [a, b]) # groups16 bs"
| "groups16 [a] = [hex_of (unat a)]"
| "groups16 [] = []"

text \<open>The first longest run of zero groups, as \<open>ipaddress\<close> finds it: its start and its length.\<close>

fun zero_run :: "nat \<Rightarrow> (nat \<times> nat) \<Rightarrow> (nat \<times> nat) \<Rightarrow> string list \<Rightarrow> nat \<times> nat" where
  "zero_run i best cur [] = best"
| "zero_run i (bs, bl) (cs, cl) (g # gs) =
     (if g = ''0''
      then let cs' = (if cl = 0 then i else cs); cl' = Suc cl in
        zero_run (Suc i) (if bl < cl' then (cs', cl') else (bs, bl)) (cs', cl') gs
      else zero_run (Suc i) (bs, bl) (cs, 0) gs)"

definition compress_groups :: "string list \<Rightarrow> string list" where
  "compress_groups gs = (case zero_run 0 (0, 0) (0, 0) gs of (s, n) \<Rightarrow>
     if 1 < n
     then (if s = 0 then [[]] else take s gs) @ [[]] @ (if s + n = length gs then [[]] else drop (s + n) gs)
     else gs)"

text \<open>\<open>_format_ipv6\<close>: sixteen bytes are an IPv6 address and four an IPv4 address.\<close>

definition format_ipv6 :: "bytes \<Rightarrow> string" where
  "format_ipv6 bs =
     (if length bs = 16 then join_with '':'' (compress_groups (groups16 bs))
      else if length bs = 4 then dotted bs
      else join_with '':'' (groups16 bs))"

section \<open>Transport headers\<close>

type_synonym parsed = "string \<times> string \<times> nat \<times> nat \<times> bytes"

definition tcp_header_len :: "bytes \<Rightarrow> nat" where
  "tcp_header_len l4 = unat (drop_bit 4 (l4 ! 12)) * 4"

definition parse_l4 :: "nat \<Rightarrow> string \<Rightarrow> bytes \<Rightarrow> parsed option" where
  "parse_l4 proto_num dst l4 =
     (if proto_num = 6 \<and> 20 \<le> length l4
      then let sport = be16 (l4 ! 0) (l4 ! 1); dport = be16 (l4 ! 2) (l4 ! 3); thl = tcp_header_len l4 in
        if thl < 20 \<or> length l4 < thl then Some (''tcp'', dst, sport, dport, [])
        else Some (''tcp'', dst, sport, dport, drop thl l4)
      else if proto_num = 17 \<and> 8 \<le> length l4
      then Some (''udp'', dst, be16 (l4 ! 0) (l4 ! 1), be16 (l4 ! 2) (l4 ! 3), drop 8 l4)
      else None)"

text \<open>The extension headers of IPv6: next header and length in units of eight bytes.\<close>

definition ext_headers :: "nat set" where
  "ext_headers = {0, 43, 44, 50, 51, 60}"

function skip_ext :: "nat \<Rightarrow> bytes \<Rightarrow> nat \<times> bytes" where
  "skip_ext nxt l4 =
     (if nxt \<in> ext_headers \<and> 2 \<le> length l4
      then skip_ext (unat (l4 ! 0)) (drop ((unat (l4 ! 1) + 1) * 8) l4)
      else (nxt, l4))"
  by pat_completeness auto
termination
  by (relation "measure (length \<circ> snd)") auto

declare skip_ext.simps [simp del]

definition parse_ipv4 :: "bytes \<Rightarrow> parsed option" where
  "parse_ipv4 buf =
     (if length buf < 20 then None
      else if drop_bit 4 (buf ! 0) \<noteq> 4 then None
      else let ihl = unat (buf ! 0 AND 0x0F) * 4 in
        if ihl < 20 \<or> length buf < ihl then None
        else parse_l4 (unat (buf ! 9)) (dotted (sub buf 16 4)) (drop ihl buf))"

definition parse_ipv6 :: "bytes \<Rightarrow> parsed option" where
  "parse_ipv6 buf =
     (if length buf < 40 then None
      else if drop_bit 4 (buf ! 0) \<noteq> 6 then None
      else case skip_ext (unat (buf ! 6)) (drop 40 buf) of
        (nxt, l4) \<Rightarrow> parse_l4 nxt (format_ipv6 (sub buf 24 16)) l4)"

text \<open>The Ethernet type and the length of the header, with an 802.1Q tag skipped.\<close>

definition eth_type :: "bytes \<Rightarrow> nat \<times> nat" where
  "eth_type frame = (let etype = be16 (frame ! 12) (frame ! 13) in
     if etype = 0x8100 \<and> 18 \<le> length frame then (be16 (frame ! 16) (frame ! 17), 18) else (etype, 14))"

definition parse_frame :: "bytes \<Rightarrow> parsed option" where
  "parse_frame frame =
     (if length frame < 14 then None
      else case eth_type frame of (etype, hdr_len) \<Rightarrow>
        if etype = 0x0800 then parse_ipv4 (drop hdr_len frame)
        else if etype = 0x86DD then parse_ipv6 (drop hdr_len frame)
        else None)"

section \<open>The full record of a frame\<close>

record fpacket =
  proto :: string
  src_ip :: string
  dst_ip :: string
  src_port :: nat
  dst_port :: nat
  total_len :: nat
  flags :: "8 word"
  payload :: bytes

definition full_l4 :: "nat \<Rightarrow> string \<Rightarrow> string \<Rightarrow> nat \<Rightarrow> bytes \<Rightarrow> fpacket option" where
  "full_l4 proto_num src dst tlen l4 =
     (if proto_num = 6 \<and> 20 \<le> length l4
      then let thl = tcp_header_len l4 in
        Some \<lparr>proto = ''tcp'', src_ip = src, dst_ip = dst, src_port = be16 (l4 ! 0) (l4 ! 1),
          dst_port = be16 (l4 ! 2) (l4 ! 3), total_len = tlen, flags = l4 ! 13,
          payload = (if 20 \<le> thl \<and> thl \<le> length l4 then drop thl l4 else [])\<rparr>
      else if proto_num = 17 \<and> 8 \<le> length l4
      then Some \<lparr>proto = ''udp'', src_ip = src, dst_ip = dst, src_port = be16 (l4 ! 0) (l4 ! 1),
          dst_port = be16 (l4 ! 2) (l4 ! 3), total_len = tlen, flags = 0, payload = drop 8 l4\<rparr>
      else None)"

definition parse_frame_full :: "bytes \<Rightarrow> fpacket option" where
  "parse_frame_full frame =
     (if length frame < 14 then None
      else case eth_type frame of (etype, hdr_len) \<Rightarrow>
        let ip = drop hdr_len frame in
        if etype = 0x0800
        then (if length ip < 20 then None
          else if drop_bit 4 (ip ! 0) \<noteq> 4 then None
          else let ihl = unat (ip ! 0 AND 0x0F) * 4 in
            if ihl < 20 \<or> length ip < ihl then None
            else full_l4 (unat (ip ! 9)) (dotted (sub ip 12 4)) (dotted (sub ip 16 4))
              (be16 (ip ! 2) (ip ! 3)) (drop ihl ip))
        else if etype = 0x86DD
        then (if length ip < 40 then None
          else if drop_bit 4 (ip ! 0) \<noteq> 6 then None
          else case skip_ext (unat (ip ! 6)) (drop 40 ip) of (nxt, l4) \<Rightarrow>
            full_l4 nxt (format_ipv6 (sub ip 8 16)) (format_ipv6 (sub ip 24 16))
              (40 + be16 (ip ! 4) (ip ! 5)) l4)
        else None)"

definition extract_tcp_seq :: "bytes \<Rightarrow> nat option" where
  "extract_tcp_seq frame =
     (if length frame < 14 then None
      else case eth_type frame of (etype, ip_off) \<Rightarrow>
        let ip = drop ip_off frame in
        if etype = 0x0800
        then (if length ip < 20 then None
          else let ihl = unat (ip ! 0 AND 0x0F) * 4 in
            if ip ! 9 \<noteq> 6 \<or> ihl < 20 \<or> length ip < ihl + 8 then None
            else Some (int_be (sub (drop ihl ip) 4 4)))
        else if etype = 0x86DD
        then (if length ip < 40 \<or> ip ! 6 \<noteq> 6 \<or> length ip < 48 then None
          else Some (int_be (sub (drop 40 ip) 4 4)))
        else None)"

section \<open>DNS\<close>

definition decode_ascii :: "bytes \<Rightarrow> string" where
  "decode_ascii bs = map (\<lambda>b. if unat b < 128 then char_of (unat b) else CHR 0xFF) bs"

definition host_text :: "string \<Rightarrow> string" where
  "host_text s = rstrip_by (\<lambda>c. c = CHR ''.'') (py_lower s)"

text \<open>The labels from an offset: one pointer is followed, \<open>None\<close> where the code gives up.\<close>

fun qname_labels :: "nat \<Rightarrow> bool \<Rightarrow> bytes \<Rightarrow> nat \<Rightarrow> string list option" where
  "qname_labels 0 seen p i = Some []"
| "qname_labels (Suc safety) seen p i =
     (if length p \<le> i then Some []
      else let ln = p ! i in
        if ln = 0 then Some []
        else if ln AND 0xC0 = 0xC0
        then (if seen \<or> length p \<le> i + 1 then None
          else qname_labels safety True p (push_bit 8 (unat (ln AND 0x3F)) OR unat (p ! (i + 1))))
        else if length p < i + 1 + unat ln then None
        else map_option (Cons (decode_ascii (sub p (i + 1) (unat ln))))
          (qname_labels safety seen p (i + 1 + unat ln)))"

definition parse_dns_qname :: "bytes \<Rightarrow> string option" where
  "parse_dns_qname p =
     (if length p < 12 then None
      else if be16 (p ! 4) (p ! 5) < 1 then None
      else case qname_labels 64 False p 12 of
        None \<Rightarrow> None
      | Some labels \<Rightarrow> if labels = [] then None else Some (host_text (join_with ''.'' labels)))"

definition dns_rcode_names :: "(nat \<times> string) list" where
  "dns_rcode_names = [(0, ''NOERROR''), (1, ''FORMERR''), (2, ''SERVFAIL''), (3, ''NXDOMAIN''), (4, ''NOTIMP''), (5, ''REFUSED'')]"

text \<open>\<open>x or ""\<close>\<close>

definition or_empty :: "string option \<Rightarrow> string" where
  "or_empty x = (case x of None \<Rightarrow> [] | Some s \<Rightarrow> s)"

definition parse_dns_response :: "bytes \<Rightarrow> (nat \<times> string) option" where
  "parse_dns_response p =
     (if length p < 12 then None
      else if p ! 2 AND 0x80 = 0 then None
      else Some (unat (p ! 3 AND 0x0F), or_empty (parse_dns_qname p)))"

fun skip_name_from :: "nat \<Rightarrow> bytes \<Rightarrow> nat \<Rightarrow> nat option" where
  "skip_name_from 0 p i = None"
| "skip_name_from (Suc steps) p i =
     (if length p \<le> i then None
      else let ln = p ! i in
        if ln = 0 then Some (i + 1)
        else if ln AND 0xC0 = 0xC0 then (if i + 1 < length p then Some (i + 2) else None)
        else if ln AND 0xC0 \<noteq> 0 then None
        else skip_name_from steps p (i + 1 + unat ln))"

definition dns_skip_name :: "bytes \<Rightarrow> nat \<Rightarrow> nat option" where
  "dns_skip_name p i = skip_name_from 128 p i"

fun skip_questions :: "nat \<Rightarrow> bytes \<Rightarrow> nat \<Rightarrow> nat option" where
  "skip_questions 0 p i = Some i"
| "skip_questions (Suc n) p i = (case dns_skip_name p i of
       None \<Rightarrow> None
     | Some j \<Rightarrow> if length p < j + 4 then None else skip_questions n p (j + 4))"

definition answer_of :: "string \<Rightarrow> nat \<Rightarrow> nat \<Rightarrow> bytes \<Rightarrow> (string \<times> string) list" where
  "answer_of qname rclass rtype rdata =
     (if rclass \<noteq> 1 \<or> qname = [] then []
      else if rtype = 1 \<and> length rdata = 4 then [(qname, dotted rdata)]
      else if rtype = 28 \<and> length rdata = 16 then [(qname, format_ipv6 rdata)]
      else [])"

fun read_answers :: "nat \<Rightarrow> string \<Rightarrow> bytes \<Rightarrow> nat \<Rightarrow> (string \<times> string) list" where
  "read_answers 0 qname p i = []"
| "read_answers (Suc n) qname p i = (case dns_skip_name p i of
       None \<Rightarrow> []
     | Some j \<Rightarrow>
         if length p < j + 10 then []
         else let rtype = int_be (sub p j 2); rclass = int_be (sub p (j + 2) 2); rdlen = int_be (sub p (j + 8) 2);
                  k = j + 10 in
           if length p < k + rdlen then []
           else answer_of qname rclass rtype (sub p k rdlen) @ read_answers n qname p (k + rdlen))"

definition parse_dns_address_answers :: "bytes \<Rightarrow> (string \<times> string) list" where
  "parse_dns_address_answers p =
     (if length p < 12 \<or> p ! 2 AND 0x80 = 0 then []
      else case skip_questions (int_be (sub p 4 2)) p 12 of
        None \<Rightarrow> []
      | Some i \<Rightarrow> read_answers (int_be (sub p 6 2)) (or_empty (parse_dns_qname p)) p i)"

section \<open>TLS\<close>

text \<open>\<open>hs[i]\<close>, where an index out of range raises.\<close>

definition byte_at :: "bytes \<Rightarrow> nat \<Rightarrow> nat option" where
  "byte_at bs i = (if i < length bs then Some (unat (bs ! i)) else None)"

definition be16_at :: "bytes \<Rightarrow> nat \<Rightarrow> nat option" where
  "be16_at bs i = (if i + 1 < length bs then Some (be16 (bs ! i) (bs ! (i + 1))) else None)"

definition server_name :: "bytes \<Rightarrow> nat \<Rightarrow> nat \<Rightarrow> string option" where
  "server_name hs i elen =
     (if elen < 5 then None
      else do {
        name_type \<leftarrow> byte_at hs (i + 2);
        if name_type \<noteq> 0 then None
        else do {
          name_len \<leftarrow> be16_at hs (i + 3);
          Some (host_text (decode_ascii (sub hs (i + 5) name_len)))
        }
      })"

function sni_ext :: "bytes \<Rightarrow> nat \<Rightarrow> nat \<Rightarrow> string option" where
  "sni_ext hs ext_end i =
     (if i + 4 \<le> ext_end \<and> i + 4 \<le> length hs
      then let etype = be16 (hs ! i) (hs ! (i + 1)); elen = be16 (hs ! (i + 2)) (hs ! (i + 3)) in
        if etype = 0 then server_name hs (i + 4) elen
        else sni_ext hs ext_end (i + 4 + elen)
      else None)"
  by pat_completeness auto
termination
  by (relation "measure (\<lambda>(hs, e, i). length hs - i)") auto

declare sni_ext.simps [simp del]

text \<open>Type, length, version and random take 38 bytes; then the session id, the cipher suites
  and the compression methods.\<close>

definition client_hello_sni :: "bytes \<Rightarrow> string option" where
  "client_hello_sni hs = do {
     sid_len \<leftarrow> byte_at hs 38;
     let i = 39 + sid_len;
     cs_len \<leftarrow> be16_at hs i;
     let j = i + 2 + cs_len;
     cm_len \<leftarrow> byte_at hs j;
     let k = j + 1 + cm_len;
     if length hs < k + 2 then None
     else sni_ext hs (k + 2 + be16 (hs ! k) (hs ! (k + 1))) (k + 2)
   }"

definition parse_tls_sni :: "bytes \<Rightarrow> string option" where
  "parse_tls_sni p =
     (if length p < 5 then None
      else if p ! 0 \<noteq> 0x16 then None
      else let rec_len = be16 (p ! 3) (p ! 4) in
        if rec_len < 4 \<or> length p < 5 + rec_len then None
        else let hs = sub p 5 rec_len in
          if hs = [] \<or> hs ! 0 \<noteq> 1 then None else client_hello_sni hs)"

definition parse_tls_alert :: "bytes \<Rightarrow> (nat \<times> nat) option" where
  "parse_tls_alert p =
     (if length p < 7 then None
      else if p ! 0 \<noteq> 0x15 then None
      else if p ! 1 \<noteq> 3 then None
      else Some (unat (p ! 5), unat (p ! 6)))"

definition tls_alert_descriptions :: "(nat \<times> string) list" where
  "tls_alert_descriptions =
     [(0, ''close_notify''), (10, ''unexpected_message''), (20, ''bad_record_mac''), (21, ''decryption_failed''),
      (22, ''record_overflow''), (30, ''decompression_failure''), (40, ''handshake_failure''), (41, ''no_certificate''),
      (42, ''bad_certificate''), (43, ''unsupported_certificate''), (44, ''certificate_revoked''),
      (45, ''certificate_expired''), (46, ''certificate_unknown''), (47, ''illegal_parameter''), (48, ''unknown_ca''),
      (49, ''access_denied''), (50, ''decode_error''), (51, ''decrypt_error''), (60, ''export_restriction''),
      (70, ''protocol_version''), (71, ''insufficient_security''), (80, ''internal_error''),
      (86, ''inappropriate_fallback''), (90, ''user_canceled''), (100, ''no_renegotiation''), (109, ''missing_extension''),
      (110, ''unsupported_extension''), (111, ''certificate_unobtainable''), (112, ''unrecognized_name''),
      (113, ''bad_certificate_status_response''), (114, ''bad_certificate_hash_value''), (115, ''unknown_psk_identity''),
      (116, ''certificate_required''), (120, ''no_application_protocol'')]"

definition format_tls_alert :: "nat \<Rightarrow> nat \<Rightarrow> string" where
  "format_tls_alert lvl desc =
     ((if lvl = 2 then ''fatal'' else if lvl = 1 then ''warning'' else ''l'' @ str_of_nat lvl) @ ''/'' @
      (case dict_get tls_alert_descriptions desc of Some n \<Rightarrow> n | None \<Rightarrow> ''code-'' @ str_of_nat desc))"

end
