(* ===== verification/Pcap_Roundtrip.thy ===== *)
theory Pcap_Roundtrip
  imports Pcap_Reader
begin

text \<open>
  Reading a capture back: the double arithmetic of the timestamps is exact to the
  microsecond until 2106, blocks written in little endian come back, and the big endian
  captures that do not.
\<close>

section \<open>Timestamps are exact to the microsecond\<close>

lemma rne_div_near: "0 < d \<Longrightarrow> \<bar>2 * int (rne_div n d) * int d - 2 * int n\<bar> \<le> int d"
proof -
  assume d: "0 < d"
  have n: "int n = int (n div d) * int d + int (n mod d)"
    by (metis div_mult_mod_eq of_nat_add of_nat_mult)
  have r: "n mod d < d" using d by simp
  show ?thesis
    using r by (auto simp: rne_div_def Let_def n algebra_simps abs_le_iff)
qed

lemma rne_div_unique:
  assumes "0 < d" "\<bar>2 * int k * int d - 2 * int n\<bar> < int d"
  shows "rne_div n d = k"
proof -
  let ?q = "rne_div n d"
  have "\<bar>2 * int ?q * int d - 2 * int k * int d\<bar> < 2 * int d"
    using rne_div_near [OF assms(1), of n] assms(2) by linarith
  then have "\<bar>(int ?q - int k) * int d\<bar> < 1 * int d" by (simp add: algebra_simps)
  then have "\<bar>int ?q - int k\<bar> < 1" using assms(1)
    by (metis abs_mult abs_of_nat mult_less_cancel_right_disj of_nat_0_less_iff order_less_not_sym)
  then show ?thesis by simp
qed

lemma bit_len_bounds: "0 < n \<Longrightarrow> 2 ^ (bit_len n - 1) \<le> n \<and> n < 2 ^ bit_len n \<and> 0 < bit_len n"
proof (induction n rule: bit_len.induct)
  case (1 n)
  show ?case
  proof (cases "n = 1")
    case True
    then show ?thesis by (simp add: bit_len.simps)
  next
    case False
    with 1 have "2 ^ (bit_len (n div 2) - 1) \<le> n div 2" "n div 2 < 2 ^ bit_len (n div 2)" "0 < bit_len (n div 2)"
      by auto
    moreover obtain b where "bit_len (n div 2) = Suc b" using calculation(3) by (cases "bit_len (n div 2)") auto
    moreover have "bit_len n = Suc (Suc b)" if "bit_len (n div 2) = Suc b" for b
      using that 1(2) by (simp add: bit_len.simps [of n])
    ultimately show ?thesis
      using div_mult_mod_eq [of n 2] mod_less_divisor [of 2 n] by (simp add: field_simps) linarith
  qed
qed

text \<open>The first exponent scales the quotient to at least \<open>2\<^sup>5\<^sup>2\<close>, and so does the corrected one.\<close>

lemma scaled_first:
  fixes n d defines "s \<equiv> 53 - int (bit_len n) + int (bit_len d)"
  assumes "0 < n" "0 < d" "scaled n d s = (a, b)"
  shows "b * 2 ^ 52 \<le> a"
proof (cases "0 \<le> s")
  note bn = bit_len_bounds [OF assms(2)] and bd = bit_len_bounds [OF assms(3)]
  case True
  then have ab: "a = n * 2 ^ nat s" "b = d" using assms(4) by (auto simp: scaled_def)
  have "bit_len d + 52 = (bit_len n - 1) + nat s" using True bn bd by (simp add: s_def)
  then have "d * 2 ^ 52 \<le> 2 ^ (bit_len n - 1) * 2 ^ nat s"
    using bd by (metis less_imp_le mult_le_mono1 power_add)
  also have "\<dots> \<le> n * 2 ^ nat s" using bn by simp
  finally show ?thesis by (simp add: ab)
next
  note bn = bit_len_bounds [OF assms(2)] and bd = bit_len_bounds [OF assms(3)]
  case False
  then have ab: "a = n" "b = d * 2 ^ nat (- s)" using assms(4) by (auto simp: scaled_def)
  have e: "bit_len d + nat (- s) + 52 = bit_len n - 1" using False bn bd by (simp add: s_def)
  have "d * 2 ^ nat (- s) * 2 ^ 52 \<le> 2 ^ bit_len d * 2 ^ nat (- s) * 2 ^ 52" using bd by simp
  also have "\<dots> = 2 ^ (bit_len n - 1)" by (simp only: power_add [symmetric] e)
  also have "\<dots> \<le> n" using bn by simp
  finally show ?thesis by (simp add: ab)
qed

lemma scaled_halved:
  assumes "scaled n d s = (a, b)" "b * 2 ^ 53 \<le> a" "scaled n d (s - 1) = (a', b')"
  shows "b' * 2 ^ 52 \<le> a'"
proof (cases "0 < s")
  case True
  then have "nat s = Suc (nat (s - 1))" by simp
  with assms True show ?thesis by (auto simp: scaled_def)
next
  case False
  then have "nat (- (s - 1)) = Suc (nat (- s))" by simp
  with assms False show ?thesis by (cases "s = 0") (auto simp: scaled_def)
qed

lemma scaled_exponent:
  assumes "n < d * 2 ^ t" "t \<le> 52" "scaled n d s = (a, b)" "b * 2 ^ 52 \<le> a"
  shows "53 - int t \<le> s"
proof (rule ccontr)
  assume "\<not> 53 - int t \<le> s"
  then have lt: "s \<le> 52 - int t" by simp
  have "a < b * 2 ^ 52"
  proof (cases "0 \<le> s")
    case True
    then have ab: "a = n * 2 ^ nat s" "b = d" using assms(3) by (auto simp: scaled_def)
    have "t + nat s \<le> 52" using lt True by linarith
    then have "(2::nat) ^ (t + nat s) \<le> 2 ^ 52" by (rule power_increasing) simp
    then have "d * 2 ^ t * 2 ^ nat s \<le> d * 2 ^ 52" by (simp only: power_add mult.assoc mult_le_mono2)
    moreover have "n * 2 ^ nat s < d * 2 ^ t * 2 ^ nat s" using assms(1) by simp
    ultimately show ?thesis unfolding ab by (simp only: less_le_trans)
  next
    case False
    then have ab: "a = n" "b = d * 2 ^ nat (- s)" using assms(3) by (auto simp: scaled_def)
    have "(2::nat) ^ t \<le> 2 ^ (nat (- s) + 52)" using assms(2) by (intro power_increasing) auto
    then have "d * 2 ^ t \<le> d * 2 ^ nat (- s) * 2 ^ 52" by (simp only: power_add mult.assoc mult_le_mono2)
    with assms(1) show ?thesis unfolding ab by (rule less_le_trans)
  qed
  with assms(4) show False by simp
qed

text \<open>A quotient below \<open>2\<^sup>t\<close> gets at least \<open>53 - t\<close> fractional bits.\<close>

lemma double_div_spec:
  assumes "0 < n" "0 < d" "n < d * 2 ^ t" "t \<le> 52"
  obtains m s where "double_div n d = (m, int s)" "53 - t \<le> s" "m = rne_div (n * 2 ^ s) d"
proof -
  let ?s = "53 - int (bit_len n) + int (bit_len d)"
  obtain a b where ab: "scaled n d ?s = (a, b)" by (metis prod.exhaust)
  define s' where "s' = (if b * 2 ^ 53 \<le> a then ?s - 1 else ?s)"
  obtain a' b' where ab': "scaled n d s' = (a', b')" by (metis prod.exhaust)
  have "b' * 2 ^ 52 \<le> a'"
    using scaled_first [OF assms(1,2) ab] scaled_halved [OF ab] ab ab' by (auto simp: s'_def split: if_splits)
  then have pos: "53 - int t \<le> s'" by (rule scaled_exponent [OF assms(3,4) ab'])
  show thesis
  proof (rule that [of "rne_div (n * 2 ^ nat s') d" "nat s'"])
    have "0 \<le> s'" using pos assms(4) by linarith
    moreover have "double_div n d = (rne_div a' b', s')"
      using assms(1) ab ab' unfolding double_div_def Let_def s'_def by (auto split: if_splits)
    ultimately show "double_div n d = (rne_div (n * 2 ^ nat s') d, int (nat s'))"
      using ab' by (auto simp: scaled_def)
    show "53 - t \<le> nat s'" using pos by linarith
  qed simp
qed

lemma double_round_near:
  assumes "0 < d" "n < d * 2 ^ t" "t \<le> 50" "\<bar>4 * int n - 4 * int k * int d\<bar> \<le> int d"
  shows "double_round (double_div n d) = k"
proof (cases "n = 0")
  case True
  with assms(4) have "4 * int k * int d \<le> int d" by simp
  with assms(1) have "k = 0" by (simp add: mult_le_cancel_right1)
  with True show ?thesis by (simp add: double_div_def)
next
  case False
  obtain m s where ms: "double_div n d = (m, int s)" "53 - t \<le> s" "m = rne_div (n * 2 ^ s) d"
    using double_div_spec [of n d t] False assms by auto
  define p :: int where "p = 2 ^ s"
  have s: "2 < s" using ms(2) assms(3) by simp
  then have "(2::int) ^ 3 \<le> 2 ^ s" by (intro power_increasing) auto
  then have p: "8 \<le> p" by (simp add: p_def)
  have near: "\<bar>2 * int m * int d - 2 * (int n * p)\<bar> \<le> int d"
    using rne_div_near [OF assms(1), of "n * 2 ^ s"] by (simp add: ms(3) p_def)
  have "\<bar>(4 * int n - 4 * int k * int d) * p\<bar> \<le> int d * p"
    using assms(4) p by (simp add: abs_mult)
  then have "\<bar>4 * (int n * p) - 4 * int k * p * int d\<bar> \<le> int d * p" by (simp add: algebra_simps)
  with near have "\<bar>4 * int m * int d - 4 * int k * p * int d\<bar> \<le> 2 * int d + int d * p" by linarith
  moreover have "4 * int m * int d - 4 * int k * p * int d = (4 * int m - 4 * int k * p) * int d"
    "2 * int d + int d * p = (2 + p) * int d"
    by (simp_all add: algebra_simps)
  ultimately have "\<bar>4 * int m - 4 * int k * p\<bar> * int d \<le> (2 + p) * int d"
    by (simp only: abs_mult abs_of_nat)
  then have "\<bar>4 * int m - 4 * int k * p\<bar> \<le> 2 + p" using assms(1) by simp
  with p have "\<bar>2 * int k * p - 2 * int m\<bar> < p" by linarith
  then have "rne_div m (2 ^ s) = k"
    by (intro rne_div_unique) (simp_all add: p_def)
  with s show ?thesis by (simp add: ms(1))
qed

lemma ts_exact:
  assumes "n < 2 ^ 32 * 1000000"
  shows "from_timestamp n 1000000 = Inr (epoch_us + int n)"
proof (cases "n = 0")
  case True
  then show ?thesis by (simp add: from_timestamp_def double_div_def year_10000_def)
next
  case False
  obtain m s where ms: "double_div n 1000000 = (m, int s)" "21 \<le> s" "m = rne_div (n * 2 ^ s) 1000000"
    using double_div_spec [of n 1000000 32] False assms by auto
  define p :: nat where "p = 2 ^ s"
  have "(2::nat) ^ 21 \<le> 2 ^ s" using ms(2) by (intro power_increasing) auto
  then have p: "2097152 \<le> p" by (simp add: p_def)
  define sec f where "sec = m div p" and "f = m mod p"
  have m: "m = sec * p + f" and f: "f < p" using p by (simp_all add: sec_def f_def)
  have near: "\<bar>2 * int m * 1000000 - 2 * (int n * int p)\<bar> \<le> 1000000"
    using rne_div_near [of 1000000 "n * 2 ^ s"] by (simp add: ms(3) p_def)
  define k where "k = int n - 1000000 * int sec"
  have fk: "\<bar>2 * (int f * 1000000) - 2 * k * int p\<bar> \<le> 1000000"
    using near by (simp add: m k_def algebra_simps)
  have k0: "0 \<le> k"
  proof (rule ccontr)
    assume "\<not> 0 \<le> k"
    then have "k * int p \<le> - 1 * int p" by (intro mult_right_mono) auto
    moreover have "0 \<le> int f" by simp
    ultimately show False using fk p by linarith
  qed
  have sec: "double_floor (m, int s) = sec" using ms(2) by (simp add: sec_def p_def)
  have "\<bar>4 * int (f * 1000000) - 4 * int (nat k) * int p\<bar> \<le> int p"
    using fk p k0 by simp
  moreover have "f * 1000000 < p * 2 ^ 20" using f by simp
  ultimately have "double_round (double_div (f * 1000000) p) = nat k"
    using p by (intro double_round_near [of p "f * 1000000" 20 "nat k"]) simp_all
  then have us: "double_round (frac_times_million (m, int s)) = nat k"
    using ms(2) by (simp add: f_def p_def)
  have total: "1000000 * int sec + k = int n" by (simp add: k_def)
  have "int n < 4294967296 * 1000000" using assms by simp
  with total k0 have "1000000 * int sec < 4294967296 * 1000000" by linarith
  then have small: "sec < 4294967296" by simp
  have "k * int p < 1000001 * int p" using fk f p by linarith
  then have k1: "k < 1000001" by (simp add: p_def)
  have x: "double_floor (double_div n 1000000) = sec"
      "double_round (frac_times_million (double_div n 1000000)) = nat k"
    using sec us by (simp_all add: ms(1))
  show ?thesis
  proof (cases "k = 1000000")
    case True
    with total small show ?thesis
      by (simp add: from_timestamp_def x year_10000_def Let_def)
  next
    case False
    with k0 k1 total small show ?thesis
      by (simp add: from_timestamp_def x year_10000_def Let_def)
  qed
qed

text \<open>
  C38: a packet time stamp in microseconds before 2106 is read exactly, although the code
  divides it as a floating-point number.
\<close>

theorem microseconds_exact:
  "n < 2 ^ 32 * 1000000 \<Longrightarrow> from_timestamp n 1000000 = Inr (epoch_us + int n)"
  by (rule ts_exact)

theorem microseconds_exact_witness:
  "from_timestamp 1753448421127977 1000000 = Inr (epoch_us + 1753448421127977)"
  using microseconds_exact [of 1753448421127977] by simp

section \<open>Writing blocks\<close>

fun enc_le :: "nat \<Rightarrow> nat \<Rightarrow> bytes" where
  "enc_le 0 n = []"
| "enc_le (Suc k) n = of_nat n # enc_le k (n div 256)"

fun enc :: "endian \<Rightarrow> nat \<Rightarrow> nat \<Rightarrow> bytes" where
  "enc LE k n = enc_le k n"
| "enc BE k n = rev (enc_le k n)"

lemma length_enc_le [simp]: "length (enc_le k n) = k"
  by (induction k n rule: enc_le.induct) auto

lemma length_enc [simp]: "length (enc e k n) = k"
  by (cases e) auto

lemma int_le_Cons: "int_le (b # bs) = unat b + 256 * int_le bs"
  by (simp add: int_le_def int_be_snoc)

lemma int_le_enc: "int_le (enc_le k n) = n mod 256 ^ k"
proof (induction k n rule: enc_le.induct)
  case (1 n)
  then show ?case by (simp add: int_le_def)
next
  case (2 k n)
  have "unat (of_nat n :: 8 word) = n mod 256" by (simp add: unsigned_of_nat take_bit_eq_mod)
  with 2 show ?case by (simp add: int_le_Cons mod_mult2_eq)
qed

lemma int_of_enc: "n < 256 ^ k \<Longrightarrow> int_of e (enc e k n) = n"
proof -
  have "int_be (rev bs) = int_le bs" for bs by (simp add: int_le_def)
  then show "n < 256 ^ k \<Longrightarrow> int_of e (enc e k n) = n" by (cases e) (simp_all add: int_le_enc)
qed

definition write_block :: "endian \<Rightarrow> nat \<times> bytes \<Rightarrow> bytes" where
  "write_block e b = enc e 4 (fst b) @ enc e 4 (length (snd b) + 12) @ snd b @ enc e 4 (length (snd b) + 12)"

text \<open>
  A block the reader can tell the order of: its length is plausible, its section header, if
  it is one, names the order, and in big endian the length is not plausible the other way.
\<close>

definition readable :: "endian \<Rightarrow> nat \<times> bytes \<Rightarrow> bool" where
  "readable e b = (fst b < 2 ^ 32 \<and> plausible (length (snd b) + 12)
     \<and> lock_endian (fst b) (snd b) e = e
     \<and> (e = BE \<longrightarrow> \<not> plausible (int_le (enc BE 4 (length (snd b) + 12)))))"

lemma plausible_small: "plausible n \<Longrightarrow> n < 256 ^ 4"
  by (simp add: plausible_def)

lemma block_header_written:
  assumes "readable e b" "e0 = e \<or> e = BE"
  shows "block_header e0 (enc e 4 (fst b) @ enc e 4 (length (snd b) + 12)) = Some (fst b, length (snd b) + 12, e)"
proof -
  let ?l = "length (snd b) + 12"
  have l: "int_of e (enc e 4 ?l) = ?l" "int_of e (enc e 4 (fst b)) = fst b"
    using assms(1) int_of_enc [OF plausible_small, of ?l e] int_of_enc [of "fst b" 4 e]
    by (simp_all add: readable_def)
  have sub: "sub (enc e 4 (fst b) @ enc e 4 ?l) 4 4 = enc e 4 ?l"
      "sub (enc e 4 (fst b) @ enc e 4 ?l) 0 4 = enc e 4 (fst b)"
    by (simp_all add: sub_def)
  show ?thesis
    using assms l unfolding block_header_def sub by (cases e) (auto simp: readable_def)
qed

lemma iter_blocks_step:
  assumes "readable e b" "e0 = e \<or> e = BE"
  shows "iter_blocks e0 (write_block e b @ rest) =
    (case iter_blocks e rest of (bs, ex) \<Rightarrow> ((fst b, snd b, e) # bs, ex))"
proof -
  let ?s = "write_block e b @ rest" and ?l = "length (snd b) + 12"
  have "take 8 ?s = enc e 4 (fst b) @ enc e 4 ?l" by (simp add: write_block_def)
  then have h: "block_header e0 (take 8 ?s) = Some (fst b, ?l, e)" using block_header_written [OF assms] by simp
  have "8 \<le> length ?s" by (simp add: write_block_def)
  then have ne: "?s \<noteq> []" "\<not> length ?s < 8"
    by (metis list.size(3) not_numeral_le_zero, simp)
  have body: "sub ?s 8 (?l - 12) = snd b" by (simp add: sub_def write_block_def)
  have after: "drop (8 + (?l - 12)) ?s = enc e 4 ?l @ rest" by (simp add: write_block_def)
  have lock: "lock_endian (fst b) (snd b) e = e" using assms(1) by (simp add: readable_def)
  show ?thesis
    by (subst iter_blocks.simps) (simp only: ne h body after lock Let_def option.case prod.case if_False, simp)
qed

lemma iter_blocks_written:
  assumes "list_all (readable e) bs"
  shows "iter_blocks e (concat (map (write_block e) bs)) = (map (\<lambda>(t, body). (t, body, e)) bs, None)"
  using assms
proof (induction bs)
  case Nil
  then show ?case by (simp add: iter_blocks.simps)
next
  case (Cons b bs)
  then show ?case by (simp add: iter_blocks_step split: prod.splits)
qed

text \<open>
  The blocks of a section written in either byte order are read back in order and
  without an exception, provided no big endian length looks plausible in little endian.
\<close>

lemma blocks_roundtrip:
  "list_all (readable e) bs \<Longrightarrow>
     iter_blocks e (concat (map (write_block e) bs)) = (map (\<lambda>(t, body). (t, body, e)) bs, None)"
  by (rule iter_blocks_written)

section \<open>A whole capture\<close>

definition shb_body :: bytes where
  "shb_body = enc LE 4 bom_le @ replicate 12 0"

definition epb_body :: "nat \<times> bytes \<Rightarrow> bytes" where
  "epb_body p = enc LE 4 0 @ enc LE 4 (fst p div 2 ^ 32) @ enc LE 4 (fst p mod 2 ^ 32) @ enc LE 4 (length (snd p))
     @ enc LE 4 (length (snd p)) @ snd p @ replicate (3 - (length (snd p) + 3) mod 4) 0"

definition capture :: "(nat \<times> bytes) list \<Rightarrow> bytes" where
  "capture ps = concat (map (write_block LE)
     ((block_section_header, shb_body) # (block_interface_desc, replicate 8 0)
      # map (\<lambda>p. (block_enhanced_packet, epb_body p)) ps))"

text \<open>Microseconds before 2106 and a frame of at most 64 KB.\<close>

definition packet_ok :: "nat \<times> bytes \<Rightarrow> bool" where
  "packet_ok p = (fst p < 2 ^ 32 * 1000000 \<and> length (snd p) \<le> 65536)"

lemma epb_fields:
  assumes "packet_ok p"
  shows "int_of LE (sub (epb_body p) 0 4) = 0"
    and "int_of LE (sub (epb_body p) 4 4) = fst p div 2 ^ 32"
    and "int_of LE (sub (epb_body p) 8 4) = fst p mod 2 ^ 32"
    and "int_of LE (sub (epb_body p) 12 4) = length (snd p)"
    and "sub (epb_body p) 20 (length (snd p)) = snd p"
    and "20 \<le> length (epb_body p)"
proof -
  have e: "int_of LE (enc LE 4 n) = n" if "n < 256 ^ 4" for n using that by (rule int_of_enc)
  have hi: "fst p div 2 ^ 32 < 256 ^ 4"
    using assms by (simp add: packet_ok_def less_mult_imp_div_less)
  show "20 \<le> length (epb_body p)" "sub (epb_body p) 20 (length (snd p)) = snd p"
    by (simp_all add: epb_body_def sub_def del: enc.simps)
  show "int_of LE (sub (epb_body p) 0 4) = 0" "int_of LE (sub (epb_body p) 4 4) = fst p div 2 ^ 32"
    "int_of LE (sub (epb_body p) 8 4) = fst p mod 2 ^ 32" "int_of LE (sub (epb_body p) 12 4) = length (snd p)"
    using assms e [of 0] e [OF hi] e [of "fst p mod 2 ^ 32"] e [of "length (snd p)"]
    by (simp_all add: epb_body_def sub_def packet_ok_def del: enc.simps int_of.simps)
qed

lemma ts_join: "push_bit 32 (n div 2 ^ 32) OR (n mod 2 ^ 32) = (n::nat)"
proof -
  have "push_bit 32 (drop_bit 32 n) OR take_bit 32 n = n"
    by (rule bit_eqI) (auto simp: bit_simps)
  then show ?thesis by (simp add: drop_bit_eq_div take_bit_eq_mod)
qed

lemma packets_of_epbs:
  "list_all packet_ok ps \<Longrightarrow>
     packets_of [1000000] (map (\<lambda>p. (block_enhanced_packet, epb_body p, LE)) ps) =
       (map (\<lambda>p. (epoch_us + int (fst p), snd p)) ps, None)"
proof (induction ps)
  case Nil
  then show ?case by simp
next
  case (Cons p ps)
  then have p: "packet_ok p" and ps: "list_all packet_ok ps" by simp_all
  note f = epb_fields [OF p]
  have us: "from_timestamp (fst p) 1000000 = Inr (epoch_us + int (fst p))"
    using p by (intro ts_exact) (simp add: packet_ok_def)
  have ne: "block_enhanced_packet \<noteq> block_interface_desc"
    by (simp add: block_enhanced_packet_def block_interface_desc_def)
  show ?case
    using f Cons.IH [OF ps]
    by (simp add: ne ts_join [simplified] us del: int_of.simps push_bit_nat_def)
qed

lemma readable_epb:
  assumes "packet_ok p"
  shows "readable LE (block_enhanced_packet, epb_body p)"
proof -
  let ?n = "length (snd p)"
  have "length (epb_body p) = 20 + (?n + (3 - (?n + 3) mod 4))" by (simp add: epb_body_def del: enc.simps)
  moreover have "(?n + (3 - (?n + 3) mod 4)) mod 4 = 0" by presburger
  ultimately show ?thesis
    using assms
    by (simp add: readable_def plausible_def lock_endian_def block_enhanced_packet_def block_section_header_def
      packet_ok_def) presburger
qed

lemma capture_read:
  assumes "list_all packet_ok ps"
  shows "read_pcapng (capture ps) = (map (\<lambda>p. (epoch_us + int (fst p), snd p)) ps, None)"
proof -
  let ?bs = "(block_section_header, shb_body) # (block_interface_desc, replicate 8 0)
      # map (\<lambda>p. (block_enhanced_packet, epb_body p)) ps"
  have "readable LE (block_section_header, shb_body)" "readable LE (block_interface_desc, replicate 8 0)"
    by (simp_all add: readable_def plausible_def lock_endian_def block_section_header_def block_interface_desc_def
      shb_body_def int_le_enc bom_le_def)
  then have "list_all (readable LE) ?bs"
    using assms readable_epb by (auto simp: list_all_iff)
  from iter_blocks_written [OF this]
  have "iter_blocks LE (capture ps) = ((block_section_header, shb_body, LE) # (block_interface_desc, replicate 8 0, LE)
      # map (\<lambda>p. (block_enhanced_packet, epb_body p, LE)) ps, None)"
    by (simp add: capture_def comp_def)
  moreover have "parse_interface_description (replicate 8 0) LE = Inr 1000000"
    by (simp add: parse_interface_description_def idb_loop.simps)
  moreover have "block_section_header \<noteq> block_interface_desc" "block_section_header \<noteq> block_enhanced_packet"
    by (simp_all add: block_section_header_def block_interface_desc_def block_enhanced_packet_def)
  ultimately show ?thesis
    using packets_of_epbs [OF assms] by (simp add: read_pcapng_def)
qed

text \<open>
  C12: a capture written with one interface and microsecond stamps is read back packet by
  packet: the same instants, the same frames, no exception.
\<close>

theorem capture_roundtrip:
  assumes "list_all packet_ok ps"
  shows "read_pcapng (capture ps) = (map (\<lambda>p. (epoch_us + int (fst p), snd p)) ps, None)"
  by (rule capture_read [OF assms])

theorem capture_roundtrip_witness:
  "read_pcapng (capture [(1753448421127977, [1, 2, 3]), (1753448421999999, [4])]) =
    ([(epoch_us + 1753448421127977, [1, 2, 3]), (epoch_us + 1753448421999999, [4])], None)"
  by (subst capture_roundtrip) (simp_all add: packet_ok_def)

section \<open>Where the reader goes wrong\<close>

text \<open>
  A big endian capture with a block of 256 bytes is not read: the length is taken as
  65536 bytes, although the byte order is known from the section header.
\<close>

theorem big_endian_misread:
  assumes "length body = 244" "length rest < 65000"
  shows "iter_blocks BE (write_block BE (block_enhanced_packet, body) @ rest)
    = ([], Some (BadBlock ''Truncated block body''))"
proof -
  let ?s = "write_block BE (block_enhanced_packet, body) @ rest"
  have e: "enc BE 4 256 = [0, 0, 1, 0]" "enc BE 4 6 = [0, 0, 0, 6]"
    by code_simp+
  have s: "?s = [0, 0, 0, 6, 0, 0, 1, 0] @ body @ [0, 0, 1, 0] @ rest"
    using assms(1) by (simp only: write_block_def block_enhanced_packet_def fst_conv snd_conv) (simp add: e del: enc.simps)
  have h: "block_header BE (take 8 ?s) = Some (100663296, 65536, BE)"
    by (simp add: s block_header_def sub_def plausible_def int_le_Cons) (simp add: int_le_def)
  have "length (sub ?s 8 65524) < 65524"
    using assms by (simp add: s sub_def)
  moreover have "?s \<noteq> []" "\<not> length ?s < 8" by (simp_all add: s)
  ultimately show ?thesis
    by (subst iter_blocks.simps) (simp only: h Let_def option.case prod.case if_False, simp)
qed

theorem big_endian_misread_witness:
  "iter_blocks BE (write_block BE (block_enhanced_packet, replicate 244 0) @ [])
    = ([], Some (BadBlock ''Truncated block body''))"
  by (rule big_endian_misread) simp_all

text \<open>
  An interface description that ends in the head of a resolution option makes the
  reader raise \<open>IndexError\<close>, which no caller expects.
\<close>

theorem idb_index_error:
  "parse_interface_description [0, 0, 0, 0, 0, 0, 0, 0, 9, 0, 1, 0] LE = Inl IndexErr
   \<and> parse_interface_description [0, 0, 0, 0, 0, 0, 0, 0, 9, 0, 1, 0, 6, 0, 0, 0] LE = Inr 1000000"
proof -
  have z: "int_le [] = 0" by (simp add: int_le_def)
  show ?thesis
    by (simp add: parse_interface_description_def idb_loop.simps sub_def int_le_Cons z)
qed

end
