(* ===== verification/Pcap_Dissect.thy ===== *)
theory Pcap_Dissect
  imports Pcap_Frames Pcap_Roundtrip
begin

text \<open>
  What the dissectors return: the two frame parsers agree, a TCP segment put into a frame
  comes out again with its sequence number, and the names and addresses of DNS responses
  and client hellos are read as they were written.
\<close>

section \<open>The two parsers of a frame agree\<close>

definition short :: "fpacket \<Rightarrow> parsed" where
  "short p = (proto p, dst_ip p, src_port p, dst_port p, payload p)"

lemma parse_l4_full: "parse_l4 n dst l4 = map_option short (full_l4 n src dst tlen l4)"
  by (simp add: parse_l4_def full_l4_def short_def Let_def)

text \<open>
  The parser kept for older callers returns the projection of the full one, on every
  frame, malformed ones included.
\<close>

theorem parse_frame_agrees: "parse_frame frame = map_option short (parse_frame_full frame)"
  by (auto simp: parse_frame_def parse_frame_full_def parse_ipv4_def parse_ipv6_def Let_def
      split: prod.splits intro: parse_l4_full)

section \<open>Sequence numbers\<close>

lemma full_tcp: "full_l4 n src dst tlen l4 = Some p \<Longrightarrow> proto p = ''tcp'' \<Longrightarrow> n = 6 \<and> 20 \<le> length l4"
  by (auto simp: full_l4_def Let_def split: if_splits)

lemma byte_eq_iff: "(a :: 8 word) = b \<longleftrightarrow> unat a = unat b"
  by (rule word_eq_iff_unsigned)

lemma skip_ext_stop: "n \<notin> ext_headers \<Longrightarrow> skip_ext n l4 = (n, l4)"
  by (simp add: skip_ext.simps)

text \<open>
  For a frame dissected as TCP the sequence number is missing exactly when IPv6
  extension headers stand before TCP, so such segments are never checked for retransmission.
\<close>

theorem seq_missing_iff:
  assumes "parse_frame_full frame = Some p" "proto p = ''tcp''"
  shows "extract_tcp_seq frame = None \<longleftrightarrow>
    fst (eth_type frame) = 0x86DD \<and> drop (snd (eth_type frame)) frame ! 6 \<noteq> 6"
proof -
  obtain etype off where e: "eth_type frame = (etype, off)" by (metis prod.exhaust)
  define ip where "ip = drop off frame"
  from assms(1) have len: "\<not> length frame < 14" and et: "etype = 0x0800 \<or> etype = 0x86DD"
    by (auto simp: parse_frame_full_def e Let_def ip_def [symmetric] split: if_splits)
  from et show ?thesis
  proof
    assume v4: "etype = 0x0800"
    let ?ihl = "unat (ip ! 0 AND 0x0F) * 4"
    from assms(1) len have "\<not> length ip < 20" "\<not> ?ihl < 20"
      and "full_l4 (unat (ip ! 9)) (dotted (sub ip 12 4)) (dotted (sub ip 16 4)) (be16 (ip ! 2) (ip ! 3)) (drop ?ihl ip) = Some p"
      by (auto simp: parse_frame_full_def e v4 Let_def ip_def [symmetric] split: if_splits)
    with full_tcp [OF _ assms(2)] have "unat (ip ! 9) = 6" and l4: "20 \<le> length (drop ?ihl ip)" by blast+
    then have "ip ! 9 = 6" by (simp add: byte_eq_iff)
    moreover have "\<not> length ip < ?ihl + 8" using l4 unfolding length_drop by linarith
    ultimately have "extract_tcp_seq frame \<noteq> None"
      using len \<open>\<not> length ip < 20\<close> \<open>\<not> ?ihl < 20\<close>
      unfolding extract_tcp_seq_def e v4 Let_def prod.case ip_def [symmetric] by simp
    then show ?thesis by (simp add: e v4)
  next
    assume v6: "etype = 0x86DD"
    obtain nxt l4 where s: "skip_ext (unat (ip ! 6)) (drop 40 ip) = (nxt, l4)" by (metis prod.exhaust)
    from assms(1) len have ip: "\<not> length ip < 40"
      and "full_l4 nxt (format_ipv6 (sub ip 8 16)) (format_ipv6 (sub ip 24 16)) (40 + be16 (ip ! 4) (ip ! 5)) l4 = Some p"
      by (auto simp: parse_frame_full_def e v6 Let_def ip_def [symmetric] s simp del: length_drop split: if_splits)
    with full_tcp [OF _ assms(2)] have t: "nxt = 6" "20 \<le> length l4" by auto
    have "48 \<le> length ip" if "ip ! 6 = 6"
    proof -
      have "skip_ext (unat (ip ! 6)) (drop 40 ip) = (6, drop 40 ip)"
        using that by (simp add: skip_ext_stop ext_headers_def)
      with s t ip have "20 \<le> length (drop 40 ip)" by simp
      then show ?thesis unfolding length_drop by linarith
    qed
    with len ip show ?thesis by (auto simp: extract_tcp_seq_def e v6 Let_def ip_def [symmetric] simp del: length_drop)
  qed
qed

section \<open>A TCP segment in an IPv4 frame\<close>

lemma length2: "length xs = 2 \<longleftrightarrow> (\<exists>a b. xs = [a, b])"
  and length4: "length xs = 4 \<longleftrightarrow> (\<exists>a b c d. xs = [a, b, c, d])"
  and length5: "length xs = 5 \<longleftrightarrow> (\<exists>a b c d e. xs = [a, b, c, d, e])"
  and length6: "length xs = 6 \<longleftrightarrow> (\<exists>a b c d e f. xs = [a, b, c, d, e, f])"
  by (auto simp: numeral_eq_Suc length_Suc_conv)

text \<open>An optional VLAN tag, options in both headers, and the fields no one reads.\<close>

record segment =
  macs :: bytes
  vlan :: "bytes option"
  ip_total :: nat
  ip_head :: bytes
  ip_sum :: bytes
  src4 :: bytes
  dst4 :: bytes
  ip_opts :: bytes
  sport :: nat
  dport :: nat
  seq :: nat
  ack :: bytes
  tcp_flags :: "8 word"
  tcp_rest :: bytes
  tcp_opts :: bytes
  data :: bytes

definition segment_ok :: "segment \<Rightarrow> bool" where
  "segment_ok s = (length (macs s) = 12 \<and> (\<forall>t. vlan s = Some t \<longrightarrow> length t = 2)
     \<and> ip_total s < 65536 \<and> length (ip_head s) = 5 \<and> length (ip_sum s) = 2
     \<and> length (src4 s) = 4 \<and> length (dst4 s) = 4 \<and> length (ip_opts s) mod 4 = 0 \<and> length (ip_opts s) \<le> 40
     \<and> sport s < 65536 \<and> dport s < 65536 \<and> seq s < 2 ^ 32 \<and> length (ack s) = 4 \<and> length (tcp_rest s) = 6
     \<and> length (tcp_opts s) mod 4 = 0 \<and> length (tcp_opts s) \<le> 40)"

definition tcp_bytes :: "segment \<Rightarrow> bytes" where
  "tcp_bytes s = enc BE 2 (sport s) @ enc BE 2 (dport s) @ enc BE 4 (seq s) @ ack s
     @ [of_nat ((5 + length (tcp_opts s) div 4) * 16), tcp_flags s] @ tcp_rest s @ tcp_opts s @ data s"

definition ip_bytes :: "segment \<Rightarrow> bytes" where
  "ip_bytes s = [of_nat (64 + 5 + length (ip_opts s) div 4), 0] @ enc BE 2 (ip_total s) @ ip_head s @ [6] @ ip_sum s
     @ src4 s @ dst4 s @ ip_opts s @ tcp_bytes s"

definition frame_bytes :: "segment \<Rightarrow> bytes" where
  "frame_bytes s = macs s @ (case vlan s of None \<Rightarrow> [] | Some t \<Rightarrow> [0x81, 0] @ t) @ [8, 0] @ ip_bytes s"

lemma header_nibbles:
  assumes "k \<le> 10"
  shows "drop_bit 4 (of_nat (69 + k) :: 8 word) = 4" "unat ((of_nat (69 + k) :: 8 word) AND 0x0F) = 5 + k"
    "unat (drop_bit 4 (of_nat ((5 + k) * 16) :: 8 word)) = 5 + k"
proof -
  have "k = 0 \<or> k = 1 \<or> k = 2 \<or> k = 3 \<or> k = 4 \<or> k = 5 \<or> k = 6 \<or> k = 7 \<or> k = 8 \<or> k = 9 \<or> k = 10"
    using assms by arith
  then show "drop_bit 4 (of_nat (69 + k) :: 8 word) = 4" "unat ((of_nat (69 + k) :: 8 word) AND 0x0F) = 5 + k"
    "unat (drop_bit 4 (of_nat ((5 + k) * 16) :: 8 word)) = 5 + k"
    by auto
qed

lemma enc_be_elems:
  "\<exists>a b. enc BE 2 n = [a, b] \<and> (n < 65536 \<longrightarrow> be16 a b = n)"
proof -
  obtain a b where ab: "enc BE 2 n = [a, b]" using length2 [of "enc BE 2 n"] by auto
  then have "n < 65536 \<longrightarrow> be16 a b = n" using int_of_enc [of n 2 BE] by (simp add: be16_int_be)
  with ab show ?thesis by blast
qed

lemma enc_be2: "n < 65536 \<Longrightarrow> \<exists>a b. enc BE 2 n = [a, b] \<and> be16 a b = n"
  using enc_be_elems [of n] by blast

text \<open>The three layers of a well-formed segment, each read on its own.\<close>

lemma frame_eth:
  assumes "segment_ok s"
  shows "\<exists>off. eth_type (frame_bytes s) = (0x0800, off) \<and> drop off (frame_bytes s) = ip_bytes s"
proof (cases "vlan s")
  case None
  obtain m where m: "macs s = m" "length m = 12" using assms by (auto simp: segment_ok_def)
  have "frame_bytes s ! 12 = 8" "frame_bytes s ! 13 = 0" "drop 14 (frame_bytes s) = ip_bytes s"
    using m by (simp_all add: frame_bytes_def None nth_append)
  then show ?thesis by (simp add: eth_type_def be16_int_be)
next
  case (Some tag)
  then have "length tag = 2" using assms by (auto simp: segment_ok_def)
  then obtain x y where tag: "tag = [x, y]" unfolding length2 by blast
  obtain m where m: "macs s = m" "length m = 12" using assms by (auto simp: segment_ok_def)
  have "frame_bytes s ! 12 = 0x81" "frame_bytes s ! 13 = 0" "frame_bytes s ! 16 = 8" "frame_bytes s ! 17 = 0"
      "drop 18 (frame_bytes s) = ip_bytes s" "18 \<le> length (frame_bytes s)"
    using m by (simp_all add: frame_bytes_def Some tag nth_append)
  then show ?thesis by (simp add: eth_type_def be16_int_be)
qed

lemma tcp_layer:
  assumes "segment_ok s"
  shows "full_l4 6 src dst tlen (tcp_bytes s) = Some \<lparr>proto = ''tcp'', src_ip = src, dst_ip = dst, src_port = sport s,
      dst_port = dport s, total_len = tlen, flags = tcp_flags s, payload = data s\<rparr>"
    and "int_be (sub (tcp_bytes s) 4 4) = seq s" and "20 \<le> length (tcp_bytes s)"
proof -
  note ok = assms [unfolded segment_ok_def]
  let ?j = "length (tcp_opts s) div 4" and ?l4 = "tcp_bytes s"
  have j: "?j \<le> 10" "4 * ?j = length (tcp_opts s)" using ok by auto
  obtain p1 p2 where p: "enc BE 2 (sport s) = [p1, p2]" "be16 p1 p2 = sport s" using enc_be2 ok by metis
  obtain q1 q2 where q: "enc BE 2 (dport s) = [q1, q2]" "be16 q1 q2 = dport s" using enc_be2 ok by metis
  obtain n1 n2 n3 n4 where n: "enc BE 4 (seq s) = [n1, n2, n3, n4]" using length4 [of "enc BE 4 (seq s)"] by auto
  have len: "length (ack s) = 4" "length (tcp_rest s) = 6" using ok by blast+
  obtain a1 a2 a3 a4 where a: "ack s = [a1, a2, a3, a4]" using len(1) unfolding length4 by blast
  obtain r1 r2 r3 r4 r5 r6 where r: "tcp_rest s = [r1, r2, r3, r4, r5, r6]" using len(2) unfolding length6 by blast
  have l4: "?l4 = p1 # p2 # q1 # q2 # n1 # n2 # n3 # n4 # a1 # a2 # a3 # a4 # of_nat ((5 + ?j) * 16) # tcp_flags s
      # r1 # r2 # r3 # r4 # r5 # r6 # tcp_opts s @ data s"
    by (simp add: tcp_bytes_def p q n a r del: enc.simps)
  have thl: "tcp_header_len ?l4 = 20 + length (tcp_opts s)"
    using header_nibbles(3) [OF j(1)] j(2) by (simp add: tcp_header_len_def l4)
  have "drop (20 + length (tcp_opts s)) ?l4 = drop (length (tcp_opts s)) (drop 20 ?l4)"
    by (simp only: drop_drop add.commute)
  then have dat: "drop (20 + length (tcp_opts s)) ?l4 = data s" by (simp add: l4)
  have ll: "20 + length (tcp_opts s) \<le> length ?l4" by (simp add: l4)
  have at: "?l4 ! 0 = p1" "?l4 ! 1 = p2" "?l4 ! 2 = q1" "?l4 ! 3 = q2" "?l4 ! 13 = tcp_flags s" by (simp_all add: l4)
  show "full_l4 6 src dst tlen ?l4 = Some \<lparr>proto = ''tcp'', src_ip = src, dst_ip = dst, src_port = sport s,
      dst_port = dport s, total_len = tlen, flags = tcp_flags s, payload = data s\<rparr>"
    unfolding full_l4_def thl Let_def at using ll by (simp add: dat p q)
  have "int_be [n1, n2, n3, n4] = seq s"
    using int_of_enc [of "seq s" 4 BE] ok by (simp add: n del: enc.simps)
  then show "int_be (sub ?l4 4 4) = seq s" by (simp add: sub_def l4)
  show "20 \<le> length ?l4" using ll by simp
qed

lemma ip_layer:
  fixes s :: segment
  defines "ip \<equiv> ip_bytes s" and "n \<equiv> length (ip_opts s)"
  assumes "segment_ok s"
  shows "drop_bit 4 (ip ! 0) = 4" "unat (ip ! 0 AND 0x0F) * 4 = 20 + n" "ip ! 9 = 6"
    "be16 (ip ! 2) (ip ! 3) = ip_total s" "sub ip 12 4 = src4 s" "sub ip 16 4 = dst4 s"
    "drop (20 + n) ip = tcp_bytes s" "length ip = 20 + n + length (tcp_bytes s)"
proof -
  note ok = assms(3) [unfolded segment_ok_def]
  let ?k = "length (ip_opts s) div 4"
  have k: "?k \<le> 10" "4 * ?k = n" using ok by (auto simp: n_def)
  obtain t1 t2 where t: "enc BE 2 (ip_total s) = [t1, t2]" "be16 t1 t2 = ip_total s" using enc_be2 ok by metis
  have len: "length (ip_head s) = 5" "length (ip_sum s) = 2" "length (src4 s) = 4" "length (dst4 s) = 4"
    using ok by blast+
  obtain h1 h2 h3 h4 h5 where h: "ip_head s = [h1, h2, h3, h4, h5]" using len(1) unfolding length5 by blast
  obtain c1 c2 where c: "ip_sum s = [c1, c2]" using len(2) unfolding length2 by blast
  obtain s1 s2 s3 s4 where sr: "src4 s = [s1, s2, s3, s4]" using len(3) unfolding length4 by blast
  obtain d1 d2 d3 d4 where ds: "dst4 s = [d1, d2, d3, d4]" using len(4) unfolding length4 by blast
  have ip: "ip = of_nat (69 + ?k) # 0 # t1 # t2 # h1 # h2 # h3 # h4 # h5 # 6 # c1 # c2 # s1 # s2 # s3 # s4
      # d1 # d2 # d3 # d4 # ip_opts s @ tcp_bytes s"
    by (simp add: ip_def ip_bytes_def t h c sr ds del: enc.simps of_nat_add)
  have v: "ip ! 0 = of_nat (69 + ?k)" by (simp add: ip del: of_nat_add)
  show "drop_bit 4 (ip ! 0) = 4" unfolding v by (rule header_nibbles(1) [OF k(1)])
  show "unat (ip ! 0 AND 0x0F) * 4 = 20 + n" unfolding v header_nibbles(2) [OF k(1)] using k(2) by simp
  show "ip ! 9 = 6" "be16 (ip ! 2) (ip ! 3) = ip_total s" "sub ip 12 4 = src4 s" "sub ip 16 4 = dst4 s"
    by (simp_all add: ip t sub_def sr ds)
  have "drop (20 + n) ip = drop n (drop 20 ip)" by (simp only: drop_drop add.commute)
  then show "drop (20 + n) ip = tcp_bytes s" by (simp add: ip n_def)
  show "length ip = 20 + n + length (tcp_bytes s)" by (simp add: ip n_def)
qed

text \<open>
  A TCP segment in an IPv4 frame, with or without a VLAN tag and with options of any
  length in both headers, is dissected into its addresses, ports, flags and data, and its
  sequence number is found.
\<close>

theorem segment_roundtrip:
  assumes "segment_ok s"
  shows "parse_frame_full (frame_bytes s) = Some \<lparr>proto = ''tcp'', src_ip = dotted (src4 s), dst_ip = dotted (dst4 s),
      src_port = sport s, dst_port = dport s, total_len = ip_total s, flags = tcp_flags s, payload = data s\<rparr>
    \<and> extract_tcp_seq (frame_bytes s) = Some (seq s)"
proof -
  obtain off where e: "eth_type (frame_bytes s) = (0x0800, off)" "drop off (frame_bytes s) = ip_bytes s"
    using frame_eth [OF assms] by blast
  have frame: "\<not> length (frame_bytes s) < 14" using assms by (simp add: frame_bytes_def segment_ok_def)
  note ip = ip_layer [OF assms]
  have v: "\<not> length (ip_bytes s) < 20" "\<not> length (ip_bytes s) < 20 + length (ip_opts s)"
      "\<not> length (ip_bytes s) < 20 + length (ip_opts s) + 8"
    using ip(8) tcp_layer(3) [OF assms] by simp_all
  have "parse_frame_full (frame_bytes s)
      = full_l4 6 (dotted (src4 s)) (dotted (dst4 s)) (ip_total s) (tcp_bytes s)"
    unfolding parse_frame_full_def e prod.case Let_def ip(1-7) using frame v by simp
  moreover have "extract_tcp_seq (frame_bytes s) = Some (int_be (sub (tcp_bytes s) 4 4))"
    unfolding extract_tcp_seq_def e prod.case Let_def ip(1-7) using frame v by simp
  ultimately show ?thesis using tcp_layer(1,2) [OF assms] by simp
qed

theorem segment_roundtrip_witness:
  "extract_tcp_seq (frame_bytes \<lparr>macs = replicate 12 1, vlan = Some [0, 5], ip_total = 44, ip_head = replicate 5 0,
     ip_sum = [0, 0], src4 = [10, 0, 0, 1], dst4 = [10, 0, 0, 2], ip_opts = [], sport = 50000, dport = 443,
     seq = 7, ack = replicate 4 0, tcp_flags = 2, tcp_rest = replicate 6 0, tcp_opts = [1, 1, 1, 0], data = [22]\<rparr>)
   = Some 7"
proof -
  let ?s = "\<lparr>macs = replicate 12 1, vlan = Some [0, 5], ip_total = 44, ip_head = replicate 5 0,
     ip_sum = [0, 0], src4 = [10, 0, 0, 1], dst4 = [10, 0, 0, 2], ip_opts = [], sport = 50000, dport = 443,
     seq = 7, ack = replicate 4 0, tcp_flags = 2, tcp_rest = replicate 6 0, tcp_opts = [1, 1, 1, 0], data = [22]\<rparr> :: segment"
  have "segment_ok ?s" by (simp add: segment_ok_def)
  from segment_roundtrip [OF this] show ?thesis by simp
qed

end
