(* ===== verification/Pcap_Names.thy ===== *)
theory Pcap_Names
  imports Pcap_Frames Pcap_Roundtrip
begin

text \<open>
  Names on the wire: the addresses of a DNS response and the server name of a client hello
  are read as they were written.
\<close>

declare enc.simps [simp del]

section \<open>Text as bytes\<close>

definition bytes_of :: "string \<Rightarrow> bytes" where
  "bytes_of s = map (\<lambda>c. of_nat (code_of c)) s"

definition ascii :: "string \<Rightarrow> bool" where
  "ascii s = list_all (\<lambda>c. code_of c < 128) s"

lemma length_bytes_of [simp]: "length (bytes_of s) = length s"
  by (simp add: bytes_of_def)

lemma decode_bytes_of: "ascii s \<Longrightarrow> decode_ascii (bytes_of s) = s"
  by (induction s) (simp_all add: bytes_of_def decode_ascii_def ascii_def unsigned_of_nat take_bit_nat_eq_self)

lemma unat_small: "n < 256 \<Longrightarrow> unat (of_nat n :: 8 word) = n"
  by (simp add: unsigned_of_nat take_bit_nat_eq_self)

lemma label_byte:
  assumes "n < 64"
  shows "(of_nat n :: 8 word) AND 0xC0 = 0"
proof -
  have "list_all (\<lambda>n. (of_nat n :: 8 word) AND 0xC0 = 0) [0..<64]" by code_simp
  with assms show ?thesis by (simp add: list_all_iff)
qed

section \<open>DNS names\<close>

definition label_ok :: "string \<Rightarrow> bool" where
  "label_ok l = (l \<noteq> [] \<and> length l < 64 \<and> ascii l)"

definition label_bytes :: "string \<Rightarrow> bytes" where
  "label_bytes l = of_nat (length l) # bytes_of l"

definition dns_name :: "string list \<Rightarrow> bytes" where
  "dns_name ls = concat (map label_bytes ls) @ [0]"

lemma length_label_bytes [simp]: "length (label_bytes l) = Suc (length l)"
  by (simp add: label_bytes_def)

lemma nth_at: "(pre @ b # rest) ! length pre = b"
  by simp

lemma label_head:
  assumes "label_ok l"
  shows "(of_nat (length l) :: 8 word) \<noteq> 0" "(of_nat (length l) :: 8 word) AND 0xC0 = 0"
    "unat (of_nat (length l) :: 8 word) = length l"
proof -
  show u: "unat (of_nat (length l) :: 8 word) = length l" using assms by (simp add: label_ok_def unat_small)
  show "(of_nat (length l) :: 8 word) \<noteq> 0"
  proof
    assume "(of_nat (length l) :: 8 word) = 0"
    with u have "length l = 0" by simp
    with assms show False by (simp add: label_ok_def)
  qed
  show "(of_nat (length l) :: 8 word) AND 0xC0 = 0" using assms by (simp add: label_ok_def label_byte)
qed

lemma qname_labels_name:
  "list_all label_ok ls \<Longrightarrow> length ls < safety \<Longrightarrow>
     qname_labels safety seen (pre @ dns_name ls @ post) (length pre) = Some ls"
proof (induction ls arbitrary: safety pre)
  case Nil
  then obtain k where "safety = Suc k" by (cases safety) auto
  then show ?case by (simp add: dns_name_def)
next
  case (Cons l ls)
  then obtain k where k: "safety = Suc k" "length ls < k" by (cases safety) auto
  from Cons.prems have l: "label_ok l" and ls: "list_all label_ok ls" by simp_all
  let ?p = "pre @ dns_name (l # ls) @ post" and ?pre = "pre @ label_bytes l"
  have p: "?p = ?pre @ dns_name ls @ post" by (simp add: dns_name_def)
  have next_i: "length pre + 1 + length l = length ?pre" by (simp add: label_bytes_def)
  have head: "?p ! length pre = of_nat (length l)" by (simp add: dns_name_def label_bytes_def)
  have piece: "sub ?p (length pre + 1) (length l) = bytes_of l"
    by (simp add: sub_def dns_name_def label_bytes_def)
  have len: "\<not> length ?p \<le> length pre" "\<not> length ?p < length pre + 1 + length l"
    by (simp_all add: dns_name_def label_bytes_def)
  have "qname_labels k seen ?p (length ?pre) = Some ls"
    unfolding p using Cons.IH [OF ls k(2), of ?pre] by simp
  moreover have "decode_ascii (bytes_of l) = l" using l by (simp add: label_ok_def decode_bytes_of)
  ultimately show ?case
    unfolding k(1) qname_labels.simps Let_def head label_head(3) [OF l] next_i piece
    using len label_head(1,2) [OF l] by simp
qed

lemma skip_name_name:
  "list_all label_ok ls \<Longrightarrow> length ls < steps \<Longrightarrow>
     skip_name_from steps (pre @ dns_name ls @ post) (length pre) = Some (length pre + length (dns_name ls))"
proof (induction ls arbitrary: steps pre)
  case Nil
  then obtain k where "steps = Suc k" by (cases steps) auto
  then show ?case by (simp add: dns_name_def)
next
  case (Cons l ls)
  then obtain k where k: "steps = Suc k" "length ls < k" by (cases steps) auto
  from Cons.prems have l: "label_ok l" and ls: "list_all label_ok ls" by simp_all
  let ?p = "pre @ dns_name (l # ls) @ post" and ?pre = "pre @ label_bytes l"
  have p: "?p = ?pre @ dns_name ls @ post" by (simp add: dns_name_def)
  have next_i: "length pre + 1 + length l = length ?pre" by (simp add: label_bytes_def)
  have head: "?p ! length pre = of_nat (length l)" by (simp add: dns_name_def label_bytes_def)
  have len: "\<not> length ?p \<le> length pre" by (simp add: dns_name_def)
  have "skip_name_from k ?p (length ?pre) = Some (length ?pre + length (dns_name ls))"
    unfolding p using Cons.IH [OF ls k(2), of ?pre] by simp
  moreover have "length ?pre + length (dns_name ls) = length pre + length (dns_name (l # ls))"
    by (simp add: dns_name_def)
  ultimately show ?case
    unfolding k(1) skip_name_from.simps Let_def head label_head(3) [OF l] next_i
    using len label_head(1,2) [OF l] by simp
qed

section \<open>DNS responses\<close>

definition addr_type :: "bytes \<Rightarrow> nat" where
  "addr_type a = (if length a = 4 then 1 else 28)"

definition addr_text :: "bytes \<Rightarrow> string" where
  "addr_text a = (if length a = 4 then dotted a else format_ipv6 a)"

definition answer :: "bytes \<Rightarrow> bytes" where
  "answer a = [0xC0, 12] @ enc BE 2 (addr_type a) @ enc BE 2 1 @ replicate 4 0 @ enc BE 2 (length a) @ a"

definition response :: "8 word \<Rightarrow> string list \<Rightarrow> bytes list \<Rightarrow> bytes" where
  "response rcode ls addrs = [0, 1, 0x80, rcode] @ enc BE 2 1 @ enc BE 2 (length addrs) @ replicate 4 0
     @ dns_name ls @ [0, 1, 0, 1] @ concat (map answer addrs)"

lemma int_be_enc: "n < 256 ^ k \<Longrightarrow> int_be (enc BE k n) = n"
  using int_of_enc [of n k BE] by simp

lemma digit_chars: "map char_of [48::nat, 49, 50, 51, 52, 53, 54, 55, 56, 57, 97, 98, 99, 100, 101, 102] = ''0123456789abcdef''"
  by code_simp

lemmas name_eval = addr_text_def dotted_def format_ipv6_def compress_groups_def hex_of.simps hex_digit_def
  str_of_nat.simps digit_char_def

lemma read_answers_written:
  "list_all (\<lambda>a. length a = 4 \<or> length a = 16) addrs \<Longrightarrow> q \<noteq> [] \<Longrightarrow>
     read_answers (length addrs) q (pre @ concat (map answer addrs)) (length pre) = map (\<lambda>a. (q, addr_text a)) addrs"
proof (induction addrs arbitrary: pre)
  case Nil
  then show ?case by simp
next
  case (Cons a addrs)
  let ?p = "pre @ concat (map answer (a # addrs))" and ?pre = "pre @ answer a" and ?j = "length pre + 2"
  from Cons.prems have a: "length a = 4 \<or> length a = 16" and as: "list_all (\<lambda>a. length a = 4 \<or> length a = 16) addrs"
    by simp_all
  have p: "?p = ?pre @ concat (map answer addrs)" by simp
  have skip: "dns_skip_name ?p (length pre) = Some ?j"
  proof -
    have p128: "(128::nat) = Suc 127" by simp
    have f: "?p ! length pre = 0xC0" "(length ?p \<le> length pre) = False" "(length pre + 1 < length ?p) = True"
      by (simp_all add: answer_def)
    show ?thesis
      by (simp only: dns_skip_name_def p128 skip_name_from.simps Let_def f if_True if_False) simp
  qed
  have d: "drop ?j ?p = enc BE 2 (addr_type a) @ enc BE 2 1 @ replicate 4 0 @ enc BE 2 (length a) @ a @ concat (map answer addrs)"
    by (simp add: answer_def del: enc.simps)
  have dk: "drop (?j + k) ?p = drop k (drop ?j ?p)" for k by (simp only: drop_drop add.commute)
  have s: "sub ?p ?j 2 = enc BE 2 (addr_type a)" "sub ?p (?j + 2) 2 = enc BE 2 1"
      "sub ?p (?j + 8) 2 = enc BE 2 (length a)" "sub ?p (?j + 10) (length a) = a"
    unfolding sub_def dk d using d by (simp_all del: enc.simps)
  have v: "int_be (enc BE 2 (addr_type a)) = addr_type a" "int_be (enc BE 2 1) = 1" "int_be (enc BE 2 (length a)) = length a"
    using a by (auto simp: addr_type_def intro!: int_be_enc)
  have len: "length ?p = length pre + (12 + length a) + length (concat (map answer addrs))"
    by (simp add: answer_def)
  have eq: "?j + 10 + length a = length ?pre" by (simp add: answer_def)
  have rest: "read_answers (length addrs) q ?p (?j + 10 + length a) = map (\<lambda>a. (q, addr_text a)) addrs"
    unfolding eq p by (rule Cons.IH [OF as Cons.prems(2)])
  have one: "answer_of q 1 (addr_type a) a = [(q, addr_text a)]"
    using a Cons.prems(2) by (auto simp: answer_of_def addr_type_def addr_text_def)
  have "\<not> length ?p < ?j + 10" "\<not> length ?p < ?j + 10 + length a" using len by simp_all
  then show ?case
    using skip rest one by (simp only: list.size(4) add_Suc_right add_0_right read_answers.simps option.case Let_def s v if_False) simp
qed

text \<open>
  C31: a successful DNS response for a name of up to 63 labels is read as that name paired
  with every IPv4 and IPv6 address in it, in order.
\<close>

theorem dns_answers_roundtrip:
  assumes "list_all label_ok ls" "ls \<noteq> []" "length ls < 64"
    and "list_all (\<lambda>a. length a = 4 \<or> length a = 16) addrs" "length addrs < 65536"
    and "host_text (join_with ''.'' ls) \<noteq> []"
  shows "parse_dns_address_answers (response rcode ls addrs) =
      map (\<lambda>a. (host_text (join_with ''.'' ls), addr_text a)) addrs
    \<and> parse_dns_response (response rcode ls addrs) = Some (unat (rcode AND 0x0F), host_text (join_with ''.'' ls))"
proof -
  let ?p = "response rcode ls addrs" and ?q = "host_text (join_with ''.'' ls)"
  let ?head = "[0, 1, 0x80, rcode] @ enc BE 2 1 @ enc BE 2 (length addrs) @ replicate 4 0"
  let ?tail = "[0, 1, 0, 1] @ concat (map answer addrs)"
  have p: "?p = ?head @ dns_name ls @ ?tail" by (simp add: response_def)
  have lh: "length ?head = 12" by simp
  have at: "?p ! 2 = 0x80" "?p ! 3 = rcode" by (simp_all add: response_def)
  have qd: "sub ?p 4 2 = enc BE 2 1" "sub ?p 6 2 = enc BE 2 (length addrs)"
    by (simp_all add: response_def sub_def del: enc.simps)
  have n: "int_be (enc BE 2 1) = 1" "int_be (enc BE 2 (length addrs)) = length addrs"
    using assms(5) by (auto intro!: int_be_enc)
  have "enc BE 2 1 = [0, 1]" by code_simp
  then have one: "be16 (?p ! 4) (?p ! 5) = 1" by (simp add: response_def be16_int_be)
  have len: "\<not> length ?p < 12" by (simp add: response_def)
  have "qname_labels 64 False (?head @ dns_name ls @ ?tail) (length ?head) = Some ls"
    using assms(1,3) by (rule qname_labels_name)
  then have labels: "qname_labels 64 False ?p 12 = Some ls" unfolding lh p .
  have qname: "parse_dns_qname ?p = Some ?q"
    unfolding parse_dns_qname_def one labels using len assms(2) by simp
  have "skip_name_from 128 (?head @ dns_name ls @ ?tail) (length ?head) = Some (length ?head + length (dns_name ls))"
    using assms(1,3) by (intro skip_name_name) auto
  then have skip: "dns_skip_name ?p 12 = Some (12 + length (dns_name ls))"
    unfolding lh p dns_skip_name_def .
  let ?pre = "?head @ dns_name ls @ [0, 1, 0, 1]"
  have pre: "?p = ?pre @ concat (map answer addrs)" "length ?pre = 12 + length (dns_name ls) + 4"
    by (simp_all add: response_def)
  have qs: "skip_questions 1 ?p 12 = Some (length ?pre)"
  proof -
    have "\<not> length ?p < 12 + length (dns_name ls) + 4" unfolding pre(1) using pre(2) by simp
    then show ?thesis unfolding pre(2) by (simp only: One_nat_def skip_questions.simps skip option.case if_False)
  qed
  have "read_answers (length addrs) ?q ?p (length ?pre) = map (\<lambda>a. (?q, addr_text a)) addrs"
    unfolding pre(1) using assms(4,6) by (rule read_answers_written)
  then have "parse_dns_address_answers ?p = map (\<lambda>a. (?q, addr_text a)) addrs"
    unfolding parse_dns_address_answers_def qd n qs qname at using len by (simp add: or_empty_def)
  moreover have "parse_dns_response ?p = Some (unat (rcode AND 0x0F), ?q)"
    unfolding parse_dns_response_def qname at using len by (simp add: or_empty_def)
  ultimately show ?thesis by blast
qed

theorem dns_answers_roundtrip_witness:
  "parse_dns_address_answers (response 0 [''Gateway'', ''zscaler'', ''net''] [[198, 14, 91, 254], [38, 0, 31, 24, 0, 0, 0, 0, 0, 0, 0, 0, 0, 1, 0, 2]])
    = [(''gateway.zscaler.net'', ''198.14.91.254''), (''gateway.zscaler.net'', ''2600:1f18::1:2'')]"
proof -
  have h: "host_text (join_with ''.'' [''Gateway'', ''zscaler'', ''net'']) = ''gateway.zscaler.net''"
    "addr_text [198, 14, 91, 254] = ''198.14.91.254''"
    "addr_text [38, 0, 31, 24, 0, 0, 0, 0, 0, 0, 0, 0, 0, 1, 0, 2] = ''2600:1f18::1:2''"
    by (code_simp, simp_all add: name_eval digit_chars [simplified])
  have "list_all label_ok [''Gateway'', ''zscaler'', ''net'']" by code_simp
  from dns_answers_roundtrip [OF this, of "[[198, 14, 91, 254], [38, 0, 31, 24, 0, 0, 0, 0, 0, 0, 0, 0, 0, 1, 0, 2]]" 0]
  show ?thesis by (simp only: h list.map) simp
qed

section \<open>Client hellos\<close>

definition ext_bytes :: "nat \<times> bytes \<Rightarrow> bytes" where
  "ext_bytes e = enc BE 2 (fst e) @ enc BE 2 (length (snd e)) @ snd e"

definition sni_bytes :: "string \<Rightarrow> bytes" where
  "sni_bytes host = enc BE 2 (length host + 3) @ [0] @ enc BE 2 (length host) @ bytes_of host"

text \<open>Session id, cipher suites, compression methods, extensions before and after the name.\<close>

definition hello :: "bytes \<Rightarrow> bytes \<Rightarrow> bytes \<Rightarrow> (nat \<times> bytes) list \<Rightarrow> string \<Rightarrow> (nat \<times> bytes) list \<Rightarrow> bytes" where
  "hello sid cs cm before host after =
     (let exts = concat (map ext_bytes (before @ (0, sni_bytes host) # after)) in
      1 # replicate 37 0 @ [of_nat (length sid)] @ sid @ enc BE 2 (length cs) @ cs
        @ [of_nat (length cm)] @ cm @ enc BE 2 (length exts) @ exts)"

definition record_bytes :: "bytes \<Rightarrow> bytes" where
  "record_bytes hs = [0x16, 3, 1] @ enc BE 2 (length hs) @ hs"

definition ext_ok :: "nat \<times> bytes \<Rightarrow> bool" where
  "ext_ok e = (0 < fst e \<and> fst e < 65536 \<and> length (snd e) < 65536)"

lemma enc2: "\<exists>a b. enc BE 2 n = [a, b] \<and> (n < 65536 \<longrightarrow> be16 a b = n)"
proof -
  have "length (enc BE 2 n) = 2" by simp
  then obtain a b where ab: "enc BE 2 n = [a, b]" by (auto simp: numeral_eq_Suc length_Suc_conv simp del: length_enc)
  then have "n < 65536 \<longrightarrow> be16 a b = n" using int_of_enc [of n 2 BE] by (simp add: be16_int_be)
  with ab show ?thesis by blast
qed

lemma enc2_at: "n < 65536 \<Longrightarrow> i = length pre \<Longrightarrow>
    be16 ((pre @ enc BE 2 n @ post) ! i) ((pre @ enc BE 2 n @ post) ! (i + 1)) = n"
  using enc2 [of n] by (auto simp: nth_append)

lemma server_name_written:
  assumes "ascii host" "length host < 65000"
  shows "server_name (pre @ sni_bytes host @ post) (length pre) (length (sni_bytes host)) = Some (host_text host)"
proof -
  obtain a b where l: "enc BE 2 (length host + 3) = [a, b]" using enc2 by blast
  obtain c d where n: "enc BE 2 (length host) = [c, d]" "be16 c d = length host"
    using enc2 [of "length host"] assms(2) by auto
  let ?hs = "pre @ sni_bytes host @ post" and ?i = "length pre"
  have hs: "?hs = pre @ a # b # 0 # c # d # bytes_of host @ post" by (simp add: sni_bytes_def l n)
  have "byte_at ?hs (?i + 2) = Some 0" unfolding hs byte_at_def by (simp add: nth_append)
  moreover have "be16_at ?hs (?i + 3) = Some (length host)"
    unfolding hs be16_at_def by (simp add: nth_append n)
  moreover have "sub ?hs (?i + 5) (length host) = bytes_of host" unfolding hs sub_def by simp
  moreover have "\<not> length (sni_bytes host) < 5" by (simp add: sni_bytes_def)
  ultimately show ?thesis using assms(1) by (simp add: server_name_def decode_bytes_of)
qed

lemma ext_head:
  assumes "fst e < 65536" "length (snd e) < 65536"
  shows "be16 ((pre @ ext_bytes e @ post) ! length pre) ((pre @ ext_bytes e @ post) ! (length pre + 1)) = fst e"
    and "be16 ((pre @ ext_bytes e @ post) ! (length pre + 2)) ((pre @ ext_bytes e @ post) ! (length pre + 3)) = length (snd e)"
proof -
  obtain a b where t: "enc BE 2 (fst e) = [a, b]" "be16 a b = fst e" using enc2 [of "fst e"] assms by auto
  obtain c d where n: "enc BE 2 (length (snd e)) = [c, d]" "be16 c d = length (snd e)"
    using enc2 [of "length (snd e)"] assms by auto
  show "be16 ((pre @ ext_bytes e @ post) ! length pre) ((pre @ ext_bytes e @ post) ! (length pre + 1)) = fst e"
    "be16 ((pre @ ext_bytes e @ post) ! (length pre + 2)) ((pre @ ext_bytes e @ post) ! (length pre + 3)) = length (snd e)"
    by (simp_all add: ext_bytes_def t n nth_append)
qed

lemma length_ext_bytes [simp]: "length (ext_bytes e) = 4 + length (snd e)"
  by (simp add: ext_bytes_def)

lemma sni_ext_written:
  assumes host: "ascii host" "length host < 65000" and before: "list_all ext_ok before"
  shows "sni_ext (pre @ concat (map ext_bytes (before @ (0, sni_bytes host) # after)))
      (length pre + length (concat (map ext_bytes (before @ (0, sni_bytes host) # after)))) (length pre)
    = Some (host_text host)"
  using before
proof (induction before arbitrary: pre)
  case Nil
  let ?e = "(0::nat, sni_bytes host)" and ?post = "concat (map ext_bytes after)"
  have len: "length (sni_bytes host) < 65536" using host(2) by (simp add: sni_bytes_def)
  have hs: "pre @ concat (map ext_bytes ([] @ ?e # after)) = pre @ ext_bytes ?e @ ?post" by simp
  have "server_name (pre @ ext_bytes ?e @ ?post) (length pre + 4) (length (sni_bytes host)) = Some (host_text host)"
    using server_name_written [OF host, of "pre @ enc BE 2 0 @ enc BE 2 (length (sni_bytes host))" ?post]
    by (simp add: ext_bytes_def)
  moreover have "be16 ((pre @ ext_bytes ?e @ ?post) ! length pre) ((pre @ ext_bytes ?e @ ?post) ! (length pre + 1)) = 0"
      "be16 ((pre @ ext_bytes ?e @ ?post) ! (length pre + 2)) ((pre @ ext_bytes ?e @ ?post) ! (length pre + 3))
        = length (sni_bytes host)"
    using ext_head [of ?e pre ?post] len by (simp_all only: fst_conv snd_conv)
  moreover have "length pre + 4 \<le> length pre + length (concat (map ext_bytes ([] @ ?e # after)))"
      "length pre + 4 \<le> length (pre @ ext_bytes ?e @ ?post)" by simp_all
  ultimately show ?case
    unfolding hs by (subst sni_ext.simps) (simp only: Let_def if_True if_False simp_thms)
next
  case (Cons e before)
  then have e: "ext_ok e" and b: "list_all ext_ok before" by simp_all
  let ?rest = "concat (map ext_bytes (before @ (0, sni_bytes host) # after))"
  let ?all = "concat (map ext_bytes ((e # before) @ (0, sni_bytes host) # after))"
  have all: "?all = ext_bytes e @ ?rest" by simp
  have lt: "fst e < 65536" "length (snd e) < 65536" using e by (simp_all add: ext_ok_def)
  have h: "be16 ((pre @ ?all) ! length pre) ((pre @ ?all) ! (length pre + 1)) = fst e"
      "be16 ((pre @ ?all) ! (length pre + 2)) ((pre @ ?all) ! (length pre + 3)) = length (snd e)"
    unfolding all by (rule ext_head [OF lt])+
  have "sni_ext ((pre @ ext_bytes e) @ ?rest) (length (pre @ ext_bytes e) + length ?rest) (length (pre @ ext_bytes e))
      = Some (host_text host)"
    by (rule Cons.IH [OF b])
  moreover have "(pre @ ext_bytes e) @ ?rest = pre @ ?all" "length (pre @ ext_bytes e) + length ?rest = length pre + length ?all"
      "length (pre @ ext_bytes e) = length pre + 4 + length (snd e)"
    by (simp_all add: all)
  ultimately have IH: "sni_ext (pre @ ?all) (length pre + length ?all) (length pre + 4 + length (snd e)) = Some (host_text host)"
    by (simp only:)
  have c: "length pre + 4 \<le> length pre + length ?all" "length pre + 4 \<le> length (pre @ ?all)"
    unfolding all by simp_all
  from e have "fst e \<noteq> 0" by (simp add: ext_ok_def)
  with c IH show ?case
    by (subst sni_ext.simps) (simp only: h Let_def if_True if_False simp_thms)
qed

lemma byte_at_split: "i = length pre \<Longrightarrow> byte_at (pre @ b # post) i = Some (unat b)"
  by (simp add: byte_at_def)

lemma be16_at_split: "i = length pre \<Longrightarrow> be16_at (pre @ a # b # post) i = Some (be16 a b)"
  by (simp add: be16_at_def nth_append)

text \<open>
  C32: the host name of a client hello is found wherever its extension stands and whatever
  the lengths of the fields before it.
\<close>

theorem client_hello_roundtrip:
  assumes "ascii host" "length host < 65000" "list_all ext_ok before"
    and "length sid < 256" "length cs < 65536" "length cm < 256"
    and "length (hello sid cs cm before host after) < 65536"
  shows "parse_tls_sni (record_bytes (hello sid cs cm before host after)) = Some (host_text host)"
proof -
  let ?hs = "hello sid cs cm before host after"
  define exts where "exts = concat (map ext_bytes (before @ (0, sni_bytes host) # after))"
  obtain a b where l: "enc BE 2 (length ?hs) = [a, b]" "be16 a b = length ?hs"
    using enc2 [of "length ?hs"] assms(7) by auto
  obtain c1 c2 where c: "enc BE 2 (length cs) = [c1, c2]" "be16 c1 c2 = length cs"
    using enc2 [of "length cs"] assms(5) by auto
  have hello: "?hs = 1 # replicate 37 0 @ [of_nat (length sid)] @ sid @ enc BE 2 (length cs) @ cs
        @ [of_nat (length cm)] @ cm @ enc BE 2 (length exts) @ exts"
    by (simp add: hello_def Let_def exts_def)
  then have "length exts < 65536" using assms(7) by simp
  then obtain e1 e2 where e: "enc BE 2 (length exts) = [e1, e2]" "be16 e1 e2 = length exts"
    using enc2 [of "length exts"] by auto
  define p1 where "p1 = (1 # replicate 37 0 :: bytes)"
  define p2 where "p2 = p1 @ [of_nat (length sid)] @ sid"
  define p3 where "p3 = p2 @ [c1, c2] @ cs"
  define p4 where "p4 = p3 @ [of_nat (length cm)] @ cm"
  have len: "length p1 = 38" "length p2 = 39 + length sid" "length p3 = 39 + length sid + 2 + length cs"
      "length p4 = 39 + length sid + 2 + length cs + 1 + length cm"
    by (simp_all add: p1_def p2_def p3_def p4_def)
  have hs: "?hs = p4 @ e1 # e2 # exts" "?hs = p3 @ of_nat (length cm) # cm @ e1 # e2 # exts"
      "?hs = p2 @ c1 # c2 # cs @ of_nat (length cm) # cm @ e1 # e2 # exts"
      "?hs = p1 @ of_nat (length sid) # sid @ c1 # c2 # cs @ of_nat (length cm) # cm @ e1 # e2 # exts"
    unfolding hello e c by (simp_all add: p4_def p3_def p2_def p1_def)
  have "byte_at ?hs 38 = Some (length sid)"
    unfolding hs(4) using byte_at_split [of 38 p1] len assms(4) by (simp add: unat_small)
  moreover have "be16_at ?hs (39 + length sid) = Some (length cs)"
    unfolding hs(3) using be16_at_split [of "39 + length sid" p2] len c by simp
  moreover have "byte_at ?hs (39 + length sid + 2 + length cs) = Some (length cm)"
    unfolding hs(2) using byte_at_split [of "39 + length sid + 2 + length cs" p3] len assms(6) by (simp add: unat_small)
  moreover have k: "be16 (?hs ! length p4) (?hs ! (length p4 + 1)) = length exts" "\<not> length ?hs < length p4 + 2"
    unfolding hs(1) by (simp_all add: nth_append e)
  moreover have "sni_ext ?hs (length p4 + 2 + length exts) (length p4 + 2) = Some (host_text host)"
    using sni_ext_written [OF assms(1-3), of "p4 @ [e1, e2]" after] by (simp add: hs(1) exts_def)
  ultimately have sni: "client_hello_sni ?hs = Some (host_text host)"
    unfolding client_hello_sni_def Let_def by (simp add: len del: replicate.simps) 
  define r where "r = record_bytes ?hs"
  have r: "r = 0x16 # 3 # 1 # a # b # ?hs" by (simp add: r_def record_bytes_def l)
  have "38 \<le> length ?hs" "?hs ! 0 = 1" by (simp_all add: hs(4) p1_def)
  then show ?thesis
    unfolding parse_tls_sni_def r_def [symmetric] using sni by (auto simp: r l sub_def Let_def)
qed

theorem client_hello_roundtrip_witness:
  "parse_tls_sni (record_bytes (hello [7] [0x13, 1] [0] [(43, [2, 3, 4])] ''Login.Example.com.'' [(10, [0])]))
    = Some ''login.example.com''"
proof -
  have "ascii ''Login.Example.com.''" "host_text ''Login.Example.com.'' = ''login.example.com''" by code_simp+
  then show ?thesis
    by (subst client_hello_roundtrip) (simp_all add: ext_ok_def hello_def sni_bytes_def)
qed

end
