(* ===== verification/Pcap_Scan.thy ===== *)
theory Pcap_Scan
  imports Pcap_Frames "HOL-Library.List_Lexorder" "HOL-Library.Char_ord" "HOL-Library.Product_Lexorder"
begin

unbundle bit_operations_syntax

text \<open>
  The scan of a capture (\<open>scan_pcap\<close> of \<open>zcc_diag/pcap_review.py\<close>): the summary record, the
  endpoint rows, the connection timeline, the TCP health counters with the table of highest
  sequence numbers, and the DNS and TLS evidence.  Python's dictionaries are association lists
  in insertion order, its sets of names are sets, and strings compare by code point.
\<close>

section \<open>Endpoint rows\<close>

record estat =
  packets :: nat
  nbytes :: nat
  tx_packets :: nat
  tx_bytes :: nat
  rx_packets :: nat
  rx_bytes :: nat

definition zero_row :: estat where
  "zero_row = \<lparr>packets = 0, nbytes = 0, tx_packets = 0, tx_bytes = 0, rx_packets = 0, rx_bytes = 0\<rparr>"

definition bump_row :: "bool \<Rightarrow> nat \<Rightarrow> estat \<Rightarrow> estat" where
  "bump_row sent sz r =
     (let r = r\<lparr>packets := packets r + 1, nbytes := nbytes r + sz\<rparr> in
      if sent then r\<lparr>tx_packets := tx_packets r + 1, tx_bytes := tx_bytes r + sz\<rparr>
      else r\<lparr>rx_packets := rx_packets r + 1, rx_bytes := rx_bytes r + sz\<rparr>)"

definition bump_endpoint :: "string \<Rightarrow> bool \<Rightarrow> nat \<Rightarrow> (string, estat) dict \<Rightarrow> (string, estat) dict" where
  "bump_endpoint key sent sz table =
     dict_set key (bump_row sent sz (dict_getd table key zero_row)) table"

definition endpoint_key :: "string \<Rightarrow> string \<Rightarrow> nat \<Rightarrow> string" where
  "endpoint_key ip pr port = ip @ '':'' @ pr @ ''/'' @ str_of_nat port"

definition server_side_endpoint :: "string \<Rightarrow> string \<Rightarrow> nat \<Rightarrow> string \<Rightarrow> nat \<Rightarrow> string" where
  "server_side_endpoint pr src sport dst dport =
     (if sport = dport
      then (if (src, sport) \<le> (dst, dport) then endpoint_key src pr sport else endpoint_key dst pr dport)
      else if sport < dport then endpoint_key src pr sport
      else endpoint_key dst pr dport)"

section \<open>The summary\<close>

record pcap_summary =
  total_packets :: nat
  ts_first :: "int option"
  ts_last :: "int option"
  dns_queries :: "(string, nat) dict"
  sni_hosts :: "(string, nat) dict"
  dest_ips :: "(string, nat) dict"
  sni_to_ips :: "(string, string set) dict"
  dns_answers :: "(string, string set) dict"
  dns_resolutions :: "(string, string set) dict"
  address_stats :: "(string, estat) dict"
  transport_stats :: "(string, estat) dict"
  dest_endpoints :: "(string, nat) dict"
  parse_errors :: "string list"
  bytes_per_endpoint :: "(string, nat) dict"
  tcp_resets :: "(string, nat) dict"
  tcp_reset_endpoints :: "(string, nat) dict"
  tcp_syns :: "(string, nat) dict"
  tcp_syn_acks :: "(string, nat) dict"
  tcp_retransmits :: "(string, nat) dict"
  dns_nxdomain :: "(string, nat) dict"
  tls_alerts :: "(string, nat) dict"
  tls_alert_endpoints :: "(string, nat) dict"
  flow_intervals :: "(string, int \<times> int \<times> nat) dict"

definition empty_summary :: pcap_summary where
  "empty_summary = \<lparr>total_packets = 0, ts_first = None, ts_last = None, dns_queries = [], sni_hosts = [],
     dest_ips = [], sni_to_ips = [], dns_answers = [], dns_resolutions = [], address_stats = [],
     transport_stats = [], dest_endpoints = [], parse_errors = [], bytes_per_endpoint = [], tcp_resets = [],
     tcp_reset_endpoints = [], tcp_syns = [], tcp_syn_acks = [], tcp_retransmits = [], dns_nxdomain = [],
     tls_alerts = [], tls_alert_endpoints = [], flow_intervals = []\<rparr>"

definition duration_us :: "pcap_summary \<Rightarrow> int" where
  "duration_us s = (case (ts_first s, ts_last s) of (Some a, Some b) \<Rightarrow> b - a | _ \<Rightarrow> 0)"

definition covers :: "pcap_summary \<Rightarrow> int \<Rightarrow> bool" where
  "covers s ts = (case (ts_first s, ts_last s) of (Some a, Some b) \<Rightarrow> a \<le> ts \<and> ts \<le> b | _ \<Rightarrow> False)"

section \<open>Accounting every dissected packet\<close>

definition src_key :: "fpacket \<Rightarrow> string" where
  "src_key p = endpoint_key (src_ip p) (proto p) (src_port p)"

definition dst_key :: "fpacket \<Rightarrow> string" where
  "dst_key p = endpoint_key (dst_ip p) (proto p) (dst_port p)"

definition server_ep :: "fpacket \<Rightarrow> string" where
  "server_ep p = server_side_endpoint (proto p) (src_ip p) (src_port p) (dst_ip p) (dst_port p)"

definition flow_key :: "fpacket \<Rightarrow> string" where
  "flow_key p = (let a = src_key p; b = dst_key p in
     if a \<le> b then a @ '' <-> '' @ b else b @ '' <-> '' @ a)"

definition add_interval :: "string \<Rightarrow> int \<Rightarrow> nat \<Rightarrow> (string, int \<times> int \<times> nat) dict \<Rightarrow> (string, int \<times> int \<times> nat) dict" where
  "add_interval k ts n d = (case dict_get d k of
       None \<Rightarrow> dict_set k (ts, ts, n) d
     | Some (t, _, m) \<Rightarrow> dict_set k (t, ts, m + n) d)"

definition account :: "int \<Rightarrow> nat \<Rightarrow> fpacket \<Rightarrow> pcap_summary \<Rightarrow> pcap_summary" where
  "account ts frame_len p s = s\<lparr>
     dest_ips := dict_add (dst_ip p) 1 (dest_ips s),
     dest_endpoints := dict_add (dst_key p) 1 (dest_endpoints s),
     address_stats := bump_endpoint (dst_ip p) False frame_len
       (bump_endpoint (src_ip p) True frame_len (address_stats s)),
     transport_stats := bump_endpoint (dst_key p) False frame_len
       (bump_endpoint (src_key p) True frame_len (transport_stats s)),
     bytes_per_endpoint := dict_add (server_ep p) (total_len p) (bytes_per_endpoint s),
     flow_intervals := add_interval (flow_key p) ts (total_len p) (flow_intervals s)\<rparr>"

section \<open>TCP health\<close>

definition has_flag :: "8 word \<Rightarrow> fpacket \<Rightarrow> bool" where
  "has_flag m p = (flags p AND m \<noteq> 0)"

definition reset_key :: "fpacket \<Rightarrow> string" where
  "reset_key p = src_ip p @ '':'' @ str_of_nat (src_port p) @ '' -> '' @ dst_ip p @ '':'' @ str_of_nat (dst_port p)"

definition count_reset :: "fpacket \<Rightarrow> pcap_summary \<Rightarrow> pcap_summary" where
  "count_reset p s = (if has_flag 0x04 p
     then s\<lparr>tcp_resets := dict_add (reset_key p) 1 (tcp_resets s),
            tcp_reset_endpoints := dict_add (server_ep p) 1 (tcp_reset_endpoints s)\<rparr>
     else s)"

definition count_syn :: "fpacket \<Rightarrow> pcap_summary \<Rightarrow> pcap_summary" where
  "count_syn p s = (if has_flag 0x02 p
     then (if has_flag 0x10 p then s\<lparr>tcp_syn_acks := dict_add (server_ep p) 1 (tcp_syn_acks s)\<rparr>
           else s\<lparr>tcp_syns := dict_add (server_ep p) 1 (tcp_syns s)\<rparr>)
     else s)"

type_synonym watermarks = "(string \<times> string, nat) dict"

definition seq_watermark_cap :: nat where
  "seq_watermark_cap = 10000"

definition seq_end :: "nat \<Rightarrow> fpacket \<Rightarrow> nat" where
  "seq_end sq p = (sq + length (payload p)) AND 0xFFFFFFFF"

text \<open>The new table of highest sequence numbers, and whether the segment counts as sent again.\<close>

definition watermark_step :: "(string \<times> string) \<Rightarrow> nat \<Rightarrow> watermarks \<Rightarrow> watermarks \<times> bool" where
  "watermark_step k e wm = (case dict_get wm k of
       None \<Rightarrow> (if length wm < seq_watermark_cap then dict_set k e wm else wm, False)
     | Some w \<Rightarrow> if e \<le> w then (wm, True) else (dict_set k e wm, False))"

definition count_retransmit :: "bytes \<Rightarrow> fpacket \<Rightarrow> watermarks \<times> pcap_summary \<Rightarrow> watermarks \<times> pcap_summary" where
  "count_retransmit frame p ws = (case ws of (wm, s) \<Rightarrow>
     if payload p = [] then (wm, s)
     else case extract_tcp_seq frame of
       None \<Rightarrow> (wm, s)
     | Some sq \<Rightarrow> (case watermark_step (src_key p, dst_key p) (seq_end sq p) wm of
         (wm', again) \<Rightarrow> (wm', if again then s\<lparr>tcp_retransmits := dict_add (server_ep p) 1 (tcp_retransmits s)\<rparr> else s)))"

definition count_alert :: "fpacket \<Rightarrow> pcap_summary \<Rightarrow> pcap_summary" where
  "count_alert p s =
     (if payload p = [] then s
      else case parse_tls_alert (payload p) of
        None \<Rightarrow> s
      | Some (lvl, desc) \<Rightarrow> s\<lparr>tls_alerts := dict_add (format_tls_alert lvl desc) 1 (tls_alerts s),
          tls_alert_endpoints := dict_add (server_ep p) 1 (tls_alert_endpoints s)\<rparr>)"

text \<open>\<open>d.setdefault(k, set()).add(x)\<close>\<close>

definition add_to_set :: "string \<Rightarrow> string \<Rightarrow> (string, string set) dict \<Rightarrow> (string, string set) dict" where
  "add_to_set k x d = dict_set k (insert x (dict_getd d k {})) d"

definition count_sni :: "fpacket \<Rightarrow> pcap_summary \<Rightarrow> pcap_summary" where
  "count_sni p s =
     (if dst_port p = 443 \<and> payload p \<noteq> []
      then (case parse_tls_sni (payload p) of
          None \<Rightarrow> s
        | Some sni \<Rightarrow> if sni = [] then s
            else s\<lparr>sni_hosts := dict_add sni 1 (sni_hosts s), sni_to_ips := add_to_set sni (dst_ip p) (sni_to_ips s)\<rparr>)
      else s)"

section \<open>DNS evidence\<close>

definition rcode_label :: "nat \<Rightarrow> string" where
  "rcode_label rcode = (case dict_get dns_rcode_names rcode of Some n \<Rightarrow> n | None \<Rightarrow> ''rcode-'' @ str_of_nat rcode)"

definition count_query :: "fpacket \<Rightarrow> pcap_summary \<Rightarrow> pcap_summary" where
  "count_query p s = (case parse_dns_qname (payload p) of
       None \<Rightarrow> s
     | Some q \<Rightarrow> if q = [] then s else s\<lparr>dns_queries := dict_add q 1 (dns_queries s)\<rparr>)"

definition count_rcode :: "fpacket \<Rightarrow> pcap_summary \<Rightarrow> pcap_summary" where
  "count_rcode p s = (case parse_dns_response (payload p) of
       None \<Rightarrow> s
     | Some (rcode, qname) \<Rightarrow>
         if rcode \<noteq> 0 \<and> qname \<noteq> []
         then s\<lparr>dns_nxdomain := dict_add (qname @ ''  ['' @ rcode_label rcode @ '']'') 1 (dns_nxdomain s)\<rparr>
         else s)"

definition add_answer :: "string \<times> string \<Rightarrow> pcap_summary \<Rightarrow> pcap_summary" where
  "add_answer a s = (case a of (qname, ip) \<Rightarrow>
     s\<lparr>dns_answers := add_to_set ip qname (dns_answers s), dns_resolutions := add_to_set qname ip (dns_resolutions s)\<rparr>)"

definition count_dns :: "fpacket \<Rightarrow> pcap_summary \<Rightarrow> pcap_summary" where
  "count_dns p s = fold add_answer (parse_dns_address_answers (payload p)) (count_rcode p (count_query p s))"

section \<open>The scan\<close>

definition scan_tcp :: "bytes \<Rightarrow> fpacket \<Rightarrow> watermarks \<times> pcap_summary \<Rightarrow> watermarks \<times> pcap_summary" where
  "scan_tcp frame p ws = (case ws of (wm, s) \<Rightarrow>
     case count_retransmit frame p (wm, count_syn p (count_reset p s)) of
       (wm', s') \<Rightarrow> (wm', count_sni p (count_alert p s')))"

definition seen :: "int \<Rightarrow> pcap_summary \<Rightarrow> pcap_summary" where
  "seen ts s = s\<lparr>total_packets := total_packets s + 1,
     ts_first := (if ts_first s = None then Some ts else ts_first s), ts_last := Some ts\<rparr>"

definition scan_step :: "int \<times> bytes \<Rightarrow> watermarks \<times> pcap_summary \<Rightarrow> watermarks \<times> pcap_summary" where
  "scan_step pkt ws = (case pkt of (ts, frame) \<Rightarrow> case ws of (wm, s) \<Rightarrow>
     case parse_frame_full frame of
       None \<Rightarrow> (wm, seen ts s)
     | Some p \<Rightarrow>
         let s' = account ts (length frame) p (seen ts s) in
         if proto p = ''tcp'' then scan_tcp frame p (wm, s')
         else if proto p = ''udp'' \<and> (dst_port p = 53 \<or> src_port p = 53) then (wm, count_dns p s')
         else (wm, s'))"

definition add_error :: "string \<Rightarrow> pcap_summary \<Rightarrow> pcap_summary" where
  "add_error e s = s\<lparr>parse_errors := parse_errors s @ [e]\<rparr>"

text \<open>Opening the file; the texts are those of the exceptions.\<close>

datatype opened = Content bytes | Missing string | Unreadable string

text \<open>
  \<open>scan_pcap\<close>: the packet loop stops at the cap before the reader is asked for more, so an
  exception of the reader shows only below it.  \<open>range_note\<close> is the entry for a time stamp
  \<open>fromtimestamp\<close> refuses; \<open>IndexError\<close> and \<open>OverflowError\<close> are not caught.
\<close>

definition scan_packets :: "nat \<Rightarrow> (int \<times> bytes) list \<Rightarrow> pcap_summary" where
  "scan_packets max_packets ps = (let s = snd (fold scan_step (take max_packets ps) ([], empty_summary)) in
     if max_packets < length ps then add_error (''Stopped at packet cap ('' @ str_of_nat max_packets @ '')'') s else s)"

definition scan_pcap :: "string \<Rightarrow> nat \<Rightarrow> opened \<Rightarrow> read_exc + pcap_summary" where
  "scan_pcap range_note max_packets file = (case file of
       Missing t \<Rightarrow> Inr (add_error (''file not found: '' @ t) empty_summary)
     | Unreadable t \<Rightarrow> Inr (add_error (''OS error: '' @ t) empty_summary)
     | Content bs \<Rightarrow> (case read_pcapng bs of (ps, ex) \<Rightarrow>
         let s = scan_packets max_packets ps in
         if max_packets < length ps then Inr s
         else case ex of
           None \<Rightarrow> Inr s
         | Some (BadBlock t) \<Rightarrow> Inr (add_error (''pcapng read error: '' @ t) s)
         | Some YearRange \<Rightarrow> Inr (add_error range_note s)
         | Some e \<Rightarrow> Inl e))"

section \<open>A filtered view\<close>

definition dict_filter :: "('k \<Rightarrow> 'v \<Rightarrow> bool) \<Rightarrow> ('k, 'v) dict \<Rightarrow> ('k, 'v) dict" where
  "dict_filter P d = filter (\<lambda>(k, v). P k v) d"

definition grep :: "string \<Rightarrow> pcap_summary \<Rightarrow> pcap_summary" where
  "grep pattern s =
     (let p = py_lower pattern;
          hit = (\<lambda>k. occurs p (py_lower k));
          resolved = (\<lambda>ip. \<exists>d \<in> set (dns_answers s). fst d = ip \<and> (\<exists>name \<in> snd d. hit name)) in
      empty_summary\<lparr>total_packets := total_packets s, ts_first := ts_first s, ts_last := ts_last s,
        parse_errors := parse_errors s,
        dns_queries := dict_filter (\<lambda>k v. hit k) (dns_queries s),
        sni_hosts := dict_filter (\<lambda>k v. hit k) (sni_hosts s),
        dest_ips := dict_filter (\<lambda>k v. hit k) (dest_ips s),
        sni_to_ips := dict_filter (\<lambda>k v. hit k) (sni_to_ips s),
        dest_endpoints := dict_filter (\<lambda>k v. hit k) (dest_endpoints s),
        dns_resolutions := dict_filter (\<lambda>k v. hit k) (dns_resolutions s),
        dns_answers := dict_filter (\<lambda>k v. hit k \<or> (\<exists>name \<in> v. hit name)) (dns_answers s),
        address_stats := dict_filter (\<lambda>k v. hit k \<or> resolved k) (address_stats s),
        transport_stats := dict_filter (\<lambda>k v. hit k \<or> resolved (rsplit_colon k)) (transport_stats s)\<rparr>)"

section \<open>A bundle\<close>

text \<open>\<open>scan_bundle\<close>: the captures sorted by start, one without packets at the epoch.\<close>

definition start_key :: "pcap_summary \<Rightarrow> int" where
  "start_key s = (case ts_first s of Some t \<Rightarrow> t | None \<Rightarrow> epoch_us)"

fun scan_all :: "string \<Rightarrow> (string \<times> opened) list \<Rightarrow> read_exc + (string \<times> pcap_summary) list" where
  "scan_all range_note [] = Inr []"
| "scan_all range_note ((name, file) # files) =
     res_bind (scan_pcap range_note 250000 file) (\<lambda>s.
       map_sum id (Cons (name, s)) (scan_all range_note files))"

definition scan_bundle :: "string \<Rightarrow> (string \<times> opened) list \<Rightarrow> read_exc + (string \<times> pcap_summary) list" where
  "scan_bundle range_note files = map_sum id (sort_key (\<lambda>ns. start_key (snd ns))) (scan_all range_note files)"

end
