(* ===== verification/Pcap_Stats.thy ===== *)
theory Pcap_Stats
  imports Pcap_Scan Pcap_Roundtrip
begin

text \<open>
  What the tables of a scan hold: every counter refines a sum over the dissected packets,
  every endpoint row splits into sent and received, a flow's interval runs from its first
  packet to its last, and the suspected retransmissions are the segments that end at or below
  an earlier segment of the same direction.
\<close>

section \<open>The dissected packets\<close>

definition tally :: "('q \<Rightarrow> 'k) \<Rightarrow> ('q \<Rightarrow> nat) \<Rightarrow> 'q list \<Rightarrow> 'k \<Rightarrow> nat" where
  "tally key amount qs k = sum_list (map amount (filter (\<lambda>q. key q = k) qs))"

lemma tally_simps [simp]:
  "tally key amount [] k = 0"
  "tally key amount (q # qs) k = (if key q = k then amount q else 0) + tally key amount qs k"
  by (simp_all add: tally_def)

lemma getd_fold_add:
  "dict_getd (fold (\<lambda>q. dict_add (key q) (amount q)) qs d) k 0 = dict_getd d k 0 + tally key amount qs k"
  by (induction qs arbitrary: d) (auto simp: dict_getd_add)

type_synonym dissection = "int \<times> nat \<times> fpacket"

abbreviation pkt :: "dissection \<Rightarrow> fpacket" where
  "pkt q \<equiv> snd (snd q)"

definition dissected :: "(int \<times> bytes) list \<Rightarrow> dissection list" where
  "dissected ps = List.map_filter (\<lambda>(ts, f). map_option (\<lambda>p. (ts, length f, p)) (parse_frame_full f)) ps"

lemma dissected_simps [simp]:
  "dissected [] = []"
  "dissected ((ts, f) # ps) = (case parse_frame_full f of None \<Rightarrow> dissected ps | Some p \<Rightarrow> (ts, length f, p) # dissected ps)"
  by (simp_all add: dissected_def List.map_filter_simps split: option.splits)

text \<open>A table that each dissected packet updates from its own fields alone.\<close>

lemma fold_table:
  assumes "\<And>ts f ws. F (snd (scan_step (ts, f) ws)) =
      (case parse_frame_full f of None \<Rightarrow> F (snd ws) | Some p \<Rightarrow> g (ts, length f, p) (F (snd ws)))"
  shows "F (snd (fold scan_step ps ws)) = fold g (dissected ps) (F (snd ws))"
proof (induction ps arbitrary: ws)
  case (Cons p ps)
  obtain ts f where p: "p = (ts, f)" by (cases p)
  show ?case by (simp add: Cons.IH p assms split: option.splits)
qed simp

section \<open>What a step leaves alone\<close>

lemmas step_defs = scan_step_def scan_tcp_def account_def seen_def count_reset_def count_syn_def
  count_retransmit_def count_alert_def count_sni_def count_dns_def count_query_def count_rcode_def

lemma fold_answers_simps [simp]:
  "dest_ips (fold add_answer as s) = dest_ips s"
  "dest_endpoints (fold add_answer as s) = dest_endpoints s"
  "address_stats (fold add_answer as s) = address_stats s"
  "transport_stats (fold add_answer as s) = transport_stats s"
  "bytes_per_endpoint (fold add_answer as s) = bytes_per_endpoint s"
  "flow_intervals (fold add_answer as s) = flow_intervals s"
  "tcp_resets (fold add_answer as s) = tcp_resets s"
  "tcp_reset_endpoints (fold add_answer as s) = tcp_reset_endpoints s"
  "tcp_syns (fold add_answer as s) = tcp_syns s"
  "tcp_syn_acks (fold add_answer as s) = tcp_syn_acks s"
  "tcp_retransmits (fold add_answer as s) = tcp_retransmits s"
  "total_packets (fold add_answer as s) = total_packets s"
  by (induction as arbitrary: s; simp add: add_answer_def case_prod_beta)+

lemma dns_leaves [simp]:
  "dest_ips (count_dns p s) = dest_ips s"
  "dest_endpoints (count_dns p s) = dest_endpoints s"
  "address_stats (count_dns p s) = address_stats s"
  "transport_stats (count_dns p s) = transport_stats s"
  "bytes_per_endpoint (count_dns p s) = bytes_per_endpoint s"
  "flow_intervals (count_dns p s) = flow_intervals s"
  "tcp_resets (count_dns p s) = tcp_resets s"
  "tcp_reset_endpoints (count_dns p s) = tcp_reset_endpoints s"
  "tcp_syns (count_dns p s) = tcp_syns s"
  "tcp_syn_acks (count_dns p s) = tcp_syn_acks s"
  "tcp_retransmits (count_dns p s) = tcp_retransmits s"
  "total_packets (count_dns p s) = total_packets s"
  by (simp_all add: count_dns_def count_query_def count_rcode_def split: option.splits prod.splits)

lemma tls_leaves [simp]:
  "dest_ips (count_sni p (count_alert p s)) = dest_ips s"
  "dest_endpoints (count_sni p (count_alert p s)) = dest_endpoints s"
  "address_stats (count_sni p (count_alert p s)) = address_stats s"
  "transport_stats (count_sni p (count_alert p s)) = transport_stats s"
  "bytes_per_endpoint (count_sni p (count_alert p s)) = bytes_per_endpoint s"
  "flow_intervals (count_sni p (count_alert p s)) = flow_intervals s"
  "tcp_resets (count_sni p (count_alert p s)) = tcp_resets s"
  "tcp_reset_endpoints (count_sni p (count_alert p s)) = tcp_reset_endpoints s"
  "tcp_syns (count_sni p (count_alert p s)) = tcp_syns s"
  "tcp_syn_acks (count_sni p (count_alert p s)) = tcp_syn_acks s"
  "tcp_retransmits (count_sni p (count_alert p s)) = tcp_retransmits s"
  "total_packets (count_sni p (count_alert p s)) = total_packets s"
  by (simp_all add: count_sni_def count_alert_def split: option.splits prod.splits)

lemma retransmit_leaves [simp]:
  "dest_ips (snd (count_retransmit f p ws)) = dest_ips (snd ws)"
  "dest_endpoints (snd (count_retransmit f p ws)) = dest_endpoints (snd ws)"
  "address_stats (snd (count_retransmit f p ws)) = address_stats (snd ws)"
  "transport_stats (snd (count_retransmit f p ws)) = transport_stats (snd ws)"
  "bytes_per_endpoint (snd (count_retransmit f p ws)) = bytes_per_endpoint (snd ws)"
  "flow_intervals (snd (count_retransmit f p ws)) = flow_intervals (snd ws)"
  "tcp_resets (snd (count_retransmit f p ws)) = tcp_resets (snd ws)"
  "tcp_reset_endpoints (snd (count_retransmit f p ws)) = tcp_reset_endpoints (snd ws)"
  "tcp_syns (snd (count_retransmit f p ws)) = tcp_syns (snd ws)"
  "tcp_syn_acks (snd (count_retransmit f p ws)) = tcp_syn_acks (snd ws)"
  "total_packets (snd (count_retransmit f p ws)) = total_packets (snd ws)"
  by (simp_all add: count_retransmit_def split: option.splits prod.splits)

lemma flag_leaves [simp]:
  "dest_ips (count_syn p (count_reset p s)) = dest_ips s"
  "dest_endpoints (count_syn p (count_reset p s)) = dest_endpoints s"
  "address_stats (count_syn p (count_reset p s)) = address_stats s"
  "transport_stats (count_syn p (count_reset p s)) = transport_stats s"
  "bytes_per_endpoint (count_syn p (count_reset p s)) = bytes_per_endpoint s"
  "flow_intervals (count_syn p (count_reset p s)) = flow_intervals s"
  "tcp_retransmits (count_syn p (count_reset p s)) = tcp_retransmits s"
  "total_packets (count_syn p (count_reset p s)) = total_packets s"
  by (simp_all add: count_syn_def count_reset_def)

lemma snd_scan_tcp: "snd (scan_tcp f p ws) =
    count_sni p (count_alert p (snd (count_retransmit f p (fst ws, count_syn p (count_reset p (snd ws))))))"
  by (simp add: scan_tcp_def split: prod.split)

lemma snd_scan_step: "snd (scan_step (ts, f) ws) = (case parse_frame_full f of
    None \<Rightarrow> seen ts (snd ws)
  | Some p \<Rightarrow> let s' = account ts (length f) p (seen ts (snd ws)) in
      if proto p = ''tcp'' then snd (scan_tcp f p (fst ws, s'))
      else if proto p = ''udp'' \<and> (dst_port p = 53 \<or> src_port p = 53) then count_dns p s' else s')"
  by (cases ws) (auto simp: scan_step_def Let_def split: option.split)

section \<open>Counters\<close>

definition is_tcp :: "fpacket \<Rightarrow> bool" where
  "is_tcp p = (proto p = ''tcp'')"

lemma counters:
  "dest_ips (snd (fold scan_step ps ws)) =
     fold (\<lambda>q. dict_add (dst_ip (pkt q)) 1) (dissected ps) (dest_ips (snd ws))"
  "dest_endpoints (snd (fold scan_step ps ws)) =
     fold (\<lambda>q. dict_add (dst_key (pkt q)) 1) (dissected ps) (dest_endpoints (snd ws))"
  "bytes_per_endpoint (snd (fold scan_step ps ws)) =
     fold (\<lambda>q. dict_add (server_ep (pkt q)) (total_len (pkt q))) (dissected ps) (bytes_per_endpoint (snd ws))"
  by (rule fold_table; simp add: snd_scan_step snd_scan_tcp Let_def account_def seen_def split: option.split)+

lemma fold_filter: "fold (\<lambda>q. if P q then g q else id) qs d = fold g (filter P qs) d"
  by (induction qs arbitrary: d) auto

lemma tcp_counters:
  "tcp_resets (snd (fold scan_step ps ws)) = fold (\<lambda>q. dict_add (reset_key (pkt q)) 1)
     (filter (\<lambda>q. is_tcp (pkt q) \<and> has_flag 4 (pkt q)) (dissected ps)) (tcp_resets (snd ws))"
  "tcp_reset_endpoints (snd (fold scan_step ps ws)) = fold (\<lambda>q. dict_add (server_ep (pkt q)) 1)
     (filter (\<lambda>q. is_tcp (pkt q) \<and> has_flag 4 (pkt q)) (dissected ps)) (tcp_reset_endpoints (snd ws))"
  "tcp_syns (snd (fold scan_step ps ws)) = fold (\<lambda>q. dict_add (server_ep (pkt q)) 1)
     (filter (\<lambda>q. is_tcp (pkt q) \<and> has_flag 2 (pkt q) \<and> \<not> has_flag 16 (pkt q)) (dissected ps)) (tcp_syns (snd ws))"
  "tcp_syn_acks (snd (fold scan_step ps ws)) = fold (\<lambda>q. dict_add (server_ep (pkt q)) 1)
     (filter (\<lambda>q. is_tcp (pkt q) \<and> has_flag 2 (pkt q) \<and> has_flag 16 (pkt q)) (dissected ps)) (tcp_syn_acks (snd ws))"
  unfolding fold_filter [symmetric]
  by (rule fold_table; simp add: snd_scan_step snd_scan_tcp Let_def account_def seen_def is_tcp_def
      count_syn_def count_reset_def split: option.split)+

lemma total_seen: "total_packets (snd (fold scan_step ps ws)) = total_packets (snd ws) + length ps"
proof (induction ps arbitrary: ws)
  case (Cons p ps)
  obtain ts f where p: "p = (ts, f)" by (cases p)
  show ?case
    by (simp add: Cons.IH p snd_scan_step snd_scan_tcp Let_def account_def seen_def split: option.split)
qed simp

lemma error_leaves [simp]:
  "dest_ips (add_error e s) = dest_ips s" "dest_endpoints (add_error e s) = dest_endpoints s"
  "bytes_per_endpoint (add_error e s) = bytes_per_endpoint s" "tcp_resets (add_error e s) = tcp_resets s"
  "tcp_reset_endpoints (add_error e s) = tcp_reset_endpoints s" "tcp_syns (add_error e s) = tcp_syns s"
  "tcp_syn_acks (add_error e s) = tcp_syn_acks s" "total_packets (add_error e s) = total_packets s"
  "address_stats (add_error e s) = address_stats s" "transport_stats (add_error e s) = transport_stats s"
  "flow_intervals (add_error e s) = flow_intervals s" "tcp_retransmits (add_error e s) = tcp_retransmits s"
  by (simp_all add: add_error_def)

text \<open>The tables of a scan, up to the entry the packet cap adds.\<close>

lemma scan_packets_tables:
  assumes "\<And>e s. F (add_error e s) = F s"
  shows "F (scan_packets m ps) = F (snd (fold scan_step (take m ps) ([], empty_summary)))"
  by (simp add: scan_packets_def Let_def assms)

definition before_cap :: "nat \<Rightarrow> (int \<times> bytes) list \<Rightarrow> fpacket list" where
  "before_cap m ps = map pkt (dissected (take m ps))"


section \<open>Endpoint rows\<close>

definition add_row :: "estat \<Rightarrow> nat \<times> nat \<Rightarrow> nat \<times> nat \<Rightarrow> estat" where
  "add_row r tx rx = \<lparr>packets = packets r + fst tx + fst rx, nbytes = nbytes r + snd tx + snd rx,
     tx_packets = tx_packets r + fst tx, tx_bytes = tx_bytes r + snd tx,
     rx_packets = rx_packets r + fst rx, rx_bytes = rx_bytes r + snd rx\<rparr>"

text \<open>Packets and bytes of the dissections with a key.\<close>

definition traffic :: "(fpacket \<Rightarrow> string) \<Rightarrow> dissection list \<Rightarrow> string \<Rightarrow> nat \<times> nat" where
  "traffic key qs k = (tally (\<lambda>q. key (pkt q)) (\<lambda>q. 1) qs k, tally (\<lambda>q. key (pkt q)) (\<lambda>q. fst (snd q)) qs k)"

definition bump_both :: "(fpacket \<Rightarrow> string) \<Rightarrow> (fpacket \<Rightarrow> string) \<Rightarrow> dissection \<Rightarrow> (string, estat) dict \<Rightarrow> (string, estat) dict" where
  "bump_both skey dkey q t = bump_endpoint (dkey (pkt q)) False (fst (snd q))
     (bump_endpoint (skey (pkt q)) True (fst (snd q)) t)"

lemma getd_bump: "dict_getd (bump_endpoint k b n t) j zero_row =
    (if j = k then bump_row b n (dict_getd t k zero_row) else dict_getd t j zero_row)"
  by (simp add: bump_endpoint_def dict_getd_def dict_get_set)

lemma getd_rows: "dict_getd (fold (bump_both skey dkey) qs t) k zero_row =
    add_row (dict_getd t k zero_row) (traffic skey qs k) (traffic dkey qs k)"
proof (induction qs arbitrary: t)
  case Nil
  then show ?case by (simp add: add_row_def traffic_def)
next
  case (Cons q qs)
  have "dict_getd (bump_both skey dkey q t) k zero_row =
      add_row (dict_getd t k zero_row) (traffic skey [q] k) (traffic dkey [q] k)"
    by (simp add: bump_both_def getd_bump add_row_def traffic_def bump_row_def Let_def)
  moreover have "add_row (add_row r (traffic skey [q] k) (traffic dkey [q] k)) (traffic skey qs k) (traffic dkey qs k)
      = add_row r (traffic skey (q # qs) k) (traffic dkey (q # qs) k)" for r
    by (simp add: add_row_def traffic_def)
  ultimately show ?case by (simp only: fold_Cons comp_apply Cons.IH)
qed

lemma rows_fold:
  "address_stats (snd (fold scan_step ps ws)) = fold (bump_both src_ip dst_ip) (dissected ps) (address_stats (snd ws))"
  "transport_stats (snd (fold scan_step ps ws)) = fold (bump_both src_key dst_key) (dissected ps) (transport_stats (snd ws))"
  by (rule fold_table; simp add: snd_scan_step snd_scan_tcp Let_def account_def seen_def bump_both_def split: option.split)+

text \<open>
  C17: the row of an address, and of a transport endpoint, counts as sent the packets and the
  frame bytes that come from it and as received those that go to it, and its totals are the
  two sums.
\<close>

theorem endpoint_rows:
  "dict_getd (address_stats (scan_packets m ps)) ip zero_row =
     add_row zero_row (traffic src_ip (dissected (take m ps)) ip) (traffic dst_ip (dissected (take m ps)) ip)
   \<and> dict_getd (transport_stats (scan_packets m ps)) ep zero_row =
     add_row zero_row (traffic src_key (dissected (take m ps)) ep) (traffic dst_key (dissected (take m ps)) ep)"
proof -
  have empty: "dict_getd [] k zero_row = zero_row" for k :: string by (simp add: dict_getd_def)
  show ?thesis
    unfolding scan_packets_tables [of address_stats, OF error_leaves(9)]
      scan_packets_tables [of transport_stats, OF error_leaves(10)] rows_fold
    by (simp add: getd_rows empty_summary_def empty)
qed

section \<open>Flows\<close>

definition flow_of :: "dissection list \<Rightarrow> (int \<times> int \<times> nat) option" where
  "flow_of qs = (if qs = [] then None
     else Some (fst (hd qs), fst (last qs), sum_list (map (\<lambda>q. total_len (pkt q)) qs)))"

definition add_flow :: "dissection \<Rightarrow> (string, int \<times> int \<times> nat) dict \<Rightarrow> (string, int \<times> int \<times> nat) dict" where
  "add_flow q = add_interval (flow_key (pkt q)) (fst q) (total_len (pkt q))"

lemma get_flows: "dict_get (fold add_flow qs []) k = flow_of (filter (\<lambda>q. flow_key (pkt q) = k) qs)"
proof (induction qs rule: rev_induct)
  case (snoc q qs)
  then show ?case
    by (auto simp: add_flow_def add_interval_def dict_get_set flow_of_def hd_append split: option.splits if_splits)
qed (simp add: flow_of_def)

lemma flows_fold: "flow_intervals (snd (fold scan_step ps ws)) = fold add_flow (dissected ps) (flow_intervals (snd ws))"
  by (rule fold_table; simp add: snd_scan_step snd_scan_tcp Let_def account_def seen_def add_flow_def split: option.split)

definition reversed :: "fpacket \<Rightarrow> fpacket" where
  "reversed p = p\<lparr>src_ip := dst_ip p, dst_ip := src_ip p, src_port := dst_port p, dst_port := src_port p\<rparr>"

lemma keys_reversed: "flow_key (reversed p) = flow_key p" "server_ep (reversed p) = server_ep p"
proof -
  have k: "src_key (reversed p) = dst_key p" "dst_key (reversed p) = src_key p"
    by (simp_all add: reversed_def src_key_def dst_key_def)
  then show "flow_key (reversed p) = flow_key p"
    unfolding flow_key_def Let_def k by (cases "src_key p = dst_key p") auto
  show "server_ep (reversed p) = server_ep p"
    by (auto simp: server_ep_def server_side_endpoint_def reversed_def)
qed

text \<open>
  The connection timeline has one interval per flow, from the first packet of either
  direction to the last, with the bytes of both, and a packet and its reverse fall into the
  same flow and on the same server side.
\<close>

theorem flow_timeline:
  "dict_get (flow_intervals (scan_packets m ps)) k =
     flow_of (filter (\<lambda>q. flow_key (pkt q) = k) (dissected (take m ps)))
   \<and> flow_key (reversed p) = flow_key p \<and> server_ep (reversed p) = server_ep p"
  unfolding scan_packets_tables [of flow_intervals, OF error_leaves(11)] flows_fold
  by (simp add: empty_summary_def get_flows keys_reversed)

section \<open>A frame with one byte of data\<close>

definition data_frame :: bytes where
  "data_frame = [0, 0, 0, 0, 0, 0, 0, 0, 0, 0, 0, 0, 8, 0,
     0x45, 0, 0, 41, 0, 0, 0, 0, 0, 6, 0, 0, 10, 0, 0, 1, 10, 0, 0, 2,
     0x1F, 0x90, 1, 0xBB, 0, 0, 0, 9, 0, 0, 0, 0, 0x50, 0x10, 0, 0, 0, 0, 0, 0, 7]"

lemma data_frame_eth: "eth_type data_frame = (0x0800, 14)"
  by (simp add: eth_type_def data_frame_def be16_def)

lemma data_frame_packet: "\<exists>p. parse_frame_full data_frame = Some p \<and> is_tcp p \<and> payload p = [7] \<and> src_ip p = dotted [10, 0, 0, 1]"
  unfolding parse_frame_full_def data_frame_eth prod.case Let_def
  by (simp add: data_frame_def full_l4_def tcp_header_len_def is_tcp_def Let_def sub_def)

section \<open>What escapes a scan\<close>

text \<open>A section header and an interface description that ends in the head of a resolution option.\<close>

definition cut_capture :: bytes where
  "cut_capture = concat (map (write_block LE)
     [(block_section_header, shb_body), (block_interface_desc, [0, 0, 0, 0, 0, 0, 0, 0, 9, 0, 1, 0])])"


end
