(* ===== verification/Pcap_Resent.thy ===== *)
theory Pcap_Resent
  imports Pcap_Stats
begin

text \<open>
  Suspected retransmissions: the table of highest sequence numbers of a scan keeps, for each
  direction, the greatest segment end so far, so a segment counts exactly when an earlier
  segment of its direction ends at or above it.
\<close>

record seg =
  direction :: "string \<times> string"
  seg_end :: nat
  seg_ep :: string

text \<open>The segments the code looks at: TCP with data and a sequence number.\<close>

definition seg_of :: "bytes \<Rightarrow> seg option" where
  "seg_of f = (case parse_frame_full f of
       None \<Rightarrow> None
     | Some p \<Rightarrow> if is_tcp p \<and> payload p \<noteq> []
         then map_option (\<lambda>sq. \<lparr>direction = (src_key p, dst_key p), seg_end = seq_end sq p, seg_ep = server_ep p\<rparr>)
           (extract_tcp_seq f)
         else None)"

definition segs :: "(int \<times> bytes) list \<Rightarrow> seg list" where
  "segs ps = List.map_filter (\<lambda>(ts, f). seg_of f) ps"

lemma segs_simps [simp]:
  "segs [] = []"
  "segs ((ts, f) # ps) = (case seg_of f of None \<Rightarrow> segs ps | Some x \<Rightarrow> x # segs ps)"
  by (simp_all add: segs_def List.map_filter_simps split: option.split)

definition covered :: "seg list \<Rightarrow> seg \<Rightarrow> bool" where
  "covered before x = (\<exists>y \<in> set before. direction y = direction x \<and> seg_end x \<le> seg_end y)"

fun resent :: "seg list \<Rightarrow> seg list \<Rightarrow> seg list" where
  "resent before [] = []"
| "resent before (x # xs) = (if covered before x then [x] else []) @ resent (before @ [x]) xs"

section \<open>The table of highest sequence numbers\<close>

definition highest :: "seg list \<Rightarrow> watermarks \<Rightarrow> bool" where
  "highest before wm = (distinct (dict_keys wm) \<and> set (dict_keys wm) = direction ` set before \<and>
     (\<forall>k w. dict_get wm k = Some w \<longrightarrow> (\<exists>y \<in> set before. direction y = k \<and> seg_end y = w) \<and>
        (\<forall>y \<in> set before. direction y = k \<longrightarrow> seg_end y \<le> w)))"

lemma highest_Nil: "highest [] []"
  by (simp add: highest_def)

lemma highest_length: "highest before wm \<Longrightarrow> length wm = card (direction ` set before)"
  by (metis highest_def distinct_card length_map)

lemma highest_get:
  assumes "highest before wm" "dict_get wm k = Some w"
  shows "\<exists>y \<in> set before. direction y = k \<and> seg_end y = w"
    and "y \<in> set before \<Longrightarrow> direction y = k \<Longrightarrow> seg_end y \<le> w"
  using assms unfolding highest_def by blast+

lemma highest_none: "highest before wm \<Longrightarrow> dict_get wm k = None \<longleftrightarrow> k \<notin> direction ` set before"
  by (simp add: highest_def map_of_eq_None_iff)

lemma highest_set:
  assumes "highest before wm" "\<And>y. y \<in> set before \<Longrightarrow> direction y = direction x \<Longrightarrow> seg_end y \<le> seg_end x"
  shows "highest (before @ [x]) (dict_set (direction x) (seg_end x) wm)"
proof -
  have "distinct (dict_keys (dict_set (direction x) (seg_end x) wm))"
    using assms(1) by (simp add: highest_def alist.ok_put)
  moreover have "set (dict_keys (dict_set (direction x) (seg_end x) wm)) = direction ` set (before @ [x])"
    using assms(1) unfolding highest_def dict_keys_set by auto
  ultimately show ?thesis
    using assms unfolding highest_def dict_get_set by (simp del: split_paired_All split_paired_Ex)
qed

lemma highest_keep:
  assumes "highest before wm" "dict_get wm (direction x) = Some w" "seg_end x \<le> w"
  shows "highest (before @ [x]) wm"
proof -
  have "direction x \<in> direction ` set before"
    using highest_none [OF assms(1), of "direction x"] assms(2) by auto
  then have "direction ` set (before @ [x]) = direction ` set before" by auto
  moreover have "\<And>v. dict_get wm (direction x) = Some v \<Longrightarrow> v = w" using assms(2) by simp
  ultimately show ?thesis
    using assms(1,3) unfolding highest_def by (simp del: split_paired_All split_paired_Ex) metis
qed

lemma watermark_step_highest:
  assumes h: "highest before wm" and room: "card (direction ` set (before @ [x])) \<le> seq_watermark_cap"
  shows "\<exists>wm'. watermark_step (direction x) (seg_end x) wm = (wm', covered before x) \<and> highest (before @ [x]) wm'"
proof (cases "dict_get wm (direction x)")
  case None
  then have new: "direction x \<notin> direction ` set before" using highest_none [OF h] by blast
  then have "card (direction ` set (before @ [x])) = Suc (length wm)"
    by (simp add: highest_length [OF h])
  with room have "length wm < seq_watermark_cap" by linarith
  moreover have "\<not> covered before x" using new unfolding covered_def by (metis image_eqI)
  moreover have "highest (before @ [x]) (dict_set (direction x) (seg_end x) wm)"
    using new by (intro highest_set [OF h]) (metis image_eqI)
  ultimately show ?thesis using None by (simp add: watermark_step_def)
next
  case (Some w)
  note w = highest_get [OF h Some]
  show ?thesis
  proof (cases "seg_end x \<le> w")
    case True
    with w(1) have "covered before x" by (auto simp: covered_def)
    with True Some show ?thesis by (simp add: watermark_step_def highest_keep [OF h])
  next
    case False
    with w(2) have le: "\<And>y. y \<in> set before \<Longrightarrow> direction y = direction x \<Longrightarrow> seg_end y \<le> seg_end x"
      by (meson le_trans nat_le_linear)
    have "\<not> covered before x" using w(2) False by (force simp: covered_def)
    with False Some show ?thesis by (simp add: watermark_step_def highest_set [OF h le])
  qed
qed

section \<open>Along a scan\<close>

lemma other_leaves [simp]:
  "tcp_retransmits (account ts n p s) = tcp_retransmits s"
  "tcp_retransmits (seen ts s) = tcp_retransmits s"
  by (simp_all add: account_def seen_def)

lemma scan_step_no_seg:
  assumes "seg_of f = None"
  shows "fst (scan_step (ts, f) ws) = fst ws \<and>
    tcp_retransmits (snd (scan_step (ts, f) ws)) = tcp_retransmits (snd ws)"
  using assms
  by (auto simp: scan_step_def scan_tcp_def seg_of_def count_retransmit_def is_tcp_def Let_def
      split: option.splits prod.splits if_splits)

lemma scan_step_seg:
  assumes "seg_of f = Some x" "watermark_step (direction x) (seg_end x) wm = (wm', again)"
  shows "fst (scan_step (ts, f) (wm, s)) = wm' \<and>
    tcp_retransmits (snd (scan_step (ts, f) (wm, s))) =
      (if again then dict_add (seg_ep x) 1 (tcp_retransmits s) else tcp_retransmits s)"
  using assms
  by (auto simp: scan_step_def scan_tcp_def seg_of_def count_retransmit_def is_tcp_def Let_def
      split: option.splits prod.splits if_splits)

lemma resent_scan:
  assumes "highest before wm" "card (direction ` set (before @ segs ps)) \<le> seq_watermark_cap"
  shows "tcp_retransmits (snd (fold scan_step ps (wm, s)))
    = fold (\<lambda>x. dict_add (seg_ep x) 1) (resent before (segs ps)) (tcp_retransmits s)"
  using assms
proof (induction ps arbitrary: before wm s)
  case (Cons p ps)
  obtain ts f where p: "p = (ts, f)" by (cases p)
  obtain wm2 s2 where step: "scan_step (ts, f) (wm, s) = (wm2, s2)" by (cases "scan_step (ts, f) (wm, s)")
  show ?case
  proof (cases "seg_of f")
    case None
    with scan_step_no_seg [OF this, of ts "(wm, s)"] step have "wm2 = wm" "tcp_retransmits s2 = tcp_retransmits s"
      by simp_all
    with Cons None show ?thesis by (simp add: p step)
  next
    case (Some x)
    have "card (direction ` set (before @ [x])) \<le> card (direction ` set (before @ segs (p # ps)))"
      by (rule card_mono) (auto simp: p Some)
    with Cons.prems(2) have "card (direction ` set (before @ [x])) \<le> seq_watermark_cap" by linarith
    from watermark_step_highest [OF Cons.prems(1) this] obtain wm'
      where w: "watermark_step (direction x) (seg_end x) wm = (wm', covered before x)" "highest (before @ [x]) wm'"
      by blast
    from scan_step_seg [OF Some w(1), of ts s] step
    have s2: "wm2 = wm'" "tcp_retransmits s2 = (if covered before x then dict_add (seg_ep x) 1 (tcp_retransmits s) else tcp_retransmits s)"
      by simp_all
    have "card (direction ` set ((before @ [x]) @ segs ps)) \<le> seq_watermark_cap"
      using Cons.prems(2) by (simp add: p Some)
    from Cons.IH [OF w(2) this, of s2] show ?thesis
      by (simp add: p step Some s2)
  qed
qed simp

text \<open>
  C7: with at most 10000 directions, the suspected retransmissions charged to a server side are
  the segments whose end does not pass every earlier end of their direction.
\<close>

theorem resent_counts:
  assumes "card (direction ` set (segs (take m ps))) \<le> 10000"
  shows "dict_getd (tcp_retransmits (scan_packets m ps)) ep 0
    = length (filter (\<lambda>x. seg_ep x = ep) (resent [] (segs (take m ps))))"
proof -
  have "card (direction ` set ([] @ segs (take m ps))) \<le> seq_watermark_cap"
    using assms by (simp add: seq_watermark_cap_def)
  from resent_scan [OF highest_Nil this, of empty_summary]
  have "tcp_retransmits (snd (fold scan_step (take m ps) ([], empty_summary)))
      = fold (\<lambda>x. dict_add (seg_ep x) 1) (resent [] (segs (take m ps))) []"
    by (simp add: empty_summary_def)
  then show ?thesis
    unfolding scan_packets_tables [of tcp_retransmits, OF error_leaves(12)]
    by (simp only: getd_fold_add) (simp add: tally_def dict_getd_def sum_list_triv)
qed

lemma data_frame_seg: "\<exists>x. seg_of data_frame = Some x"
proof -
  have "\<exists>n. extract_tcp_seq data_frame = Some n"
    unfolding extract_tcp_seq_def data_frame_eth prod.case Let_def by (simp add: data_frame_def Let_def)
  then show ?thesis using data_frame_packet by (auto simp: seg_of_def)
qed

theorem resent_counts_witness:
  "\<exists>x. seg_of data_frame = Some x \<and>
     dict_getd (tcp_retransmits (scan_packets 9 [(1, data_frame), (2, data_frame), (3, data_frame)])) (seg_ep x) 0 = 2"
proof -
  obtain x where x: "seg_of data_frame = Some x" using data_frame_seg by blast
  then have "segs (take 9 [(1, data_frame), (2, data_frame), (3, data_frame)]) = [x, x, x]" by simp
  with resent_counts [of 9 "[(1, data_frame), (2, data_frame), (3, data_frame)]" "seg_ep x"] x show ?thesis
    by (auto simp: covered_def)
qed

end
