(* ===== verification/Pcap_Streams.thy ===== *)
theory Pcap_Streams
  imports Pcap_Scan
begin

unbundle bit_operations_syntax

text \<open>
  Following streams (\<open>follow_streams\<close> of \<open>zcc_diag/pcap_review.py\<close>): the flows that have a packet
  matching a query, each with its packets of both directions.  The order of a Python set is an
  argument, and the sentence that says what matched is a value: its text uses characters
  beyond Latin-1.
\<close>

section \<open>Flags and previews\<close>

definition flag_names :: "(8 word \<times> string) list" where
  "flag_names = [(0x02, ''SYN''), (0x10, ''ACK''), (0x08, ''PSH''), (0x01, ''FIN''), (0x04, ''RST''), (0x20, ''URG'')]"

definition format_tcp_flags :: "8 word \<Rightarrow> string" where
  "format_tcp_flags b = (if b = 0 then [] else
     join_with '' '' (map snd (filter (\<lambda>(m, n). b AND m \<noteq> 0) flag_names)))"

definition preview_char :: "8 word \<Rightarrow> char" where
  "preview_char b = (if 32 \<le> unat b \<and> unat b < 127 then char_of (unat b)
     else if unat b = 9 \<or> unat b = 10 \<or> unat b = 13 then CHR '' '' else CHR ''.'')"

fun preview_loop :: "nat \<Rightarrow> string \<Rightarrow> bytes \<Rightarrow> string" where
  "preview_loop limit out [] = out"
| "preview_loop limit out (b # bs) = (let out' = out @ [preview_char b] in
     if limit \<le> length out' then out' else preview_loop limit out' bs)"

definition printable_preview :: "bytes \<Rightarrow> nat \<Rightarrow> string" where
  "printable_preview p limit = (if p = [] then [] else rstrip_by py_isspace (preview_loop limit [] (take (limit * 2) p)))"

section \<open>Flows\<close>

type_synonym endpoint = "string \<times> nat"
type_synonym fkey = "string \<times> endpoint \<times> endpoint"

record stream_packet =
  sp_ts :: int
  sp_direction :: string
  sp_src_ip :: string
  sp_src_port :: nat
  sp_dst_ip :: string
  sp_dst_port :: nat
  sp_proto :: string
  sp_length :: nat
  sp_tcp_flags :: string
  sp_preview :: string

record flow =
  flow_proto :: string
  endpoint_a :: string
  endpoint_b :: string
  first_ts :: int
  last_ts :: int
  packet_count :: nat
  bytes_total :: nat
  flow_packets :: "stream_packet list"

datatype match_reason = MatchIp string string | MatchPort nat nat | MatchPayload string

definition canonical :: "fpacket \<Rightarrow> endpoint \<times> endpoint" where
  "canonical p = (let a = (src_ip p, src_port p); b = (dst_ip p, dst_port p) in if b < a then (b, a) else (a, b))"

definition fkey :: "fpacket \<Rightarrow> fkey" where
  "fkey p = (proto p, canonical p)"

definition show_endpoint :: "endpoint \<Rightarrow> string" where
  "show_endpoint e = fst e @ '':'' @ str_of_nat (snd e)"

definition new_flow :: "int \<Rightarrow> fpacket \<Rightarrow> flow" where
  "new_flow ts p = \<lparr>flow_proto = proto p, endpoint_a = show_endpoint (fst (canonical p)),
     endpoint_b = show_endpoint (snd (canonical p)), first_ts = ts, last_ts = ts,
     packet_count = 0, bytes_total = 0, flow_packets = []\<rparr>"

definition snippet :: "string \<Rightarrow> string \<Rightarrow> string" where
  "snippet q preview = (case find_sub q (py_lower preview) of
       None \<Rightarrow> []
     | Some i \<Rightarrow> Py_Prelude.slice preview (i - 20) (i + length q + 20))"

definition match_packet :: "string \<Rightarrow> fpacket \<Rightarrow> match_reason option" where
  "match_packet q p =
     (if occurs q (py_lower (src_ip p)) \<or> occurs q (py_lower (dst_ip p)) then Some (MatchIp (src_ip p) (dst_ip p))
      else if q \<noteq> [] \<and> list_all py_isdigit q \<and> q \<in> {str_of_nat (src_port p), str_of_nat (dst_port p)}
      then Some (MatchPort (src_port p) (dst_port p))
      else if payload p \<noteq> []
      then (let preview = printable_preview (payload p) 300 in
        if occurs q (py_lower preview) then Some (MatchPayload (snippet q preview)) else None)
      else None)"

definition stream_packet_of :: "int \<Rightarrow> fpacket \<Rightarrow> stream_packet" where
  "stream_packet_of ts p = \<lparr>sp_ts = ts,
     sp_direction = (if (src_ip p, src_port p) = fst (canonical p) then ''->'' else ''<-''),
     sp_src_ip = src_ip p, sp_src_port = src_port p, sp_dst_ip = dst_ip p, sp_dst_port = dst_port p,
     sp_proto = proto p, sp_length = total_len p, sp_tcp_flags = format_tcp_flags (flags p),
     sp_preview = printable_preview (payload p) 60\<rparr>"

definition add_packet :: "nat \<Rightarrow> int \<Rightarrow> fpacket \<Rightarrow> flow \<Rightarrow> flow" where
  "add_packet cap ts p f = f\<lparr>last_ts := ts, packet_count := packet_count f + 1,
     bytes_total := bytes_total f + total_len p,
     flow_packets := (if length (flow_packets f) < cap then flow_packets f @ [stream_packet_of ts p] else flow_packets f)\<rparr>"

text \<open>The flows, and for the matched ones what matched.\<close>

type_synonym follow_state = "(fkey, flow) dict \<times> (fkey, match_reason) dict"

definition follow_step :: "string \<Rightarrow> nat \<Rightarrow> int \<times> bytes \<Rightarrow> follow_state \<Rightarrow> follow_state" where
  "follow_step q cap pkt st = (case pkt of (ts, frame) \<Rightarrow> case parse_frame_full frame of
       None \<Rightarrow> st
     | Some p \<Rightarrow> (case st of (flows, matched) \<Rightarrow>
         let k = fkey p;
             f = dict_getd flows k (new_flow ts p);
             matched' = (if k \<in> set (dict_keys matched) then matched
               else case match_packet q p of None \<Rightarrow> matched | Some r \<Rightarrow> dict_set k r matched) in
         (dict_set k (add_packet cap ts p f) flows, matched')))"

section \<open>The matches\<close>

record stream_match =
  stream_id :: nat
  stream_flow :: flow
  matched_by :: match_reason

definition follow_packets ::
    "(fkey list \<Rightarrow> fkey list) \<Rightarrow> string \<Rightarrow> nat \<Rightarrow> nat \<Rightarrow> (int \<times> bytes) list \<Rightarrow> stream_match list" where
  "follow_packets set_order q cap max_streams ps =
     (case fold (follow_step q cap) ps ([], []) of (flows, matched) \<Rightarrow>
        let ks = sort_key (\<lambda>k. first_ts (the (dict_get flows k))) (set_order (dict_keys matched)) in
        map (\<lambda>(i, k). \<lparr>stream_id = i, stream_flow = the (dict_get flows k), matched_by = the (dict_get matched k)\<rparr>)
          (zip [0..<length ks] (take max_streams ks)))"

text \<open>Every exception ends the packet loop and is dropped.\<close>

definition packets_in :: "opened \<Rightarrow> (int \<times> bytes) list" where
  "packets_in file = (case file of Content bs \<Rightarrow> fst (read_pcapng bs) | _ \<Rightarrow> [])"

definition follow_streams ::
    "(fkey list \<Rightarrow> fkey list) \<Rightarrow> string \<Rightarrow> nat \<Rightarrow> nat \<Rightarrow> nat \<Rightarrow> opened \<Rightarrow> stream_match list" where
  "follow_streams set_order query cap max_streams max_scanned file =
     (let q = py_lower (py_strip query) in
      if q = [] then []
      else follow_packets set_order q cap max_streams (take max_scanned (packets_in file)))"

end
