(* ===== verification/Pcap_Follow.thy ===== *)
theory Pcap_Follow
  imports Pcap_Streams Pcap_Stats Pcap_Roundtrip "HOL-Library.Multiset"
begin

text \<open>
  The streams a search returns: each is a whole flow, its counters are those of all its
  dissected packets, and the flows returned are the earliest of those with a matching packet.
\<close>

section \<open>What a followed stream holds\<close>

definition flow_summary :: "nat \<Rightarrow> dissection list \<Rightarrow> flow option" where
  "flow_summary cap qs = (if qs = [] then None else Some
     \<lparr>flow_proto = proto (pkt (hd qs)), endpoint_a = show_endpoint (fst (canonical (pkt (hd qs)))),
      endpoint_b = show_endpoint (snd (canonical (pkt (hd qs)))), first_ts = fst (hd qs), last_ts = fst (last qs),
      packet_count = length qs, bytes_total = sum_list (map (\<lambda>q. total_len (pkt q)) qs),
      flow_packets = take cap (map (\<lambda>q. stream_packet_of (fst q) (pkt q)) qs)\<rparr>)"

definition of_flow :: "fkey \<Rightarrow> dissection list \<Rightarrow> dissection list" where
  "of_flow k qs = filter (\<lambda>q. fkey (pkt q) = k) qs"

definition reasons :: "string \<Rightarrow> dissection list \<Rightarrow> match_reason list" where
  "reasons q qs = List.map_filter (\<lambda>d. match_packet q (pkt d)) qs"

definition follow_dissected :: "string \<Rightarrow> nat \<Rightarrow> dissection \<Rightarrow> follow_state \<Rightarrow> follow_state" where
  "follow_dissected q cap d st = (case d of (ts, _, p) \<Rightarrow> case st of (flows, matched) \<Rightarrow>
     (dict_set (fkey p) (add_packet cap ts p (dict_getd flows (fkey p) (new_flow ts p))) flows,
      if fkey p \<in> set (dict_keys matched) then matched
      else case match_packet q p of None \<Rightarrow> matched | Some r \<Rightarrow> dict_set (fkey p) r matched))"

lemma follow_step_dissected: "follow_step q cap (ts, f) st =
    (case parse_frame_full f of None \<Rightarrow> st | Some p \<Rightarrow> follow_dissected q cap (ts, length f, p) st)"
  by (cases st) (simp add: follow_step_def follow_dissected_def Let_def split: option.split)

lemma follow_fold: "fold (follow_step q cap) ps st = fold (follow_dissected q cap) (dissected ps) st"
proof (induction ps arbitrary: st)
  case (Cons x ps)
  obtain ts f where x: "x = (ts, f)" by (cases x)
  show ?case
    by (cases "parse_frame_full f") (simp_all add: Cons.IH x follow_step_dissected)
qed simp

lemma add_packet_summary:
  "add_packet cap ts p (case flow_summary cap qs of None \<Rightarrow> new_flow ts p | Some f \<Rightarrow> f)
    = the (flow_summary cap (qs @ [(ts, n, p)]))"
  by (auto simp: flow_summary_def add_packet_def new_flow_def hd_append)

lemma flow_summary_Some: "flow_summary cap (qs @ [d]) = Some (the (flow_summary cap (qs @ [d])))"
  by (simp add: flow_summary_def)

lemma reasons_append: "reasons q (qs @ [d]) = reasons q qs @ (case match_packet q (pkt d) of None \<Rightarrow> [] | Some r \<Rightarrow> [r])"
  by (simp add: reasons_def map_filter_def split: option.split)

lemma follow_state:
  "\<exists>flows matched. fold (follow_dissected q cap) ds ([], []) = (flows, matched) \<and> distinct (dict_keys matched)
    \<and> (\<forall>k. dict_get flows k = flow_summary cap (of_flow k ds))
    \<and> (\<forall>k. dict_get matched k = (case reasons q (of_flow k ds) of [] \<Rightarrow> None | r # _ \<Rightarrow> Some r))"
proof (induction ds rule: rev_induct)
  case Nil
  then show ?case by (simp add: of_flow_def flow_summary_def reasons_def List.map_filter_simps)
next
  case (snoc d ds)
  obtain ts n p where d: "d = (ts, n, p)" by (cases d) auto
  from snoc obtain flows matched where st: "fold (follow_dissected q cap) ds ([], []) = (flows, matched)"
    and dist: "distinct (dict_keys matched)"
    and fl: "\<And>k. dict_get flows k = flow_summary cap (of_flow k ds)"
    and ma: "\<And>k. dict_get matched k = (case reasons q (of_flow k ds) of [] \<Rightarrow> None | r # _ \<Rightarrow> Some r)"
    by blast
  let ?k = "fkey p"
  have of: "of_flow k (ds @ [d]) = of_flow k ds @ (if k = ?k then [d] else [])" for k
    by (simp add: of_flow_def d)
  have "dict_getd flows ?k (new_flow ts p) = (case flow_summary cap (of_flow ?k ds) of None \<Rightarrow> new_flow ts p | Some f \<Rightarrow> f)"
    by (simp add: dict_getd_def fl)
  then have f: "add_packet cap ts p (dict_getd flows ?k (new_flow ts p)) = the (flow_summary cap (of_flow ?k ds @ [d]))"
    unfolding d by (simp only: add_packet_summary [of cap ts p "of_flow ?k ds" n])
  define matched' where "matched' = (if ?k \<in> set (dict_keys matched) then matched
    else case match_packet q p of None \<Rightarrow> matched | Some r \<Rightarrow> dict_set ?k r matched)"
  have key: "?k \<in> set (dict_keys matched) \<longleftrightarrow> reasons q (of_flow ?k ds) \<noteq> []"
  proof -
    have "?k \<in> set (dict_keys matched) \<longleftrightarrow> dict_get matched ?k \<noteq> None" by (simp add: map_of_eq_None_iff)
    then show ?thesis unfolding ma by (simp split: list.split)
  qed
  have m: "dict_get matched' k = (case reasons q (of_flow k (ds @ [d])) of [] \<Rightarrow> None | r # _ \<Rightarrow> Some r)" for k
  proof -
    have "dict_get matched' k = (if k = ?k \<and> ?k \<notin> set (dict_keys matched)
        then (case match_packet q p of None \<Rightarrow> dict_get matched k | Some r \<Rightarrow> Some r) else dict_get matched k)"
      unfolding matched'_def by (cases "match_packet q p") (auto simp: dict_get_set)
    moreover have "reasons q (of_flow k (ds @ [d])) = reasons q (of_flow k ds) @
        (if k = ?k then (case match_packet q p of None \<Rightarrow> [] | Some r \<Rightarrow> [r]) else [])"
      unfolding of by (simp add: reasons_append) (simp add: d)
    ultimately show ?thesis
      unfolding key ma by (cases "k = ?k"; cases "reasons q (of_flow k ds)"; cases "match_packet q p") simp_all
  qed
  have "distinct (dict_keys matched')"
    unfolding matched'_def using dist by (auto simp: alist.ok_put split: option.split)
  moreover have "fold (follow_dissected q cap) (ds @ [d]) ([], [])
      = (dict_set ?k (the (flow_summary cap (of_flow ?k ds @ [d]))) flows, matched')"
    by (simp add: st d follow_dissected_def matched'_def) (simp add: f [unfolded d])
  moreover have "dict_get (dict_set ?k (the (flow_summary cap (of_flow ?k ds @ [d]))) flows) k
      = flow_summary cap (of_flow k (ds @ [d]))" for k
    by (simp add: dict_get_set fl of) (metis flow_summary_Some)
  ultimately show ?case using m by blast
qed

section \<open>The streams returned\<close>

definition stream_start :: "dissection list \<Rightarrow> fkey \<Rightarrow> int" where
  "stream_start ds k = fst (hd (of_flow k ds))"

definition matching :: "string \<Rightarrow> dissection list \<Rightarrow> fkey set" where
  "matching q ds = {k. reasons q (of_flow k ds) \<noteq> []}"

text \<open>The stream of a flow, from its dissected packets.\<close>

definition stream_spec :: "string \<Rightarrow> nat \<Rightarrow> dissection list \<Rightarrow> nat \<times> fkey \<Rightarrow> stream_match" where
  "stream_spec q cap ds ik = \<lparr>stream_id = fst ik, stream_flow = the (flow_summary cap (of_flow (snd ik) ds)),
     matched_by = hd (reasons q (of_flow (snd ik) ds))\<rparr>"

lemma matching_flow: "k \<in> matching q ds \<Longrightarrow> of_flow k ds \<noteq> []"
  by (auto simp: matching_def reasons_def List.map_filter_simps)

lemma sorted_take_drop:
  assumes "sorted (map f xs)" "x \<in> set (take n xs)" "y \<in> set (drop n xs)"
  shows "f x \<le> f y"
proof -
  have "sorted (map f (take n xs) @ map f (drop n xs))"
    using assms(1) by (metis append_take_drop_id map_append)
  with assms(2,3) show ?thesis by (auto simp: sorted_append)
qed

text \<open>The matching flows in the order of their first packet, cut at a number of streams.\<close>

lemma earliest_first:
  fixes start :: "'k \<Rightarrow> int" and n :: nat
  assumes "distinct xs" "mset ys = mset xs" "sorted (map start ys)"
  defines "ks \<equiv> take n ys"
  shows "distinct ks" "set ks \<subseteq> set xs" "length ks = min n (card (set xs))" "sorted (map start ks)"
    "\<forall>k \<in> set xs - set ks. \<forall>j \<in> set ks. start j \<le> start k"
proof -
  have set: "set ys = set xs" using assms(2) by (metis set_mset_mset)
  have dy: "distinct ys" using assms(1,2) by (metis mset_eq_imp_distinct_iff)
  show "distinct ks" using dy by (simp add: ks_def)
  show "set ks \<subseteq> set xs" using set by (metis ks_def set_take_subset)
  show "length ks = min n (card (set xs))" using distinct_card [OF dy] set by (simp add: ks_def min.commute)
  show "sorted (map start ks)" unfolding ks_def using assms(3) by (metis sorted_wrt_take take_map)
  show "\<forall>k \<in> set xs - set ks. \<forall>j \<in> set ks. start j \<le> start k"
  proof (intro ballI)
    fix k j assume k: "k \<in> set xs - set ks" and j: "j \<in> set ks"
    have "set ys = set ks \<union> set (drop n ys)" unfolding ks_def by (metis append_take_drop_id set_append)
    then have "k \<in> set (drop n ys)" using k set by blast
    with j show "start j \<le> start k" using sorted_take_drop [OF assms(3)] unfolding ks_def by blast
  qed
qed

lemma follow_packets_spec:
  assumes order: "\<And>ks. mset (set_order ks) = mset ks"
  shows "\<exists>ks. follow_packets set_order q cap max_streams ps
        = map (stream_spec q cap (dissected ps)) (zip [0..<length ks] ks)
    \<and> distinct ks \<and> set ks \<subseteq> matching q (dissected ps)
    \<and> length ks = min max_streams (card (matching q (dissected ps)))
    \<and> sorted (map (stream_start (dissected ps)) ks)
    \<and> (\<forall>k \<in> matching q (dissected ps) - set ks. \<forall>j \<in> set ks. stream_start (dissected ps) j \<le> stream_start (dissected ps) k)"
proof -
  let ?ds = "dissected ps"
  obtain flows matched where st: "fold (follow_step q cap) ps ([], []) = (flows, matched)"
    and dist: "distinct (dict_keys matched)"
    and fl: "\<And>k. dict_get flows k = flow_summary cap (of_flow k ?ds)"
    and ma: "\<And>k. dict_get matched k = (case reasons q (of_flow k ?ds) of [] \<Rightarrow> None | r # _ \<Rightarrow> Some r)"
    using follow_state [of q cap ?ds] unfolding follow_fold by blast
  define all where "all = sort_key (\<lambda>k. first_ts (the (dict_get flows k))) (set_order (dict_keys matched))"
  define ks where "ks = take max_streams all"
  have keys: "set (dict_keys matched) = matching q ?ds"
  proof (rule set_eqI)
    fix k
    have "k \<in> set (dict_keys matched) \<longleftrightarrow> dict_get matched k \<noteq> None" by (simp add: map_of_eq_None_iff)
    then show "k \<in> set (dict_keys matched) \<longleftrightarrow> k \<in> matching q ?ds"
      unfolding ma matching_def by (simp split: list.split)
  qed
  have mset: "mset all = mset (dict_keys matched)" by (simp add: all_def order)
  then have set: "set all = matching q ?ds" using keys by (metis set_mset_mset)
  have first: "first_ts (the (dict_get flows k)) = stream_start ?ds k" if "k \<in> matching q ?ds" for k
    using matching_flow [OF that] by (simp add: fl flow_summary_def stream_start_def)
  have "map (\<lambda>k. first_ts (the (dict_get flows k))) all = map (stream_start ?ds) all"
    by (rule map_cong [OF refl]) (simp add: first set)
  then have sorted: "sorted (map (stream_start ?ds) all)"
    unfolding all_def by (metis sorted_sort_key)
  let ?built = "\<lambda>(i, k). \<lparr>stream_id = i, stream_flow = the (dict_get flows k), matched_by = the (dict_get matched k)\<rparr>"
  have "zip [0..<length all] ks = zip [0..<length ks] ks"
    by (rule nth_equalityI) (simp_all add: ks_def)
  then have "follow_packets set_order q cap max_streams ps = map ?built (zip [0..<length ks] ks)"
    by (simp add: follow_packets_def st all_def ks_def Let_def)
  moreover have "?built ik = stream_spec q cap ?ds ik" if "ik \<in> set (zip [0..<length ks] ks)" for ik
  proof -
    have "snd ik \<in> set ks" using that by (metis in_set_zipE prod.collapse)
    then have "reasons q (of_flow (snd ik) ?ds) \<noteq> []" using set by (auto simp: ks_def matching_def dest: in_set_takeD)
    then show ?thesis
      by (cases "reasons q (of_flow (snd ik) ?ds)") (auto simp: stream_spec_def fl ma split: prod.split)
  qed
  ultimately have eq: "follow_packets set_order q cap max_streams ps = map (stream_spec q cap ?ds) (zip [0..<length ks] ks)"
    by (metis (no_types, lifting) map_cong)
  with earliest_first [OF dist mset sorted, of max_streams] show ?thesis
    unfolding keys ks_def [symmetric] by (intro exI [of _ ks]) simp
qed

text \<open>
  C8: following streams returns the earliest flows that have a packet matching the query, at
  most the limit, numbered in order of their start; each stream counts every dissected packet
  of its flow in both directions, keeps the first of them up to the cap and names the first
  match, whatever order the set of matched flows has.
\<close>

theorem followed_streams:
  assumes "\<And>ks. mset (set_order ks) = mset ks" "py_strip query \<noteq> []"
  shows "let q = py_lower (py_strip query); ds = dissected (take max_scanned (packets_in file)) in
    \<exists>ks. follow_streams set_order query cap max_streams max_scanned file
        = map (stream_spec q cap ds) (zip [0..<length ks] ks)
    \<and> distinct ks \<and> set ks \<subseteq> matching q ds \<and> length ks = min max_streams (card (matching q ds))
    \<and> sorted (map (stream_start ds) ks)
    \<and> (\<forall>k \<in> matching q ds - set ks. \<forall>j \<in> set ks. stream_start ds j \<le> stream_start ds k)"
proof -
  have "py_lower (py_strip query) \<noteq> []" using assms(2) by (simp add: py_lower_def)
  then show ?thesis
    using follow_packets_spec [OF assms(1)] unfolding follow_streams_def Let_def by (simp only: if_False)
qed

lemma dotted_has_dot: "occurs ''.'' (py_lower (dotted [a, b, c, d]))"
proof -
  have "CHR ''.'' \<in> set (py_lower (dotted [a, b, c, d]))"
    by (auto simp: dotted_def py_lower_def lower_char_def)
  then show ?thesis unfolding occurs_iff_sublist by (metis append_Cons append_Nil in_set_conv_decomp sublist_def)
qed

theorem followed_streams_witness:
  "length (follow_streams rev '' . '' 200 10 500000 (Content (capture [(1, data_frame), (2, data_frame)]))) = 1"
proof -
  have s: "py_strip '' . '' = ''.''" "py_lower ''.'' = ''.''" by code_simp+
  obtain p where p: "parse_frame_full data_frame = Some p" "src_ip p = dotted [10, 0, 0, 1]"
    using data_frame_packet by blast
  have "list_all packet_ok [(1, data_frame), (2, data_frame)]" by (simp add: packet_ok_def data_frame_def)
  from capture_read [OF this]
  have in_file: "packets_in (Content (capture [(1, data_frame), (2, data_frame)])) =
      [(epoch_us + 1, data_frame), (epoch_us + 2, data_frame)]"
    by (simp add: packets_in_def)
  let ?ds = "[(epoch_us + 1, length data_frame, p), (epoch_us + 2, length data_frame, p)]"
  have ds: "dissected (take 500000 (packets_in (Content (capture [(1, data_frame), (2, data_frame)])))) = ?ds"
    unfolding in_file by (simp add: p)
  have "\<exists>r. match_packet ''.'' p = Some r"
    by (simp add: match_packet_def p dotted_has_dot)
  then have "matching ''.'' ?ds = {fkey p}"
    by (auto simp: matching_def reasons_def of_flow_def List.map_filter_simps)
  then have "card (matching ''.'' ?ds) = 1" by simp
  with followed_streams [of rev "'' . ''" 500000 "Content (capture [(1, data_frame), (2, data_frame)])" 200 10]
  show ?thesis unfolding s ds Let_def by auto
qed

end
