(* ===== verification/Pcap_Report.thy ===== *)
theory Pcap_Report
  imports Pcap_Scan
begin

text \<open>
  The reports on captures (\<open>render_summary\<close> and \<open>render_correlation\<close> of
  \<open>zcc_diag/pcap_review.py\<close>): the tables sorted by count, and the verdict on each finding.  The
  texts around the values, and the printing of dates and distances, are left out.
\<close>

section \<open>The tables\<close>

text \<open>\<open>sorted(m.items(), key=lambda kv: (-kv[1], kv[0]))\<close>\<close>

definition count_order :: "string \<times> nat \<Rightarrow> int \<times> string" where
  "count_order kv = (- int (snd kv), fst kv)"

record table =
  table_size :: nat
  table_rows :: "(string \<times> nat) list"
  table_more :: nat

definition block_table :: "nat \<Rightarrow> (string, nat) dict \<Rightarrow> table option" where
  "block_table cap d = (if d = [] then None
     else Some \<lparr>table_size = length d, table_rows = take cap (sort_key count_order d),
       table_more = (if cap < length d then length d - cap else 0)\<rparr>)"

text \<open>The addresses behind an SNI host: the first three in order, and how many more.\<close>

definition sni_extra :: "pcap_summary \<Rightarrow> string \<Rightarrow> (string list \<times> nat) option" where
  "sni_extra s host = (let ips = sorted_list_of_set (dict_getd (sni_to_ips s) host {}) in
     if ips = [] then None else Some (take 3 ips, length ips - 3))"

datatype report = NoPackets "string list"
  | Report (report_errors: "string list") (report_dns: "table option") (report_sni: "table option") (report_ips: "table option")

definition render_summary :: "nat \<Rightarrow> pcap_summary \<Rightarrow> report" where
  "render_summary max_rows s =
     (if total_packets s = 0 then NoPackets (parse_errors s)
      else Report (parse_errors s) (block_table max_rows (dns_queries s)) (block_table max_rows (sni_hosts s))
        (block_table max_rows (dest_ips s)))"

section \<open>Findings against capture windows\<close>

definition window_distance :: "pcap_summary \<Rightarrow> int \<Rightarrow> int option" where
  "window_distance s ts = (case (ts_first s, ts_last s) of
       (Some a, Some b) \<Rightarrow> Some (if ts < a then a - ts else if b < ts then ts - b else 0)
     | _ \<Rightarrow> None)"

fun nearest :: "int \<Rightarrow> (int \<times> string) option \<Rightarrow> (string \<times> pcap_summary) list \<Rightarrow> (int \<times> string) option" where
  "nearest ts best [] = best"
| "nearest ts best ((name, s) # rest) = (case window_distance s ts of
       None \<Rightarrow> nearest ts best rest
     | Some d \<Rightarrow> nearest ts
         (case best of None \<Rightarrow> Some (d, name) | Some (d', n') \<Rightarrow> if d < d' then Some (d, name) else Some (d', n')) rest)"

datatype verdict = CoveredBy "string list" | NotCovered int string | NoWindow

definition correlate :: "(string \<times> pcap_summary) list \<Rightarrow> int \<Rightarrow> verdict" where
  "correlate summaries ts = (let hits = map fst (filter (\<lambda>(name, s). covers s ts) summaries) in
     if hits \<noteq> [] then CoveredBy hits
     else case nearest ts None summaries of Some (d, name) \<Rightarrow> NotCovered d name | None \<Rightarrow> NoWindow)"

datatype correlation = NoPcaps | NoFindings | Verdicts "(string \<times> int \<times> verdict) list"

definition render_correlation :: "(string \<times> pcap_summary) list \<Rightarrow> (string \<times> int) list \<Rightarrow> correlation" where
  "render_correlation summaries finding_times =
     (if summaries = [] then NoPcaps
      else if finding_times = [] then NoFindings
      else Verdicts (map (\<lambda>(label, ts). (label, ts, correlate summaries ts)) finding_times))"

section \<open>The nearest window\<close>

definition distances :: "(string \<times> pcap_summary) list \<Rightarrow> int \<Rightarrow> (int \<times> string) list" where
  "distances summaries ts = List.map_filter (\<lambda>(name, s). map_option (\<lambda>d. (d, name)) (window_distance s ts)) summaries"

lemma distances_Cons: "distances ((name, s) # rest) ts = (case window_distance s ts of
    None \<Rightarrow> distances rest ts | Some d \<Rightarrow> (d, name) # distances rest ts)"
  by (simp add: distances_def List.map_filter_simps split: option.split)

definition least_first :: "(int \<times> string) list \<Rightarrow> int \<times> string \<Rightarrow> bool" where
  "least_first ds b = (\<exists>xs ys. ds = xs @ b # ys \<and> (\<forall>x \<in> set xs. fst b < fst x) \<and> (\<forall>y \<in> set ys. fst b \<le> fst y))"

lemma nearest_least: "nearest ts best rest = (case (case best of None \<Rightarrow> [] | Some b \<Rightarrow> [b]) @ distances rest ts of
    [] \<Rightarrow> None | d # ds \<Rightarrow> Some (fold (\<lambda>x b. if fst x < fst b then x else b) ds d))"
  by (induction ts best rest rule: nearest.induct)
    (auto simp: distances_Cons distances_def List.map_filter_simps split: option.splits)

lemma fold_least: "least_first (d # ds) (fold (\<lambda>x b. if fst x < fst b then x else b) ds d)"
proof (induction ds arbitrary: d rule: rev_induct)
  case Nil
  have "[d] = [] @ d # []" by simp
  then show ?case unfolding least_first_def by fastforce
next
  case (snoc x ds)
  define b where "b = fold (\<lambda>x b. if fst x < fst b then x else b) ds d"
  obtain xs ys where split: "d # ds = xs @ b # ys" and xs: "\<forall>z \<in> set xs. fst b < fst z" and ys: "\<forall>y \<in> set ys. fst b \<le> fst y"
    using snoc [of d] unfolding least_first_def b_def [symmetric] by blast
  have step: "fold (\<lambda>x b. if fst x < fst b then x else b) (ds @ [x]) d = (if fst x < fst b then x else b)"
    by (simp add: b_def)
  show ?case
  proof (cases "fst x < fst b")
    case True
    have "\<forall>z \<in> set (d # ds). fst b \<le> fst z" unfolding split set_append ball_Un using xs ys by (simp add: less_imp_le)
    then have "\<forall>z \<in> set (d # ds). fst x < fst z" using order.strict_trans2 [OF True] by blast
    then show ?thesis unfolding step if_P [OF True] least_first_def
      by (intro exI [of _ "d # ds"] exI [of _ "[]"]) simp
  next
    case False
    have "d # ds @ [x] = xs @ b # (ys @ [x])" using split by simp
    moreover have "\<forall>y \<in> set (ys @ [x]). fst b \<le> fst y" using ys False by simp
    ultimately show ?thesis unfolding step if_not_P [OF False] least_first_def using xs
      by (intro exI [of _ xs] exI [of _ "ys @ [x]"] conjI)
  qed
qed

text \<open>
  A finding is reported as covered with exactly the captures whose window holds its time;
  otherwise with the first of the nearest captures, at a positive distance, and as without a
  window only when no capture has one.
\<close>

theorem correlate_verdict:
  "case correlate summaries ts of
     CoveredBy names \<Rightarrow> names \<noteq> [] \<and> names = map fst (filter (\<lambda>(name, s). covers s ts) summaries)
   | NotCovered d name \<Rightarrow> least_first (distances summaries ts) (d, name) \<and> 0 < d
   | NoWindow \<Rightarrow> distances summaries ts = []"
proof (cases "map fst (filter (\<lambda>(name, s). covers s ts) summaries) = []")
  case False
  then show ?thesis by (simp add: correlate_def Let_def)
next
  case True
  then have none: "\<not> covers s ts" if "(name, s) \<in> set summaries" for name s
    using that by (auto simp: filter_empty_conv)
  have pos: "0 < fst x" if x: "x \<in> set (distances summaries ts)" for x
  proof -
    obtain name s where ns: "(name, s) \<in> set summaries" "window_distance s ts = Some (fst x)"
      using x by (auto simp: distances_def List.map_filter_def)
    with none [OF ns(1)] show ?thesis
      by (auto simp: window_distance_def covers_def split: option.splits if_splits)
  qed
  show ?thesis
  proof (cases "distances summaries ts")
    case Nil
    then show ?thesis using True by (simp add: correlate_def nearest_least)
  next
    case (Cons d ds)
    define b where "b = fold (\<lambda>x b. if fst x < fst b then x else b) ds d"
    have least: "least_first (distances summaries ts) b" unfolding Cons b_def by (rule fold_least)
    then have "b \<in> set (distances summaries ts)" unfolding least_first_def by (metis in_set_conv_decomp)
    from pos [OF this] have "0 < fst b" .
    moreover have "correlate summaries ts = NotCovered (fst b) (snd b)"
      using True unfolding correlate_def nearest_least Cons by (simp add: b_def split: prod.split)
    ultimately show ?thesis using least by simp
  qed
qed

end
