(* ===== verification/Log_Index.thy ===== *)
theory Log_Index
  imports Log_Parser "HOL-Library.List_Lexorder" "HOL-Library.Char_ord" "HOL-Library.Product_Lexorder"
begin

text \<open>
  The log index \<open>zcc_diag/log_index.py\<close>: the line pattern, the session and host extractors, the
  choice of files under a byte budget, the build of the index and its queries.  The files of a
  bundle are a list in the order \<open>os.walk\<close> finds them; a size or a content that cannot be read
  is \<open>None\<close>.
\<close>

section \<open>Lines\<close>

definition levels :: "string list" where
  "levels = [''DBG'', ''INF'', ''WAR'', ''WRN'', ''ERR'', ''CRT'', ''TRC'']"

text \<open>Groups: 1 \<open>ts\<close>, 2 \<open>tz\<close> with its parentheses, 3 \<open>pid\<close>, 4 \<open>tid\<close>, 5 \<open>level\<close>, 6 \<open>body\<close>.\<close>

definition line_ts_rx :: rx where
  "line_ts_rx = RSeqs [digits 4, RLit CHR ''-'', digits 2, RLit CHR ''-'', digits 2, RSet [CSpace],
     digits 2, RLit CHR '':'', digits 2, RLit CHR '':'', digits 2, RLit CHR ''.'', RPlus (RSet [CDigit])]"

definition line_rx :: rx where
  "line_rx = RSeqs [RBegin, RGroup 1 line_ts_rx,
     ROpt (RGroup 2 (RSeqs [RLit CHR ''('', RSet [CLit CHR ''+'', CLit CHR ''-''], digits 2,
       ROpt (RLit CHR '':''), digits 2, RLit CHR '')''])),
     RLit CHR ''['', RGroup 3 (RPlus (RSet [CDigit])), RLit CHR '':'', RGroup 4 (RPlus (RSet [CDigit])), RLit CHR '']'',
     RPlus (RSet [CSpace]), RGroup 5 (RStrs levels), RPlus (RSet [CSpace]), RGroup 6 (RStar RDot), REnd]"

definition id_rx :: rx where
  "id_rx = RSeqs [RBound, RStr ''ID='', RGroup 1 (RPlus (RSet [CDigit]))]"

definition spaces1 :: rx where
  "spaces1 = RPlus (RSet [CSpace])"

definition non_space :: rx where
  "non_space = RGroup 1 (RPlus (RNot [CSpace]))"

definition host_patterns :: "rx list" where
  "host_patterns =
     [RSeqs [RStr ''resolveDnsWithFamilyPriority'', ROpt (RStr ''GW''), RLit CHR '':'', spaces1, RStr ''Host:'', spaces1, non_space],
      RSeqs [RStr ''Encoded URL:'', spaces1, RStr ''http'', ROpt (RLit CHR ''s''), RStr ''://'',
        RGroup 1 (RPlus (RNot [CLit CHR ''/'', CSpace]))],
      RSeqs [RStr ''Encoded Host:'', spaces1, non_space],
      RSeqs [RStr ''PAC Parse Host:'', spaces1, non_space],
      RSeqs [RStr ''SNI-Host='', RGroup 1 (RPlus (RNot [CSpace, CLit CHR '','']))],
      RSeqs [RStr ''readFromClient:'', spaces1, RStr ''Host'', ROpt (RSeq spaces1 (RStr ''Address'')), RLit CHR '':'', spaces1, non_space],
      RSeqs [RStr [CHR 0x22], RStr ''host'', RStr [CHR 0x22], RStar (RSet [CSpace]), RLit CHR '':'', RStar (RSet [CSpace]),
        RStr [CHR 0x22], RGroup 1 (RPlus (RNot [CLit CHR 0x22])), RStr [CHR 0x22]]]"

definition extract_session_id :: "string \<Rightarrow> string option" where
  "extract_session_id body = Option.bind (rx_search False id_rx body) (rx_group 1)"

fun first_host :: "rx list \<Rightarrow> string \<Rightarrow> string option" where
  "first_host [] body = None"
| "first_host (p # ps) body = (case rx_search False p body of
       None \<Rightarrow> first_host ps body
     | Some m \<Rightarrow> let h = py_lower (grp 1 m) in
         Some (if CHR '':'' \<in> set h \<and> \<not> prefix ''['' h then rsplit_colon h else h))"

definition extract_host :: "string \<Rightarrow> string option" where
  "extract_host body = first_host host_patterns body"

text \<open>
  \<open>datetime.strptime(ts, "%Y-%m-%d %H:%M:%S.%f")\<close> on a text the pattern accepts: the fields
  have their widths, and \<open>%f\<close> takes at most six digits.
\<close>

definition strptime :: "string \<Rightarrow> int option" where
  "strptime ts = (let n = (\<lambda>i j. nat_of_digits (slice ts i j)); frac = drop 20 ts in
     if 6 < length frac then None
     else mk_dt \<lparr>cy = n 0 4, cmo = n 5 7, cd = n 8 10, ch = n 11 13, cmi = n 14 16, csec = n 17 19,
       cus = nat_of_digits (take 6 (frac @ ''000000''))\<rparr>)"

record indexed_line =
  ts :: int
  pid :: string
  tid :: string
  level :: string
  body :: string
  component :: string
  source_file :: string
  line_no :: nat
  session_id :: "string option"
  host :: "string option"

text \<open>The line and its offset text, or \<open>None\<close> where the code counts it as unparseable.\<close>

definition read_line :: "string \<Rightarrow> string \<Rightarrow> nat \<Rightarrow> string \<Rightarrow> (indexed_line \<times> string) option" where
  "read_line cmp name n rw = (case rx_match False line_rx rw of
       None \<Rightarrow> None
     | Some m \<Rightarrow> (case strptime (grp 1 m) of
         None \<Rightarrow> None
       | Some t \<Rightarrow> Some (\<lparr>ts = t, pid = grp 3 m, tid = grp 4 m, level = grp 5 m, body = grp 6 m, component = cmp,
           source_file = name, line_no = n, session_id = extract_session_id (grp 6 m), host = extract_host (grp 6 m)\<rparr>,
           grp 2 m)))"

section \<open>The offset of the bundle\<close>

definition strip_parens :: "string \<Rightarrow> string" where
  "strip_parens z = (if prefix ''('' z \<and> suffix '')'' z then slice z 1 (length z - 1) else z)"

definition tz_label :: "string \<Rightarrow> string" where
  "tz_label z = ''UTC'' @ (case (py_int (slice z 1 3), py_int (slice z 3 5)) of
       (Some h, Some m) \<Rightarrow> take 1 z @ pad 2 (nat h) @ '':'' @ pad 2 (nat m)
     | _ \<Rightarrow> z)"

definition tz_from :: "string \<Rightarrow> (string \<times> string) option" where
  "tz_from tz_raw = (let z = replace_all '':'' [] (strip_parens tz_raw) in
     if z = [] then None else Some (z, tz_label z))"

section \<open>The index\<close>

record log_index =
  lines :: "indexed_line list"
  by_session_id :: "(string, indexed_line list) dict"
  by_host :: "(string, indexed_line list) dict"
  bytes_scanned :: nat
  files_scanned :: nat
  lines_skipped :: nat
  bundle_tz :: "(string \<times> string) option"

definition empty_index :: log_index where
  "empty_index = \<lparr>lines = [], by_session_id = [], by_host = [], bytes_scanned = 0, files_scanned = 0,
     lines_skipped = 0, bundle_tz = None\<rparr>"

definition push :: "string option \<Rightarrow> indexed_line \<Rightarrow> (string, indexed_line list) dict \<Rightarrow> (string, indexed_line list) dict" where
  "push k ln d = (case k of
       None \<Rightarrow> d
     | Some k \<Rightarrow> if k = [] then d else dict_set k (dict_getd d k [] @ [ln]) d)"

definition add_line :: "indexed_line \<times> string \<Rightarrow> log_index \<Rightarrow> log_index" where
  "add_line lz idx = (case lz of (ln, tz) \<Rightarrow> idx\<lparr>
     bundle_tz := (if bundle_tz idx = None then tz_from tz else bundle_tz idx),
     lines := lines idx @ [ln],
     by_session_id := push (session_id ln) ln (by_session_id idx),
     by_host := push (host ln) ln (by_host idx)\<rparr>)"

definition is_full :: "nat option \<Rightarrow> log_index \<Rightarrow> bool" where
  "is_full max_lines idx = (case max_lines of None \<Rightarrow> False | Some m \<Rightarrow> m \<noteq> 0 \<and> m \<le> length (lines idx))"

fun read_lines :: "nat option \<Rightarrow> string \<Rightarrow> string \<Rightarrow> nat \<Rightarrow> string list \<Rightarrow> log_index \<Rightarrow> log_index" where
  "read_lines max_lines cmp name n [] idx = idx"
| "read_lines max_lines cmp name n (rw # rws) idx = (case read_line cmp name n rw of
       None \<Rightarrow> read_lines max_lines cmp name (Suc n) rws (idx\<lparr>lines_skipped := lines_skipped idx + 1\<rparr>)
     | Some lz \<Rightarrow> let idx' = add_line lz idx in
         if is_full max_lines idx' then idx' else read_lines max_lines cmp name (Suc n) rws idx')"

section \<open>The files\<close>

record log_file =
  file_name :: string
  file_size :: "nat option"
  content :: "string list option"

definition tunnel_prefixes :: "string list" where
  "tunnel_prefixes = [''ZSATunnel'', ''TRPTunnel'']"
definition service_prefixes :: "string list" where
  "service_prefixes = [''ZSAService'', ''com.zscaler.ZscalerService'', ''TRPService'']"
definition tray_prefixes :: "string list" where
  "tray_prefixes = [''ZSATrayManager'', ''ZSATray'', ''ZSATrayHelper'']"
definition upm_prefixes :: "string list" where
  "upm_prefixes = [''ZSAUpm'']"

definition component_of :: "string \<Rightarrow> string option" where
  "component_of f = (let has = list_ex (\<lambda>p. prefix p f) in
     if has tunnel_prefixes then Some ''tunnel''
     else if has service_prefixes then Some ''service''
     else if has tray_prefixes then Some ''tray''
     else if has upm_prefixes then Some ''upm''
     else None)"

text \<open>The component and size of a file that is indexed.\<close>

definition candidate :: "log_file \<Rightarrow> (string \<times> log_file \<times> nat) option" where
  "candidate f =
     (if \<not> suffix ''.log'' (file_name f) then None
      else case file_size f of
        None \<Rightarrow> None
      | Some sz \<Rightarrow>
          if sz < 200 then None
          else if prefix ''ZSAHelper'' (file_name f) \<or> prefix ''ZSAUpdater'' (file_name f) then None
          else map_option (\<lambda>c. (c, f, sz)) (component_of (file_name f)))"

definition iter_log_files :: "log_file list \<Rightarrow> (string \<times> log_file \<times> nat) list" where
  "iter_log_files fs = List.map_filter candidate fs"

text \<open>A stable sort with \<open>reverse=True\<close>.\<close>

definition newest_first :: "(string \<times> log_file \<times> nat) list \<Rightarrow> (string \<times> log_file \<times> nat) list" where
  "newest_first cs = rev (sort_key (\<lambda>c. file_name (fst (snd c))) (rev cs))"

definition over_budget :: "nat option \<Rightarrow> nat \<Rightarrow> nat \<Rightarrow> bool" where
  "over_budget budget used sz = (case budget of None \<Rightarrow> False | Some b \<Rightarrow> b < used + sz \<and> 0 < used)"

type_synonym usage = "(string, nat) dict"

fun index_files :: "nat option \<Rightarrow> nat option \<Rightarrow> (string \<times> log_file \<times> nat) list \<Rightarrow> usage \<Rightarrow> log_index \<Rightarrow> usage \<times> log_index" where
  "index_files max_lines budget [] used idx = (used, idx)"
| "index_files max_lines budget ((c, f, sz) # cs) used idx =
     (if over_budget budget (dict_getd used c 0) sz then index_files max_lines budget cs used idx
      else let used' = dict_add c sz used in
        case content f of
          None \<Rightarrow> index_files max_lines budget cs used' idx
        | Some rws \<Rightarrow>
            let idx1 = read_lines max_lines c (file_name f) 1 rws idx;
                idx2 = idx1\<lparr>files_scanned := files_scanned idx1 + 1\<rparr> in
            if is_full max_lines idx2 then (used', idx2) else index_files max_lines budget cs used' idx2)"

definition line_key :: "indexed_line \<Rightarrow> int \<times> string \<times> nat" where
  "line_key ln = (ts ln, source_file ln, line_no ln)"

definition build_index :: "nat option \<Rightarrow> nat option \<Rightarrow> log_file list \<Rightarrow> log_index" where
  "build_index max_lines budget fs =
     (case index_files max_lines budget (newest_first (iter_log_files fs)) [] empty_index of (used, idx) \<Rightarrow>
        idx\<lparr>lines := sort_key line_key (lines idx), bytes_scanned := dict_total used\<rparr>)"

section \<open>Queries\<close>

definition search :: "log_index \<Rightarrow> string \<Rightarrow> indexed_line list" where
  "search idx query = filter (\<lambda>ln. occurs (py_lower query) (py_lower (body ln))) (lines idx)"

definition time_window :: "log_index \<Rightarrow> int \<Rightarrow> int \<Rightarrow> indexed_line list" where
  "time_window idx start stop = filter (\<lambda>ln. start \<le> ts ln \<and> ts ln \<le> stop) (lines idx)"

definition surrounding_lines :: "log_index \<Rightarrow> string \<Rightarrow> nat option \<Rightarrow> nat \<Rightarrow> indexed_line list" where
  "surrounding_lines idx src n radius = (case n of
       None \<Rightarrow> []
     | Some k \<Rightarrow> if src = [] then []
         else sort_key line_no (filter (\<lambda>ln. source_file ln = src \<and> int k - int radius \<le> int (line_no ln)
           \<and> line_no ln \<le> k + radius) (lines idx)))"

end
