(* ===== verification/Log_Index_Facts.thy ===== *)
theory Log_Index_Facts
  imports Log_Index Log_Records "HOL-Library.Multiset"
begin

text \<open>
  What the log index promises: its lines in chronological order, buckets that hold exactly the
  lines of their session or host, the line cap and the byte budget, and the window around a
  line.
\<close>

section \<open>Buckets\<close>

definition bucketed :: "(indexed_line \<Rightarrow> string option) \<Rightarrow> (string, indexed_line list) dict \<Rightarrow> indexed_line list \<Rightarrow> bool" where
  "bucketed key d ls = (\<forall>k. dict_getd d k [] = (if k = [] then [] else filter (\<lambda>ln. key ln = Some k) ls))"

lemma bucketed_push: "bucketed key d ls \<Longrightarrow> bucketed key (push (key ln) ln d) (ls @ [ln])"
proof -
  assume b: "bucketed key d ls"
  have "dict_getd (push (key ln) ln d) k [] = dict_getd d k [] @ (if k \<noteq> [] \<and> key ln = Some k then [ln] else [])" for k
    by (auto simp: push_def dict_getd_def dict_get_set split: option.split)
  with b show ?thesis by (simp add: bucketed_def)
qed

definition idx_ok :: "nat option \<Rightarrow> log_index \<Rightarrow> bool" where
  "idx_ok max_lines idx = (bucketed session_id (by_session_id idx) (lines idx) \<and> bucketed host (by_host idx) (lines idx)
     \<and> (case max_lines of None \<Rightarrow> True | Some m \<Rightarrow> m = 0 \<or> length (lines idx) \<le> m))"

lemma idx_ok_empty: "idx_ok max_lines empty_index"
  by (simp add: idx_ok_def bucketed_def empty_index_def dict_getd_def split: option.split)

lemma idx_ok_add_line: "idx_ok m idx \<Longrightarrow> \<not> is_full m idx \<Longrightarrow> idx_ok m (add_line lz idx)"
  by (cases lz) (auto simp: idx_ok_def add_line_def is_full_def bucketed_push split: option.splits)

lemma idx_ok_counts [simp]:
  "idx_ok m (idx\<lparr>lines_skipped := k\<rparr>) = idx_ok m idx" "idx_ok m (idx\<lparr>files_scanned := k\<rparr>) = idx_ok m idx"
  "is_full m (idx\<lparr>lines_skipped := k\<rparr>) = is_full m idx" "is_full m (idx\<lparr>files_scanned := k\<rparr>) = is_full m idx"
  by (cases m; simp add: idx_ok_def is_full_def)+

lemma idx_ok_read_lines: "idx_ok m idx \<Longrightarrow> \<not> is_full m idx \<Longrightarrow> idx_ok m (read_lines m c name n rws idx)"
proof (induction m c name n rws idx rule: read_lines.induct)
  case (2 m c name n rw rws idx)
  then show ?case
    by (auto simp: Let_def idx_ok_add_line split: option.split)
qed simp

lemma idx_ok_index_files:
  "idx_ok m idx \<Longrightarrow> \<not> is_full m idx \<Longrightarrow> idx_ok m (snd (index_files m budget cs used idx))"
proof (induction m budget cs used idx rule: index_files.induct)
  case (2 m budget c f sz cs used idx)
  show ?case
  proof (cases "over_budget budget (dict_getd used c 0) sz")
    case True
    with 2 show ?thesis by simp
  next
    case False
    show ?thesis
    proof (cases "content f")
      case None
      with 2 False show ?thesis by (simp add: Let_def)
    next
      case (Some rws)
      have ok: "idx_ok m (read_lines m c (file_name f) 1 rws idx)"
        using idx_ok_read_lines "2.prems" by blast
      with 2 False Some show ?thesis by (simp add: Let_def)
    qed
  qed
qed simp

lemma not_full_empty: "\<not> is_full m empty_index"
  by (cases m) (auto simp: is_full_def empty_index_def)

lemma build_index_ok:
  "sorted (map line_key (lines (build_index max_lines budget fs)))
   \<and> mset (dict_getd (by_session_id (build_index max_lines budget fs)) (c # k) [])
      = mset (filter (\<lambda>ln. session_id ln = Some (c # k)) (lines (build_index max_lines budget fs)))
   \<and> mset (dict_getd (by_host (build_index max_lines budget fs)) (c # k) [])
      = mset (filter (\<lambda>ln. host ln = Some (c # k)) (lines (build_index max_lines budget fs)))"
proof -
  obtain used idx where i: "index_files max_lines budget (newest_first (iter_log_files fs)) [] empty_index = (used, idx)"
    by (cases "index_files max_lines budget (newest_first (iter_log_files fs)) [] empty_index")
  have "idx_ok max_lines idx"
    using idx_ok_index_files [OF idx_ok_empty not_full_empty, of max_lines budget "newest_first (iter_log_files fs)" "[]"] i
    by simp
  then show ?thesis by (simp add: build_index_def i idx_ok_def bucketed_def)
qed

lemma build_index_nil: "dict_getd (by_session_id (build_index max_lines budget fs)) [] [] = []"
proof -
  obtain used idx where i: "index_files max_lines budget (newest_first (iter_log_files fs)) [] empty_index = (used, idx)"
    by (cases "index_files max_lines budget (newest_first (iter_log_files fs)) [] empty_index")
  have "idx_ok max_lines idx"
    using idx_ok_index_files [OF idx_ok_empty not_full_empty, of max_lines budget "newest_first (iter_log_files fs)" "[]"] i
    by simp
  then show ?thesis by (simp add: build_index_def i idx_ok_def bucketed_def)
qed

text \<open>
  C36: the index is in chronological order with ties broken by file and line, and every session
  and host bucket holds exactly the lines of the index with that session or host.
\<close>

theorem index_consistent:
  "sorted (map line_key (lines (build_index max_lines budget fs)))
   \<and> mset (dict_getd (by_session_id (build_index max_lines budget fs)) (c # k) [])
      = mset (filter (\<lambda>ln. session_id ln = Some (c # k)) (lines (build_index max_lines budget fs)))
   \<and> mset (dict_getd (by_host (build_index max_lines budget fs)) (c # k) [])
      = mset (filter (\<lambda>ln. host ln = Some (c # k)) (lines (build_index max_lines budget fs)))"
  by (rule build_index_ok)

text \<open>
  An index with a positive line cap never exceeds it.
\<close>

theorem index_cap:
  assumes "0 < m"
  shows "length (lines (build_index (Some m) budget fs)) \<le> m"
proof -
  obtain used idx where i: "index_files (Some m) budget (newest_first (iter_log_files fs)) [] empty_index = (used, idx)"
    by (cases "index_files (Some m) budget (newest_first (iter_log_files fs)) [] empty_index")
  have "idx_ok (Some m) idx"
    using idx_ok_index_files [OF idx_ok_empty not_full_empty, of "Some m" budget "newest_first (iter_log_files fs)" "[]"] i
    by simp
  with assms show ?thesis by (simp add: build_index_def i idx_ok_def)
qed

section \<open>The byte budget\<close>

definition within :: "nat \<Rightarrow> (string \<times> log_file \<times> nat) list \<Rightarrow> usage \<Rightarrow> bool" where
  "within b cs used = (\<forall>c. dict_getd used c 0 \<le> b \<or> (\<exists>f. (c, f, dict_getd used c 0) \<in> set cs))"

lemma within_step:
  assumes "within b all used" "(c, f, sz) \<in> set all" "\<not> over_budget (Some b) (dict_getd used c 0) sz"
  shows "within b all (dict_add c sz used)"
  using assms unfolding within_def over_budget_def by (auto simp: dict_getd_add)

lemma within_index_files:
  "within b all used \<Longrightarrow> set cs \<subseteq> set all \<Longrightarrow> within b all (fst (index_files m (Some b) cs used idx))"
proof (induction m "Some b" cs used idx rule: index_files.induct)
  case (2 m c f sz cs used idx)
  then show ?case
    by (auto simp: Let_def within_step split: option.split)
qed simp

text \<open>
  Under a byte budget the files charged to a component stay within the budget, or are the
  single file the component starts with.
\<close>

theorem index_budget:
  "dict_getd (fst (index_files m (Some b) cs [] idx)) c 0 \<le> b
   \<or> (\<exists>f. (c, f, dict_getd (fst (index_files m (Some b) cs [] idx)) c 0) \<in> set cs)"
proof -
  have "within b cs []" by (simp add: within_def dict_getd_def)
  then have "within b cs (fst (index_files m (Some b) cs [] idx))" by (rule within_index_files) simp
  then show ?thesis unfolding within_def by blast
qed

text \<open>
  The budget does not keep the newest logs alone: a file that does not fit is left out, yet
  an older and smaller one after it is read.
\<close>

theorem budget_gap:
  fixes newest middle oldest :: nat
  assumes "0 < newest" "newest \<le> b" "b < newest + middle" "newest + oldest \<le> b"
  shows "files_scanned (snd (index_files None (Some b)
      [(''tunnel'', \<lparr>file_name = ''ZSATunnel_3.log'', file_size = Some newest, content = Some []\<rparr>, newest),
       (''tunnel'', \<lparr>file_name = ''ZSATunnel_2.log'', file_size = Some middle, content = Some []\<rparr>, middle),
       (''tunnel'', \<lparr>file_name = ''ZSATunnel_1.log'', file_size = Some oldest, content = Some []\<rparr>, oldest)] [] empty_index)) = 2
    \<and> dict_getd (fst (index_files None (Some b)
      [(''tunnel'', \<lparr>file_name = ''ZSATunnel_3.log'', file_size = Some newest, content = Some []\<rparr>, newest),
       (''tunnel'', \<lparr>file_name = ''ZSATunnel_2.log'', file_size = Some middle, content = Some []\<rparr>, middle),
       (''tunnel'', \<lparr>file_name = ''ZSATunnel_1.log'', file_size = Some oldest, content = Some []\<rparr>, oldest)] [] empty_index)) ''tunnel'' 0
      = newest + oldest"
  using assms
  by (simp add: over_budget_def dict_getd_def dict_add_def dict_get_set is_full_def empty_index_def Let_def)

theorem budget_gap_witness:
  "files_scanned (snd (index_files None (Some 700)
      [(''tunnel'', \<lparr>file_name = ''ZSATunnel_3.log'', file_size = Some 300, content = Some []\<rparr>, 300),
       (''tunnel'', \<lparr>file_name = ''ZSATunnel_2.log'', file_size = Some 900, content = Some []\<rparr>, 900),
       (''tunnel'', \<lparr>file_name = ''ZSATunnel_1.log'', file_size = Some 300, content = Some []\<rparr>, 300)] [] empty_index)) = 2"
  using budget_gap [of 300 700 900 300] by simp

section \<open>The window around a line\<close>

lemma window_card:
  assumes "\<forall>x \<in> set xs. int k - int r \<le> int (f x) \<and> f x \<le> k + r" "distinct (map f xs)"
  shows "length xs \<le> 2 * r + 1"
proof -
  have "f ` set xs \<subseteq> {k - r .. k + r}" using assms(1) by fastforce
  then have "card (f ` set xs) \<le> card {k - r .. k + r}" by (rule card_mono [rotated]) simp
  moreover have "card (f ` set xs) = length xs" using assms(2) by (metis distinct_card length_map list.set_map)
  ultimately show ?thesis by simp
qed

text \<open>
  When no two lines of the index share a file name and a line number, the lines around a
  line are at most the window, in the order of the file.
\<close>

theorem surrounding_window:
  assumes "distinct (map (\<lambda>ln. (source_file ln, line_no ln)) (lines idx))"
  shows "length (surrounding_lines idx src (Some k) r) \<le> 2 * r + 1
    \<and> sorted (map line_no (surrounding_lines idx src (Some k) r))"
proof (cases "src = []")
  case True
  then show ?thesis by (simp add: surrounding_lines_def)
next
  case False
  let ?P = "\<lambda>ln. source_file ln = src \<and> int k - int r \<le> int (line_no ln) \<and> line_no ln \<le> k + r"
  let ?xs = "filter ?P (lines idx)"
  have "distinct (map (\<lambda>ln. (source_file ln, line_no ln)) ?xs)"
    using assms by (simp add: distinct_map_filter)
  then have "inj_on (\<lambda>ln. (source_file ln, line_no ln)) (set ?xs)" "distinct ?xs" by (auto simp: distinct_map)
  then have "distinct (map line_no ?xs)" by (auto simp: distinct_map inj_on_def)
  then have "length ?xs \<le> 2 * r + 1" by (intro window_card [where f = line_no]) auto
  with False show ?thesis by (simp add: surrounding_lines_def)
qed

definition sample_line :: "string \<Rightarrow> nat \<Rightarrow> indexed_line" where
  "sample_line src n = \<lparr>ts = int n, pid = ''1'', tid = ''2'', level = ''INF'', body = [], component = ''tunnel'',
     source_file = src, line_no = n, session_id = None, host = None\<rparr>"

theorem surrounding_window_witness:
  "length (surrounding_lines (empty_index\<lparr>lines := [sample_line ''a.log'' 3, sample_line ''b.log'' 3, sample_line ''a.log'' 9]\<rparr>)
      ''a.log'' (Some 4) 1) \<le> 3"
  using surrounding_window [of "empty_index\<lparr>lines := [sample_line ''a.log'' 3, sample_line ''b.log'' 3, sample_line ''a.log'' 9]\<rparr>" "''a.log''" 4 1]
  by (simp add: sample_line_def)

theorem index_cap_witness:
  "length (lines (build_index (Some 1) None [\<lparr>file_name = ''ZSATunnel_1.log'', file_size = Some 300, content = Some [''x'', ''y'']\<rparr>])) \<le> 1"
  by (rule index_cap) simp

text \<open>
  Two files of one name, as a bundle with a nested copy has, break the bound on the lines
  around a line.
\<close>

theorem duplicate_names_widen:
  "length (surrounding_lines (empty_index\<lparr>lines := [sample_line ''a.log'' 3, sample_line ''a.log'' 3]\<rparr>) ''a.log'' (Some 3) 0) = 2"
  by (simp add: surrounding_lines_def sample_line_def)

section \<open>Time stamps\<close>

lemma slice_skip: "length a \<le> i \<Longrightarrow> slice (a @ s) i j = slice s (i - length a) (j - length a)"
  by (simp add: slice_def)

lemma slice_head: "length a = j \<Longrightarrow> slice (a @ s) 0 j = a"
  by (simp add: slice_def)

text \<open>
  The index and the log parser read a time stamp alike as long as its fraction has six
  digits; one more digit and the index drops the line the parser keeps.
\<close>

theorem timestamps_agree:
  assumes "civil_fits c"
  shows "parse_ts (render_ts c @ d) = mk_dt c \<and> strptime (render_ts c @ d) = (if d = [] then mk_dt c else None)"
proof -
  have len: "length (pad 4 (cy c)) = 4" "length (pad 2 (cmo c)) = 2" "length (pad 2 (cd c)) = 2"
      "length (pad 2 (ch c)) = 2" "length (pad 2 (cmi c)) = 2" "length (pad 2 (csec c)) = 2" "length (pad 6 (cus c)) = 6"
    using assms by (simp_all add: civil_fits_def length_pad)
  have frac: "drop 20 (render_ts c @ d) = pad 6 (cus c) @ d" by (simp add: render_ts_def len)
  have fields: "slice (render_ts c @ d) 0 4 = pad 4 (cy c)" "slice (render_ts c @ d) 5 7 = pad 2 (cmo c)"
      "slice (render_ts c @ d) 8 10 = pad 2 (cd c)" "slice (render_ts c @ d) 11 13 = pad 2 (ch c)"
      "slice (render_ts c @ d) 14 16 = pad 2 (cmi c)" "slice (render_ts c @ d) 17 19 = pad 2 (csec c)"
    unfolding render_ts_def append_assoc by (simp_all add: slice_def len)
  have rec: "\<lparr>cy = cy c, cmo = cmo c, cd = cd c, ch = ch c, cmi = cmi c, csec = csec c, cus = cus c\<rparr> = c" by (cases c) simp
  have "strptime (render_ts c @ d) = (if d = [] then mk_dt c else None)"
    unfolding strptime_def Let_def frac fields by (cases d) (simp_all add: len rec)
  with parse_render_ts_more [OF assms, of d] show ?thesis by blast
qed

theorem timestamps_agree_witness:
  "strptime (render_ts \<lparr>cy = 2025, cmo = 7, cd = 1, ch = 10, cmi = 11, csec = 12, cus = 123456\<rparr> @ ''7'') = None"
  by (subst conjunct2 [OF timestamps_agree]) (simp_all add: civil_fits_def)

end
