(* ===== verification/Store_Ids.thy ===== *)
theory Store_Ids
  imports Py_Regex
begin

text \<open>
  The identifiers of a log record (\<open>extract_ids\<close> of \<open>zcc_diag/log_store.py\<close>): the table of
  patterns with their gates, the collection with its cap per type, and the selection of types.
  Texts are strings of characters below 256.
\<close>

section \<open>Patterns\<close>

definition blanks :: rx where "blanks = RStar (RSet [CSpace])"
definition quote_opt :: rx where "quote_opt = ROpt (RLit CHR 0x22)"
definition sep_opt :: rx where "sep_opt = ROpt (RSet [CLit CHR '' '', CLit CHR ''_''])"
definition assign :: rx where "assign = RSeqs [blanks, RSet [CLit CHR ''='', CLit CHR '':''], blanks]"
definition digit :: rx where "digit = RSet [CDigit]"

definition letters :: "cset list" where
  "letters = [CRange CHR ''A'' CHR ''Z'', CRange CHR ''a'' CHR ''z'', CRange CHR ''0'' CHR ''9'']"

definition host_chars :: rx where
  "host_chars = RSet [CRange CHR ''a'' CHR ''z'', CRange CHR ''0'' CHR ''9'', CLit CHR ''_'', CLit CHR ''-'']"

definition hex_chars :: rx where
  "hex_chars = RSet [CRange CHR ''0'' CHR ''9'', CRange CHR ''a'' CHR ''f'', CRange CHR ''A'' CHR ''F'']"

definition code_chars :: rx where
  "code_chars = RSet [CRange CHR ''A'' CHR ''Z'', CRange CHR ''0'' CHR ''9'', CLit CHR ''_'']"

definition base64 :: rx where
  "base64 = RPlus (RSet (letters @ [CLit CHR ''+'', CLit CHR ''/'', CLit CHR ''='', CLit CHR ''_'', CLit CHR ''-'']))"

definition symbol_rx :: "string \<Rightarrow> rx" where
  "symbol_rx p = RGroup 0 (RSeqs [RBound, RStr p, RAtLeast 4 code_chars])"

definition octet :: rx where
  "octet = RAlts [RSeq (RStr ''25'') (RSet [CRange CHR ''0'' CHR ''5'']),
     RSeqs [RStr ''2'', RSet [CRange CHR ''0'' CHR ''4''], digit],
     RSeq (RStr ''1'') (RTimes 2 digit),
     RSeq (ROpt (RSet [CRange CHR ''1'' CHR ''9''])) digit]"

definition tag_rx :: rx where
  "tag_rx = RSeqs [RStr ''tag'', sep_opt, RStr ''id'', assign, RGroup 1 (RPlus digit)]"
definition mtunnel_rx :: rx where
  "mtunnel_rx = RSeqs [RStr ''mtunnel'', sep_opt, RStr ''id'', assign, RGroup 1 (RSeqs [base64, RLit CHR '','', base64])]"
definition cid_rx :: rx where
  "cid_rx = RSeqs [RBound, RStr ''cid'', assign, RGroup 1 (RSeq (ROpt (RLit CHR ''-'')) (RPlus digit))]"
definition lid_rx :: rx where
  "lid_rx = RSeqs [RBound, RStr ''lid'', assign, RGroup 1 (RSeq (ROpt (RLit CHR ''-'')) (RPlus digit))]"
definition conn_rx :: rx where
  "conn_rx = RSeqs [RNotBehind ([CLit CHR ''P'', CLit CHR ''p''] # map (\<lambda>c. [CLit c]) ''rocess ''),
     RBound, RStr ''ID='', RGroup 1 (RAlt (RSeq (RStr ''0x'') (RPlus hex_chars)) (RPlus digit))]"
definition udp_rx :: rx where
  "udp_rx = RSeqs [RStr ''UDP Proxy:'', blanks, RStr ''ID:'', blanks, RGroup 1 (RPlus digit)]"
definition session_rx :: rx where
  "session_rx = RSeqs [RStr ''session'', sep_opt, RStr ''id'', assign, quote_opt,
     RGroup 1 (RAtLeast 2 (RSet (letters @ [CLit CHR ''+'', CLit CHR ''/'', CLit CHR ''='', CLit CHR ''_'', CLit CHR ''.'', CLit CHR ''-''])))]"
definition err_rx :: rx where
  "err_rx = RSeqs [RStr ''err'', sep_opt, RStr ''code'', assign, quote_opt, RGroup 1 (RSeq (ROpt (RLit CHR ''-'')) (RPlus digit))]"
definition app_rx :: rx where
  "app_rx = RSeqs [RStr ''app'', sep_opt, RStr ''name'', quote_opt, assign, quote_opt,
     RGroup 1 (RAtLeast 2 (RSet (letters @ [CLit CHR ''.'', CLit CHR ''_'', CLit CHR ''*'', CLit CHR ''-''])))]"
definition device_rx :: rx where
  "device_rx = RSeqs [RStr ''device'', sep_opt, RStr ''id'', quote_opt, assign, quote_opt, RGroup 1 (RAtLeast 4 digit)]"
definition broker_rx :: rx where
  "broker_rx = RSeqs [RBound, RGroup 1 (RSeqs [RStr ''broker'', RStar host_chars, RLit CHR ''.'',
     RStar (RSeq (RPlus host_chars) (RLit CHR ''.'')),
     RStrs [''zpath'', ''zscaler'', ''zpalb'', ''zpaservice''], RStr ''.net'']), RBound]"
definition sme_rx :: rx where
  "sme_rx = (let dash = RSet [CLit CHR ''-'', CLit CHR ''_''] in
     RGroup 0 (RSeqs [RBound,
       RAlts [RStr ''sme'',
         RSeqs [ROpt (RSeq (RPlus host_chars) dash), RStr ''sme'', dash, RPlus host_chars],
         RSeqs [RPlus host_chars, dash, RStr ''sme'', RStar (RSet [CRange CHR ''0'' CHR ''9''])]],
       RStr ''.zscaler'', RStar (RSet [CRange CHR ''a'' CHR ''z'', CRange CHR ''0'' CHR ''9'']), RStr ''.net'', RBound]))"
definition ipv4_rx :: rx where
  "ipv4_rx = RSeqs [RBound, RGroup 1 (RSeq octet (RTimes 3 (RSeq (RLit CHR ''.'') octet))), RBound]"
definition guid_rx :: rx where
  "guid_rx = RGroup 0 (RSeqs [RBound, RTimes 8 hex_chars, RLit CHR ''-'', RTimes 4 hex_chars, RLit CHR ''-'',
     RTimes 4 hex_chars, RLit CHR ''-'', RTimes 4 hex_chars, RLit CHR ''-'', RTimes 12 hex_chars, RBound])"
definition user_rx :: rx where
  "user_rx = RSeqs [RAlts [RSeqs [RStr ''login'', sep_opt, RStr ''name''], RSeqs [RStr ''user'', sep_opt, RStr ''name''],
       RStr ''upn'', RStr ''for user'', RStr ''login_hint''],
     quote_opt, assign, quote_opt,
     RGroup 1 (RSeq (RPlus (RSet (letters @ [CLit CHR ''.'', CLit CHR ''_'', CLit CHR ''%'', CLit CHR ''+'', CLit CHR ''-''])))
       (ROpt (RSeqs [RLit CHR ''@'', RPlus (RSet (letters @ [CLit CHR ''.'', CLit CHR ''-''])), RLit CHR ''.'',
         RAtLeast 2 (RSet [CRange CHR ''A'' CHR ''Z'', CRange CHR ''a'' CHR ''z''])])))]"

section \<open>The specifications\<close>

text \<open>Group 0 of a pattern is an explicit group around it.\<close>

record id_spec =
  id_type :: string
  gates :: "string list"
  ignore_case :: bool
  pattern :: rx
  group :: nat

definition id_specs :: "id_spec list" where
  "id_specs = map (\<lambda>(t, g, ic, r, n). \<lparr>id_type = t, gates = g, ignore_case = ic, pattern = r, group = n\<rparr>)
     [(''tag_id'', [''tag''], True, tag_rx, 1),
      (''mtunnel_id'', [''mtunnel''], True, mtunnel_rx, 1),
      (''brk_code'', [''brk_''], False, symbol_rx ''BRK_'', 0),
      (''zpn_code'', [''zpn_''], False, symbol_rx ''ZPN_'', 0),
      (''zevent'', [''zevent_''], False, symbol_rx ''ZEVENT_'', 0),
      (''cid'', [''cid''], True, cid_rx, 1),
      (''lid'', [''lid''], True, lid_rx, 1),
      (''conn_id'', [''id=''], False, conn_rx, 1),
      (''conn_id'', [''udp''], True, udp_rx, 1),
      (''session_id'', [''session''], True, session_rx, 1),
      (''err_code'', [''err''], True, err_rx, 1),
      (''app'', [''app''], True, app_rx, 1),
      (''device_id'', [''device''], True, device_rx, 1),
      (''broker'', [''broker''], True, broker_rx, 1),
      (''sme_host'', [''.zscaler''], True, sme_rx, 0),
      (''ipv4'', [''.''], False, ipv4_rx, 1),
      (''guid'', [''-''], False, guid_rx, 0),
      (''user'', [''name'', ''upn'', ''for user'', ''login_hint''], True, user_rx, 1)]"

definition id_types :: "string list" where
  "id_types = remdups (map id_type id_specs)"

definition specs_single :: "id_spec list" where
  "specs_single = filter (\<lambda>s. length (gates s) = 1) id_specs"

definition specs_multi :: "id_spec list" where
  "specs_multi = filter (\<lambda>s. 1 < length (gates s)) id_specs"

text \<open>\<open>None\<close> is the \<open>ValueError\<close> for an unknown type.\<close>

definition select_id_specs :: "string list \<Rightarrow> (id_spec list \<times> id_spec list) option" where
  "select_id_specs wanted =
     (if wanted = [] then Some (specs_single, specs_multi)
      else if \<not> list_all (\<lambda>t. t \<in> set id_types) wanted then None
      else Some (filter (\<lambda>s. id_type s \<in> set wanted) specs_single, filter (\<lambda>s. id_type s \<in> set wanted) specs_multi))"

section \<open>Collecting\<close>

definition lowercase_types :: "string list" where
  "lowercase_types = [''broker'', ''sme_host'', ''guid'']"

definition noise_values :: "string list" where
  "noise_values = [[], ''true'', ''false'', ''null'', ''none'', ''nil'', ''unknown'', ''n/a'', ''na'']"

definition max_ids_per_type :: nat where
  "max_ids_per_type = 256"

text \<open>A match's value as it is stored, or nothing.\<close>

definition id_value :: "string \<Rightarrow> string \<Rightarrow> string option" where
  "id_value t val0 =
     (if val0 = [] then None
      else let val1 = (if t = ''user'' then replace_all ''%40'' ''@'' val0 else val0);
               val = (if t \<in> set lowercase_types then py_lower val1 else val1) in
        if py_lower val \<in> set noise_values then None else Some val)"

text \<open>The values found, the pairs seen, and the number of values per type.\<close>

record id_state =
  found :: "(string \<times> string) list"
  seen :: "(string \<times> string) set"
  per_type :: "(string, nat) dict"

definition no_ids :: id_state where
  "no_ids = \<lparr>found = [], seen = {}, per_type = []\<rparr>"

fun collect_values :: "string \<Rightarrow> string list \<Rightarrow> id_state \<Rightarrow> id_state" where
  "collect_values t [] st = st"
| "collect_values t (v # vs) st = (case id_value t v of
       None \<Rightarrow> collect_values t vs st
     | Some val \<Rightarrow>
         if (t, val) \<in> seen st then collect_values t vs st
         else let n = dict_getd (per_type st) t 0 in
           if max_ids_per_type \<le> n then st
           else collect_values t vs (st\<lparr>seen := insert (t, val) (seen st), per_type := dict_set t (n + 1) (per_type st),
             found := found st @ [(t, val)]\<rparr>))"

definition matches_of :: "id_spec \<Rightarrow> string \<Rightarrow> string list" where
  "matches_of s text = map (\<lambda>m. case rx_group (group s) m of None \<Rightarrow> [] | Some v \<Rightarrow> v)
     (rx_finditer (ignore_case s) (pattern s) text)"

definition collect :: "string \<Rightarrow> id_spec \<Rightarrow> id_state \<Rightarrow> id_state" where
  "collect text s st = collect_values (id_type s) (matches_of s text) st"

definition gate_open :: "string \<Rightarrow> id_spec \<Rightarrow> bool" where
  "gate_open low s = list_ex (\<lambda>g. occurs g low) (gates s)"

text \<open>\<open>extract_ids(text, single, multi)\<close>; an empty list of specifications counts as none given.\<close>

definition extract_ids :: "string \<Rightarrow> id_spec list \<Rightarrow> id_spec list \<Rightarrow> (string \<times> string) list" where
  "extract_ids text single multi =
     (let low = py_lower text;
          specs = (if single = [] then specs_single else single) @ (if multi = [] then specs_multi else multi) in
      found (fold (\<lambda>s st. if gate_open low s then collect text s st else st) specs no_ids))"

definition extract_ids_ungated :: "string \<Rightarrow> (string \<times> string) list" where
  "extract_ids_ungated text = found (fold (collect text) (specs_single @ specs_multi) no_ids)"

end
