(* ===== verification/Store_Id_Facts.thy ===== *)
theory Store_Id_Facts
  imports Store_Ids
begin

text \<open>
  The gates of the identifier patterns lose nothing, no record stores a pair twice or more than
  the cap of values per type, and a selection whose single or multiple half is empty is ignored.
\<close>

section \<open>Gates\<close>

lemma run_times: "rx_run ic (RTimes n r) = rep_times n (rx_run ic r)"
  by (rule ext) simp

lemma needs_times: "needs ic r lits \<Longrightarrow> needs ic (RTimes (Suc n) r) lits"
proof -
  assume "needs ic r lits"
  then have "needs ic (RSeq r (RTimes n r)) lits" by (simp add: needs_seq)
  moreover have "rx_run ic (RTimes (Suc n) r) s = rx_run ic (RSeq r (RTimes n r)) s" for s by (simp add: run_times)
  ultimately show ?thesis unfolding needs_def by metis
qed

lemma needs_word:
  assumes "RStr v \<in> set rs" "occurs l (py_lower v)"
  shows "needs ic (RSeqs rs) [l]"
  using assms(2) by (intro needs_seqs [OF assms(1)] needs_str) simp

definition gated :: "id_spec \<Rightarrow> bool" where
  "gated s = needs (ignore_case s) (pattern s) (gates s)"

lemma gated_words:
  "needs True tag_rx [''tag'']" "needs True mtunnel_rx [''mtunnel'']" "needs True cid_rx [''cid'']"
  "needs True lid_rx [''lid'']" "needs True udp_rx [''udp'']" "needs True session_rx [''session'']"
  "needs True err_rx [''err'']" "needs True app_rx [''app'']" "needs True device_rx [''device'']"
  unfolding tag_rx_def mtunnel_rx_def cid_rx_def lid_rx_def udp_rx_def session_rx_def err_rx_def app_rx_def device_rx_def
  by (rule needs_word, (rule list.set_intros(1) | rule list.set_intros(2) [OF list.set_intros(1)]), code_simp)+

lemma gated_symbols:
  "needs False (symbol_rx ''BRK_'') [''brk_'']" "needs False (symbol_rx ''ZPN_'') [''zpn_'']"
  "needs False (symbol_rx ''ZEVENT_'') [''zevent_'']" "needs False conn_rx [''id='']"
  unfolding symbol_rx_def conn_rx_def
  by ((rule needs_group)?, rule needs_word, (rule list.set_intros(1) | rule list.set_intros(2) [OF list.set_intros(1)]
    | rule list.set_intros(2) [OF list.set_intros(2) [OF list.set_intros(1)]]), code_simp)+

lemma gated_hosts: "needs True broker_rx [''broker'']" "needs True sme_rx [''.zscaler'']"
proof -
  have "needs True (RSeqs [RStr ''broker'', RStar host_chars, RLit CHR ''.'',
     RStar (RSeq (RPlus host_chars) (RLit CHR ''.'')),
     RStrs [''zpath'', ''zscaler'', ''zpalb'', ''zpaservice''], RStr ''.net'']) [''broker'']"
    by (rule needs_word, rule list.set_intros(1), code_simp)
  from needs_group [OF this] show "needs True broker_rx [''broker'']"
    unfolding broker_rx_def by (rule needs_seqs [rotated]) simp
  show "needs True sme_rx [''.zscaler'']"
    unfolding sme_rx_def Let_def
    by (rule needs_group, rule needs_word, rule list.set_intros(2) [OF list.set_intros(2) [OF list.set_intros(1)]], code_simp)
qed

lemma gated_chars: "needs False ipv4_rx [''.'']" "needs False guid_rx [''-'']"
proof -
  have "[lower_char CHR ''.''] = ''.''" "[lower_char CHR ''-''] = ''-''" by code_simp+
  then have dot: "needs False (RLit CHR ''.'') [''.'']" and dash: "needs False (RLit CHR ''-'') [''-'']"
    by (simp_all add: needs_lit)
  have "needs False (RTimes 3 (RSeq (RLit CHR ''.'') octet)) [''.'']"
    unfolding numeral_3_eq_3 using dot by (intro needs_times needs_seq) blast
  then have "needs False (RGroup 1 (RSeq octet (RTimes 3 (RSeq (RLit CHR ''.'') octet)))) [''.'']"
    by (intro needs_group needs_seq) blast
  then show "needs False ipv4_rx [''.'']" unfolding ipv4_rx_def by (rule needs_seqs [rotated]) simp
  show "needs False guid_rx [''-'']" unfolding guid_rx_def by (rule needs_group, rule needs_seqs [OF _ dash]) simp
qed

lemma gated_user: "needs True user_rx [''name'', ''upn'', ''for user'', ''login_hint'']"
proof -
  let ?lits = "[''name'', ''upn'', ''for user'', ''login_hint'']"
  have "list_ex (\<lambda>l. occurs l (py_lower ''name'')) ?lits" "list_ex (\<lambda>l. occurs l (py_lower ''upn'')) ?lits"
      "list_ex (\<lambda>l. occurs l (py_lower ''for user'')) ?lits" "list_ex (\<lambda>l. occurs l (py_lower ''login_hint'')) ?lits"
    by code_simp+
  note w = this [THEN needs_str [where ic = True]]
  have "needs True (RSeqs [RStr ''login'', sep_opt, RStr ''name'']) ?lits" "needs True (RSeqs [RStr ''user'', sep_opt, RStr ''name'']) ?lits"
    by (rule needs_seqs [OF _ w(1)], simp)+
  with w have "needs True (RAlts [RSeqs [RStr ''login'', sep_opt, RStr ''name''], RSeqs [RStr ''user'', sep_opt, RStr ''name''],
       RStr ''upn'', RStr ''for user'', RStr ''login_hint'']) ?lits"
    by (intro needs_alts) (simp only: list.pred_inject simp_thms)
  then show ?thesis unfolding user_rx_def by (rule needs_seqs [OF list.set_intros(1)])
qed

lemma all_gated: "s \<in> set (specs_single @ specs_multi) \<Longrightarrow> gated s"
proof -
  have "list_all gated id_specs"
    unfolding id_specs_def gated_def
    by (simp only: list.map prod.case list.pred_inject simp_thms id_spec.select_convs gated_words gated_symbols gated_hosts gated_chars gated_user simp_thms)
  then show "s \<in> set (specs_single @ specs_multi) \<Longrightarrow> gated s"
    by (auto simp: specs_single_def specs_multi_def list_all_iff)
qed

lemma closed_gate: "gated s \<Longrightarrow> \<not> gate_open (py_lower text) s \<Longrightarrow> collect text s st = st"
  by (simp add: collect_def matches_of_def needs_finditer gated_def gate_open_def)

lemma gated_extraction: "extract_ids text [] [] = extract_ids_ungated text"
proof -
  have "fold (\<lambda>s st. if gate_open (py_lower text) s then collect text s st else st) (specs_single @ specs_multi) no_ids
      = fold (collect text) (specs_single @ specs_multi) no_ids"
    by (rule fold_cong [OF refl refl]) (auto simp: fun_eq_iff closed_gate all_gated)
  then show ?thesis by (simp add: extract_ids_def extract_ids_ungated_def Let_def)
qed

text \<open>
  C13: the gates lose nothing: extraction with the cheap substring tests finds exactly what the
  patterns alone find, in the same order.
\<close>

theorem gates_lose_nothing: "extract_ids text [] [] = extract_ids_ungated text"
  by (rule gated_extraction)

section \<open>Bounds\<close>

definition of_type :: "string \<Rightarrow> (string \<times> string) list \<Rightarrow> (string \<times> string) list" where
  "of_type t ps = filter (\<lambda>p. fst p = t) ps"

definition ids_ok :: "id_state \<Rightarrow> bool" where
  "ids_ok st = (seen st = set (found st) \<and> distinct (found st)
     \<and> (\<forall>t. dict_getd (per_type st) t 0 = length (of_type t (found st)) \<and> length (of_type t (found st)) \<le> max_ids_per_type))"

lemma ids_ok_none: "ids_ok no_ids"
  by (simp add: ids_ok_def no_ids_def dict_getd_def of_type_def)

lemma ids_ok_add:
  assumes "ids_ok st" "(t, v) \<notin> seen st" "dict_getd (per_type st) t 0 < max_ids_per_type"
  shows "ids_ok (st\<lparr>seen := insert (t, v) (seen st), per_type := dict_set t (dict_getd (per_type st) t 0 + 1) (per_type st),
             found := found st @ [(t, v)]\<rparr>)"
proof -
  have "dict_getd (dict_set t (dict_getd (per_type st) t 0 + 1) (per_type st)) u 0 =
      (if u = t then dict_getd (per_type st) t 0 + 1 else dict_getd (per_type st) u 0)" for u
    by (simp add: dict_getd_def dict_get_set)
  with assms show ?thesis by (auto simp: ids_ok_def of_type_def)
qed

lemma ids_ok_collect_values: "ids_ok st \<Longrightarrow> ids_ok (collect_values t vs st)"
proof (induction t vs st rule: collect_values.induct)
  case (2 t v vs st)
  show ?case
  proof (cases "id_value t v")
    case None
    with 2 show ?thesis by simp
  next
    case (Some val)
    show ?thesis
    proof (cases "(t, val) \<in> seen st \<or> max_ids_per_type \<le> dict_getd (per_type st) t 0")
      case True
      with 2 Some show ?thesis by (auto simp: Let_def)
    next
      case False
      with ids_ok_add [OF "2.prems", of t val] 2 Some show ?thesis by (simp add: Let_def)
    qed
  qed
qed simp

text \<open>
  A record stores no identifier twice and at most 256 values of a type.
\<close>

theorem ids_bounded:
  "distinct (extract_ids text single multi) \<and> length (filter (\<lambda>p. fst p = t) (extract_ids text single multi)) \<le> 256"
proof -
  have "ids_ok (fold (\<lambda>s st. if gate_open (py_lower text) s then collect text s st else st) specs st)" if "ids_ok st" for specs st
    using that by (induction specs arbitrary: st) (simp_all add: collect_def ids_ok_collect_values)
  from this [OF ids_ok_none] obtain st where "extract_ids text single multi = found st" "ids_ok st"
    unfolding extract_ids_def Let_def by blast
  then show ?thesis by (simp add: ids_ok_def of_type_def max_ids_per_type_def)
qed

section \<open>Selecting types\<close>

text \<open>
  A selection of types that leaves the single-gate or the multiple-gate half empty does not
  restrict that half: asking for users alone extracts every type, and asking for tag ids alone
  still extracts users.
\<close>

theorem selection_ignored:
  "select_id_specs [''user''] = Some ([], specs_multi) \<and> extract_ids text [] specs_multi = extract_ids_ungated text
   \<and> (\<exists>single. select_id_specs [''tag_id''] = Some (single, []) \<and> extract_ids text single [] = extract_ids text single specs_multi)"
proof -
  have u: "select_id_specs [''user''] = Some ([], specs_multi)"
    by (simp add: select_id_specs_def id_types_def id_specs_def specs_single_def specs_multi_def)
  have "\<exists>single. select_id_specs [''tag_id''] = Some (single, [])"
    by (simp add: select_id_specs_def id_types_def id_specs_def specs_single_def specs_multi_def)
  moreover have "extract_ids text single [] = extract_ids text single specs_multi" for single
    by (simp add: extract_ids_def Let_def)
  moreover have "extract_ids text [] specs_multi = extract_ids_ungated text"
  proof -
    have "extract_ids text [] specs_multi = extract_ids text [] []" by (simp add: extract_ids_def)
    also have "\<dots> = extract_ids_ungated text" by (rule gated_extraction)
    finally show ?thesis .
  qed
  ultimately show ?thesis using u by blast
qed

end
