(* ===== verification/Log_Store.thy ===== *)
theory Log_Store
  imports Log_Index Store_Ids
begin

text \<open>
  Filling the line store (\<open>_Ingestor\<close> and \<open>build_store\<close> of \<open>zcc_diag/log_store.py\<close>): the three tables,
  the record assembly that attaches continuation lines and identifiers to the record above, the
  batches, the labels that keep (file, line) an address, and the order the files are read in.
  The database is its tables; a file is the list of its lines and whether it could be read to
  the end.
\<close>

section \<open>Tables\<close>

type_synonym address = "string \<times> nat"

definition address_of :: "indexed_line \<Rightarrow> address" where
  "address_of ln = (source_file ln, line_no ln)"

record tables =
  t_lines :: "indexed_line list"
  t_cont :: "(address \<times> string \<times> nat) list"
  t_ids :: "(address \<times> string \<times> string) list"

record counters =
  total_lines :: nat
  skipped :: nat
  orphans :: nat
  skipped_by_component :: "(string, nat) dict"
  skipped_by_file :: "(string, nat) dict"
  read_by_component :: "(string, nat) dict"
  records_with_continuation :: nat
  continuation_lines :: nat
  truncated_records :: nat
  id_edges :: nat
  ids_truncated :: nat
  store_tz :: "(string \<times> string) option"

definition zero_counters :: counters where
  "zero_counters = \<lparr>total_lines = 0, skipped = 0, orphans = 0, skipped_by_component = [], skipped_by_file = [],
     read_by_component = [], records_with_continuation = 0, continuation_lines = 0, truncated_records = 0,
     id_edges = 0, ids_truncated = 0, store_tz = None\<rparr>"

section \<open>Record assembly\<close>

record ingestor =
  db :: tables
  counts :: counters
  batch :: "indexed_line list"
  cont_batch :: "(address \<times> string \<times> nat) list"
  id_batch :: "(address \<times> string \<times> string) list"
  owner :: "address option"
  owner_body :: string
  cont :: "string list"
  cont_chars :: nat
  cont_dropped :: bool

definition new_ingestor :: ingestor where
  "new_ingestor = \<lparr>db = \<lparr>t_lines = [], t_cont = [], t_ids = []\<rparr>, counts = zero_counters, batch = [], cont_batch = [],
     id_batch = [], owner = None, owner_body = [], cont = [], cont_chars = 0, cont_dropped = False\<rparr>"

definition max_cont_lines :: nat where "max_cont_lines = 4000"
definition max_cont_chars :: nat where "max_cont_chars = 400000"
definition batch_size :: nat where "batch_size = 20000"

type_synonym id_config = "(id_spec list \<times> id_spec list) option"

text \<open>The identifiers of a record, where \<open>None\<close> is \<open>index_ids=False\<close>.\<close>

definition record_ids :: "id_config \<Rightarrow> string \<Rightarrow> (string \<times> string) list" where
  "record_ids cfg text = (case cfg of None \<Rightarrow> [] | Some (single, multi) \<Rightarrow> extract_ids text single multi)"

definition ids_full :: "(string \<times> string) list \<Rightarrow> bool" where
  "ids_full ids = (max_ids_per_type \<le> length ids \<and>
     list_ex (\<lambda>t. max_ids_per_type \<le> length (filter (\<lambda>p. fst p = t) ids)) (map fst ids))"

definition with_cont :: "string \<Rightarrow> string \<Rightarrow> string" where
  "with_cont bd c = (if c = [] then bd else bd @ [CHR 0x0A] @ c)"

definition close_counts :: "ingestor \<Rightarrow> string \<Rightarrow> (string \<times> string) list \<Rightarrow> counters" where
  "close_counts g c ids = (let k = counts g;
       k1 = (if c = [] then k else k\<lparr>records_with_continuation := records_with_continuation k + 1,
          continuation_lines := continuation_lines k + length (cont g),
          truncated_records := truncated_records k + (if cont_dropped g then 1 else 0)\<rparr>) in
     if ids = [] then k1 else k1\<lparr>id_edges := id_edges k1 + length ids,
       ids_truncated := ids_truncated k1 + (if ids_full ids then 1 else 0)\<rparr>)"

definition close_record :: "id_config \<Rightarrow> ingestor \<Rightarrow> ingestor" where
  "close_record cfg g = (let g1 = (case owner g of
       None \<Rightarrow> g
     | Some a \<Rightarrow> let c = join_with [CHR 0x0A] (cont g); ids = record_ids cfg (with_cont (owner_body g) c) in
         g\<lparr>cont_batch := cont_batch g @ (if c = [] then [] else [(a, c, length (cont g))]),
           id_batch := id_batch g @ map (\<lambda>(t, v). (a, t, v)) ids,
           counts := close_counts g c ids\<rparr>) in
     g1\<lparr>owner := None, owner_body := [], cont := [], cont_chars := 0, cont_dropped := False\<rparr>)"

definition flush_batches :: "ingestor \<Rightarrow> ingestor" where
  "flush_batches g = g\<lparr>db := \<lparr>t_lines = t_lines (db g) @ batch g, t_cont = t_cont (db g) @ cont_batch g,
     t_ids = t_ids (db g) @ id_batch g\<rparr>, batch := [], cont_batch := [], id_batch := []\<rparr>"

definition skip_line :: "string \<Rightarrow> string \<Rightarrow> counters \<Rightarrow> counters" where
  "skip_line c name k = k\<lparr>skipped := skipped k + 1, skipped_by_component := dict_add c 1 (skipped_by_component k),
     skipped_by_file := dict_add name 1 (skipped_by_file k)\<rparr>"

datatype physical = Unstamped string | BadStamp | Stamped indexed_line string

definition classify_physical :: "string \<Rightarrow> string \<Rightarrow> nat \<Rightarrow> string \<Rightarrow> physical" where
  "classify_physical c name n rw = (case rx_match False line_rx rw of
       None \<Rightarrow> Unstamped (py_strip rw)
     | Some m \<Rightarrow> (case read_line c name n rw of None \<Rightarrow> BadStamp | Some (ln, tz) \<Rightarrow> Stamped ln tz))"

definition feed_line :: "id_config \<Rightarrow> string \<Rightarrow> string \<Rightarrow> physical \<Rightarrow> ingestor \<Rightarrow> ingestor" where
  "feed_line cfg c name ph g = (case ph of
       Unstamped s \<Rightarrow>
         (if s = [] then g
          else if owner g \<noteq> None
          then (if length (cont g) < max_cont_lines \<and> cont_chars g < max_cont_chars
            then g\<lparr>cont := cont g @ [s], cont_chars := cont_chars g + length s + 1\<rparr>
            else g\<lparr>cont_dropped := True\<rparr>)
          else g\<lparr>counts := skip_line c name ((counts g)\<lparr>orphans := orphans (counts g) + 1\<rparr>)\<rparr>)
     | BadStamp \<Rightarrow> g\<lparr>counts := skip_line c name (counts g)\<rparr>
     | Stamped ln tz \<Rightarrow> (let g1 = close_record cfg g; k = counts g1;
           g2 = g1\<lparr>batch := batch g1 @ [ln], owner := Some (name, line_no ln), owner_body := body ln,
             counts := k\<lparr>store_tz := (if store_tz k = None then tz_from tz else store_tz k),
               total_lines := total_lines k + 1, read_by_component := dict_add c 1 (read_by_component k)\<rparr>\<rparr> in
         if batch_size \<le> length (batch g2) then flush_batches g2 else g2))"

record source_text =
  text_lines :: "string list"
  complete :: bool

definition feed_lines :: "id_config \<Rightarrow> string \<Rightarrow> string \<Rightarrow> string list \<Rightarrow> ingestor \<Rightarrow> ingestor" where
  "feed_lines cfg c name ls g =
     fold (\<lambda>(n, rw). feed_line cfg c name (classify_physical c name n rw)) (zip [1..<length ls + 1] ls) g"

text \<open>\<open>feed\<close>: an exception of the reader leaves the record open and the batches as they are.\<close>

definition feed_file :: "id_config \<Rightarrow> string \<Rightarrow> string \<Rightarrow> source_text \<Rightarrow> ingestor \<Rightarrow> ingestor" where
  "feed_file cfg name c src g = (let g1 = feed_lines cfg c name (text_lines src) g in
     if complete src then flush_batches (close_record cfg g1) else g1)"

section \<open>Components\<close>

definition component_markers :: "(string \<times> string list) list" where
  "component_markers =
     [(''upm'', [''ZSAUpm'', ''UPMServiceController'']),
      (''tray'', [''ZSATrayManager'', ''ZSATrayHelper'', ''ZSATray'', ''TrayManager'']),
      (''tunnel'', [''ZSATunnel'', ''TRPTunnel'', ''ZscalerTunnel'']),
      (''service'', [''ZSAService'', ''com.zscaler.ZscalerService'', ''TRPService'']),
      (''updater'', [''ZSAUpdater'']),
      (''helper'', [''ZSAHelper'']),
      (''credential'', [''ZSACredentialProvider'']),
      (''script'', [''ZSAScriptExecutorRpcClient''])]"

definition classify_component :: "string \<Rightarrow> string option" where
  "classify_component name =
     map_option fst (List.find (\<lambda>(c, markers). list_ex (\<lambda>m. occurs m name) markers) component_markers)"

definition foreign_markers :: "string list" where
  "foreign_markers = [''zapprd'', ''setupapi.dev'', ''AppInfo.log'', ''profiles.log'', ''pf.log'', ''ZSAVersionHistory'',
     ''installbuilder'', ''gpo-result'']"

text \<open>The marker stands for its description.\<close>

definition classify_foreign :: "string \<Rightarrow> string option" where
  "classify_foreign name = List.find (\<lambda>m. occurs (py_lower m) (py_lower name)) foreign_markers"

section \<open>The files of a bundle\<close>

text \<open>
  Rotations hold named members; a member that cannot be opened, or is read in part, ends the
  archive with an exception.
\<close>

record member =
  member_name :: string
  member_text :: "source_text option"

datatype holding = Text "source_text option" | Members "member list option"

record bundle_file =
  f_name :: string
  f_path :: string
  f_size :: "nat option"
  f_holds :: holding

datatype kind = KPlain | KZip | KArchive | KUnsupported

definition min_log_bytes :: nat where "min_log_bytes = 200"

definition candidate_kind :: "bundle_file \<Rightarrow> (kind \<times> nat) option" where
  "candidate_kind f = (case f_size f of
       None \<Rightarrow> None
     | Some sz \<Rightarrow> let low = py_lower (f_name f) in
         if suffix ''.log.zip'' low then Some (KZip, sz)
         else if suffix ''.log'' low then (if sz < min_log_bytes then None else Some (KPlain, sz))
         else if suffix ''.zip'' low then Some (KArchive, sz)
         else if suffix ''.7z'' low \<or> suffix ''.rar'' low then Some (KUnsupported, sz)
         else None)"

section \<open>Labels\<close>

record labels =
  used_names :: "(string, nat) dict"
  duplicates :: nat
  source_paths :: "(string, string) dict"

definition label_text :: "string \<Rightarrow> nat \<Rightarrow> string" where
  "label_text name n = (if n = 1 then name else name @ ''#'' @ str_of_nat n)"

definition label :: "string \<Rightarrow> string \<Rightarrow> labels \<Rightarrow> string \<times> labels" where
  "label name path l = (let n = dict_getd (used_names l) name 0 + 1; t = label_text name n in
     (t, l\<lparr>used_names := dict_set name n (used_names l), duplicates := duplicates l + (if 1 < n then 1 else 0),
        source_paths := dict_set t path (source_paths l)\<rparr>))"

section \<open>Building\<close>

record build =
  ing :: ingestor
  labs :: labels
  files_scanned :: nat
  plain_logs_read :: nat
  rotations_found :: nat
  rotations_read :: nat
  bytes_scanned :: nat
  unreadable :: "string list"
  nested :: "string list"
  foreign_files :: "(string, string) dict"
  foreign_bytes :: nat
  unclassified :: "(string, nat) dict"
  plains :: "(bundle_file \<times> string \<times> nat) list"
  rotations :: "(string, (bundle_file \<times> nat) list) dict"

definition new_build :: build where
  "new_build = \<lparr>ing = new_ingestor, labs = \<lparr>used_names = [], duplicates = 0, source_paths = []\<rparr>, files_scanned = 0,
     plain_logs_read = 0, rotations_found = 0, rotations_read = 0, bytes_scanned = 0, unreadable = [], nested = [],
     foreign_files = [], foreign_bytes = 0, unclassified = [], plains = [], rotations = []\<rparr>"

definition sort_candidate :: "bundle_file \<Rightarrow> build \<Rightarrow> build" where
  "sort_candidate f b = (case candidate_kind f of
       None \<Rightarrow> b
     | Some (KUnsupported, sz) \<Rightarrow> b\<lparr>unreadable := unreadable b @ [f_name f]\<rparr>
     | Some (KArchive, sz) \<Rightarrow> b\<lparr>nested := nested b @ [f_path f]\<rparr>
     | Some (k, sz) \<Rightarrow> (case classify_component (f_name f) of
         None \<Rightarrow> (case classify_foreign (f_name f) of
             Some d \<Rightarrow> b\<lparr>foreign_files := dict_set (f_name f) d (foreign_files b), foreign_bytes := foreign_bytes b + sz\<rparr>
           | None \<Rightarrow> b\<lparr>unclassified := dict_set (f_name f) sz (unclassified b)\<rparr>)
       | Some c \<Rightarrow> if k = KPlain then b\<lparr>plains := plains b @ [(f, c, sz)]\<rparr>
           else b\<lparr>rotations_found := rotations_found b + 1,
                  rotations := dict_set c (dict_getd (rotations b) c [] @ [(f, sz)]) (rotations b)\<rparr>))"

definition read_plain :: "id_config \<Rightarrow> bundle_file \<times> string \<times> nat \<Rightarrow> build \<Rightarrow> build" where
  "read_plain cfg p b = (case p of (f, c, sz) \<Rightarrow> case f_holds f of
       Text (Some src) \<Rightarrow> (case label (f_name f) (f_path f) (labs b) of (t, l) \<Rightarrow>
         let b1 = b\<lparr>ing := feed_file cfg t c src (ing b), labs := l\<rparr> in
         if complete src then b1\<lparr>files_scanned := files_scanned b + 1, plain_logs_read := plain_logs_read b + 1,
           bytes_scanned := bytes_scanned b + sz\<rparr> else b1)
     | _ \<Rightarrow> b)"

text \<open>The members in order; the second component says whether the archive was read to the end.\<close>

fun read_members :: "id_config \<Rightarrow> string \<Rightarrow> string \<Rightarrow> member list \<Rightarrow> build \<Rightarrow> build \<times> bool" where
  "read_members cfg c path [] b = (b, True)"
| "read_members cfg c path (m # ms) b =
     (if \<not> suffix ''.log'' (py_lower (member_name m)) then read_members cfg c path ms b
      else case member_text m of
        None \<Rightarrow> (b, False)
      | Some src \<Rightarrow>
          let icomp = (case classify_component (member_name m) of None \<Rightarrow> c | Some i \<Rightarrow> i) in
          case label (member_name m) (path @ ''!'' @ member_name m) (labs b) of (t, l) \<Rightarrow>
            let b1 = b\<lparr>ing := feed_file cfg t icomp src (ing b), labs := l\<rparr> in
            if complete src then read_members cfg c path ms b1 else (b1, False))"

definition read_rotation :: "id_config \<Rightarrow> string \<Rightarrow> bundle_file \<times> nat \<Rightarrow> build \<Rightarrow> build" where
  "read_rotation cfg c p b = (case p of (f, sz) \<Rightarrow>
     case (case f_holds f of Members (Some ms) \<Rightarrow> read_members cfg c (f_path f) ms b | _ \<Rightarrow> (b, False)) of
       (b1, True) \<Rightarrow> b1\<lparr>rotations_read := rotations_read b1 + 1, files_scanned := files_scanned b1 + 1,
         bytes_scanned := bytes_scanned b1 + sz\<rparr>
     | (b1, False) \<Rightarrow> b1\<lparr>unreadable := unreadable b1 @ [f_name f]\<rparr>)"

definition newest_rotations :: "nat option \<Rightarrow> (bundle_file \<times> nat) list \<Rightarrow> (bundle_file \<times> nat) list" where
  "newest_rotations cap es = (let s = rev (sort_key (\<lambda>e. f_name (fst e)) (rev es)) in
     case cap of Some m \<Rightarrow> if m = 0 then s else take m s | None \<Rightarrow> s)"

definition build_store :: "id_config \<Rightarrow> bool \<Rightarrow> nat option \<Rightarrow> bundle_file list \<Rightarrow> build" where
  "build_store cfg with_rotations cap fs =
     (let b0 = fold sort_candidate fs new_build;
          b1 = fold (read_plain cfg) (sort_key (\<lambda>p. f_name (fst p)) (plains b0)) b0;
          b2 = (if with_rotations
            then fold (\<lambda>(c, es) b. fold (read_rotation cfg c) (newest_rotations cap es) b) (rotations b0) b1
            else b1) in
      b2\<lparr>ing := flush_batches (ing b2)\<rparr>)"

end
