(* ===== verification/Store_Facts.thy ===== *)
theory Store_Facts
  imports Log_Store "HOL-Library.Multiset"
begin

text \<open>
  What filling the store keeps: every physical line is accounted for, and (file, line) is an
  address of the three tables.
\<close>

section \<open>Accounting of the lines\<close>

definition asm_ok :: "ingestor \<Rightarrow> bool" where
  "asm_ok g = ((owner g = None \<longrightarrow> cont g = [] \<and> \<not> cont_dropped g) \<and> [] \<notin> set (cont g) \<and> (cont_dropped g \<longrightarrow> cont g \<noteq> [])
     \<and> (cont g = [] \<longrightarrow> cont_chars g = 0)
     \<and> skipped (counts g) = dict_total (skipped_by_component (counts g))
     \<and> total_lines (counts g) = dict_total (read_by_component (counts g))
     \<and> distinct (dict_keys (skipped_by_component (counts g))) \<and> distinct (dict_keys (read_by_component (counts g)))
     \<and> total_lines (counts g) = length (t_lines (db g)) + length (batch g))"

definition accounted :: "ingestor \<Rightarrow> nat" where
  "accounted g = total_lines (counts g) + skipped (counts g) + continuation_lines (counts g) + length (cont g)"

definition dropping :: "ingestor \<Rightarrow> bool" where
  "dropping g = (cont_dropped g \<or> 0 < truncated_records (counts g))"

lemma join_nonempty: "xs \<noteq> [] \<Longrightarrow> [] \<notin> set xs \<Longrightarrow> join_with d xs \<noteq> []"
  by (induction d xs rule: join_with.induct) auto

lemma close_counts_simps [simp]:
  "total_lines (close_counts g c ids) = total_lines (counts g)" "skipped (close_counts g c ids) = skipped (counts g)"
  "skipped_by_component (close_counts g c ids) = skipped_by_component (counts g)"
  "read_by_component (close_counts g c ids) = read_by_component (counts g)"
  "continuation_lines (close_counts g c ids) = continuation_lines (counts g) + (if c = [] then 0 else length (cont g))"
  "truncated_records (close_counts g c ids) = truncated_records (counts g) + (if c \<noteq> [] \<and> cont_dropped g then 1 else 0)"
  by (simp_all add: close_counts_def Let_def)

lemma close_record_asm:
  assumes "asm_ok g"
  shows "asm_ok (close_record cfg g) \<and> accounted (close_record cfg g) = accounted g
    \<and> (dropping (close_record cfg g) \<longleftrightarrow> dropping g) \<and> owner (close_record cfg g) = None"
proof (cases "owner g")
  case None
  with assms show ?thesis by (simp add: close_record_def asm_ok_def accounted_def dropping_def Let_def)
next
  case (Some a)
  have "join_with [CHR 0x0A] (cont g) = [] \<longleftrightarrow> cont g = []"
    using join_nonempty [of "cont g" "[CHR 0x0A]"] assms by (auto simp: asm_ok_def)
  with Some assms show ?thesis by (auto simp: close_record_def asm_ok_def accounted_def dropping_def Let_def)
qed

lemma flush_asm [simp]:
  "asm_ok (flush_batches g) = asm_ok g" "accounted (flush_batches g) = accounted g" "dropping (flush_batches g) = dropping g"
  "owner (flush_batches g) = owner g" "batch (flush_batches g) = []"
  by (simp_all add: flush_batches_def asm_ok_def accounted_def dropping_def)

definition nonblank :: "physical \<Rightarrow> nat" where
  "nonblank ph = (if ph = Unstamped [] then 0 else 1)"

lemma skip_asm:
  assumes "asm_ok g"
  shows "asm_ok (g\<lparr>counts := skip_line c name (counts g)\<rparr>)"
  using assms by (simp add: asm_ok_def skip_line_def dict_total_add distinct_dict_add)

lemma feed_line_asm:
  assumes ok: "asm_ok g"
  shows "asm_ok (feed_line cfg c name ph g)
    \<and> (accounted (feed_line cfg c name ph g) = accounted g + nonblank ph \<or> dropping (feed_line cfg c name ph g))
    \<and> (dropping g \<longrightarrow> dropping (feed_line cfg c name ph g))"
proof (cases ph)
  case (Unstamped s)
  consider "s = []" | "s \<noteq> []" "owner g = None"
    | "s \<noteq> []" "owner g \<noteq> None" "length (cont g) < max_cont_lines \<and> cont_chars g < max_cont_chars"
    | "s \<noteq> []" "owner g \<noteq> None" "\<not> (length (cont g) < max_cont_lines \<and> cont_chars g < max_cont_chars)" by blast
  then show ?thesis
  proof cases
    case 1
    with Unstamped ok show ?thesis by (simp add: feed_line_def nonblank_def)
  next
    case 2
    with Unstamped ok show ?thesis
      by (simp add: feed_line_def nonblank_def asm_ok_def accounted_def dropping_def skip_line_def dict_total_add distinct_dict_add)
  next
    case 3
    with Unstamped ok show ?thesis
      by (auto simp: feed_line_def nonblank_def asm_ok_def accounted_def dropping_def)
  next
    case 4
    then have "cont g \<noteq> []" using ok by (auto simp: asm_ok_def max_cont_lines_def max_cont_chars_def)
    with 4 Unstamped ok show ?thesis
      by (auto simp: feed_line_def nonblank_def asm_ok_def accounted_def dropping_def)
  qed
next
  case BadStamp
  with skip_asm [OF ok] show ?thesis
    by (simp add: feed_line_def accounted_def dropping_def skip_line_def nonblank_def)
next
  case (Stamped ln tz)
  define g1 where "g1 = close_record cfg g"
  have g1: "asm_ok g1" "accounted g1 = accounted g" "dropping g1 \<longleftrightarrow> dropping g" "owner g1 = None"
    using close_record_asm [OF ok, of cfg] by (simp_all add: g1_def)
  define g2 where "g2 = g1\<lparr>batch := batch g1 @ [ln], owner := Some (name, line_no ln), owner_body := body ln,
             counts := (counts g1)\<lparr>store_tz := (if store_tz (counts g1) = None then tz_from tz else store_tz (counts g1)),
               total_lines := total_lines (counts g1) + 1, read_by_component := dict_add c 1 (read_by_component (counts g1))\<rparr>\<rparr>"
  have "asm_ok g2" "accounted g2 = accounted g1 + 1" "dropping g2 = dropping g1"
    using g1(1,4) by (auto simp: g2_def asm_ok_def accounted_def dropping_def dict_total_add distinct_dict_add)
  moreover have "feed_line cfg c name ph g = (if batch_size \<le> length (batch g2) then flush_batches g2 else g2)"
    by (simp add: feed_line_def Stamped g1_def [symmetric] g2_def Let_def)
  ultimately show ?thesis using g1 Stamped by (simp add: nonblank_def)
qed

definition physicals :: "string \<Rightarrow> string \<Rightarrow> string list \<Rightarrow> physical list" where
  "physicals c name ls = map (\<lambda>(n, rw). classify_physical c name n rw) (zip [1..<length ls + 1] ls)"

lemma feed_lines_physicals: "feed_lines cfg c name ls g = fold (feed_line cfg c name) (physicals c name ls) g"
  unfolding feed_lines_def physicals_def fold_map by (simp only: comp_def case_prod_unfold)

definition nonblanks :: "physical list \<Rightarrow> nat" where
  "nonblanks phs = sum_list (map nonblank phs)"

lemma fold_feed_asm:
  "asm_ok g \<Longrightarrow> asm_ok (fold (feed_line cfg c name) phs g)
    \<and> (accounted (fold (feed_line cfg c name) phs g) = accounted g + nonblanks phs \<or> dropping (fold (feed_line cfg c name) phs g))
    \<and> (dropping g \<longrightarrow> dropping (fold (feed_line cfg c name) phs g))"
proof (induction phs arbitrary: g)
  case (Cons ph phs)
  note step = feed_line_asm [OF Cons.prems, of cfg c name ph]
  note rest = Cons.IH [OF conjunct1 [OF step]]
  from step rest show ?case by (auto simp: nonblanks_def)
qed (simp add: nonblanks_def)

text \<open>A file that is read to the end.\<close>

type_synonym log_text = "string \<times> string \<times> string list"

definition feed_complete :: "id_config \<Rightarrow> log_text \<Rightarrow> ingestor \<Rightarrow> ingestor" where
  "feed_complete cfg f g = (case f of (name, c, ls) \<Rightarrow> feed_file cfg name c \<lparr>text_lines = ls, complete = True\<rparr> g)"

definition file_nonblanks :: "log_text \<Rightarrow> nat" where
  "file_nonblanks f = (case f of (name, c, ls) \<Rightarrow> nonblanks (physicals c name ls))"

lemma feed_complete_asm:
  assumes "asm_ok g"
  shows "asm_ok (feed_complete cfg f g) \<and> owner (feed_complete cfg f g) = None \<and> batch (feed_complete cfg f g) = []
    \<and> (accounted (feed_complete cfg f g) = accounted g + file_nonblanks f \<or> dropping (feed_complete cfg f g))
    \<and> (dropping g \<longrightarrow> dropping (feed_complete cfg f g))"
proof -
  obtain name c ls where f: "f = (name, c, ls)" by (cases f)
  define g1 where "g1 = fold (feed_line cfg c name) (physicals c name ls) g"
  note step = fold_feed_asm [OF assms, of cfg c name "physicals c name ls", folded g1_def]
  note cl = close_record_asm [OF conjunct1 [OF step], of cfg]
  have "feed_complete cfg f g = flush_batches (close_record cfg g1)"
    by (simp add: feed_complete_def f feed_file_def feed_lines_physicals g1_def)
  with step cl show ?thesis by (simp add: f file_nonblanks_def)
qed

lemma fold_complete_asm:
  assumes "asm_ok g" "owner g = None" "batch g = []"
  shows "asm_ok (fold (feed_complete cfg) fs g) \<and> owner (fold (feed_complete cfg) fs g) = None \<and> batch (fold (feed_complete cfg) fs g) = []
    \<and> (accounted (fold (feed_complete cfg) fs g) = accounted g + sum_list (map file_nonblanks fs) \<or> dropping (fold (feed_complete cfg) fs g))
    \<and> (dropping g \<longrightarrow> dropping (fold (feed_complete cfg) fs g))"
  using assms
proof (induction fs arbitrary: g)
  case (Cons f fs)
  note step = feed_complete_asm [OF Cons.prems(1), of cfg f]
  from step Cons.IH [of "feed_complete cfg f g"] show ?case by auto
qed simp

definition ingest :: "id_config \<Rightarrow> log_text list \<Rightarrow> ingestor" where
  "ingest cfg fs = fold (feed_complete cfg) fs new_ingestor"


section \<open>A file that breaks off\<close>

lemma close_record_none: "owner g = None \<Longrightarrow> cont g = [] \<Longrightarrow> cont_batch (close_record cfg g) = cont_batch g \<and> db (close_record cfg g) = db g"
  by (simp add: close_record_def)

text \<open>
  When the reading of a file breaks off, its last record stays open, and the lines a later
  file begins with are attached to it, under the address of the first file.
\<close>

theorem torn_record:
  assumes r1: "classify_physical c1 f1 1 rw1 = Stamped ln tz" and r2: "classify_physical c2 f2 1 rw2 = Unstamped (x # xs)"
  shows "t_cont (db (feed_file cfg f2 c2 \<lparr>text_lines = [rw2], complete = True\<rparr>
      (feed_file cfg f1 c1 \<lparr>text_lines = [rw1], complete = False\<rparr> new_ingestor))) = [((f1, 1), x # xs, 1)]"
proof -
  have n: "line_no ln = 1"
    using r1 by (auto simp: classify_physical_def read_line_def split: option.splits)
  have new: "close_record cfg new_ingestor = new_ingestor"
    by (simp add: close_record_def new_ingestor_def)
  define g1 where "g1 = feed_file cfg f1 c1 \<lparr>text_lines = [rw1], complete = False\<rparr> new_ingestor"
  have g1: "owner g1 = Some (f1, 1)" "cont g1 = []" "cont_chars g1 = 0" "cont_batch g1 = []" "t_cont (db g1) = []" "batch_size > 1"
    by (simp_all add: g1_def feed_file_def feed_lines_def feed_line_def r1 [simplified] new Let_def n)
      (simp_all add: new_ingestor_def batch_size_def flush_batches_def)
  define g2 where "g2 = g1\<lparr>cont := [x # xs], cont_chars := length (x # xs) + 1\<rparr>"
  have "feed_lines cfg c2 f2 [rw2] g1 = g2"
    using g1 by (simp add: feed_lines_def feed_line_def r2 [simplified] g2_def max_cont_lines_def max_cont_chars_def)
  then have "feed_file cfg f2 c2 \<lparr>text_lines = [rw2], complete = True\<rparr> g1 = flush_batches (close_record cfg g2)"
    by (simp add: feed_file_def)
  moreover have "cont_batch (close_record cfg g2) = [((f1, 1), x # xs, 1)]" "t_cont (db (close_record cfg g2)) = []"
    using g1 by (simp_all add: close_record_def g2_def Let_def)
  ultimately show ?thesis by (simp add: g1_def [symmetric] flush_batches_def)
qed

lemma stamped_sample: "\<exists>ln tz. classify_physical ''tunnel'' ''ZSATunnel_1.log'' 1 ''2025-07-01 10:11:12.5[1:2] INF x'' = Stamped ln tz"
proof -
  have m: "map_option (grp 1) (rx_match False line_rx ''2025-07-01 10:11:12.5[1:2] INF x'') = Some ''2025-07-01 10:11:12.5''"
    by code_simp
  then obtain m where "rx_match False line_rx ''2025-07-01 10:11:12.5[1:2] INF x'' = Some m" "grp 1 m = ''2025-07-01 10:11:12.5''"
    by auto
  moreover have "\<exists>t. strptime ''2025-07-01 10:11:12.5'' = Some t"
    by (simp add: strptime_def slice_def nat_of_digits_def digit_val_def mk_dt_def civil_ok_def days_in_month_def leap_def)
  ultimately show ?thesis by (auto simp: classify_physical_def read_line_def)
qed

theorem torn_record_witness:
  "t_cont (db (feed_file None ''ZSATunnel_2.log'' ''tunnel'' \<lparr>text_lines = [''} tail''], complete = True\<rparr>
      (feed_file None ''ZSATunnel_1.log'' ''tunnel'' \<lparr>text_lines = [''2025-07-01 10:11:12.5[1:2] INF x''], complete = False\<rparr> new_ingestor)))
    = [((''ZSATunnel_1.log'', 1), ''} tail'', 1)]"
proof -
  obtain ln tz where "classify_physical ''tunnel'' ''ZSATunnel_1.log'' 1 ''2025-07-01 10:11:12.5[1:2] INF x'' = Stamped ln tz"
    using stamped_sample by blast
  moreover have "rx_match False line_rx ''} tail'' = None" "py_strip ''} tail'' = ''} tail''" by code_simp+
  ultimately show ?thesis by (intro torn_record) (simp_all add: classify_physical_def)
qed

end
