(* ===== verification/Store_Addresses.thy ===== *)
theory Store_Addresses
  imports Log_Store
begin

text \<open>
  The address of a row: labels are never issued twice, so a file label with a line number names
  one line of the store, and each continuation and identifier row belongs to a line.
\<close>

section \<open>Labels\<close>

definition is_log :: "string \<Rightarrow> bool" where
  "is_log name = suffix ''.log'' (py_lower name)"

lemma is_log_last: "is_log name \<Longrightarrow> name \<noteq> [] \<and> lower_char (last name) = CHR ''g''"
proof -
  assume "is_log name"
  then obtain p where p: "py_lower name = p @ ''.log''" by (auto simp: is_log_def suffix_def)
  then have "name \<noteq> []" by auto
  moreover have "last (py_lower name) = CHR ''g''" unfolding p by simp
  ultimately show ?thesis by (simp add: py_lower_def last_map)
qed

lemma decimal_lower: "py_isdecimal d \<Longrightarrow> lower_char d \<noteq> CHR ''g''"
  by (auto simp: py_isdecimal_def lower_char_def Let_def)

lemma decimal_not_hash: "CHR ''#'' \<notin> set (str_of_nat n)"
  using str_of_nat_decimal [of n] by (auto simp: list_all_iff py_isdecimal_def Let_def)

lemma split_last_eq:
  assumes "xs @ x # ys = xs' @ x # ys'" "x \<notin> set ys" "x \<notin> set ys'"
  shows "xs = xs' \<and> ys = ys'"
proof -
  have tw: "takeWhile (\<lambda>c. c \<noteq> x) (rev (as @ x # bs)) = rev bs" if "x \<notin> set bs" for as bs
  proof -
    have "takeWhile (\<lambda>c. c \<noteq> x) (rev bs @ x # rev as) = rev bs @ takeWhile (\<lambda>c. c \<noteq> x) (x # rev as)"
      by (rule takeWhile_append2) (use that in auto)
    then show ?thesis by simp
  qed
  from assms have "ys = ys'" by (metis tw rev_rev_ident)
  with assms(1) show ?thesis by simp
qed

lemma label_text_inj:
  assumes "is_log a" "is_log b" "0 < m" "0 < n" "label_text a m = label_text b n"
  shows "a = b \<and> m = n"
proof -
  have num: "last (c @ ''#'' @ str_of_nat k) = last (str_of_nat k)" "py_isdecimal (last (str_of_nat k))" for c k
    using str_of_nat_decimal [of k] by (simp_all add: list_all_iff)
  have ne: "c \<noteq> d @ ''#'' @ str_of_nat k" if "is_log c" for c d k
    using is_log_last [OF that] decimal_lower [OF num(2)] num(1) by metis
  consider "m = 1" "n = 1" | "m = 1" "n \<noteq> 1" | "m \<noteq> 1" "n = 1" | "m \<noteq> 1" "n \<noteq> 1" by blast
  then show ?thesis
  proof cases
    case 1
    with assms show ?thesis by (simp add: label_text_def)
  next
    case 2
    with assms(5) have "a = b @ ''#'' @ str_of_nat n" by (simp add: label_text_def)
    with ne [OF assms(1)] show ?thesis by blast
  next
    case 3
    with assms(5) have "b = a @ ''#'' @ str_of_nat m" by (simp add: label_text_def)
    with ne [OF assms(2)] show ?thesis by blast
  next
    case 4
    with assms(5) have "a @ CHR ''#'' # str_of_nat m = b @ CHR ''#'' # str_of_nat n" by (simp add: label_text_def)
    from split_last_eq [OF this] show ?thesis by (simp add: decimal_not_hash)
  qed
qed

definition issued :: "labels \<Rightarrow> string set" where
  "issued l = {label_text name k | name k. 0 < k \<and> k \<le> dict_getd (used_names l) name 0}"

definition labels_ok :: "labels \<Rightarrow> bool" where
  "labels_ok l = (\<forall>name. 0 < dict_getd (used_names l) name 0 \<longrightarrow> is_log name)"

lemma label_fresh:
  assumes "labels_ok l" "is_log name" "label name path l = (t, l')"
  shows "t \<notin> issued l" "issued l' = insert t (issued l)" "labels_ok l'"
proof -
  let ?n = "dict_getd (used_names l) name 0 + 1"
  have t: "t = label_text name ?n" and l': "used_names l' = dict_set name ?n (used_names l)"
    using assms(3) by (auto simp: label_def Let_def)
  have getd: "dict_getd (used_names l') nm 0 = (if nm = name then ?n else dict_getd (used_names l) nm 0)" for nm
    by (simp add: l' dict_getd_def dict_get_set)
  show "t \<notin> issued l"
  proof
    assume "t \<in> issued l"
    then obtain nm k where k: "t = label_text nm k" "0 < k" "k \<le> dict_getd (used_names l) nm 0"
      by (auto simp: issued_def)
    then have "is_log nm" using assms(1) by (auto simp: labels_ok_def)
    have "name = nm \<and> ?n = k" by (rule label_text_inj [OF assms(2) \<open>is_log nm\<close>]) (use k t in simp_all)
    then have "?n = k" "name = nm" by blast+
    then show False using k(3) by simp
  qed
  show "issued l' = insert t (issued l)"
  proof (rule set_eqI)
    fix u
    have "u \<in> issued l' \<longleftrightarrow> (\<exists>nm k. u = label_text nm k \<and> 0 < k \<and> (k \<le> dict_getd (used_names l) nm 0 \<or> nm = name \<and> k = ?n))"
    proof -
      have "k \<le> dict_getd (used_names l') nm 0 \<longleftrightarrow> k \<le> dict_getd (used_names l) nm 0 \<or> nm = name \<and> k = ?n" for nm k
        by (auto simp: getd)
      then show ?thesis by (simp add: issued_def)
    qed
    also have "\<dots> \<longleftrightarrow> u \<in> insert t (issued l)" by (auto simp: issued_def t)
    finally show "u \<in> issued l' \<longleftrightarrow> u \<in> insert t (issued l)" .
  qed
  show "labels_ok l'" using assms(1,2) by (simp add: labels_ok_def getd)
qed

section \<open>Rows\<close>

definition all_lines :: "ingestor \<Rightarrow> indexed_line list" where
  "all_lines g = t_lines (db g) @ batch g"

definition all_cont :: "ingestor \<Rightarrow> (address \<times> string \<times> nat) list" where
  "all_cont g = t_cont (db g) @ cont_batch g"

definition all_ids :: "ingestor \<Rightarrow> (address \<times> string \<times> string) list" where
  "all_ids g = t_ids (db g) @ id_batch g"

definition addresses :: "ingestor \<Rightarrow> address set" where
  "addresses g = address_of ` set (all_lines g)"

definition addr_ok :: "string set \<Rightarrow> ingestor \<Rightarrow> bool" where
  "addr_ok I g = (distinct (map address_of (all_lines g)) \<and> source_file ` set (all_lines g) \<subseteq> I
     \<and> distinct (map fst (all_cont g)) \<and> fst ` set (all_cont g) \<subseteq> addresses g \<and> fst ` set (all_ids g) \<subseteq> addresses g
     \<and> (\<forall>a. owner g = Some a \<longrightarrow> a \<in> addresses g \<and> a \<notin> fst ` set (all_cont g)))"

lemma rows_flush [simp]:
  "all_lines (flush_batches g) = all_lines g" "all_cont (flush_batches g) = all_cont g" "all_ids (flush_batches g) = all_ids g"
  "addresses (flush_batches g) = addresses g" "addr_ok I (flush_batches g) = addr_ok I g"
  by (simp_all add: flush_batches_def all_lines_def all_cont_def all_ids_def addresses_def addr_ok_def)

lemma rows_update [simp]:
  "all_lines (g\<lparr>cont := x, cont_chars := n\<rparr>) = all_lines g" "all_cont (g\<lparr>cont := x, cont_chars := n\<rparr>) = all_cont g"
  "all_ids (g\<lparr>cont := x, cont_chars := n\<rparr>) = all_ids g"
  "all_lines (g\<lparr>cont_dropped := b\<rparr>) = all_lines g" "all_cont (g\<lparr>cont_dropped := b\<rparr>) = all_cont g"
  "all_ids (g\<lparr>cont_dropped := b\<rparr>) = all_ids g"
  "all_lines (g\<lparr>counts := k\<rparr>) = all_lines g" "all_cont (g\<lparr>counts := k\<rparr>) = all_cont g" "all_ids (g\<lparr>counts := k\<rparr>) = all_ids g"
  by (simp_all add: all_lines_def all_cont_def all_ids_def)

lemma addr_ok_update [simp]:
  "addr_ok I (g\<lparr>cont := x, cont_chars := n\<rparr>) = addr_ok I g" "addr_ok I (g\<lparr>cont_dropped := b\<rparr>) = addr_ok I g"
  "addr_ok I (g\<lparr>counts := k\<rparr>) = addr_ok I g"
  by (simp_all add: addr_ok_def addresses_def)

lemma addr_ok_mono: "addr_ok I g \<Longrightarrow> I \<subseteq> J \<Longrightarrow> addr_ok J g"
  by (auto simp: addr_ok_def)

lemma all_lines_close [simp]: "all_lines (close_record cfg g) = all_lines g"
  by (simp add: close_record_def all_lines_def Let_def split: option.split)

lemma addr_ok_close: "addr_ok I g \<Longrightarrow> addr_ok I (close_record cfg g) \<and> owner (close_record cfg g) = None"
proof (cases "owner g")
  case None
  then show "addr_ok I g \<Longrightarrow> ?thesis"
    by (simp add: close_record_def addr_ok_def addresses_def all_lines_def all_cont_def all_ids_def Let_def)
next
  case (Some a)
  assume ok: "addr_ok I g"
  let ?c = "join_with [CHR 0x0A] (cont g)"
  let ?ids = "record_ids cfg (with_cont (owner_body g) ?c)"
  have "all_cont (close_record cfg g) = all_cont g @ (if ?c = [] then [] else [(a, ?c, length (cont g))])"
    "all_ids (close_record cfg g) = all_ids g @ map (\<lambda>(t, v). (a, t, v)) ?ids" "owner (close_record cfg g) = None"
    by (simp_all add: close_record_def Some all_cont_def all_ids_def Let_def)
  with ok Some show ?thesis by (auto simp: addr_ok_def addresses_def)
qed

text \<open>The lines of the file being read have the numbers read so far.\<close>

definition upto_line :: "string \<Rightarrow> nat \<Rightarrow> ingestor \<Rightarrow> bool" where
  "upto_line t k g = (\<forall>ln \<in> set (all_lines g). source_file ln = t \<longrightarrow> line_no ln \<le> k)"

lemma stamped_address:
  "classify_physical c t n rw = Stamped ln tz \<Longrightarrow> source_file ln = t \<and> line_no ln = n"
  by (auto simp: classify_physical_def read_line_def split: option.splits)

lemma feed_line_address:
  assumes "addr_ok I g" "upto_line t k g" "t \<in> I"
  shows "addr_ok I (feed_line cfg c t (classify_physical c t (Suc k) rw) g)
    \<and> upto_line t (Suc k) (feed_line cfg c t (classify_physical c t (Suc k) rw) g)"
proof (cases "classify_physical c t (Suc k) rw")
  case (Unstamped s)
  with assms show ?thesis by (auto simp: feed_line_def upto_line_def)
next
  case BadStamp
  with assms show ?thesis by (auto simp: feed_line_def upto_line_def)
next
  case (Stamped ln tz)
  note ln = stamped_address [OF Stamped]
  define g1 where "g1 = close_record cfg g"
  have g1: "addr_ok I g1" "all_lines g1 = all_lines g" using addr_ok_close [OF assms(1), of cfg] by (simp_all add: g1_def)
  define g2 where "g2 = g1\<lparr>batch := batch g1 @ [ln], owner := Some (t, line_no ln), owner_body := body ln,
             counts := (counts g1)\<lparr>store_tz := (if store_tz (counts g1) = None then tz_from tz else store_tz (counts g1)),
               total_lines := total_lines (counts g1) + 1, read_by_component := dict_add c 1 (read_by_component (counts g1))\<rparr>\<rparr>"
  have rows: "all_lines g2 = all_lines g1 @ [ln]" "all_cont g2 = all_cont g1" "all_ids g2 = all_ids g1" "owner g2 = Some (address_of ln)"
    using ln by (simp_all add: g2_def all_lines_def all_cont_def all_ids_def address_of_def)
  have "address_of ln \<notin> addresses g1"
  proof
    assume "address_of ln \<in> addresses g1"
    then obtain x where "x \<in> set (all_lines g)" "source_file x = t" "line_no x = Suc k"
      using ln g1(2) by (auto simp: addresses_def address_of_def)
    with assms(2) show False by (auto simp: upto_line_def)
  qed
  then have "addr_ok I g2"
    using g1(1) ln assms(3) by (auto simp: addr_ok_def addresses_def rows)
  moreover have "upto_line t (Suc k) g2" using assms(2) ln by (auto simp: upto_line_def rows g1)
  moreover have "feed_line cfg c t (Stamped ln tz) g = (if batch_size \<le> length (batch g2) then flush_batches g2 else g2)"
    by (simp add: feed_line_def g1_def [symmetric] g2_def Let_def)
  ultimately show ?thesis using Stamped by (simp add: upto_line_def)
qed

lemma fold_lines_address:
  assumes "addr_ok I g" "upto_line t k g" "t \<in> I"
  shows "addr_ok I (fold (\<lambda>(n, rw). feed_line cfg c t (classify_physical c t n rw)) (zip [Suc k..<Suc k + length ls] ls) g)"
  using assms
proof (induction ls arbitrary: g k)
  case (Cons rw ls)
  note step = feed_line_address [OF Cons.prems, of cfg c rw]
  have up: "[Suc k..<Suc k + length (rw # ls)] = Suc k # [Suc (Suc k)..<Suc (Suc k) + length ls]"
    by (simp add: upt_rec)
  show ?case unfolding up using Cons.IH [of _ "Suc k"] step Cons.prems(3) by simp
qed simp

lemma feed_file_address:
  assumes "addr_ok I g" "t \<notin> I"
  shows "addr_ok (insert t I) (feed_file cfg t c src g)"
proof -
  have "upto_line t 0 g" using assms by (auto simp: upto_line_def addr_ok_def)
  moreover have "addr_ok (insert t I) g" using assms(1) by (rule addr_ok_mono) blast
  ultimately have "addr_ok (insert t I) (feed_lines cfg c t (text_lines src) g)"
    using fold_lines_address [of "insert t I" g t 0 cfg c "text_lines src"] by (simp add: feed_lines_def)
  then show ?thesis using addr_ok_close by (simp add: feed_file_def Let_def)
qed

section \<open>The build\<close>

definition build_ok :: "build \<Rightarrow> bool" where
  "build_ok b = (labels_ok (labs b) \<and> addr_ok (issued (labs b)) (ing b))"

lemma build_ok_feed:
  assumes "build_ok b" "is_log name" "label name path (labs b) = (t, l)"
  shows "build_ok (b\<lparr>ing := feed_file cfg t c src (ing b), labs := l\<rparr>)"
  using label_fresh [OF _ assms(2,3)] feed_file_address assms(1) by (auto simp: build_ok_def)

lemma build_ok_counts [simp]:
  "build_ok (b\<lparr>Log_Store.files_scanned := x, plain_logs_read := y, Log_Store.bytes_scanned := z\<rparr>) = build_ok b"
  "build_ok (b\<lparr>rotations_read := y, Log_Store.files_scanned := x, Log_Store.bytes_scanned := z\<rparr>) = build_ok b"
  "build_ok (b\<lparr>unreadable := u\<rparr>) = build_ok b"
  by (simp_all add: build_ok_def)

lemma build_ok_plain:
  assumes "build_ok b" "is_log (f_name (fst p))"
  shows "build_ok (read_plain cfg p b)"
proof -
  obtain f c sz where p: "p = (f, c, sz)" by (cases p)
  show ?thesis
  proof (cases "\<exists>src. f_holds f = Text (Some src)")
    case True
    then obtain src where src: "f_holds f = Text (Some src)" by blast
    obtain t l where l: "label (f_name f) (f_path f) (labs b) = (t, l)" by (cases "label (f_name f) (f_path f) (labs b)")
    from build_ok_feed [OF assms(1) _ l, of cfg c src] assms(2) show ?thesis
      by (simp add: read_plain_def p src l Let_def)
  next
    case False
    with assms(1) show ?thesis by (auto simp: read_plain_def p split: holding.split option.split)
  qed
qed

lemma build_ok_members: "build_ok b \<Longrightarrow> build_ok (fst (read_members cfg c path ms b))"
proof (induction ms arbitrary: b)
  case (Cons m ms)
  show ?case
  proof (cases "is_log (member_name m) \<and> (\<exists>src. member_text m = Some src)")
    case True
    then obtain src where m: "is_log (member_name m)" "member_text m = Some src" by blast
    obtain t l where l: "label (member_name m) (path @ ''!'' @ member_name m) (labs b) = (t, l)"
      by (cases "label (member_name m) (path @ ''!'' @ member_name m) (labs b)")
    note b1 = build_ok_feed [OF Cons.prems m(1) l]
    show ?thesis using m l b1 Cons.IH [OF b1] by (simp add: is_log_def Let_def)
  next
    case False
    with Cons show ?thesis by (auto simp: is_log_def split: option.split)
  qed
qed simp

lemma build_ok_rotation: "build_ok b \<Longrightarrow> build_ok (read_rotation cfg c p b)"
proof -
  assume b: "build_ok b"
  obtain f sz where p: "p = (f, sz)" by (cases p)
  define r where "r = (case f_holds f of Members (Some ms) \<Rightarrow> read_members cfg c (f_path f) ms b | _ \<Rightarrow> (b, False))"
  have "build_ok (fst r)" using b build_ok_members by (auto simp: r_def split: holding.split option.split)
  moreover have "read_rotation cfg c p b = (case r of
       (b1, True) \<Rightarrow> b1\<lparr>rotations_read := rotations_read b1 + 1, Log_Store.files_scanned := Log_Store.files_scanned b1 + 1,
         Log_Store.bytes_scanned := Log_Store.bytes_scanned b1 + sz\<rparr>
     | (b1, False) \<Rightarrow> b1\<lparr>unreadable := unreadable b1 @ [f_name f]\<rparr>)"
    by (simp add: read_rotation_def p r_def)
  ultimately show ?thesis by (cases r) (auto split: bool.split)
qed

lemma fold_keeps: "P b \<Longrightarrow> (\<And>x b. x \<in> set xs \<Longrightarrow> P b \<Longrightarrow> P (f x b)) \<Longrightarrow> P (fold f xs b)"
  by (induction xs arbitrary: b) auto

text \<open>Sorting the candidates leaves the ingestor and the labels alone and collects logs.\<close>

definition only_sorted :: "build \<Rightarrow> build \<Rightarrow> bool" where
  "only_sorted b b' = (ing b' = ing b \<and> labs b' = labs b
     \<and> ((\<forall>p \<in> set (plains b). is_log (f_name (fst p))) \<longrightarrow> (\<forall>p \<in> set (plains b'). is_log (f_name (fst p)))))"

lemma only_sorted_trans: "only_sorted a b \<Longrightarrow> only_sorted b c \<Longrightarrow> only_sorted a c"
  by (simp add: only_sorted_def)

lemma sort_candidate_keeps: "only_sorted b (sort_candidate f b)"
proof (cases "candidate_kind f")
  case None
  then show ?thesis by (simp add: sort_candidate_def only_sorted_def)
next
  case (Some ks)
  obtain k sz where ks: "ks = (k, sz)" by (cases ks)
  have "is_log (f_name f)" if "k = KPlain"
    using Some that ks by (auto simp: candidate_kind_def is_log_def Let_def split: option.splits if_splits)
  then show ?thesis
    by (cases k; cases "classify_component (f_name f)"; cases "classify_foreign (f_name f)")
      (simp_all add: sort_candidate_def only_sorted_def Some ks)
qed

lemma fold_sort_candidate: "only_sorted b (fold sort_candidate fs b)"
proof (induction fs arbitrary: b)
  case Nil
  then show ?case by (simp add: only_sorted_def)
next
  case (Cons f fs)
  have "only_sorted b (sort_candidate f b)" by (rule sort_candidate_keeps)
  from only_sorted_trans [OF this Cons.IH] show ?case by (simp only: fold.simps comp_apply)
qed

lemma new_build_ok: "build_ok new_build"
  by (simp add: build_ok_def new_build_def new_ingestor_def labels_ok_def addr_ok_def addresses_def
      all_lines_def all_cont_def all_ids_def dict_getd_def)

lemma store_keys:
  "distinct (map address_of (t_lines (db (ing (build_store cfg w cap fs)))))
   \<and> distinct (map fst (t_cont (db (ing (build_store cfg w cap fs)))))
   \<and> fst ` set (t_cont (db (ing (build_store cfg w cap fs)))) \<subseteq> address_of ` set (t_lines (db (ing (build_store cfg w cap fs))))
   \<and> fst ` set (t_ids (db (ing (build_store cfg w cap fs)))) \<subseteq> address_of ` set (t_lines (db (ing (build_store cfg w cap fs))))"
proof -
  define b0 where "b0 = fold sort_candidate fs new_build"
  have b0: "ing b0 = ing new_build" "labs b0 = labs new_build" "\<forall>p \<in> set (plains b0). is_log (f_name (fst p))"
    using fold_sort_candidate [of new_build fs] by (simp_all add: only_sorted_def b0_def new_build_def)
  then have ok0: "build_ok b0" using new_build_ok by (simp add: build_ok_def)
  define b1 where "b1 = fold (read_plain cfg) (sort_key (\<lambda>p. f_name (fst p)) (plains b0)) b0"
  have ok1: "build_ok b1"
    unfolding b1_def using ok0 by (rule fold_keeps) (simp add: b0(3) build_ok_plain)
  define b2 where "b2 = (if w then fold (\<lambda>(c, es) b. fold (read_rotation cfg c) (newest_rotations cap es) b) (rotations b0) b1 else b1)"
  have "build_ok (fold (\<lambda>(c, es) b. fold (read_rotation cfg c) (newest_rotations cap es) b) (rotations b0) b1)"
    using ok1
  proof (rule fold_keeps)
    fix x b assume "build_ok b"
    then show "build_ok ((\<lambda>(c, es) b. fold (read_rotation cfg c) (newest_rotations cap es) b) x b)"
      by (cases x) (simp add: fold_keeps [where P = build_ok] build_ok_rotation)
  qed
  with ok1 have ok2: "build_ok b2" by (simp add: b2_def)
  have "ing (build_store cfg w cap fs) = flush_batches (ing b2)"
    unfolding build_store_def Let_def b0_def [symmetric] b1_def [symmetric] b2_def [symmetric] by simp
  moreover have "addr_ok (issued (labs b2)) (flush_batches (ing b2))" using ok2 by (simp add: build_ok_def)
  moreover have "all_lines (flush_batches g) = t_lines (db (flush_batches g))" "all_cont (flush_batches g) = t_cont (db (flush_batches g))"
      "all_ids (flush_batches g) = t_ids (db (flush_batches g))" for g
    by (simp_all add: all_lines_def all_cont_def all_ids_def flush_batches_def)
  ultimately show ?thesis unfolding addr_ok_def addresses_def by (simp only:)
qed

text \<open>
  C2: after a build a file label and a line number name one row of the line table, however many
  files of the bundle share a name; every continuation row and every identifier row belongs to
  a line, and a line has at most one continuation row.
\<close>

theorem store_addresses:
  "distinct (map address_of (t_lines (db (ing (build_store cfg w cap fs)))))
   \<and> distinct (map fst (t_cont (db (ing (build_store cfg w cap fs)))))
   \<and> fst ` set (t_cont (db (ing (build_store cfg w cap fs)))) \<subseteq> address_of ` set (t_lines (db (ing (build_store cfg w cap fs))))
   \<and> fst ` set (t_ids (db (ing (build_store cfg w cap fs)))) \<subseteq> address_of ` set (t_lines (db (ing (build_store cfg w cap fs))))"
  by (rule store_keys)

text \<open>
  What the readers of a store rely on: a line is known by its address, has one continuation at
  most, and the rows of the other tables belong to lines.
\<close>

locale line_store =
  fixes t :: tables
  assumes lines_keyed: "distinct (map address_of (t_lines t))"
    and conts_keyed: "distinct (map fst (t_cont t))"
    and conts_owned: "fst ` set (t_cont t) \<subseteq> address_of ` set (t_lines t)"
    and ids_owned: "fst ` set (t_ids t) \<subseteq> address_of ` set (t_lines t)"
begin

lemma line_unique: "x \<in> set (t_lines t) \<Longrightarrow> y \<in> set (t_lines t) \<Longrightarrow> address_of x = address_of y \<Longrightarrow> x = y"
  using lines_keyed by (metis distinct_map inj_onD)

lemma lines_distinct: "distinct (t_lines t)"
  using lines_keyed by (simp add: distinct_map)

end

interpretation built: line_store "db (ing (build_store cfg w cap fs))" for cfg w cap fs
  using store_keys [of cfg w cap fs] by unfold_locales (simp_all only:)

end
