(* ===== verification/Store_Queries.thy ===== *)
theory Store_Queries
  imports Log_Store
begin

text \<open>
  The queries of the line store (\<open>LogStore\<close>, \<open>LineSequence\<close> and \<open>_LazyGroup\<close> of
  \<open>zcc_diag/log_store.py\<close>) over its tables: the SQL of each query is written out on lists, with
  \<open>LIKE\<close> as SQLite defines it.
\<close>

section \<open>LIKE\<close>

definition ascii_lower :: "char \<Rightarrow> char" where
  "ascii_lower c = (if 65 \<le> code_of c \<and> code_of c \<le> 90 then char_of (code_of c + 32) else c)"

function like :: "string \<Rightarrow> string \<Rightarrow> bool" where
  "like [] s = (s = [])"
| "like (p # ps) s =
     (if p = CHR ''%'' then like ps s \<or> (case s of [] \<Rightarrow> False | _ # s' \<Rightarrow> like (p # ps) s')
      else case s of [] \<Rightarrow> False
        | c # s' \<Rightarrow> (p = CHR ''_'' \<or> ascii_lower p = ascii_lower c) \<and> like ps s')"
  by pat_completeness auto
termination
  by (relation "measure (\<lambda>(p, s). length p + length s)") auto

declare like.simps(2) [simp del]

definition like_part :: "string \<Rightarrow> string \<Rightarrow> bool" where
  "like_part q s = like (''%'' @ q @ ''%'') s"

section \<open>Lines in order\<close>

definition in_order :: "indexed_line list \<Rightarrow> indexed_line list" where
  "in_order ls = sort_key line_key ls"

definition select_lines :: "(indexed_line \<Rightarrow> bool) \<Rightarrow> tables \<Rightarrow> indexed_line list" where
  "select_lines P t = in_order (filter P (t_lines t))"

definition store_search :: "tables \<Rightarrow> string \<Rightarrow> indexed_line list" where
  "store_search t q = select_lines (\<lambda>ln. like_part q (body ln)) t"

definition store_window :: "tables \<Rightarrow> int \<Rightarrow> int \<Rightarrow> indexed_line list" where
  "store_window t start stop = select_lines (\<lambda>ln. start \<le> ts ln \<and> ts ln \<le> stop) t"

definition store_surrounding :: "tables \<Rightarrow> string \<Rightarrow> int \<Rightarrow> int \<Rightarrow> indexed_line list" where
  "store_surrounding t src n radius = (if src = [] then []
     else sort_key line_no (filter (\<lambda>ln. source_file ln = src \<and> n - radius \<le> int (line_no ln) \<and> int (line_no ln) \<le> n + radius) (t_lines t)))"

definition lines_for_file :: "tables \<Rightarrow> string \<Rightarrow> indexed_line list" where
  "lines_for_file t src = sort_key line_no (filter (\<lambda>ln. source_file ln = src) (t_lines t))"

section \<open>The line sequence\<close>

text \<open>\<open>slice.indices(n)\<close> for a given step, with \<open>None\<close> for an absent bound.\<close>

definition clamp :: "int \<Rightarrow> int \<Rightarrow> int \<Rightarrow> int \<Rightarrow> int" where
  "clamp n lo hi i = (if i < 0 then max lo (i + n) else min hi i)"

definition slice_indices :: "nat \<Rightarrow> int option \<Rightarrow> int option \<Rightarrow> int \<Rightarrow> int \<times> int" where
  "slice_indices n start stop step = (let m = int n in
     if 0 < step
     then (case start of None \<Rightarrow> 0 | Some i \<Rightarrow> clamp m 0 m i, case stop of None \<Rightarrow> m | Some i \<Rightarrow> clamp m 0 m i)
     else (case start of None \<Rightarrow> m - 1 | Some i \<Rightarrow> clamp m (-1) (m - 1) i, case stop of None \<Rightarrow> -1 | Some i \<Rightarrow> clamp m (-1) (m - 1) i))"

definition limit_offset :: "nat \<Rightarrow> nat \<Rightarrow> 'a list \<Rightarrow> 'a list" where
  "limit_offset l k xs = take l (drop k xs)"

fun every :: "int \<Rightarrow> int \<Rightarrow> 'a list \<Rightarrow> 'a list" where
  "every i step [] = []"
| "every i step (x # xs) = (if i mod step = 0 then x # every (i + 1) step xs else every (i + 1) step xs)"

text \<open>\<open>seq[i]\<close> and \<open>seq[start:stop:step]\<close>; \<open>None\<close> is \<open>IndexError\<close>, and a zero step is refused by \<open>indices\<close>.\<close>

definition line_at :: "tables \<Rightarrow> int \<Rightarrow> indexed_line option" where
  "line_at t key = (let n = int (length (t_lines t)); i = (if key < 0 then key + n else key) in
     if i < 0 \<or> n \<le> i then None
     else case limit_offset 1 (nat i) (in_order (t_lines t)) of [] \<Rightarrow> None | r # _ \<Rightarrow> Some r)"

definition line_slice :: "tables \<Rightarrow> int option \<Rightarrow> int option \<Rightarrow> int \<Rightarrow> indexed_line list" where
  "line_slice t start0 stop0 step =
     (case slice_indices (length (t_lines t)) start0 stop0 step of (start, stop) \<Rightarrow>
        if step = 1 then (if stop \<le> start then [] else limit_offset (nat (stop - start)) (nat start) (in_order (t_lines t)))
        else every 0 step (limit_offset (nat (max 0 (stop - start))) (nat start) (in_order (t_lines t))))"

section \<open>Records\<close>

definition continuation :: "tables \<Rightarrow> indexed_line \<Rightarrow> string" where
  "continuation t ln = (if source_file ln = [] then []
     else case filter (\<lambda>r. fst r = address_of ln) (t_cont t) of [] \<Rightarrow> [] | r # _ \<Rightarrow> fst (snd r))"

definition record_text :: "tables \<Rightarrow> indexed_line \<Rightarrow> string" where
  "record_text t ln = with_cont (body ln) (continuation t ln)"

definition search_records :: "tables \<Rightarrow> string \<Rightarrow> indexed_line list" where
  "search_records t q = select_lines (\<lambda>ln. like_part q (body ln) \<or>
     list_ex (\<lambda>r. fst r = address_of ln \<and> like_part q (fst (snd r))) (t_cont t)) t"

section \<open>Identifiers\<close>

definition ids_for_line :: "tables \<Rightarrow> indexed_line \<Rightarrow> (string \<times> string) list" where
  "ids_for_line t ln = (if source_file ln = [] then []
     else sort (map snd (filter (\<lambda>e. fst e = address_of ln) (t_ids t))))"

definition lines_for_id :: "tables \<Rightarrow> string \<Rightarrow> string \<Rightarrow> nat option \<Rightarrow> indexed_line list" where
  "lines_for_id t ty v limit =
     (let ls = in_order (concat (map (\<lambda>ln. map (\<lambda>e. ln) (filter (\<lambda>e. e = (address_of ln, ty, v)) (t_ids t))) (t_lines t))) in
      case limit of None \<Rightarrow> ls | Some n \<Rightarrow> if n = 0 then ls else take n ls)"

definition count_rows :: "'a list \<Rightarrow> 'a \<Rightarrow> nat" where
  "count_rows xs x = length (filter (\<lambda>y. y = x) xs)"

definition id_summary :: "tables \<Rightarrow> (string \<times> nat \<times> nat) list" where
  "id_summary t = (let tys = map (\<lambda>e. fst (snd e)) (t_ids t) in
     map (\<lambda>ty. (ty, count_rows tys ty, length (remdups (map snd (filter (\<lambda>p. fst p = ty) (map snd (t_ids t)))))))
       (sort (remdups tys)))"

definition by_count :: "(string \<times> nat) list \<Rightarrow> (string \<times> nat) list" where
  "by_count ps = sort_key (\<lambda>p. (- int (snd p), fst p)) ps"

definition id_values :: "tables \<Rightarrow> string \<Rightarrow> nat \<Rightarrow> (string \<times> nat) list" where
  "id_values t ty limit = (let vs = map snd (filter (\<lambda>p. fst p = ty) (map snd (t_ids t))) in
     take limit (by_count (map (\<lambda>v. (v, count_rows vs v)) (remdups vs))))"

text \<open>The pairs on the records of a pair, one entry for each joined row.\<close>

definition co_occurring :: "tables \<Rightarrow> string \<times> string \<Rightarrow> (string \<times> string) list" where
  "co_occurring t p = concat (map (\<lambda>a. if snd a = p
     then map snd (filter (\<lambda>b. fst b = fst a \<and> snd b \<noteq> p) (t_ids t)) else []) (t_ids t))"

definition related_ids :: "tables \<Rightarrow> string \<Rightarrow> string \<Rightarrow> nat \<Rightarrow> (string \<times> (string \<times> nat) list) list" where
  "related_ids t ty v limit_per_type =
     (let rows = co_occurring t (ty, v) in
      map (\<lambda>u. (u, take limit_per_type (by_count (map (\<lambda>p. (snd p, count_rows rows p)) (filter (\<lambda>p. fst p = u) (remdups rows))))))
        (sort (remdups (map fst rows))))"

section \<open>Summaries\<close>

definition source_files :: "tables \<Rightarrow> (string \<times> nat) list" where
  "source_files t = (let fs = map source_file (t_lines t) in map (\<lambda>f. (f, count_rows fs f)) (sort (remdups fs)))"

definition component_file_bounds :: "tables \<Rightarrow> string \<Rightarrow> (string \<times> nat \<times> int \<times> int) list" where
  "component_file_bounds t c = (let ls = filter (\<lambda>ln. component ln = c) (t_lines t) in
     map (\<lambda>f. let own = map ts (filter (\<lambda>ln. source_file ln = f) ls) in (f, length own, Min (set own), Max (set own)))
       (remdups (map source_file ls)))"

definition count_by :: "(indexed_line \<Rightarrow> string) \<Rightarrow> tables \<Rightarrow> (string, nat) dict" where
  "count_by col t = (let vs = map col (t_lines t) in map (\<lambda>v. (v, count_rows vs v)) (remdups vs))"

definition distinct_values :: "(indexed_line \<Rightarrow> string option) \<Rightarrow> tables \<Rightarrow> string list" where
  "distinct_values col t = sort (remdups (filter (\<lambda>v. v \<noteq> []) (List.map_filter col (t_lines t))))"

definition group_get :: "(indexed_line \<Rightarrow> string option) \<Rightarrow> tables \<Rightarrow> string \<Rightarrow> indexed_line list" where
  "group_get col t key = select_lines (\<lambda>ln. col ln = Some key) t"

definition group_keys :: "(indexed_line \<Rightarrow> string option) \<Rightarrow> tables \<Rightarrow> string list" where
  "group_keys col t = remdups (filter (\<lambda>v. v \<noteq> []) (List.map_filter col (t_lines t)))"

definition continuation_report :: "tables \<Rightarrow> nat \<times> nat \<times> nat" where
  "continuation_report t = (length (t_cont t), sum_list (map (\<lambda>r. snd (snd r)) (t_cont t)),
     sum_list (map (\<lambda>r. length (fst (snd r))) (t_cont t)))"

end
