(* ===== verification/Store_Query_Facts.thy ===== *)
theory Store_Query_Facts
  imports Store_Queries
begin

text \<open>
  What the queries answer: a search is a substring search unless the query holds a wildcard of
  \<open>LIKE\<close>, slices with a positive step are list slices, and shared identifier counts are
  symmetric.
\<close>

section \<open>LIKE\<close>

lemma like_percent: "like (CHR ''%'' # ps) s \<longleftrightarrow> (\<exists>a b. s = a @ b \<and> like ps b)"
proof (induction s)
  case Nil
  then show ?case by (simp add: like.simps(2))
next
  case (Cons c s)
  have "like (CHR ''%'' # ps) (c # s) \<longleftrightarrow> like ps (c # s) \<or> (\<exists>a b. s = a @ b \<and> like ps b)"
    using Cons.IH by (subst like.simps(2)) simp
  also have "\<dots> \<longleftrightarrow> (\<exists>a b. c # s = a @ b \<and> like ps b)"
    by (metis append_Cons append_Nil append_eq_Cons_conv)
  finally show ?case .
qed

lemma like_literal:
  "CHR ''%'' \<notin> set q \<Longrightarrow> CHR ''_'' \<notin> set q \<Longrightarrow>
    like (q @ p) s \<longleftrightarrow> (\<exists>a b. s = a @ b \<and> map ascii_lower a = map ascii_lower q \<and> like p b)"
proof (induction q arbitrary: s)
  case (Cons x q)
  then have IH: "like (q @ p) s' \<longleftrightarrow> (\<exists>a b. s' = a @ b \<and> map ascii_lower a = map ascii_lower q \<and> like p b)" for s'
    by simp
  show ?case
  proof (cases s)
    case Nil
    with Cons.prems show ?thesis by (auto simp: like.simps(2))
  next
    case s: (Cons c s')
    have x: "x \<noteq> CHR ''%''" "x \<noteq> CHR ''_''" using Cons.prems by auto
    have "like ((x # q) @ p) s \<longleftrightarrow> ascii_lower x = ascii_lower c \<and> like (q @ p) s'"
      by (simp add: s like.simps(2) x)
    also have "\<dots> \<longleftrightarrow> (\<exists>a b. s = a @ b \<and> map ascii_lower a = map ascii_lower (x # q) \<and> like p b)"
    proof
      assume "ascii_lower x = ascii_lower c \<and> like (q @ p) s'"
      then obtain a b where "s' = a @ b" "map ascii_lower a = map ascii_lower q" "like p b" "ascii_lower x = ascii_lower c"
        unfolding IH by blast
      then have "s = (c # a) @ b \<and> map ascii_lower (c # a) = map ascii_lower (x # q) \<and> like p b" by (simp add: s)
      then show "\<exists>a b. s = a @ b \<and> map ascii_lower a = map ascii_lower (x # q) \<and> like p b" by blast
    next
      assume "\<exists>a b. s = a @ b \<and> map ascii_lower a = map ascii_lower (x # q) \<and> like p b"
      then show "ascii_lower x = ascii_lower c \<and> like (q @ p) s'"
        unfolding IH s by (auto simp: Cons_eq_append_conv)
    qed
    finally show ?thesis .
  qed
qed simp

lemma like_part_sublist:
  assumes "CHR ''%'' \<notin> set q" "CHR ''_'' \<notin> set q"
  shows "like_part q s \<longleftrightarrow> occurs (map ascii_lower q) (map ascii_lower s)"
proof -
  have all: "like ''%'' b" for b by (auto simp: like_percent intro: exI [of _ b])
  have "like_part q s \<longleftrightarrow> (\<exists>x a y. s = x @ a @ y \<and> map ascii_lower a = map ascii_lower q)"
    using like_literal [OF assms, of "''%''"] by (simp add: like_part_def like_percent all) blast
  also have "\<dots> \<longleftrightarrow> sublist (map ascii_lower q) (map ascii_lower s)"
  proof
    assume "\<exists>x a y. s = x @ a @ y \<and> map ascii_lower a = map ascii_lower q"
    then obtain x a y where "map ascii_lower s = map ascii_lower x @ map ascii_lower q @ map ascii_lower y" by auto
    then show "sublist (map ascii_lower q) (map ascii_lower s)" unfolding sublist_def by blast
  next
    assume "sublist (map ascii_lower q) (map ascii_lower s)"
    then obtain u v where e: "map ascii_lower s = u @ map ascii_lower q @ v" unfolding sublist_def by blast
    let ?a = "take (length q) (drop (length u) s)"
    have "map ascii_lower ?a = map ascii_lower q" by (simp add: take_map [symmetric] drop_map [symmetric] e)
    moreover have "s = take (length u) s @ ?a @ drop (length q) (drop (length u) s)" by (simp only: append_take_drop_id)
    ultimately show "\<exists>x a y. s = x @ a @ y \<and> map ascii_lower a = map ascii_lower q" by blast
  qed
  finally show ?thesis by (simp add: occurs_iff_sublist)
qed

text \<open>
  Without the characters \<open>%\<close> and \<open>_\<close> in the query, a search of the store finds the lines
  that contain it, ignoring the case of ASCII letters, in order of time, file and line.
\<close>

theorem search_is_substring:
  assumes "CHR ''%'' \<notin> set q" "CHR ''_'' \<notin> set q"
  shows "store_search t q = in_order (filter (\<lambda>ln. occurs (map ascii_lower q) (map ascii_lower (body ln))) (t_lines t))"
  by (simp add: store_search_def select_lines_def like_part_sublist [OF assms])

definition one_line :: "string \<Rightarrow> indexed_line" where
  "one_line s = \<lparr>ts = 0, pid = ''1'', tid = ''2'', level = ''INF'', body = s, component = ''tunnel'',
     source_file = ''ZSATunnel.log'', line_no = 1, session_id = None, host = None\<rparr>"

theorem search_is_substring_witness:
  "store_search \<lparr>t_lines = [one_line ''Tag id: 7''], t_cont = [], t_ids = []\<rparr> ''tag ID'' = [one_line ''Tag id: 7'']"
proof -
  have "occurs (map ascii_lower ''tag ID'') (map ascii_lower ''Tag id: 7'')" by code_simp
  then show ?thesis
    by (subst search_is_substring) (simp_all add: in_order_def one_line_def del: list.map)
qed

text \<open>
  The underscore of a query such as a user name is a wildcard: the store reports lines that
  do not contain the query, which the in-memory index does not.
\<close>

theorem search_wildcard:
  "store_search \<lparr>t_lines = [one_line ''user-name''], t_cont = [], t_ids = []\<rparr> ''user_name'' = [one_line ''user-name'']
   \<and> search (empty_index\<lparr>lines := [one_line ''user-name'']\<rparr>) ''user_name'' = []"
proof -
  have "like_part ''user_name'' ''user-name''" "\<not> occurs (py_lower ''user_name'') (py_lower ''user-name'')" by code_simp+
  then show ?thesis
    by (simp add: store_search_def select_lines_def in_order_def search_def one_line_def del: py_lower_simps)
qed

section \<open>Slices\<close>

text \<open>The elements a Python list slice takes: the indices of \<open>range(start, stop, step)\<close>.\<close>

definition list_slice :: "'a list \<Rightarrow> nat \<Rightarrow> nat \<Rightarrow> nat \<Rightarrow> 'a list" where
  "list_slice xs start stop step = map (\<lambda>i. xs ! i) (filter (\<lambda>i. (i - start) mod step = 0) [start..<stop])"

lemma every_filter:
  "every (int i) (int k) xs = map (\<lambda>j. xs ! j) (filter (\<lambda>j. (i + j) mod k = 0) [0..<length xs])"
proof (induction xs arbitrary: i)
  case (Cons x xs)
  have "[0..<length (x # xs)] = 0 # map Suc [0..<length xs]" by (simp add: upt_conv_Cons map_Suc_upt del: upt_Suc)
  moreover have "every (int i + 1) (int k) xs = map (\<lambda>j. xs ! j) (filter (\<lambda>j. Suc (i + j) mod k = 0) [0..<length xs])"
    using Cons.IH [of "Suc i"] by (simp add: add.commute)
  moreover have "(int i mod int k = 0) \<longleftrightarrow> i mod k = 0" by (metis of_nat_0_eq_iff zmod_int)
  ultimately show ?case by (simp add: filter_map comp_def del: upt_Suc)
qed simp

lemma slice_bounds:
  assumes "0 < step" "slice_indices n a b step = (start, stop)"
  shows "0 \<le> start \<and> start \<le> int n \<and> 0 \<le> stop \<and> stop \<le> int n"
  using assms by (auto simp: slice_indices_def clamp_def Let_def split: option.splits)

lemma every_one: "every i 1 zs = zs"
  by (induction zs arbitrary: i) auto

lemma every_window:
  assumes "0 < step" "start \<le> length xs" "stop \<le> length xs"
  shows "every 0 (int step) (limit_offset (stop - start) start xs) = list_slice xs start stop step"
proof -
  define l where "l = stop - start"
  let ?ys = "limit_offset l start xs"
  have ys: "length ?ys = l" "\<And>j. j < l \<Longrightarrow> ?ys ! j = xs ! (start + j)"
    using assms by (auto simp: limit_offset_def l_def)
  have "every 0 (int step) ?ys = map (\<lambda>j. ?ys ! j) (filter (\<lambda>j. j mod step = 0) [0..<l])"
    using every_filter [of 0 step ?ys] by (simp add: ys(1))
  also have "\<dots> = map (\<lambda>j. xs ! (start + j)) (filter (\<lambda>j. j mod step = 0) [0..<l])"
    by (rule map_cong [OF refl]) (simp add: ys(2))
  also have "\<dots> = list_slice xs start stop step"
  proof (cases "start \<le> stop")
    case True
    then have "[start..<stop] = map (\<lambda>j. start + j) [0..<l]"
      using map_add_upt [of start l] by (simp add: l_def add.commute)
    then show ?thesis by (simp add: list_slice_def filter_map comp_def)
  next
    case False
    then show ?thesis by (simp add: list_slice_def l_def)
  qed
  finally show ?thesis by (simp add: l_def)
qed

text \<open>
  A slice of the line sequence with a positive step is the list slice of the lines in order,
  read with one query.
\<close>

theorem slices_agree:
  assumes "0 < step" "slice_indices (length (t_lines t)) a b (int step) = (start, stop)"
  shows "line_slice t a b (int step) = list_slice (in_order (t_lines t)) (nat start) (nat stop) step"
proof -
  let ?xs = "in_order (t_lines t)"
  have len: "length ?xs = length (t_lines t)" by (simp add: in_order_def)
  note bd = slice_bounds [OF _ assms(2)]
  have b: "0 \<le> start" "nat start \<le> length ?xs" "nat stop \<le> length ?xs" using bd assms(1) len by auto
  let ?l = "nat stop - nat start"
  have ln: "nat (max 0 (stop - start)) = ?l" using b by (simp add: nat_diff_distrib' max_def)
  note ev = every_window [OF assms(1) b(2,3)]
  show ?thesis
  proof (cases "step = 1")
    case True
    have "limit_offset ?l (nat start) ?xs = []" if "stop \<le> start" using that b by (simp add: limit_offset_def)
    moreover have "nat (stop - start) = ?l" if "\<not> stop \<le> start" using that ln by simp
    moreover have "slice_indices (length (t_lines t)) a b 1 = (start, stop)" using assms(2) True by simp
    ultimately show ?thesis using ev True by (auto simp: line_slice_def every_one)
  next
    case False
    then show ?thesis using ev ln by (simp add: line_slice_def assms(2))
  qed
qed

theorem slices_agree_witness:
  "line_slice \<lparr>t_lines = [one_line ''a'', one_line ''b'', one_line ''c''], t_cont = [], t_ids = []\<rparr> (Some (-2)) None 2 = [one_line ''b'']"
proof -
  have o: "in_order [one_line ''a'', one_line ''b'', one_line ''c''] = [one_line ''a'', one_line ''b'', one_line ''c'']"
    by (simp add: in_order_def line_key_def one_line_def)
  show ?thesis
    using slices_agree [of 2 "\<lparr>t_lines = [one_line ''a'', one_line ''b'', one_line ''c''], t_cont = [], t_ids = []\<rparr>" "Some (-2)" None 1 3]
    by (simp add: slice_indices_def clamp_def o list_slice_def upt_rec)
qed

text \<open>
  Reading the sequence backwards with a slice gives nothing, where a list gives its reverse.
\<close>

theorem backward_slice_empty: "line_slice t None None (-1) = []"
  by (simp add: line_slice_def slice_indices_def limit_offset_def Let_def)

section \<open>Shared identifiers\<close>

lemma count_rows_concat: "count_rows (concat xss) x = sum_list (map (\<lambda>xs. count_rows xs x) xss)"
  by (induction xss) (simp_all add: count_rows_def)

lemma sum_list_swap: "(\<Sum>a\<leftarrow>xs. \<Sum>b\<leftarrow>ys. f a b) = (\<Sum>b\<leftarrow>ys. \<Sum>a\<leftarrow>xs. (f a b :: nat))"
  by (induction xs) (simp_all add: sum_list_addf)

lemma count_joined:
  "p \<noteq> q \<Longrightarrow> count_rows (co_occurring t p) q =
    (\<Sum>a\<leftarrow>t_ids t. \<Sum>b\<leftarrow>t_ids t. if snd a = p \<and> snd b = q \<and> fst a = fst b then 1 else 0)"
proof -
  assume pq: "p \<noteq> q"
  have inner: "count_rows (map snd (filter (\<lambda>b. fst b = fst a \<and> snd b \<noteq> p) es)) q =
      (\<Sum>b\<leftarrow>es. if snd b = q \<and> fst a = fst b then 1 else 0)" for a es
    using pq by (induction es) (auto simp: count_rows_def)
  have "count_rows (if snd a = p then map snd (filter (\<lambda>b. fst b = fst a \<and> snd b \<noteq> p) (t_ids t)) else []) q =
      (\<Sum>b\<leftarrow>t_ids t. if snd a = p \<and> snd b = q \<and> fst a = fst b then 1 else 0)" for a
  proof (cases "snd a = p")
    case True
    then show ?thesis by (simp add: inner)
  next
    case False
    then show ?thesis by (simp add: count_rows_def)
  qed
  then show ?thesis by (simp add: co_occurring_def count_rows_concat comp_def)
qed

text \<open>
  The number of records two identifiers share does not depend on which of them is asked for.
\<close>

theorem related_symmetric: "count_rows (co_occurring t p) q = count_rows (co_occurring t q) p"
proof (cases "p = q")
  case False
  have "count_rows (co_occurring t p) q = (\<Sum>a\<leftarrow>t_ids t. \<Sum>b\<leftarrow>t_ids t. if snd a = p \<and> snd b = q \<and> fst a = fst b then 1 else 0)"
    using False by (rule count_joined)
  also have "\<dots> = (\<Sum>b\<leftarrow>t_ids t. \<Sum>a\<leftarrow>t_ids t. if snd a = p \<and> snd b = q \<and> fst a = fst b then 1 else 0)"
    by (rule sum_list_swap)
  also have "\<dots> = count_rows (co_occurring t q) p"
    using False by (subst count_joined) (auto intro!: arg_cong [where f = sum_list] map_cong)
  finally show ?thesis .
qed simp

end
