(* ===== verification/Rx_Captures.thy ===== *)
theory Rx_Captures
  imports Py_Regex
begin

text \<open>
  What a match tells about its groups: a group that a pattern always closes is set, and what it
  holds satisfies any property of the texts its body can match.
\<close>

abbreviation cap :: "nat \<Rightarrow> rpos \<Rightarrow> string option" where
  "cap n t \<equiv> map_of (snd (snd t)) n"

text \<open>Every text a pattern can match has a property.\<close>

definition body_in :: "bool \<Rightarrow> (string \<Rightarrow> bool) \<Rightarrow> rx \<Rightarrow> bool" where
  "body_in ic P r = (\<forall>s t w. t \<in> set (rx_run ic r s) \<longrightarrow> spans s t w \<longrightarrow> P w)"

primrec group_in :: "bool \<Rightarrow> nat \<Rightarrow> (string \<Rightarrow> bool) \<Rightarrow> rx \<Rightarrow> bool" where
  "group_in ic n P REmpty = True"
| "group_in ic n P (RSet cs) = True"
| "group_in ic n P (RNot cs) = True"
| "group_in ic n P RDot = True"
| "group_in ic n P (RSeq r q) = (group_in ic n P r \<and> group_in ic n P q)"
| "group_in ic n P (RAlt r q) = (group_in ic n P r \<and> group_in ic n P q)"
| "group_in ic n P (RStar r) = group_in ic n P r"
| "group_in ic n P (RStarLazy r) = group_in ic n P r"
| "group_in ic n P (RTimes k r) = group_in ic n P r"
| "group_in ic n P (RGroup m r) = (group_in ic n P r \<and> (m = n \<longrightarrow> body_in ic P r))"
| "group_in ic n P RBegin = True"
| "group_in ic n P REnd = True"
| "group_in ic n P RBound = True"
| "group_in ic n P (RNotBehind css) = True"
| "group_in ic n P (RNotAhead cs) = True"

primrec sets_group :: "nat \<Rightarrow> rx \<Rightarrow> bool" where
  "sets_group n REmpty = False"
| "sets_group n (RSet cs) = False"
| "sets_group n (RNot cs) = False"
| "sets_group n RDot = False"
| "sets_group n (RSeq r q) = (sets_group n r \<or> sets_group n q)"
| "sets_group n (RAlt r q) = (sets_group n r \<and> sets_group n q)"
| "sets_group n (RStar r) = False"
| "sets_group n (RStarLazy r) = False"
| "sets_group n (RTimes k r) = False"
| "sets_group n (RGroup m r) = (m = n \<or> sets_group n r)"
| "sets_group n RBegin = False"
| "sets_group n REnd = False"
| "sets_group n RBound = False"
| "sets_group n (RNotBehind css) = False"
| "sets_group n (RNotAhead cs) = False"

lemma group_in_derived [simp]:
  "group_in ic n P (RPlus r) = group_in ic n P r" "group_in ic n P (ROpt r) = group_in ic n P r"
  "group_in ic n P (RStr v)" "group_in ic n P (RStrs vs)" "sets_group n (RPlus r) = sets_group n r" "\<not> sets_group n (ROpt r)"
proof -
  show "group_in ic n P (RPlus r) = group_in ic n P r" "group_in ic n P (ROpt r) = group_in ic n P r"
    "sets_group n (RPlus r) = sets_group n r" "\<not> sets_group n (ROpt r)"
    by (simp_all add: RPlus_def ROpt_def)
  show str: "group_in ic n P (RStr v)" for v by (induction v) simp_all
  have "group_in ic n P (RAlts (map RStr vs))"
    by (induction vs rule: induct_list012) (simp_all add: str)
  then show "group_in ic n P (RStrs vs)" by (simp add: RStrs_def)
qed

section \<open>Repetitions keep what every round keeps\<close>

lemma rep_rounds:
  "t \<in> set (rep_greedy (Suc k) f s) \<Longrightarrow> t = s \<or> (\<exists>u \<in> set (f s). t \<in> set (rep_greedy k f u))"
  "t \<in> set (rep_lazy (Suc k) f s) \<Longrightarrow> t = s \<or> (\<exists>u \<in> set (f s). t \<in> set (rep_lazy k f u))"
  "t \<in> set (rep_times (Suc k) f s) \<Longrightarrow> \<exists>u \<in> set (f s). t \<in> set (rep_times k f u)"
  by auto

lemma rep_keeps:
  assumes f: "\<And>s t. t \<in> set (f s) \<Longrightarrow> Q s t" and q: "reflp Q" "transp Q"
  shows "t \<in> set (rep_greedy k f s) \<Longrightarrow> Q s t" and "t \<in> set (rep_lazy k f s) \<Longrightarrow> Q s t" and "t \<in> set (rep_times k f s) \<Longrightarrow> Q s t"
proof -
  note refl = reflpD [OF q(1)] and trans = transpD [OF q(2)]
  show "t \<in> set (rep_greedy k f s) \<Longrightarrow> Q s t"
  proof (induction k arbitrary: s)
    case (Suc k)
    from rep_rounds(1) [OF Suc.prems] Suc.IH show ?case by (blast intro: refl f trans)
  qed (simp add: refl)
  show "t \<in> set (rep_lazy k f s) \<Longrightarrow> Q s t"
  proof (induction k arbitrary: s)
    case (Suc k)
    from rep_rounds(2) [OF Suc.prems] Suc.IH show ?case by (blast intro: refl f trans)
  qed (simp add: refl)
  show "t \<in> set (rep_times k f s) \<Longrightarrow> Q s t"
  proof (induction k arbitrary: s)
    case (Suc k)
    from rep_rounds(3) [OF Suc.prems] Suc.IH show ?case by (blast intro: f trans)
  qed (simp add: refl)
qed

lemma step_if_cap: "t \<in> set (step_if p s) \<Longrightarrow> cap n t = cap n s"
  by (cases "(p, s)" rule: step_if.cases) (auto split: if_splits)

lemma cap_close_group: "spans s t w \<Longrightarrow> cap n (close_group m s t) = (if m = n then Some w else cap n t)"
  by (simp add: close_group_def spans_def dict_get_set)

section \<open>The groups of a match\<close>

definition keeps_cap :: "nat \<Rightarrow> (string \<Rightarrow> bool) \<Rightarrow> rpos \<Rightarrow> rpos \<Rightarrow> bool" where
  "keeps_cap n P s t = ((\<forall>w. cap n t = Some w \<longrightarrow> P w \<or> cap n s = Some w) \<and> (cap n s \<noteq> None \<longrightarrow> cap n t \<noteq> None))"

lemma keeps_cap_refl: "reflp (keeps_cap n P)"
  by (auto intro!: reflpI simp: keeps_cap_def)

lemma keeps_cap_trans: "transp (keeps_cap n P)"
  unfolding keeps_cap_def by (rule transpI) blast

lemma keeps_cap_step: "t \<in> set (step_if p s) \<Longrightarrow> keeps_cap n P s t"
  by (simp add: keeps_cap_def step_if_cap)

lemmas rep_keeps_cap = rep_keeps [OF _ keeps_cap_refl keeps_cap_trans]

lemma keeps_cap_group:
  assumes "keeps_cap n P s u" "spans s u v" "m = n \<Longrightarrow> P v"
  shows "keeps_cap n P s (close_group m s u)"
  using assms by (auto simp: keeps_cap_def cap_close_group [OF assms(2)])

lemma group_cap: "group_in ic n P r \<Longrightarrow> t \<in> set (rx_run ic r s) \<Longrightarrow> keeps_cap n P s t"
proof (induction r arbitrary: s t)
  case (RSeq r q)
  then obtain u where "u \<in> set (rx_run ic r s)" "t \<in> set (rx_run ic q u)" by auto
  with RSeq have "keeps_cap n P s u" "keeps_cap n P u t" by simp_all
  then show ?case using keeps_cap_trans by (blast dest: transpD)
next
  case (RStar r)
  have "t \<in> set (rep_greedy (length (fst (snd s))) (rx_run ic r) s)" using RStar.prems by simp
  from rep_keeps_cap(1) [OF _ this] RStar show ?case by simp
next
  case (RStarLazy r)
  have "t \<in> set (rep_lazy (length (fst (snd s))) (rx_run ic r) s)" using RStarLazy.prems by simp
  from rep_keeps_cap(2) [OF _ this] RStarLazy show ?case by simp
next
  case (RTimes k r)
  have "t \<in> set (rep_times k (rx_run ic r) s)" using RTimes.prems by simp
  from rep_keeps_cap(3) [OF _ this] RTimes show ?case by simp
next
  case (RGroup m r)
  then obtain u where u: "u \<in> set (rx_run ic r s)" "t = close_group m s u" by auto
  then obtain v where v: "spans s u v" using rx_run_advance unfolding advance_spans by blast
  have "keeps_cap n P s u" using RGroup u(1) by simp
  moreover have "P v" if "m = n" using RGroup.prems(1) that u(1) v unfolding group_in.simps body_in_def by blast
  ultimately show ?case unfolding u(2) using v by (intro keeps_cap_group)
qed (auto intro: reflpD [OF keeps_cap_refl] keeps_cap_step split: if_splits)

lemma cap_stays: "t \<in> set (rx_run ic r s) \<Longrightarrow> cap n s \<noteq> None \<Longrightarrow> cap n t \<noteq> None"
proof -
  have "group_in ic n (\<lambda>w. True) r" by (induction r) (simp_all add: body_in_def)
  then show "t \<in> set (rx_run ic r s) \<Longrightarrow> cap n s \<noteq> None \<Longrightarrow> cap n t \<noteq> None"
    using group_cap unfolding keeps_cap_def by blast
qed

lemma group_set: "sets_group n r \<Longrightarrow> t \<in> set (rx_run ic r s) \<Longrightarrow> cap n t \<noteq> None"
proof (induction r arbitrary: s t)
  case (RSeq r q)
  then obtain u where u: "u \<in> set (rx_run ic r s)" "t \<in> set (rx_run ic q u)" by auto
  from RSeq.prems(1) consider "sets_group n r" | "sets_group n q" by auto
  then show ?case
  proof cases
    case 1
    from cap_stays [OF u(2) RSeq.IH(1) [OF 1 u(1)]] show ?thesis .
  next
    case 2
    from RSeq.IH(2) [OF 2 u(2)] show ?thesis .
  qed
next
  case (RAlt r q)
  then show ?case by (metis Un_iff rx_run.simps(6) set_append sets_group.simps(6))
next
  case (RGroup m r)
  then obtain u where "u \<in> set (rx_run ic r s)" "t = close_group m s u" by auto
  with RGroup show ?case by (cases "m = n") (simp_all add: close_group_def dict_get_set)
qed simp_all

lemma match_group:
  assumes "rx_match ic r s = Some m" "group_in ic n P r" "sets_group n r"
  shows "\<exists>w. rx_group n m = Some w \<and> P w"
proof -
  have m: "m \<in> set (rx_run ic r ([], s, []))"
    using assms(1) head_opt_in by (fastforce simp: rx_match_def rx_match_at_def)
  with group_set [OF assms(3) m] group_cap [OF assms(2) m] show ?thesis by (auto simp: keeps_cap_def rx_group_def)
qed

lemma search_run: "rx_search_from ic r b a = Some m \<Longrightarrow> \<exists>b a. m \<in> set (rx_run ic r (b, a, []))"
proof (induction ic r b a rule: rx_search_from.induct)
  case (1 ic r b)
  then show ?case by (auto simp: rx_match_at_def dest: head_opt_in)
next
  case (2 ic r b c a)
  show ?case
  proof (cases "rx_match_at ic r b (c # a)")
    case None
    with 2 show ?thesis by simp
  next
    case (Some t)
    with 2 show ?thesis by (auto simp: rx_match_at_def dest: head_opt_in)
  qed
qed

lemma search_group:
  assumes "rx_search ic r s = Some m" "group_in ic n P r" "sets_group n r"
  shows "\<exists>w. rx_group n m = Some w \<and> P w"
proof -
  obtain b a where m: "m \<in> set (rx_run ic r (b, a, []))"
    using assms(1) search_run unfolding rx_search_def by blast
  with group_set [OF assms(3) m] group_cap [OF assms(2) m] show ?thesis by (auto simp: keeps_cap_def rx_group_def)
qed

section \<open>What simple bodies match\<close>

lemma span_str: "t \<in> set (rx_run False (RStr v) s) \<Longrightarrow> spans s t w \<Longrightarrow> w = v"
proof (induction v arbitrary: s w)
  case Nil
  then show ?case by (simp add: spans_def)
next
  case (Cons c v)
  then obtain u where u: "u \<in> set (rx_run False (RLit c) s)" "t \<in> set (rx_run False (RStr v) u)" by auto
  then have "spans s u [c]" by (cases s; cases "fst (snd s)") (auto simp: spans_def in_csets_def split: if_splits)
  moreover obtain x where x: "spans u t x" using rx_run_advance [OF u(2)] unfolding advance_spans by blast
  ultimately have "spans s t ([c] @ x)" by (rule spans_trans)
  with Cons.prems(2) Cons.IH [OF u(2) x] show ?case using spans_unique by fastforce
qed

lemma run_alts: "t \<in> set (rx_run ic (RAlts rs) s) \<Longrightarrow> \<exists>r \<in> set rs. t \<in> set (rx_run ic r s)"
proof (induction rs rule: RAlts.induct)
  case 1
  then show ?case by (cases s; cases "fst (snd s)") (auto simp: in_csets_def)
next
  case (3 r q rs)
  then have "t \<in> set (rx_run ic r s) \<or> t \<in> set (rx_run ic (RAlts (q # rs)) s)" by simp
  with 3 show ?case by (metis list.set_intros(1) list.set_intros(2))
qed simp

lemma span_strs: "body_in False (\<lambda>w. w \<in> set vs) (RStrs vs)"
  unfolding body_in_def RStrs_def using run_alts span_str by fastforce

lemma span_star:
  assumes step: "\<And>s t. t \<in> set (rx_run ic r s) \<Longrightarrow> \<exists>c. spans s t [c] \<and> P c"
  shows "body_in ic (list_all P) (RStar r)"
  unfolding body_in_def
proof (intro allI impI)
  let ?Q = "\<lambda>s t. \<exists>w. spans s t w \<and> list_all P w"
  fix s t w
  assume t: "t \<in> set (rx_run ic (RStar r) s)" and w: "spans s t w"
  have "?Q s t"
  proof (rule rep_keeps(1) [where Q = ?Q])
    show "t \<in> set (rep_greedy (length (fst (snd s))) (rx_run ic r) s)" using t by simp
    show "reflp ?Q" by (rule reflpI, rule exI [of _ "[]"]) (simp add: spans_def)
    show "transp ?Q" by (rule transpI) (metis spans_trans list_all_append)
    show "\<And>s t. t \<in> set (rx_run ic r s) \<Longrightarrow> ?Q s t"
      using step by (metis list.pred_inject)
  qed
  with w show "list_all P w" using spans_unique by blast
qed

lemma span_step: "t \<in> set (step_if p s) \<Longrightarrow> \<exists>c. spans s t [c] \<and> p c"
  by (cases "(p, s)" rule: step_if.cases) (auto simp: spans_def split: if_splits)

lemma span_plus:
  assumes step: "\<And>s t. t \<in> set (rx_run ic r s) \<Longrightarrow> \<exists>c. spans s t [c] \<and> P c"
  shows "body_in ic (\<lambda>w. w \<noteq> [] \<and> list_all P w) (RPlus r)"
  unfolding body_in_def
proof (intro allI impI)
  fix s t w
  assume t: "t \<in> set (rx_run ic (RPlus r) s)" and w: "spans s t w"
  from t obtain u where u: "u \<in> set (rx_run ic r s)" "t \<in> set (rx_run ic (RStar r) u)" by (auto simp: RPlus_def)
  from step [OF u(1)] obtain c where c: "spans s u [c]" "P c" by blast
  obtain x where x: "spans u t x" using rx_run_advance [OF u(2)] unfolding advance_spans by blast
  have "list_all P x" using span_star [OF step] u(2) x unfolding body_in_def by blast
  moreover have "w = [c] @ x" using spans_unique [OF w spans_trans [OF c(1) x]] .
  ultimately show "w \<noteq> [] \<and> list_all P w" using c(2) by simp
qed

lemma span_set: "t \<in> set (rx_run ic (RSet cs) s) \<Longrightarrow> \<exists>c. spans s t [c] \<and> in_csets ic cs c"
  and span_dot: "t \<in> set (rx_run ic RDot s) \<Longrightarrow> \<exists>c. spans s t [c] \<and> c \<noteq> CHR 0x0A"
  by (simp_all add: span_step)

end
