(* ===== verification/Line_Types.thy ===== *)
theory Line_Types
  imports Log_Index Rx_Captures
begin

text \<open>
  What the groups of the line grammar hold when a line is read: decimal process, thread and
  session numbers, a listed level, a body on one line.
\<close>

definition decimal :: "string \<Rightarrow> bool" where
  "decimal s = (s \<noteq> [] \<and> list_all py_isdecimal s)"

lemma span_digits: "body_in False decimal (RPlus (RSet [CDigit]))"
  unfolding decimal_def [abs_def] using span_set [of _ False "[CDigit]"]
  by (intro span_plus) (fastforce simp: in_csets_def)

lemma span_line: "body_in False (list_all (\<lambda>c. c \<noteq> CHR 0x0A)) (RStar RDot)"
  by (intro span_star span_dot)

lemma line_groups:
  assumes "rx_match False line_rx rw = Some m"
  shows "decimal (grp 3 m)" "decimal (grp 4 m)" "grp 5 m \<in> set levels" "list_all (\<lambda>c. c \<noteq> CHR 0x0A) (grp 6 m)"
proof -
  have g: "Q (grp n m)" if "group_in False n Q line_rx" "sets_group n line_rx" for n Q
    using match_group [OF assms that] by (auto simp: grp_def)
  note parts = line_rx_def line_ts_rx_def digits_def span_digits span_line span_strs
  show "decimal (grp 3 m)" "decimal (grp 4 m)" "grp 5 m \<in> set levels" "list_all (\<lambda>c. c \<noteq> CHR 0x0A) (grp 6 m)"
    by (rule g; simp add: parts)+
qed

lemma session_decimal: "extract_session_id bd = Some v \<Longrightarrow> decimal v"
proof -
  assume e: "extract_session_id bd = Some v"
  then obtain m where m: "rx_search False id_rx bd = Some m" "rx_group 1 m = Some v"
    by (auto simp: extract_session_id_def bind_eq_Some_conv)
  have "group_in False 1 decimal id_rx" "sets_group 1 id_rx" by (simp_all add: id_rx_def span_digits)
  from search_group [OF m(1) this] m(2) show "decimal v" by simp
qed

end
