(* ===== verification/Store_Types.thy ===== *)
theory Store_Types
  imports Store_Addresses Line_Types
begin

text \<open>
  The types of the rows of the line store: whatever the files hold, a stored line has a time in
  the calendar, a level of the grammar, decimal process and thread numbers, a body without line
  ends, a known component and decimal session numbers.
\<close>

section \<open>What the ingestor is fed\<close>

definition known_component :: "string \<Rightarrow> bool" where
  "known_component c = (c \<in> set (map fst component_markers))"

lemma classify_known: "classify_component name = Some c \<Longrightarrow> known_component c"
  by (auto simp: classify_component_def known_component_def find_Some_iff) (metis nth_mem fst_conv image_eqI)

definition work_ok :: "build \<Rightarrow> bool" where
  "work_ok b = ((\<forall>p \<in> set (plains b). known_component (fst (snd p))) \<and> (\<forall>p \<in> set (rotations b). known_component (fst p)))"

lemma work_ok_sort: "work_ok b \<Longrightarrow> work_ok (sort_candidate f b) \<and> ing (sort_candidate f b) = ing b"
proof (cases "candidate_kind f")
  case None
  then show "work_ok b \<Longrightarrow> ?thesis" by (simp add: sort_candidate_def)
next
  case (Some ks)
  assume b: "work_ok b"
  obtain k sz where ks: "ks = (k, sz)" by (cases ks)
  have rot: "\<forall>p \<in> set (dict_set c es (rotations b)). known_component (fst p)" if "known_component c" for c es
  proof
    fix p assume "p \<in> set (dict_set c es (rotations b))"
    then have "fst p \<in> set (dict_keys (dict_set c es (rotations b)))" by simp
    then have "fst p = c \<or> fst p \<in> set (dict_keys (rotations b))" unfolding dict_keys_set by simp
    with b that show "known_component (fst p)" by (auto simp: work_ok_def)
  qed
  show ?thesis
  proof (cases "classify_component (f_name f)")
    case None
    with b Some ks show ?thesis by (cases k; cases "classify_foreign (f_name f)") (simp_all add: sort_candidate_def work_ok_def)
  next
    case c: (Some c)
    note known = classify_known [OF c]
    from b Some ks c known rot [OF known] show ?thesis by (cases k) (auto simp: sort_candidate_def work_ok_def)
  qed
qed

lemma work_ok_sorted: "work_ok b \<Longrightarrow> work_ok (fold sort_candidate fs b) \<and> ing (fold sort_candidate fs b) = ing b"
  using work_ok_sort by (induction fs arbitrary: b) auto

locale row_invariant =
  fixes cfg :: id_config and P :: "ingestor \<Rightarrow> bool"
  assumes start: "P new_ingestor"
    and feed: "P g \<Longrightarrow> known_component c \<Longrightarrow> P (feed_file cfg t c src g)"
    and flushed: "P g \<Longrightarrow> P (flush_batches g)"
begin

lemma plain: "P (ing b) \<Longrightarrow> known_component (fst (snd p)) \<Longrightarrow> P (ing (read_plain cfg p b))"
  using feed by (auto simp: read_plain_def Let_def split: prod.split holding.split option.split)

lemma members: "P (ing b) \<Longrightarrow> known_component c \<Longrightarrow> P (ing (fst (read_members cfg c path ms b)))"
proof (induction ms arbitrary: b)
  case (Cons m ms)
  have "known_component (case classify_component (member_name m) of None \<Rightarrow> c | Some i \<Rightarrow> i)"
    using Cons.prems(2) classify_known by (auto split: option.split)
  with Cons feed show ?case by (auto simp: Let_def split: option.split prod.split)
qed simp

lemma rotation: "P (ing b) \<Longrightarrow> known_component c \<Longrightarrow> P (ing (read_rotation cfg c p b))"
proof -
  assume b: "P (ing b)" "known_component c"
  obtain f sz where p: "p = (f, sz)" by (cases p)
  define r where "r = (case f_holds f of Members (Some ms) \<Rightarrow> read_members cfg c (f_path f) ms b | _ \<Rightarrow> (b, False))"
  have "P (ing (fst r))" using b members by (auto simp: r_def split: holding.split option.split)
  then show ?thesis
    by (cases r) (simp add: read_rotation_def p r_def [symmetric] split: bool.split)
qed

lemma built: "P (ing (build_store cfg w mx fs))"
proof -
  define b0 where "b0 = fold sort_candidate fs new_build"
  have b0: "work_ok b0" "ing b0 = new_ingestor"
    using work_ok_sorted [of new_build fs] by (simp_all add: b0_def work_ok_def new_build_def)
  define b1 where "b1 = fold (read_plain cfg) (sort_key (\<lambda>p. f_name (fst p)) (plains b0)) b0"
  have b1: "P (ing b1)" unfolding b1_def
    by (rule fold_keeps) (use b0 start plain in \<open>auto simp: work_ok_def\<close>)
  define b2 where "b2 = (if w then fold (\<lambda>(c, es) b. fold (read_rotation cfg c) (newest_rotations mx es) b) (rotations b0) b1 else b1)"
  have "P (ing (fold (\<lambda>(c, es) b. fold (read_rotation cfg c) (newest_rotations mx es) b) (rotations b0) b1))"
  proof (rule fold_keeps [where P = "\<lambda>b. P (ing b)"])
    fix x and b :: build assume x: "x \<in> set (rotations b0)" "P (ing b)"
    then have "known_component (fst x)" using b0(1) by (simp add: work_ok_def)
    with x(2) show "P (ing ((\<lambda>(c, es) b. fold (read_rotation cfg c) (newest_rotations mx es) b) x b))"
      by (cases x) (auto intro: fold_keeps [where P = "\<lambda>b. P (ing b)"] rotation)
  qed (rule b1)
  with b1 have "P (ing b2)" by (simp add: b2_def)
  then show ?thesis
    unfolding build_store_def Let_def b0_def [symmetric] b1_def [symmetric] b2_def [symmetric] by (simp add: flushed)
qed

end

section \<open>The rows\<close>

definition row_ok :: "indexed_line \<Rightarrow> bool" where
  "row_ok ln = (0 \<le> ts ln \<and> ts ln < dt_limit \<and> level ln \<in> set levels \<and> decimal (pid ln) \<and> decimal (tid ln)
     \<and> list_all (\<lambda>c. c \<noteq> CHR 0x0A) (body ln) \<and> known_component (component ln) \<and> pred_option decimal (session_id ln))"

lemma read_line_ok: "read_line c name n rw = Some (ln, z) \<Longrightarrow> known_component c \<Longrightarrow> row_ok ln"
proof -
  assume r: "read_line c name n rw = Some (ln, z)" and c: "known_component c"
  then obtain m t where m: "rx_match False line_rx rw = Some m" "strptime (grp 1 m) = Some t"
    and ln: "ln = \<lparr>ts = t, pid = grp 3 m, tid = grp 4 m, level = grp 5 m, body = grp 6 m, component = c,
           source_file = name, line_no = n, session_id = extract_session_id (grp 6 m), host = extract_host (grp 6 m)\<rparr>"
    by (auto simp: read_line_def split: option.splits)
  have "0 \<le> t \<and> t < dt_limit" using m(2) mk_dt_range by (auto simp: strptime_def Let_def split: if_splits)
  moreover have "pred_option decimal (session_id ln)"
    using session_decimal [of "grp 6 m"] by (cases "extract_session_id (grp 6 m)") (simp_all add: ln)
  ultimately show "row_ok ln" using line_groups [OF m(1)] c unfolding row_ok_def by (simp add: ln)
qed

definition rows_ok :: "ingestor \<Rightarrow> bool" where
  "rows_ok g = list_all row_ok (all_lines g)"

lemma feed_line_rows: "rows_ok g \<Longrightarrow> known_component c \<Longrightarrow> rows_ok (feed_line cfg c t (classify_physical c t n rw) g)"
proof (cases "classify_physical c t n rw")
  case (Unstamped s)
  then show "rows_ok g \<Longrightarrow> ?thesis" by (simp add: feed_line_def rows_ok_def)
next
  case BadStamp
  then show "rows_ok g \<Longrightarrow> ?thesis" by (simp add: feed_line_def rows_ok_def)
next
  case (Stamped ln tz)
  assume g: "rows_ok g" and c: "known_component c"
  have "row_ok ln"
    using Stamped read_line_ok [OF _ c] by (auto simp: classify_physical_def split: option.splits)
  moreover have "list_all row_ok (all_lines (close_record cfg g))" using g by (simp add: rows_ok_def)
  then have "list_all row_ok (t_lines (db (close_record cfg g)) @ batch (close_record cfg g))" by (simp only: all_lines_def)
  ultimately show ?thesis
    by (simp add: Stamped feed_line_def rows_ok_def Let_def) (simp add: all_lines_def)
qed

interpretation rows: row_invariant cfg rows_ok for cfg
proof unfold_locales
  show "rows_ok new_ingestor" by (simp add: rows_ok_def all_lines_def new_ingestor_def)
  show "rows_ok g \<Longrightarrow> rows_ok (flush_batches g)" for g by (simp add: rows_ok_def)
  fix g c t and src :: source_text assume g: "rows_ok g" "known_component c"
  have "rows_ok (feed_lines cfg c t (text_lines src) g)"
    unfolding feed_lines_def by (rule fold_keeps [where P = rows_ok]) (use g feed_line_rows in auto)
  then show "rows_ok (feed_file cfg t c src g)" by (simp add: feed_file_def rows_ok_def Let_def)
qed

text \<open>
  C28: every line of a built store has a time within the years 1 to 9999, a level of the grammar,
  decimal process, thread and session numbers, a body on one line and a known component.
\<close>

theorem stored_rows_typed: "list_all row_ok (t_lines (db (ing (build_store cfg w mx fs))))"
  using rows.built [of cfg w mx fs] by (simp add: rows_ok_def all_lines_def)

end
