(* ===== verification/Flow_Ledger.thy ===== *)
theory Flow_Ledger
  imports Store_Queries
begin

text \<open>
  The traffic ledger \<open>zcc_diag/flow_ledger.py\<close> with the patterns of \<open>zcc_diag/protocol_grammar.py\<close>:
  the closing records of the connections, the choice of one record per connection, the lines of
  a connection up to its close, the flows, and the tables of totals.  Texts are strings of
  characters below 256, times are microseconds.
\<close>

section \<open>Closing records\<close>

definition conn_chars :: rx where
  "conn_chars = RSet [CRange CHR ''0'' CHR ''9'', CRange CHR ''a'' CHR ''f'', CRange CHR ''A'' CHR ''F'', CLit CHR ''x'']"

definition number :: "nat \<Rightarrow> rx" where
  "number n = RGroup n (RPlus (RSet [CDigit]))"

text \<open>Groups: 1 \<open>conn\<close>, 2 \<open>state\<close>, 3 \<open>open\<close>, 4 \<open>clt\<close>, 5 \<open>srv\<close>.\<close>

definition tcp_close_rx :: rx where
  "tcp_close_rx = RSeqs [RStr ''ID='', RGroup 1 (RPlus conn_chars), ROpt (RLit CHR '',''), blanks,
     RStr ''~ZTCPServerConnection'', spaces1, RStr ''state='', RGroup 2 (RPlus (RSet [CWord])), spaces1,
     RStr ''ServerConnections='', number 3, spaces1, RStr ''clt_bytes='', number 4, ROpt (RLit CHR '',''), blanks,
     RStr ''srv_bytes='', number 5]"

text \<open>Groups: 1 \<open>conn\<close>, 2 \<open>lport\<close>, 3 \<open>dst\<close>, 4 \<open>tx\<close>, 5 \<open>txp\<close>, 6 \<open>rx\<close>.\<close>

definition udp_close_rx :: rx where
  "udp_close_rx = RSeqs [RStr ''UDP Proxy: ID: '', number 1, RStr '' Connection closed.'', RStarLazy RDot,
     RStr ''Local Port: '', number 2, spaces1, RStr ''Dst Addr: '', RGroup 3 (RPlus (RNot [CSpace])), spaces1,
     RStr ''Tx Bytes: '', number 4, spaces1, RStr ''TX packets: '', number 5, spaces1, RStr ''Rx Bytes: '', number 6]"

text \<open>Groups: 1 \<open>conn\<close>, 2 \<open>kind\<close>, 3 \<open>tx\<close>, 4 \<open>rx\<close>.\<close>

definition destructor_rx :: rx where
  "destructor_rx = RSeqs [RStr ''ID='', RGroup 1 (RPlus conn_chars), RLit CHR '','', blanks, RStr ''ZS'',
     RGroup 2 (RStrs [''TCP'', ''UDP'']), RStr ''FlowHandler destructor!!'', blanks, RStr ''tx bytes'', blanks, RLit CHR ''='', blanks,
     number 3, RLit CHR '','', blanks, RStr ''rx_byptes'', blanks, RLit CHR ''='', blanks, number 4]"

definition rx_packets_rx :: rx where
  "rx_packets_rx = RSeqs [RStr ''Rx packets:'', blanks, number 1]"

text \<open>Groups: 1 \<open>host\<close>, 2 \<open>port\<close>.\<close>

definition dest_host_rx :: rx where
  "dest_host_rx = RSeqs [RAlt (RSeq (RStr ''Host Address:'') blanks) (RStr ''Host=''),
     RGroup 1 (RPlus (RSet (letters @ [CLit CHR ''_'', CLit CHR ''.'', CLit CHR ''-'']))),
     ROpt (RSeq (RLit CHR '':'') (RGroup 2 (RSeq digit (RUpTo 4 digit))))]"

record parsed =
  carrier :: string
  proto :: string
  conn_id :: string
  client_bytes :: nat
  server_bytes :: nat
  packets_tx :: "nat option"
  packets_rx :: "nat option"
  dest :: "string option"
  dest_port :: "nat option"

datatype outcome = NoClose | BadPort | Closed parsed

text \<open>\<open>dst.rpartition(":")\<close>: what stands before and after the last colon.\<close>

definition rpartition :: "string \<Rightarrow> string \<times> string" where
  "rpartition s = (if CHR '':'' \<in> set s then (rsplit_colon s, rev (takeWhile (\<lambda>c. c \<noteq> CHR '':'') (rev s))) else ([], s))"

text \<open>\<open>int(port) if port.isdigit() else None\<close>; the first \<open>None\<close> is the \<open>ValueError\<close> of a superscript digit.\<close>

definition port_of :: "string \<Rightarrow> nat option option" where
  "port_of p = (if p \<noteq> [] \<and> list_all py_isdigit p then map_option (\<lambda>i. Some (nat i)) (py_int p) else Some None)"

definition num :: "nat \<Rightarrow> rpos \<Rightarrow> nat" where
  "num n m = nat_of_digits (grp n m)"

definition parse_close :: "string \<Rightarrow> outcome" where
  "parse_close text = (case rx_search True tcp_close_rx text of
       Some m \<Rightarrow> Closed \<lparr>carrier = ''tcp_conn_close'', proto = ''tcp'', conn_id = grp 1 m, client_bytes = num 4 m,
         server_bytes = num 5 m, packets_tx = None, packets_rx = None, dest = None, dest_port = None\<rparr>
     | None \<Rightarrow> (case rx_search True udp_close_rx text of
       Some m \<Rightarrow> (case rpartition (grp 3 m) of (ip, port) \<Rightarrow> case port_of port of
           None \<Rightarrow> BadPort
         | Some pt \<Rightarrow> Closed \<lparr>carrier = ''udp_conn_close'', proto = ''udp'', conn_id = grp 1 m, client_bytes = num 4 m,
             server_bytes = num 6 m, packets_tx = Some (num 5 m),
             packets_rx = map_option (num 1) (rx_search True rx_packets_rx text),
             dest = (if ip \<noteq> [] then Some ip else if grp 3 m \<noteq> [] then Some (grp 3 m) else None), dest_port = pt\<rparr>)
     | None \<Rightarrow> (case rx_search True destructor_rx text of
       Some m \<Rightarrow> Closed \<lparr>carrier = ''flow_destructor'', proto = py_lower (grp 2 m), conn_id = grp 1 m, client_bytes = num 3 m,
         server_bytes = num 4 m, packets_tx = None, packets_rx = None, dest = None, dest_port = None\<rparr>
     | None \<Rightarrow> NoClose)))"

section \<open>Candidates\<close>

definition carrier_likes :: "string list" where
  "carrier_likes = [''%clt_bytes%'', ''%Connection closed.%'', ''%destructor!!%'']"

definition any_like :: "string \<Rightarrow> bool" where
  "any_like s = list_ex (\<lambda>p. like p s) carrier_likes"

text \<open>
  The two queries.  Neither is ordered; the records are sorted later by a key that is their
  address, so the order of the rows does not matter in a store whose addresses are unique.
\<close>

definition candidate_lines :: "tables \<Rightarrow> indexed_line list" where
  "candidate_lines t = filter (\<lambda>ln. any_like (body ln)) (t_lines t) @
     concat (map (\<lambda>ln. map (\<lambda>r. ln) (filter (\<lambda>r. fst r = address_of ln \<and> any_like (fst (snd r))) (t_cont t)))
       (filter (\<lambda>ln. \<not> any_like (body ln)) (t_lines t)))"

record close =
  what :: parsed
  c_ts :: int
  c_file :: string
  c_line :: nat

definition c_address :: "close \<Rightarrow> address" where
  "c_address c = (c_file c, c_line c)"

definition close_of :: "tables \<Rightarrow> indexed_line \<Rightarrow> close option" where
  "close_of t ln = (case parse_close (record_text t ln) of
       Closed p \<Rightarrow> Some \<lparr>what = p, c_ts = ts ln, c_file = source_file ln, c_line = line_no ln\<rparr>
     | _ \<Rightarrow> None)"

definition dedupe_carriers :: "close list \<Rightarrow> close list \<times> nat" where
  "dedupe_carriers rs = (let tcp = set (map (\<lambda>r. conn_id (what r)) (filter (\<lambda>r. carrier (what r) = ''tcp_conn_close'') rs));
       drop_it = (\<lambda>r. carrier (what r) = ''flow_destructor'' \<and> conn_id (what r) \<in> tcp) in
     (filter (\<lambda>r. \<not> drop_it r) rs, length (filter drop_it rs)))"

section \<open>The lines of a connection\<close>

type_synonym life_row = "int \<times> string \<times> nat \<times> string"

definition life_row :: "indexed_line \<Rightarrow> life_row" where
  "life_row ln = (ts ln, source_file ln, line_no ln, body ln)"

definition lifetime_rows :: "tables \<Rightarrow> string \<Rightarrow> life_row list" where
  "lifetime_rows t v = sort (concat (map (\<lambda>e. map life_row (filter (\<lambda>ln. address_of ln = fst e) (t_lines t)))
     (filter (\<lambda>e. snd e = (''conn_id'', v)) (t_ids t))))"

text \<open>The rows of one connection against its closes, both in order of time: the closes before a row are passed for good.\<close>

fun segment :: "close list \<Rightarrow> life_row list \<Rightarrow> (address \<times> life_row) list \<times> nat" where
  "segment cs [] = ([], 0)"
| "segment cs (r # rs) = (case dropWhile (\<lambda>c. c_ts c < fst r) cs of
       [] \<Rightarrow> (case segment [] rs of (a, n) \<Rightarrow> (a, Suc n))
     | c # cs' \<Rightarrow> (case segment (c # cs') rs of (a, n) \<Rightarrow> ((c_address c, r) # a, n)))"

text \<open>\<open>d[key(x)].append(x)\<close> on a \<open>defaultdict(list)\<close>, over a list.\<close>

definition bucket :: "('a \<Rightarrow> 'k) \<Rightarrow> 'a list \<Rightarrow> ('k, 'a list) dict" where
  "bucket key xs = fold (\<lambda>x d. dict_set (key x) (dict_getd d (key x) [] @ [x]) d) xs []"

section \<open>Flows\<close>

record flow_entry =
  f_conn :: string
  f_proto :: string
  first_ts :: int
  last_ts :: int
  f_client :: nat
  f_server :: nat
  f_ptx :: "nat option"
  f_prx :: "nat option"
  f_dest :: "string option"
  f_port :: "nat option"
  f_dest_at :: "address option"
  f_at :: address
  f_carrier :: string
  lifetime_lines :: nat

record ledger =
  entries :: "flow_entry list"
  carrier_counts :: "(string, nat) dict"
  duplicate_carriers :: nat
  unmatched :: nat
  after_last_close :: nat
  lifetime_available :: bool
  conn_ids_reused :: nat
  files_duplicated :: nat

text \<open>The first line of the connection that names a host.\<close>

definition dest_evidence :: "life_row list \<Rightarrow> (string \<times> nat option \<times> address) option" where
  "dest_evidence own = (case List.map_filter (\<lambda>(tm, sf, n, bd). map_option (\<lambda>m. (grp 1 m,
         (case rx_group 2 m of None \<Rightarrow> None | Some p \<Rightarrow> if p = [] then None else Some (nat_of_digits p)), (sf, n)))
       (rx_search False dest_host_rx bd)) own of
     [] \<Rightarrow> None | d # _ \<Rightarrow> Some d)"

definition entry_of :: "(address \<times> life_row) list \<Rightarrow> close \<Rightarrow> flow_entry" where
  "entry_of assigned r = (let p = what r; own = map snd (filter (\<lambda>a. fst a = c_address r) assigned);
       (dv, dp, da) = (case dest p of
           Some d \<Rightarrow> (Some d, dest_port p, if d = [] then None else Some (c_address r))
         | None \<Rightarrow> (case dest_evidence own of None \<Rightarrow> (None, dest_port p, None) | Some (h, pt, a) \<Rightarrow> (Some h, pt, Some a))) in
     \<lparr>f_conn = conn_id p, f_proto = proto p, first_ts = (case own of [] \<Rightarrow> c_ts r | w # _ \<Rightarrow> fst w), last_ts = c_ts r,
       f_client = client_bytes p, f_server = server_bytes p, f_ptx = packets_tx p, f_prx = packets_rx p,
       f_dest = dv, f_port = dp, f_dest_at = da, f_at = c_address r, f_carrier = carrier p, lifetime_lines = length own\<rparr>)"

definition close_key :: "close \<Rightarrow> int \<times> string \<times> nat" where
  "close_key r = (c_ts r, c_file r, c_line r)"

definition assign_all :: "(string \<Rightarrow> life_row list) \<Rightarrow> (string, close list) dict \<Rightarrow> (address \<times> life_row) list \<times> nat" where
  "assign_all rows_of d = fold (\<lambda>(v, cs) (a, n). case segment cs (rows_of v) of (a', n') \<Rightarrow> (a @ a', n + n')) d ([], 0)"

text \<open>\<open>None\<close> is the \<open>ValueError\<close> of a port; \<open>ids\<close> says whether the store was built with identifiers.\<close>

definition build_ledger :: "tables \<Rightarrow> bool \<Rightarrow> bool \<Rightarrow> nat \<Rightarrow> ledger option" where
  "build_ledger t ids lifetime dup = (let cands = candidate_lines t; outs = map (\<lambda>ln. parse_close (record_text t ln)) cands in
     if list_ex (\<lambda>x. x = BadPort) outs then None
     else let found = List.map_filter (close_of t) cands;
              kept = dedupe_carriers found;
              rs = sort_key close_key (fst kept);
              groups = bucket (\<lambda>r. conn_id (what r)) rs;
              assigned = assign_all (if lifetime \<and> ids then lifetime_rows t else (\<lambda>v. [])) groups in
       Some \<lparr>entries = map (entry_of (fst assigned)) rs,
         carrier_counts = fold (\<lambda>r. dict_add (carrier (what r)) 1) found [],
         duplicate_carriers = snd kept,
         unmatched = length (filter (\<lambda>x. x = NoClose) outs),
         after_last_close = snd assigned,
         lifetime_available = (lifetime \<and> ids),
         conn_ids_reused = length (filter (\<lambda>g. 1 < length (snd g)) groups),
         files_duplicated = dup\<rparr>)"

section \<open>Totals\<close>

definition f_total :: "flow_entry \<Rightarrow> nat" where
  "f_total f = f_client f + f_server f"

definition destination :: "flow_entry \<Rightarrow> string option" where
  "destination f = (case f_dest f of
       None \<Rightarrow> None
     | Some d \<Rightarrow> if d = [] then None
         else Some (case f_port f of None \<Rightarrow> d | Some p \<Rightarrow> if p = 0 then d else d @ '':'' @ str_of_nat p))"

record ledger_totals =
  n_flows :: nat
  tcp_flows :: nat
  udp_flows :: nat
  sum_client :: nat
  sum_server :: nat
  sum_bytes :: nat
  sum_ptx :: "nat option"
  sum_prx :: "nat option"
  t_first :: "int option"
  t_last :: "int option"
  no_destination :: nat
  zero_byte_flows :: nat
  t_carriers :: "(string, nat) dict"
  t_duplicated :: nat

definition sum_opt :: "(flow_entry \<Rightarrow> nat option) \<Rightarrow> flow_entry list \<Rightarrow> nat option" where
  "sum_opt p fs = (let n = sum_list (map (\<lambda>f. case p f of None \<Rightarrow> 0 | Some k \<Rightarrow> k) fs) in if n = 0 then None else Some n)"

definition totals :: "ledger \<Rightarrow> ledger_totals" where
  "totals l = (let fs = entries l; clt = sum_list (map f_client fs); srv = sum_list (map f_server fs) in
     \<lparr>n_flows = length fs, tcp_flows = length (filter (\<lambda>f. f_proto f = ''tcp'') fs),
       udp_flows = length (filter (\<lambda>f. f_proto f = ''udp'') fs), sum_client = clt, sum_server = srv, sum_bytes = clt + srv,
       sum_ptx = sum_opt f_ptx fs, sum_prx = sum_opt f_prx fs,
       t_first = (if fs = [] then None else Some (Min (set (map first_ts fs)))),
       t_last = (if fs = [] then None else Some (Max (set (map last_ts fs)))),
       no_destination = length (filter (\<lambda>f. f_dest f = None) fs),
       zero_byte_flows = length (filter (\<lambda>f. f_total f = 0) fs),
       t_carriers = carrier_counts l, t_duplicated = files_duplicated l\<rparr>)"

section \<open>Aggregates\<close>

record agg_row =
  a_key :: string
  a_flows :: nat
  a_client :: nat
  a_server :: nat
  a_first :: int
  a_last :: int
  flow_ids :: "nat list"
  provenance :: "address list"
  provenance_complete :: bool

definition a_total :: "agg_row \<Rightarrow> nat" where
  "a_total r = a_client r + a_server r"

text \<open>The rows of a bucket are numbers of flows; a bucket is never empty.\<close>

definition row_of :: "flow_entry list \<Rightarrow> nat \<Rightarrow> string \<Rightarrow> nat list \<Rightarrow> agg_row" where
  "row_of fs limit k ids = (let fl = map ((!) fs) ids; prov = map f_at (take limit fl) in
     \<lparr>a_key = k, a_flows = length fl, a_client = sum_list (map f_client fl), a_server = sum_list (map f_server fl),
       a_first = Min (set (map first_ts fl)), a_last = Max (set (map last_ts fl)), flow_ids = ids, provenance = prov,
       provenance_complete = (length prov = length fl)\<rparr>)"

definition rows_by :: "(flow_entry \<Rightarrow> string) \<Rightarrow> nat \<Rightarrow> flow_entry list \<Rightarrow> agg_row list" where
  "rows_by key limit fs = map (\<lambda>(k, ids). row_of fs limit k ids) (bucket (\<lambda>i. key (fs ! i)) [0..<length fs])"

definition busiest :: "agg_row list \<Rightarrow> agg_row list" where
  "busiest rows = sort_key (\<lambda>r. (- int (a_total r), a_key r)) rows"

definition destination_key :: "flow_entry \<Rightarrow> string" where
  "destination_key f = (case destination f of None \<Rightarrow> ''(no destination on record)'' | Some d \<Rightarrow> d)"

definition by_destination :: "ledger \<Rightarrow> nat option \<Rightarrow> nat \<Rightarrow> agg_row list" where
  "by_destination l most limit = (let rows = busiest (rows_by destination_key limit (entries l)) in
     case most of None \<Rightarrow> rows | Some n \<Rightarrow> if n = 0 then rows else take n rows)"

text \<open>The UTC hour of a time stamp, for years from 1000 on (\<open>strftime\<close> pads smaller ones as the platform does).\<close>

definition year_of_day :: "nat \<Rightarrow> nat" where
  "year_of_day d = (case List.find (\<lambda>y. d < days_before_year (Suc y)) [d div 366 + 1 ..< d div 365 + 2] of None \<Rightarrow> 0 | Some y \<Rightarrow> y)"

definition month_of_day :: "nat \<Rightarrow> nat \<Rightarrow> nat" where
  "month_of_day y d = (case List.find (\<lambda>m. d < days_before_month y (Suc m)) [1..<13] of None \<Rightarrow> 0 | Some m \<Rightarrow> m)"

definition hour_key :: "int \<Rightarrow> string" where
  "hour_key t = (let h = nat (t div 3600000000); d = h div 24; y = year_of_day d; r = d - days_before_year y; m = month_of_day y r in
     pad 4 y @ ''-'' @ pad 2 m @ ''-'' @ pad 2 (r - days_before_month y m + 1) @ '' '' @ pad 2 (h mod 24) @ '':00 UTC'')"

definition by_hour :: "ledger \<Rightarrow> nat \<Rightarrow> agg_row list" where
  "by_hour l limit = sort_key a_key (rows_by (\<lambda>f. hour_key (last_ts f)) limit (entries l))"

definition by_proto :: "ledger \<Rightarrow> nat \<Rightarrow> agg_row list" where
  "by_proto l limit = busiest (rows_by f_proto limit (entries l))"

definition flows_for :: "ledger \<Rightarrow> agg_row \<Rightarrow> flow_entry list" where
  "flows_for l r = map ((!) (entries l)) (flow_ids r)"

section \<open>What is left out\<close>

definition tag_bytes_rx :: rx where
  "tag_bytes_rx = RSeqs [RStrs [''Zpn client socket written bytes'', ''processResponse rxBytes''], RLit CHR '':'', blanks,
     number 1, RStarLazy RDot, RSet [CLit CHR ''T'', CLit CHR ''t''], RStr ''ag id:'', blanks, number 2]"

definition keepalive_rx :: rx where
  "keepalive_rx = RSeqs [RStr ''sendKeepAlive:'', blanks, RStr ''Sent bytes:'', blanks, number 1]"

definition counted_values :: "rx \<Rightarrow> string list \<Rightarrow> tables \<Rightarrow> nat list" where
  "counted_values r likes t = concat (map (\<lambda>p. concat (map (\<lambda>ln. map (num 1) (rx_finditer True r (body ln)))
     (filter (\<lambda>ln. like p (body ln)) (t_lines t)))) likes)"

definition running_counter_report :: "tables \<Rightarrow> nat \<times> nat \<times> nat \<times> nat" where
  "running_counter_report t = (let tags = counted_values tag_bytes_rx [''%written bytes%'', ''%rxBytes%''] t;
       ka = counted_values keepalive_rx [''%sendKeepAlive%''] t in
     (length tags, sum_list tags, length ka, sum_list ka))"

end
