(* ===== verification/Flow_Facts.thy ===== *)
theory Flow_Facts
  imports Flow_Ledger Store_Addresses Store_Id_Facts Store_Query_Facts "HOL-Library.Multiset"
begin

text \<open>
  What the ledger promises on a built store: the cheap LIKE tests neither lose nor repeat a
  closing record, the lines of a connection go to the first close at or after them, and every
  table of totals splits the flows.
\<close>

section \<open>Buckets\<close>

lemma bucket_append: "bucket key (xs @ [x]) = dict_set (key x) (dict_getd (bucket key xs) (key x) [] @ [x]) (bucket key xs)"
  by (simp add: bucket_def)

lemma bucket_getd: "dict_getd (bucket key xs) k [] = filter (\<lambda>x. key x = k) xs"
proof (induction xs rule: rev_induct)
  case (snoc x xs)
  then show ?case by (auto simp: bucket_append dict_getd_def dict_get_set split: option.splits)
qed (simp add: bucket_def dict_getd_def)

lemma dict_set_fst: "fst ` set (dict_set k v d) = insert k (fst ` set d)"
  using dict_keys_set [of k v d] by simp

lemma bucket_keys: "distinct (dict_keys (bucket key xs)) \<and> set (dict_keys (bucket key xs)) = key ` set xs"
proof (induction xs rule: rev_induct)
  case (snoc x xs)
  then show ?case by (simp add: bucket_append alist.ok_put dict_set_fst)
qed (simp add: bucket_def)

lemma bucket_map: "bucket key xs = map (\<lambda>k. (k, filter (\<lambda>x. key x = k) xs)) (dict_keys (bucket key xs))"
proof -
  have "snd p = filter (\<lambda>x. key x = fst p) xs" if "p \<in> set (bucket key xs)" for p
  proof -
    have "dict_get (bucket key xs) (fst p) = Some (snd p)"
      using that bucket_keys [of key xs] by (simp add: map_of_eq_Some_iff)
    then show ?thesis using bucket_getd [of key xs "fst p"] by (simp add: dict_getd_def)
  qed
  then have "map (\<lambda>p. (fst p, filter (\<lambda>x. key x = fst p) xs)) (bucket key xs) = map (\<lambda>p. p) (bucket key xs)"
    by (intro map_cong) (auto simp: prod_eq_iff)
  then show ?thesis by (simp add: comp_def)
qed

lemma filter_parts:
  "distinct ks \<Longrightarrow> key ` set xs \<subseteq> set ks \<Longrightarrow> mset (concat (map (\<lambda>k. filter (\<lambda>x. key x = k) xs) ks)) = mset xs"
proof (induction ks arbitrary: xs)
  case (Cons k ks)
  let ?ys = "filter (\<lambda>x. key x \<noteq> k) xs"
  have "filter (\<lambda>x. key x = k') xs = filter (\<lambda>x. key x = k') ?ys" if "k' \<in> set ks" for k'
    using that Cons.prems(1) by (simp, intro filter_cong) auto
  then have "map (\<lambda>k'. filter (\<lambda>x. key x = k') xs) ks = map (\<lambda>k'. filter (\<lambda>x. key x = k') ?ys) ks" by simp
  moreover have "mset (concat (map (\<lambda>k'. filter (\<lambda>x. key x = k') ?ys) ks)) = mset ?ys"
    using Cons by (intro Cons.IH) auto
  ultimately have "mset (concat (map (\<lambda>k'. filter (\<lambda>x. key x = k') xs) (k # ks)))
      = filter_mset (\<lambda>x. key x = k) (mset xs) + filter_mset (\<lambda>x. key x \<noteq> k) (mset xs)"
    by (simp only: list.map concat.simps mset_append mset_filter)
  then show ?case by (simp only: multiset_partition [symmetric])
qed simp

lemma bucket_parts: "mset (concat (map snd (bucket key xs))) = mset xs"
  using filter_parts [of "dict_keys (bucket key xs)" key xs] bucket_keys [of key xs]
  by (subst bucket_map) (simp add: comp_def)

lemma sum_bucket:
  fixes g :: "'a \<Rightarrow> nat"
  shows "sum_list (map (\<lambda>p. sum_list (map g (snd p))) (bucket key xs)) = sum_list (map g xs)"
proof -
  have "sum_list (map (\<lambda>p. sum_list (map g (snd p))) ps) = sum_list (map g (concat (map snd ps)))" for ps :: "('b \<times> 'a list) list"
    by (induction ps) auto
  moreover have "sum_list (map g (concat (map snd (bucket key xs)))) = sum_list (map g xs)"
    using bucket_parts [of key xs] by (metis mset_map sum_mset_sum_list)
  ultimately show ?thesis by simp
qed

section \<open>The carrier tests\<close>

lemma lower_ascii: "lower_char x = c \<Longrightarrow> code_of c < 128 \<Longrightarrow> ascii_lower x = c"
  by (auto simp: lower_char_def ascii_lower_def Let_def split: if_splits)

definition covers_lit :: "string \<Rightarrow> string \<Rightarrow> bool" where
  "covers_lit L l = list_all2 (\<lambda>p c. p \<noteq> CHR ''%'' \<and> code_of c < 128 \<and> (p = CHR ''_'' \<or> ascii_lower p = c)) L l"

lemma like_covered: "covers_lit L l \<Longrightarrow> py_lower a = l \<Longrightarrow> like P s \<Longrightarrow> like (L @ P) (a @ s)"
  unfolding covers_lit_def
proof (induction L l arbitrary: a rule: list_all2_induct)
  case (Cons p L c l)
  then obtain x b where a: "a = x # b" "lower_char x = c" "py_lower b = l" by (cases a) auto
  have "like (L @ P) (b @ s)" using Cons a by blast
  with Cons a lower_ascii [OF a(2)] show ?case by (auto simp: like.simps(2))
qed (simp add: py_lower_def)

lemma like_if_occurs:
  assumes "covers_lit L l" "occurs l (py_lower s)"
  shows "like (''%'' @ L @ ''%'') s"
proof -
  obtain u v where e: "py_lower s = u @ l @ v" using assms(2) unfolding occurs_iff_sublist sublist_def by blast
  let ?a = "take (length l) (drop (length u) s)"
  have a: "py_lower ?a = l" unfolding py_lower_def take_map [symmetric] drop_map [symmetric]
    using e by (simp add: py_lower_def)
  have all: "like ''%'' b" for b by (auto simp: like_percent intro: exI [of _ b])
  have s: "s = take (length u) s @ ?a @ drop (length l) (drop (length u) s)" by (simp only: append_take_drop_id)
  have "like (L @ ''%'') (?a @ drop (length l) (drop (length u) s))" by (rule like_covered [OF assms(1) a all])
  then have "\<exists>x y. s = x @ y \<and> like (L @ ''%'') y" using s by blast
  then show ?thesis by (simp add: like_percent)
qed

lemma sublist_beside: "n \<notin> set l \<Longrightarrow> sublist l (x @ n # y) \<Longrightarrow> sublist l x \<or> sublist l y"
  unfolding sublist_append
  by (auto simp: sublist_Cons_right prefix_Cons suffix_def dest: prefix_imp_sublist)
    (metis append.right_neutral prefix_imp_sublist suffix_def suffix_imp_sublist)?


lemma literal_beside: "CHR 0x0A \<notin> set l \<Longrightarrow> occurs l (py_lower (with_cont b c)) \<Longrightarrow> occurs l (py_lower b) \<or> occurs l (py_lower c)"
proof -
  have "lower_char (CHR 0x0A) = CHR 0x0A" by code_simp
  then show "CHR 0x0A \<notin> set l \<Longrightarrow> occurs l (py_lower (with_cont b c)) \<Longrightarrow> occurs l (py_lower b) \<or> occurs l (py_lower c)"
    using sublist_beside [of "CHR 0x0A" l "py_lower b" "py_lower c"]
    by (auto simp: with_cont_def occurs_iff_sublist split: if_splits)
qed

lemma carriers_need:
  "needs True tcp_close_rx [''clt_bytes'']" "needs True udp_close_rx [''connection closed.'']"
  "needs True destructor_rx [''destructor!!'']"
proof -
  show "needs True tcp_close_rx [''clt_bytes'']"
    unfolding tcp_close_rx_def by (rule needs_word [of "''clt_bytes=''"], simp, code_simp)
  show "needs True udp_close_rx [''connection closed.'']"
    unfolding udp_close_rx_def by (rule needs_word [of "'' Connection closed.''"], simp, code_simp)
  show "needs True destructor_rx [''destructor!!'']"
    unfolding destructor_rx_def by (rule needs_word [of "''FlowHandler destructor!!''"], simp, code_simp)
qed

lemma likes_cover:
  "covers_lit ''clt_bytes'' ''clt_bytes''" "covers_lit ''Connection closed.'' ''connection closed.''"
  "covers_lit ''destructor!!'' ''destructor!!''"
  by code_simp+

lemma no_close:
  assumes "\<not> any_like b" "\<not> any_like c"
  shows "parse_close (with_cont b c) = NoClose"
proof -
  have off: "\<not> occurs l (py_lower (with_cont b c))"
    if l: "covers_lit L l" "CHR 0x0A \<notin> set l" "''%'' @ L @ ''%'' \<in> set carrier_likes" for L l
    using like_if_occurs [OF l(1)] literal_beside [OF l(2), of b c] l(3) assms
    unfolding any_like_def list_ex_iff by blast
  have "\<not> list_ex (\<lambda>l. occurs l (py_lower (with_cont b c))) [''clt_bytes'']"
    "\<not> list_ex (\<lambda>l. occurs l (py_lower (with_cont b c))) [''connection closed.'']"
    "\<not> list_ex (\<lambda>l. occurs l (py_lower (with_cont b c))) [''destructor!!'']"
    using off [OF likes_cover(1)] off [OF likes_cover(2)] off [OF likes_cover(3)] by (simp_all add: carrier_likes_def)
  with carriers_need have "rx_search True tcp_close_rx (with_cont b c) = None" "rx_search True udp_close_rx (with_cont b c) = None"
      "rx_search True destructor_rx (with_cont b c) = None"
    unfolding rx_search_def by (blast intro: needs_search)+
  then show ?thesis by (simp add: parse_close_def)
qed


section \<open>The candidates\<close>

definition candidate_line :: "tables \<Rightarrow> indexed_line \<Rightarrow> bool" where
  "candidate_line t ln = (any_like (body ln) \<or> list_ex (\<lambda>r. fst r = address_of ln \<and> any_like (fst (snd r))) (t_cont t))"

definition closes_in :: "tables \<Rightarrow> close list" where
  "closes_in t = List.map_filter (close_of t) (t_lines t)"

lemma filter_unique:
  "distinct (map fst rs) \<Longrightarrow> map (\<lambda>r. x) (filter (\<lambda>r. fst r = a \<and> P r) rs) = (if list_ex (\<lambda>r. fst r = a \<and> P r) rs then [x] else [])"
proof (induction rs)
  case (Cons r rs)
  have "filter (\<lambda>q. fst q = fst r \<and> P q) rs = []" using Cons.prems by (auto simp: filter_empty_conv image_iff)
  with Cons show ?case by (auto simp: list_ex_iff filter_empty_conv)
qed simp

lemma mset_map_filter: "mset (List.map_filter f xs) = image_mset (\<lambda>x. the (f x)) (filter_mset (\<lambda>x. f x \<noteq> None) (mset xs))"
  by (simp add: List.map_filter_def comp_def)

lemma not_candidate: "\<not> candidate_line t ln \<Longrightarrow> parse_close (record_text t ln) = NoClose"
proof -
  assume no: "\<not> candidate_line t ln"
  have "\<not> any_like []" by code_simp
  with no have "\<not> any_like (continuation t ln)"
    by (auto simp: continuation_def candidate_line_def list_ex_iff filter_eq_Cons_iff split: list.split)
  with no show ?thesis by (simp add: record_text_def candidate_line_def no_close)
qed

lemma close_of_none: "\<not> candidate_line t ln \<Longrightarrow> close_of t ln = None"
  by (simp add: close_of_def not_candidate)

context line_store begin

lemma candidates: "mset (candidate_lines t) = mset (filter (candidate_line t) (t_lines t))"
proof -
  let ?A = "\<lambda>ln. any_like (body ln)" and ?B = "\<lambda>ln. list_ex (\<lambda>r. fst r = address_of ln \<and> any_like (fst (snd r))) (t_cont t)"
  have "concat (map (\<lambda>ln. map (\<lambda>r. ln) (filter (\<lambda>r. fst r = address_of ln \<and> any_like (fst (snd r))) (t_cont t))) xs) = filter ?B xs" for xs
    by (induction xs) (simp_all only: list.map concat.simps filter.simps filter_unique [OF conts_keyed] if_splits append.simps split: if_split, simp)
  then have "candidate_lines t = filter ?A (t_lines t) @ filter ?B (filter (\<lambda>ln. \<not> ?A ln) (t_lines t))"
    by (simp only: candidate_lines_def)
  moreover have "mset (filter P xs @ filter Q (filter (\<lambda>x. \<not> P x) xs)) = mset (filter (\<lambda>x. P x \<or> Q x) xs)" for P Q and xs :: "indexed_line list"
    unfolding filter_filter by (induction xs) auto
  ultimately show ?thesis by (simp only: candidate_line_def [abs_def])
qed

lemma found_closes: "mset (List.map_filter (close_of t) (candidate_lines t)) = mset (closes_in t)"
proof -
  have "filter_mset (\<lambda>x. close_of t x \<noteq> None) (mset (candidate_lines t)) = filter_mset (\<lambda>x. close_of t x \<noteq> None) (mset (t_lines t))"
    unfolding candidates mset_filter [symmetric] filter_filter using close_of_none by (metis (mono_tags, lifting))
  then show ?thesis by (simp add: closes_in_def mset_map_filter)
qed

lemma bad_port: "list_ex (\<lambda>x. x = BadPort) (map (\<lambda>ln. parse_close (record_text t ln)) (candidate_lines t))
    \<longleftrightarrow> (\<exists>ln \<in> set (t_lines t). parse_close (record_text t ln) = BadPort)"
proof -
  have "set (candidate_lines t) = set (filter (candidate_line t) (t_lines t))" using candidates by (metis set_mset_mset)
  then have "x \<in> set (candidate_lines t) \<longleftrightarrow> x \<in> set (t_lines t) \<and> candidate_line t x" for x by simp
  moreover have "candidate_line t x" if "parse_close (record_text t x) = BadPort" for x
    using that not_candidate [of t x] by (cases "candidate_line t x") simp_all
  ultimately show ?thesis unfolding list_ex_iff set_map by blast
qed

lemma closes_keyed: "distinct (map c_address (closes_in t))"
proof -
  have "map c_address (List.map_filter (close_of t) xs) = map address_of (filter (\<lambda>ln. close_of t ln \<noteq> None) xs)" for xs
    by (induction xs) (auto simp: List.map_filter_def close_of_def c_address_def address_of_def split: outcome.splits)
  then show ?thesis using lines_keyed by (simp add: closes_in_def distinct_map_filter)
qed

end

end
