(* ===== verification/Flow_Segments.thy ===== *)
theory Flow_Segments
  imports Flow_Facts
begin

text \<open>
  The lines of a connection: each goes to the first close of its connection at or after it, so
  that the flows of a connection follow one another, and none is lost or counted twice.
\<close>

section \<open>One connection\<close>

lemma find_dropWhile:
  fixes f :: "'a \<Rightarrow> int"
  shows "a \<le> b \<Longrightarrow> List.find (\<lambda>c. b \<le> f c) (dropWhile (\<lambda>c. f c < a) cs) = List.find (\<lambda>c. b \<le> f c) cs"
  by (induction cs) auto

lemma find_hd:
  fixes f :: "'a \<Rightarrow> int"
  shows "List.find (\<lambda>c. a \<le> f c) cs = (case dropWhile (\<lambda>c. f c < a) cs of [] \<Rightarrow> None | c # _ \<Rightarrow> Some c)"
  by (induction cs) auto

definition first_close :: "close list \<Rightarrow> life_row \<Rightarrow> close option" where
  "first_close cs r = List.find (\<lambda>c. fst r \<le> c_ts c) cs"

lemma segment_spec:
  "sorted (map fst rs) \<Longrightarrow> segment cs rs =
    (List.map_filter (\<lambda>r. map_option (\<lambda>c. (c_address c, r)) (first_close cs r)) rs,
     length (filter (\<lambda>r. first_close cs r = None) rs))"
proof (induction rs arbitrary: cs)
  case (Cons r rs)
  define ds where "ds = dropWhile (\<lambda>c. c_ts c < fst r) cs"
  have same: "first_close ds q = first_close cs q" if "q \<in> set rs" for q
    using Cons.prems that by (simp add: first_close_def find_dropWhile ds_def)
  have "segment ds rs = (List.map_filter (\<lambda>q. map_option (\<lambda>c. (c_address c, q)) (first_close cs q)) rs,
     length (filter (\<lambda>q. first_close cs q = None) rs))"
    using Cons same by (simp add: List.map_filter_def cong: filter_cong map_cong)
  moreover have "first_close cs r = (case ds of [] \<Rightarrow> None | c # _ \<Rightarrow> Some c)"
    by (simp add: first_close_def find_hd ds_def)
  moreover have "segment cs (r # rs) = (case ds of
       [] \<Rightarrow> (case segment [] rs of (a, n) \<Rightarrow> (a, Suc n))
     | c # cs' \<Rightarrow> (case segment (c # cs') rs of (a, n) \<Rightarrow> ((c_address c, r) # a, n)))"
    by (simp add: ds_def)
  ultimately show ?case by (cases ds) (simp_all add: List.map_filter_def)
qed (simp add: List.map_filter_def)

lemma sorted_fst: "sorted (xs :: ('a :: linorder \<times> 'b :: linorder) list) \<Longrightarrow> sorted (map fst xs)"
  by (induction xs) (force simp: less_eq_prod_def)+

lemma first_closeD: "first_close cs r = Some c \<Longrightarrow> c \<in> set cs \<and> fst r \<le> c_ts c"
  by (auto simp: first_close_def find_Some_iff)

lemma first_close_counts:
  "distinct cs \<Longrightarrow> sum_list (map (\<lambda>c. length (filter (\<lambda>r. first_close cs r = Some c) rs)) cs)
     + length (filter (\<lambda>r. first_close cs r = None) rs) = length rs"
proof (induction rs)
  case (Cons r rs)
  have "sum_list (map (\<lambda>c. length (filter (\<lambda>r. first_close cs r = Some c) (r # rs))) cs)
      = sum_list (map (\<lambda>c. if first_close cs r = Some c then 1 else 0) cs)
        + sum_list (map (\<lambda>c. length (filter (\<lambda>r. first_close cs r = Some c) rs)) cs)"
    unfolding sum_list_addf [symmetric] by (intro arg_cong [where f = sum_list] map_cong) auto
  also have "sum_list (map (\<lambda>c. if first_close cs r = Some c then 1 else 0) cs) = (if first_close cs r = None then 0 else (1::nat))"
  proof (cases "first_close cs r")
    case (Some d)
    then have "d \<in> set cs" by (simp add: first_closeD)
    then show ?thesis using Cons.prems Some by (simp add: sum_list_distinct_conv_sum_set)
  qed simp
  finally show ?case using Cons by simp
qed simp

section \<open>All connections\<close>

lemma assign_all_parts:
  "assign_all rows_of d = (concat (map (\<lambda>p. fst (segment (snd p) (rows_of (fst p)))) d),
     sum_list (map (\<lambda>p. snd (segment (snd p) (rows_of (fst p)))) d))"
proof -
  have "fold (\<lambda>(v, cs) (a, n). case segment cs (rows_of v) of (a', n') \<Rightarrow> (a @ a', n + n')) d (a0, n0)
      = (a0 @ concat (map (\<lambda>p. fst (segment (snd p) (rows_of (fst p)))) d),
         n0 + sum_list (map (\<lambda>p. snd (segment (snd p) (rows_of (fst p)))) d))" for a0 n0
    by (induction d arbitrary: a0 n0) (auto split: prod.split)
  then show ?thesis by (simp add: assign_all_def)
qed

abbreviation conn_of :: "close \<Rightarrow> string" where
  "conn_of r \<equiv> conn_id (what r)"

definition siblings :: "close list \<Rightarrow> close \<Rightarrow> close list" where
  "siblings rs r = filter (\<lambda>c. conn_of c = conn_of r) rs"

definition own_rows :: "(string \<Rightarrow> life_row list) \<Rightarrow> close list \<Rightarrow> close \<Rightarrow> life_row list" where
  "own_rows rows_of rs r = filter (\<lambda>w. first_close (siblings rs r) w = Some r) (rows_of (conn_of r))"

lemma concat_single: "distinct ks \<Longrightarrow> k \<in> set ks \<Longrightarrow> (\<And>j. j \<in> set ks \<Longrightarrow> j \<noteq> k \<Longrightarrow> g j = []) \<Longrightarrow> concat (map g ks) = g k"
proof (induction ks)
  case (Cons j ks)
  show ?case
  proof (cases "j = k")
    case True
    with Cons.prems have "\<forall>i \<in> set ks. g i = []" by auto
    with True show ?thesis by simp
  next
    case False
    with Cons show ?thesis by simp
  qed
qed simp

lemma keep_close:
  assumes "\<And>w c. F w = Some c \<Longrightarrow> (c_address c = c_address r) = (c = r)"
  shows "map snd (filter (\<lambda>a. fst a = c_address r) (List.map_filter (\<lambda>w. map_option (\<lambda>c. (c_address c, w)) (F w)) ws))
    = filter (\<lambda>w. F w = Some r) ws"
proof (induction ws)
  case (Cons w ws)
  then show ?case using assms by (cases "F w") (simp_all add: List.map_filter_def)
qed (simp add: List.map_filter_def)

lemma assigned_own:
  assumes keyed: "distinct (map c_address rs)" and r: "r \<in> set rs" and sorted: "\<And>v. sorted (map fst (rows_of v))"
  shows "map snd (filter (\<lambda>a. fst a = c_address r) (fst (assign_all rows_of (bucket conn_of rs)))) = own_rows rows_of rs r"
proof -
  let ?cs = "\<lambda>k. filter (\<lambda>c. conn_of c = k) rs"
  let ?g = "\<lambda>k. map snd (filter (\<lambda>a. fst a = c_address r) (fst (segment (?cs k) (rows_of k))))"
  have inj: "c = r" if "c \<in> set rs" "c_address c = c_address r" for c
    using keyed r that by (metis distinct_map inj_onD)
  have g: "?g k = filter (\<lambda>w. first_close (?cs k) w = Some r) (rows_of k)" for k
  proof -
    have "(c_address c = c_address r) = (c = r)" if "first_close (?cs k) w = Some c" for w c
      using inj first_closeD [OF that] by auto
    then show ?thesis by (simp add: segment_spec [OF sorted] keep_close)
  qed
  have "?g k = []" if ne: "k \<noteq> conn_of r" for k
  proof -
    have "first_close (?cs k) w \<noteq> Some r" for w
    proof
      assume "first_close (?cs k) w = Some r"
      then have "r \<in> set (?cs k)" by (blast dest: first_closeD)
      with ne show False by simp
    qed
    then show ?thesis by (simp add: g)
  qed
  then have "concat (map ?g (dict_keys (bucket conn_of rs))) = ?g (conn_of r)"
    using bucket_keys [of conn_of rs] r by (intro concat_single) auto
  moreover have "map snd (filter (\<lambda>a. fst a = c_address r) (fst (assign_all rows_of (bucket conn_of rs))))
      = concat (map ?g (dict_keys (bucket conn_of rs)))"
    by (subst bucket_map, simp add: assign_all_parts filter_concat map_concat comp_def)
  ultimately show ?thesis by (simp add: g own_rows_def siblings_def)
qed

lemma assigned_counts:
  assumes "distinct rs" and sorted: "\<And>v. sorted (map fst (rows_of v))"
  shows "sum_list (map (\<lambda>r. length (own_rows rows_of rs r)) rs) + snd (assign_all rows_of (bucket conn_of rs))
    = (\<Sum>v \<in> conn_of ` set rs. length (rows_of v))"
proof -
  let ?cs = "\<lambda>k. filter (\<lambda>c. conn_of c = k) rs"
  have part: "sum_list (map (\<lambda>r. length (own_rows rows_of rs r)) (?cs k)) + snd (segment (?cs k) (rows_of k)) = length (rows_of k)" for k
  proof -
    have "map (\<lambda>r. length (own_rows rows_of rs r)) (?cs k) = map (\<lambda>r. length (filter (\<lambda>w. first_close (?cs k) w = Some r) (rows_of k))) (?cs k)"
      by (intro map_cong) (auto simp: own_rows_def siblings_def)
    moreover have "snd (segment (?cs k) (rows_of k)) = length (filter (\<lambda>w. first_close (?cs k) w = None) (rows_of k))"
      by (simp add: segment_spec [OF sorted])
    moreover have "distinct (?cs k)" using assms(1) by simp
    ultimately show ?thesis by (simp only: first_close_counts)
  qed
  let ?h = "\<lambda>r. length (own_rows rows_of rs r)" and ?ks = "dict_keys (bucket conn_of rs)"
  have "sum_list (map ?h rs) = sum_list (map (\<lambda>p. sum_list (map ?h (snd p))) (bucket conn_of rs))"
    by (rule sum_bucket [symmetric])
  also have "\<dots> = sum_list (map (\<lambda>k. sum_list (map ?h (?cs k))) ?ks)"
    by (subst bucket_map) (simp add: comp_def)
  finally have own: "sum_list (map ?h rs) = sum_list (map (\<lambda>k. sum_list (map ?h (?cs k))) ?ks)" .
  have late: "snd (assign_all rows_of (bucket conn_of rs)) = sum_list (map (\<lambda>k. snd (segment (?cs k) (rows_of k))) ?ks)"
    by (subst bucket_map) (simp add: assign_all_parts comp_def)
  have "sum_list (map ?h rs) + snd (assign_all rows_of (bucket conn_of rs)) = sum_list (map (\<lambda>k. length (rows_of k)) ?ks)"
    unfolding own late sum_list_addf [symmetric] part ..
  also have "\<dots> = (\<Sum>v \<in> conn_of ` set rs. length (rows_of v))"
    unfolding part using bucket_keys [of conn_of rs] by (metis sum_list_distinct_conv_sum_set)
  finally show ?thesis .
qed

end
