(* ===== verification/Flow_Claims.thy ===== *)
theory Flow_Claims
  imports Flow_Segments
begin

text \<open>
  The properties of the traffic ledger on a store that was built from a bundle.
\<close>

section \<open>The records behind the flows\<close>

lemma dedupe_perm: "mset xs = mset ys \<Longrightarrow> mset (fst (dedupe_carriers xs)) = mset (fst (dedupe_carriers ys))"
proof -
  assume m: "mset xs = mset ys"
  then have "set xs = set ys" by (rule mset_eq_setD)
  then have "set (map conn_of (filter (\<lambda>r. carrier (what r) = ''tcp_conn_close'') xs))
      = set (map conn_of (filter (\<lambda>r. carrier (what r) = ''tcp_conn_close'') ys))" by simp
  with m show ?thesis by (simp only: dedupe_carriers_def Let_def fst_conv mset_filter)
qed

lemma dedupe_keyed: "distinct (map c_address xs) \<Longrightarrow> distinct (map c_address (fst (dedupe_carriers xs)))"
  by (simp add: dedupe_carriers_def Let_def distinct_map_filter)

lemma sorted_ts: "sorted (map close_key rs) \<Longrightarrow> sorted (map c_ts rs)"
  using sorted_fst [of "map close_key rs"] by (simp add: close_key_def comp_def)

lemma entry_simps:
  "f_conn (entry_of as r) = conn_of r" "last_ts (entry_of as r) = c_ts r" "f_at (entry_of as r) = c_address r"
  "f_client (entry_of as r) = client_bytes (what r)" "f_server (entry_of as r) = server_bytes (what r)"
  "lifetime_lines (entry_of as r) = length (filter (\<lambda>a. fst a = c_address r) as)"
  "first_ts (entry_of as r) = (case map snd (filter (\<lambda>a. fst a = c_address r) as) of [] \<Rightarrow> c_ts r | w # _ \<Rightarrow> fst w)"
  by (simp_all add: entry_of_def Let_def split: option.split prod.split)

definition rows_source :: "tables \<Rightarrow> bool \<Rightarrow> string \<Rightarrow> life_row list" where
  "rows_source t on v = (if on then lifetime_rows t v else [])"

lemma rows_source_sorted: "sorted (map fst (rows_source t on v))"
  by (simp add: rows_source_def lifetime_rows_def sorted_fst)

definition flow_records :: "tables \<Rightarrow> close list" where
  "flow_records t = sort_key close_key (fst (dedupe_carriers (List.map_filter (close_of t) (candidate_lines t))))"

lemma build_ledger_parts:
  assumes "build_ledger t ids lifetime dup = Some l"
  shows "entries l = map (entry_of (fst (assign_all (rows_source t (lifetime \<and> ids)) (bucket conn_of (flow_records t))))) (flow_records t)"
    and "after_last_close l = snd (assign_all (rows_source t (lifetime \<and> ids)) (bucket conn_of (flow_records t)))"
proof -
  have "(if lifetime \<and> ids then lifetime_rows t else (\<lambda>v. [])) = rows_source t (lifetime \<and> ids)"
    by (auto simp: rows_source_def fun_eq_iff)
  with assms show "entries l = map (entry_of (fst (assign_all (rows_source t (lifetime \<and> ids)) (bucket conn_of (flow_records t))))) (flow_records t)"
    and "after_last_close l = snd (assign_all (rows_source t (lifetime \<and> ids)) (bucket conn_of (flow_records t)))"
    unfolding build_ledger_def Let_def flow_records_def [symmetric] by (auto split: if_splits)
qed

context line_store begin

lemma records_perm: "mset (flow_records t) = mset (fst (dedupe_carriers (closes_in t)))"
  using dedupe_perm [OF found_closes] by (simp add: flow_records_def)

lemma records_keyed: "distinct (map c_address (flow_records t))"
proof -
  have "distinct (map c_address (fst (dedupe_carriers (closes_in t))))" by (intro dedupe_keyed closes_keyed)
  moreover have "mset (map c_address (flow_records t)) = mset (map c_address (fst (dedupe_carriers (closes_in t))))"
    by (simp add: records_perm)
  ultimately show ?thesis by (metis mset_eq_imp_distinct_iff)
qed

lemma records_sorted: "sorted (map c_ts (flow_records t))"
  by (rule sorted_ts) (simp add: flow_records_def)

lemma ledger_refused:
  "build_ledger t ids lifetime dup = None \<longleftrightarrow> (\<exists>ln \<in> set (t_lines t). parse_close (record_text t ln) = BadPort)"
  unfolding build_ledger_def Let_def bad_port [symmetric] by simp

lemma ledger_complete:
  assumes "build_ledger t ids lifetime dup = Some l"
  shows "mset (map (\<lambda>f. (f_at f, f_client f, f_server f)) (entries l))
    = mset (map (\<lambda>r. (c_address r, client_bytes (what r), server_bytes (what r))) (fst (dedupe_carriers (closes_in t))))"
proof -
  have "map (\<lambda>f. (f_at f, f_client f, f_server f)) (entries l)
      = map (\<lambda>r. (c_address r, client_bytes (what r), server_bytes (what r))) (flow_records t)"
    by (simp add: build_ledger_parts(1) [OF assms] entry_simps)
  then show ?thesis by (simp add: records_perm)
qed

lemma ledger_own:
  assumes "build_ledger t ids lifetime dup = Some l"
  shows "map (\<lambda>f. (f_conn f, first_ts f, last_ts f, lifetime_lines f)) (entries l) =
    map (\<lambda>r. let own = own_rows (rows_source t (lifetime \<and> ids)) (flow_records t) r in
      (conn_of r, (case own of [] \<Rightarrow> c_ts r | w # _ \<Rightarrow> fst w), c_ts r, length own)) (flow_records t)"
proof -
  let ?as = "fst (assign_all (rows_source t (lifetime \<and> ids)) (bucket conn_of (flow_records t)))"
  have own: "map snd (filter (\<lambda>a. fst a = c_address r) ?as) = own_rows (rows_source t (lifetime \<and> ids)) (flow_records t) r"
    if "r \<in> set (flow_records t)" for r
    using records_keyed that by (intro assigned_own rows_source_sorted)
  then have "length (filter (\<lambda>a. fst a = c_address r) ?as) = length (own_rows (rows_source t (lifetime \<and> ids)) (flow_records t) r)"
    if "r \<in> set (flow_records t)" for r using that by (metis length_map)
  with own show ?thesis
    by (simp add: build_ledger_parts(1) [OF assms] entry_simps Let_def)
qed

end

text \<open>The flows of one connection, as far as their times go.\<close>

definition flow_start :: "(string \<Rightarrow> life_row list) \<Rightarrow> close list \<Rightarrow> close \<Rightarrow> int" where
  "flow_start rows_of rs r = (case own_rows rows_of rs r of [] \<Rightarrow> c_ts r | w # _ \<Rightarrow> fst w)"

lemma flow_start_le: "flow_start rows_of rs r \<le> c_ts r"
proof (cases "own_rows rows_of rs r")
  case (Cons w ws)
  then have "w \<in> set (own_rows rows_of rs r)" by simp
  then have "first_close (siblings rs r) w = Some r" by (simp add: own_rows_def)
  with Cons show ?thesis by (simp add: flow_start_def first_closeD)
qed (simp add: flow_start_def)

lemma earlier_close:
  assumes "first_close cs w = Some (cs ! j)" "distinct cs" "i < j" "j < length cs"
  shows "c_ts (cs ! i) < fst w"
proof -
  obtain k where k: "k < length cs" "cs ! j = cs ! k" "\<forall>m<k. \<not> fst w \<le> c_ts (cs ! m)"
    using assms(1) by (auto simp: first_close_def find_Some_iff)
  then have "k = j" using assms(2,4) by (simp add: nth_eq_iff_index_eq)
  with k(3) assms(3) show ?thesis by force
qed

lemma starts_follow:
  assumes "distinct rs" "sorted (map c_ts rs)"
  shows "sorted_wrt (\<lambda>c d. c_ts c \<le> flow_start rows_of rs d) (filter (\<lambda>c. conn_of c = v) rs)"
  unfolding sorted_wrt_iff_nth_less
proof (intro allI impI)
  let ?cs = "filter (\<lambda>c. conn_of c = v) rs"
  fix i j assume ij: "i < j" "j < length ?cs"
  have cs: "siblings rs (?cs ! j) = ?cs" using nth_mem [OF ij(2)] by (simp add: siblings_def)
  show "c_ts (?cs ! i) \<le> flow_start rows_of rs (?cs ! j)"
  proof (cases "own_rows rows_of rs (?cs ! j)")
    case Nil
    have "sorted (map c_ts ?cs)" using assms(2) by (rule sorted_filter)
    then show ?thesis using ij Nil by (simp add: flow_start_def sorted_iff_nth_mono_less)
  next
    case (Cons w ws)
    then have "w \<in> set (own_rows rows_of rs (?cs ! j))" by simp
    then have "first_close ?cs w = Some (?cs ! j)" by (simp only: own_rows_def set_filter mem_Collect_eq cs)
    then have "c_ts (?cs ! i) < fst w" using assms(1) ij by (intro earlier_close) auto
    with Cons show ?thesis by (simp add: flow_start_def)
  qed
qed


context line_store begin

lemma ledger_intervals:
  assumes "build_ledger t ids lifetime dup = Some l"
  shows "list_all (\<lambda>f. first_ts f \<le> last_ts f) (entries l)
    \<and> sorted_wrt (\<lambda>f g. last_ts f \<le> first_ts g) (filter (\<lambda>f. f_conn f = v) (entries l))
    \<and> sum_list (map lifetime_lines (entries l)) + after_last_close l
      = (\<Sum>c \<in> f_conn ` set (entries l). length (rows_source t (lifetime \<and> ids) c))"
proof -
  let ?rows = "rows_source t (lifetime \<and> ids)" and ?rs = "flow_records t"
  let ?view = "\<lambda>f. (f_conn f, first_ts f, last_ts f, lifetime_lines f)"
  define image where "image = (\<lambda>r. (conn_of r, flow_start ?rows ?rs r, c_ts r, length (own_rows ?rows ?rs r)))"
  have view: "map ?view (entries l) = map image ?rs"
    using ledger_own [OF assms] by (simp add: image_def flow_start_def Let_def)
  have rs: "distinct ?rs" "sorted (map c_ts ?rs)"
    using records_keyed records_sorted by (simp_all add: distinct_map)
  have "list_all (\<lambda>(c, a, b, n). a \<le> b) (map ?view (entries l))"
    unfolding view by (simp add: list_all_iff image_def flow_start_le)
  then have le: "list_all (\<lambda>f. first_ts f \<le> last_ts f) (entries l)" by (simp add: list_all_iff)
  have "sorted_wrt (\<lambda>(c, a, b, n) (c', a', b', n'). b \<le> a') (filter (\<lambda>p. fst p = v) (map ?view (entries l)))"
    using starts_follow [OF rs, of ?rows v] unfolding view by (simp add: filter_map comp_def sorted_wrt_map image_def)
  then have wrt: "sorted_wrt (\<lambda>f g. last_ts f \<le> first_ts g) (filter (\<lambda>f. f_conn f = v) (entries l))"
    by (simp add: filter_map comp_def sorted_wrt_map)
  have "map lifetime_lines (entries l) = map (\<lambda>p. snd (snd (snd p))) (map ?view (entries l))" by simp
  then have lens: "map lifetime_lines (entries l) = map (\<lambda>r. length (own_rows ?rows ?rs r)) ?rs"
    unfolding view by (simp add: image_def comp_def)
  have "map f_conn (entries l) = map fst (map ?view (entries l))" by simp
  then have "map f_conn (entries l) = map conn_of ?rs" unfolding view by (simp add: image_def comp_def)
  then have conns: "f_conn ` set (entries l) = conn_of ` set ?rs" by (metis list.set_map)
  have "sum_list (map lifetime_lines (entries l)) + after_last_close l = (\<Sum>c \<in> conn_of ` set ?rs. length (?rows c))"
    unfolding lens build_ledger_parts(2) [OF assms] by (intro assigned_counts rows_source_sorted rs(1))
  with le wrt conns show ?thesis by simp
qed

end

section \<open>On a built store\<close>

abbreviation built_tables :: "id_config \<Rightarrow> bool \<Rightarrow> nat option \<Rightarrow> bundle_file list \<Rightarrow> tables" where
  "built_tables cfg w cap fs \<equiv> db (ing (build_store cfg w cap fs))"


text \<open>
  C19: A flow starts no later than it ends, the flows of one connection follow one another, and
  the lines of the closed connections are each counted in one flow or after the last close.
\<close>

theorem flow_intervals:
  "case build_ledger (built_tables cfg w cap fs) ids lifetime dup of
      None \<Rightarrow> \<exists>ln \<in> set (t_lines (built_tables cfg w cap fs)). parse_close (record_text (built_tables cfg w cap fs) ln) = BadPort
    | Some l \<Rightarrow> list_all (\<lambda>f. first_ts f \<le> last_ts f) (entries l)
        \<and> sorted_wrt (\<lambda>f g. last_ts f \<le> first_ts g) (filter (\<lambda>f. f_conn f = v) (entries l))
        \<and> sum_list (map lifetime_lines (entries l)) + after_last_close l
          = (\<Sum>c \<in> f_conn ` set (entries l). if lifetime \<and> ids then length (lifetime_rows (built_tables cfg w cap fs) c) else 0)"
proof -
  have "length (rows_source t on c) = (if on then length (lifetime_rows t c) else 0)" for t on c by (simp add: rows_source_def)
  then show ?thesis
    using built.ledger_refused [of cfg w cap fs ids lifetime dup] built.ledger_intervals [of cfg w cap fs ids lifetime dup _ v]
    by (simp split: option.split)
qed

section \<open>Totals\<close>

definition splits :: "ledger \<Rightarrow> agg_row list \<Rightarrow> bool" where
  "splits l rows = (mset (concat (map flow_ids rows)) = mset [0..<length (entries l)] \<and> distinct (map a_key rows)
     \<and> sum_list (map a_flows rows) = n_flows (totals l) \<and> sum_list (map a_client rows) = sum_client (totals l)
     \<and> sum_list (map a_server rows) = sum_server (totals l))"

lemma sum_perm: "mset xs = mset ys \<Longrightarrow> sum_list (map g xs) = sum_list (map g ys :: nat list)"
  by (metis mset_map sum_mset_sum_list)

lemma concat_perm: "mset xs = mset ys \<Longrightarrow> mset (concat (map g xs)) = mset (concat (map g ys))"
proof -
  have "mset (concat (map g zs)) = \<Sum>\<^sub># (image_mset (\<lambda>x. mset (g x)) (mset zs))" for zs by (induction zs) simp_all
  then show "mset xs = mset ys \<Longrightarrow> mset (concat (map g xs)) = mset (concat (map g ys))" by simp
qed

lemma splits_perm: "mset rows = mset rows' \<Longrightarrow> splits l rows \<Longrightarrow> splits l rows'"
proof -
  assume m: "mset rows = mset rows'"
  then have "mset (map a_key rows) = mset (map a_key rows')" by simp
  then have "distinct (map a_key rows) = distinct (map a_key rows')" by (rule mset_eq_imp_distinct_iff)
  then show "splits l rows \<Longrightarrow> splits l rows'"
    unfolding splits_def sum_perm [OF m] concat_perm [OF m] by blast
qed

lemma rows_by_splits: "splits l (rows_by key limit (entries l))"
proof -
  let ?fs = "entries l"
  let ?b = "bucket (\<lambda>i. key (?fs ! i)) [0..<length ?fs]"
  have sum: "sum_list (map (\<lambda>p. sum_list (map (\<lambda>i. g (?fs ! i)) (snd p))) ?b) = sum_list (map g ?fs)" for g :: "flow_entry \<Rightarrow> nat"
  proof -
    have "map (\<lambda>i. g (?fs ! i)) [0..<length ?fs] = map g (map ((!) ?fs) [0..<length ?fs])" by simp
    then show ?thesis unfolding sum_bucket map_nth by simp
  qed
  have len: "sum_list (map (\<lambda>p. length (snd p)) ?b) = length ?fs"
    using sum [of "\<lambda>f. 1"] by (simp add: sum_list_triv)
  have "map flow_ids (rows_by key limit ?fs) = map snd ?b" "map a_key (rows_by key limit ?fs) = map fst ?b"
    by (simp_all add: rows_by_def row_of_def Let_def case_prod_beta comp_def)
  moreover have "map a_flows (rows_by key limit ?fs) = map (\<lambda>p. length (snd p)) ?b"
    "map a_client (rows_by key limit ?fs) = map (\<lambda>p. sum_list (map (\<lambda>i. f_client (?fs ! i)) (snd p))) ?b"
    "map a_server (rows_by key limit ?fs) = map (\<lambda>p. sum_list (map (\<lambda>i. f_server (?fs ! i)) (snd p))) ?b"
    by (simp_all add: rows_by_def row_of_def Let_def case_prod_beta comp_def sum_list_triv)
  ultimately show ?thesis
    using bucket_parts [of "\<lambda>i. key (?fs ! i)" "[0..<length ?fs]"] bucket_keys [of "\<lambda>i. key (?fs ! i)" "[0..<length ?fs]"]
    unfolding splits_def by (simp only: sum len) (simp add: totals_def Let_def)
qed

lemma rows_by_key: "r \<in> set (rows_by key limit (entries l)) \<Longrightarrow> f \<in> set (flows_for l r) \<Longrightarrow> key f = a_key r"
proof -
  let ?b = "bucket (\<lambda>i. key (entries l ! i)) [0..<length (entries l)]"
  assume "r \<in> set (rows_by key limit (entries l))" and f: "f \<in> set (flows_for l r)"
  then obtain p where p: "p \<in> set ?b" "r = row_of (entries l) limit (fst p) (snd p)" by (auto simp: rows_by_def)
  from p(1) have "snd p = filter (\<lambda>i. key (entries l ! i) = fst p) [0..<length (entries l)]"
    by (subst (asm) bucket_map) auto
  with f p(2) show "key f = a_key r" by (auto simp: flows_for_def row_of_def Let_def)
qed

text \<open>
  The tables by destination, hour and protocol each split the flows of the ledger: every
  flow is in one row, the rows have different keys and add up to the totals, and the flows of a
  row are those with its key.
\<close>

theorem aggregates_split:
  "splits l (by_destination l None limit) \<and> splits l (by_hour l limit) \<and> splits l (by_proto l limit)
   \<and> list_all (\<lambda>r. list_all (\<lambda>f. destination_key f = a_key r) (flows_for l r)) (by_destination l most limit)
   \<and> list_all (\<lambda>r. list_all (\<lambda>f. f_proto f = a_key r) (flows_for l r)) (by_proto l limit)"
proof -
  have "splits l (busiest (rows_by key limit (entries l)))" for key
    by (rule splits_perm [OF _ rows_by_splits [of l key limit]]) (simp add: busiest_def)
  moreover have "splits l (by_hour l limit)"
    unfolding by_hour_def by (rule splits_perm [OF _ rows_by_splits]) simp
  moreover have "set (by_destination l most limit) \<subseteq> set (rows_by destination_key limit (entries l))"
    by (auto simp: by_destination_def busiest_def Let_def split: option.splits if_splits dest: in_set_takeD)
  moreover have "set (by_proto l limit) = set (rows_by f_proto limit (entries l))" by (simp add: by_proto_def busiest_def)
  ultimately show ?thesis
    using rows_by_key [of _ destination_key limit l] rows_by_key [of _ f_proto limit l]
    by (auto simp: by_destination_def by_proto_def Let_def list_all_iff)
qed

end
