(* ===== verification/Corr_Standby.thy ===== *)
theory Corr_Standby
  imports Log_Parser "HOL-Library.Multiset"
begin

text \<open>
  The correlators of sleep and forced re-authentication (\<open>correlators/power_change.py\<close>,
  \<open>correlators/force_reauth.py\<close>): Modern Standby entries and exits are paired into cycles,
  and each forced re-authentication is matched to the nearest exit of a cycle.  Times are
  microseconds, as in the log parser.
\<close>

section \<open>Modern Standby cycles\<close>

abbreviation spaces :: rx where
  "spaces \<equiv> RStar (RSet [CSpace])"

definition entry_rx :: rx where
  "entry_rx = RSeqs [RStr ''Power Change Event:'', spaces, RStr ''Detected Modern Standby entry'']"

definition exit_rx :: rx where
  "exit_rx = RSeqs [RStr ''Power Change Event:'', spaces, RStr ''Detected Modern Standby exit'']"

text \<open>\<open>regex.search(text)\<close> as a truth value, under \<open>re.IGNORECASE\<close>.\<close>

definition found :: "rx \<Rightarrow> string \<Rightarrow> bool" where
  "found r s = (rx_search True r s \<noteq> None)"

record cycle =
  entry_ts :: "int option"
  exit_ts :: "int option"
  entry_record :: "log_line option"
  exit_record :: "log_line option"

definition standby_us :: "cycle \<Rightarrow> int option" where
  "standby_us c = (case (entry_ts c, exit_ts c) of (Some a, Some b) \<Rightarrow> Some (b - a) | _ \<Rightarrow> None)"

definition is_complete :: "cycle \<Rightarrow> bool" where
  "is_complete c = (entry_ts c \<noteq> None \<and> exit_ts c \<noteq> None)"

definition is_entry :: "log_line \<Rightarrow> bool" where
  "is_entry r = found entry_rx (message r)"

definition is_exit :: "log_line \<Rightarrow> bool" where
  "is_exit r = (\<not> found entry_rx (message r) \<and> found exit_rx (message r))"

definition exit_only :: "log_line \<Rightarrow> cycle" where
  "exit_only x = \<lparr>entry_ts = None, exit_ts = Some (timestamp x), entry_record = None, exit_record = Some x\<rparr>"

definition entry_only :: "log_line \<Rightarrow> cycle" where
  "entry_only e = \<lparr>entry_ts = Some (timestamp e), exit_ts = None, entry_record = Some e, exit_record = None\<rparr>"

definition both_ends :: "log_line \<Rightarrow> log_line \<Rightarrow> cycle" where
  "both_ends e x = \<lparr>entry_ts = Some (timestamp e), exit_ts = Some (timestamp x),
     entry_record = Some e, exit_record = Some x\<rparr>"

fun pair_cycles :: "log_line list \<Rightarrow> log_line list \<Rightarrow> cycle list" where
  "pair_cycles [] [] = []"
| "pair_cycles [] (x # xs) = exit_only x # pair_cycles [] xs"
| "pair_cycles (e # es) [] = entry_only e # pair_cycles es []"
| "pair_cycles (e # es) (x # xs) =
     (if timestamp x < timestamp e then exit_only x # pair_cycles (e # es) xs
      else both_ends e x # pair_cycles es xs)"

definition by_time :: "log_line list \<Rightarrow> log_line list" where
  "by_time rs = sort_key timestamp rs"

definition find_modern_standby_cycles :: "log_line list \<Rightarrow> cycle list" where
  "find_modern_standby_cycles rs = pair_cycles (by_time (filter is_entry rs)) (by_time (filter is_exit rs))"

text \<open>What every cycle satisfies, and the time it is filed under.\<close>

definition cycle_ok :: "cycle \<Rightarrow> bool" where
  "cycle_ok c = (entry_ts c = map_option timestamp (entry_record c) \<and> exit_ts c = map_option timestamp (exit_record c)
     \<and> (entry_record c \<noteq> None \<or> exit_record c \<noteq> None)
     \<and> (case standby_us c of None \<Rightarrow> True | Some d \<Rightarrow> 0 \<le> d))"

definition cycle_time :: "cycle \<Rightarrow> int" where
  "cycle_time c = (case entry_ts c of Some t \<Rightarrow> t | None \<Rightarrow> the (exit_ts c))"

named_theorems cycle_simps

lemma cycle_parts [cycle_simps]:
  "entry_record (exit_only x) = None" "exit_record (exit_only x) = Some x"
  "entry_record (entry_only x) = Some x" "exit_record (entry_only x) = None"
  "entry_record (both_ends e x) = Some e" "exit_record (both_ends e x) = Some x"
  "cycle_time (exit_only x) = timestamp x" "cycle_time (entry_only e) = timestamp e"
  "cycle_time (both_ends e x) = timestamp e"
  "cycle_ok (exit_only x)" "cycle_ok (entry_only e)" "cycle_ok (both_ends e x) \<longleftrightarrow> timestamp e \<le> timestamp x"
  by (simp_all add: exit_only_def entry_only_def both_ends_def cycle_time_def cycle_ok_def standby_us_def)

lemma pair_records:
  "List.map_filter entry_record (pair_cycles es xs) = es" "List.map_filter exit_record (pair_cycles es xs) = xs"
  by (induction es xs rule: pair_cycles.induct) (auto simp: cycle_simps List.map_filter_simps)

lemma pair_ok: "list_all cycle_ok (pair_cycles es xs)"
  by (induction es xs rule: pair_cycles.induct) (auto simp: cycle_simps)

lemma pair_times: "c \<in> set (pair_cycles es xs) \<Longrightarrow> cycle_time c \<in> timestamp ` set es \<union> timestamp ` set xs"
  by (induction es xs arbitrary: c rule: pair_cycles.induct) (auto simp: cycle_simps split: if_splits)

text \<open>Cycles come out in order, and all from a bound on.\<close>

lemma pair_from:
  assumes "c \<in> set (pair_cycles es xs)" "\<forall>e \<in> set es. t \<le> timestamp e" "\<forall>x \<in> set xs. t \<le> timestamp x"
  shows "t \<le> cycle_time c"
  using pair_times [OF assms(1)] assms(2,3) by auto

lemma pair_sorted:
  "sorted (map timestamp es) \<Longrightarrow> sorted (map timestamp xs) \<Longrightarrow> sorted (map cycle_time (pair_cycles es xs))"
proof (induction es xs rule: pair_cycles.induct)
  case (4 e es x xs)
  show ?case
  proof (cases "timestamp x < timestamp e")
    case True
    with 4 show ?thesis by (fastforce simp: cycle_simps intro!: pair_from [of _ "e # es" xs])
  next
    case False
    with 4 show ?thesis by (auto simp: cycle_simps intro!: pair_from [of _ es xs])
  qed
qed (auto simp: cycle_simps intro!: pair_from)

lemma by_time_sorted [simp]: "sorted (map timestamp (by_time rs))"
  by (simp add: by_time_def)

text \<open>
  The standby cycles account for every entry line and every exit line exactly once, in
  the order of their times; each cycle carries the times of its lines, none ends before it
  begins, and the list is sorted by entry time, or by exit time where the entry is missing.
\<close>

theorem standby_cycles:
  "List.map_filter entry_record (find_modern_standby_cycles rs) = by_time (filter is_entry rs)
   \<and> List.map_filter exit_record (find_modern_standby_cycles rs) = by_time (filter is_exit rs)
   \<and> list_all cycle_ok (find_modern_standby_cycles rs)
   \<and> sorted (map cycle_time (find_modern_standby_cycles rs))"
  unfolding find_modern_standby_cycles_def
  by (intro conjI pair_records pair_ok pair_sorted by_time_sorted)

section \<open>Forced re-authentication\<close>

definition force_rx :: rx where
  "force_rx = RStr ''zcc_zpa_force_reauth_sleep_trigger''"

definition match_tolerance :: int where
  "match_tolerance = 50000"

record reauth_event =
  ev_ts :: int
  ev_record :: log_line
  matched_cycle :: "cycle option"

definition is_sleep_correlated :: "reauth_event \<Rightarrow> bool" where
  "is_sleep_correlated e = (matched_cycle e \<noteq> None)"

definition count_sleep_correlated :: "reauth_event list \<Rightarrow> nat" where
  "count_sleep_correlated es = length (filter is_sleep_correlated es)"

definition count_unmatched :: "reauth_event list \<Rightarrow> nat" where
  "count_unmatched es = length (filter (\<lambda>e. \<not> is_sleep_correlated e) es)"

definition all_sleep_correlated :: "reauth_event list \<Rightarrow> bool" where
  "all_sleep_correlated es = (0 < length es \<and> count_unmatched es = 0)"

text \<open>The loop with the set \<open>seen\<close>: the first record of each key is kept.\<close>

fun keep_first :: "('a \<Rightarrow> 'k) \<Rightarrow> 'k list \<Rightarrow> 'a list \<Rightarrow> 'a list" where
  "keep_first key seen [] = []"
| "keep_first key seen (r # rs) =
     (if key r \<in> set seen then keep_first key seen rs else r # keep_first key (key r # seen) rs)"

text \<open>The scan for the nearest exit, which stops once the exits are too late.\<close>

fun nearest_scan :: "int \<Rightarrow> int \<Rightarrow> 'c option \<Rightarrow> int \<Rightarrow> (int \<times> 'c) list \<Rightarrow> 'c option \<times> int" where
  "nearest_scan ts tol best best_delta [] = (best, best_delta)"
| "nearest_scan ts tol best best_delta ((x, c) # exits) =
     (let d = \<bar>ts - x\<bar>;
          (b, bd) = (if d < best_delta then (Some c, d) else (best, best_delta)) in
      if ts < x \<and> tol < x - ts then (b, bd) else nearest_scan ts tol b bd exits)"

definition nearest_match :: "int \<Rightarrow> int \<Rightarrow> (int \<times> 'c) list \<Rightarrow> 'c option" where
  "nearest_match ts tol exits =
     (if exits = [] then None
      else case nearest_scan ts tol None (tol + 1000000) exits of
          (Some c, d) \<Rightarrow> if d \<le> tol then Some c else None
        | (None, _) \<Rightarrow> None)"

definition exits_of :: "cycle list \<Rightarrow> (int \<times> cycle) list" where
  "exits_of cs = sort_key fst (List.map_filter (\<lambda>c. map_option (\<lambda>t. (t, c)) (exit_ts c)) cs)"

definition reauth_records :: "log_line list \<Rightarrow> log_line list" where
  "reauth_records rs = by_time (keep_first (\<lambda>r. (timestamp r, tid r)) [] (filter (\<lambda>r. found force_rx (message r)) rs))"

definition find_force_reauth_events :: "log_line list \<Rightarrow> cycle list \<Rightarrow> reauth_event list" where
  "find_force_reauth_events rs cs = map (\<lambda>r. \<lparr>ev_ts = timestamp r, ev_record = r,
     matched_cycle = nearest_match (timestamp r) match_tolerance (exits_of cs)\<rparr>) (reauth_records rs)"

text \<open>The reference: the first exit of the least distance, when that is within the tolerance.\<close>

definition nearest_spec :: "int \<Rightarrow> int \<Rightarrow> (int \<times> 'c) list \<Rightarrow> 'c option" where
  "nearest_spec ts tol exits =
     (if exits = [] then None
      else let e = arg_min_list (\<lambda>e. \<bar>ts - fst e\<bar>) exits in if \<bar>ts - fst e\<bar> \<le> tol then Some (snd e) else None)"

text \<open>The scan without the early exit.\<close>

fun full_scan :: "int \<Rightarrow> 'c option \<Rightarrow> int \<Rightarrow> (int \<times> 'c) list \<Rightarrow> 'c option \<times> int" where
  "full_scan ts best bd [] = (best, bd)"
| "full_scan ts best bd ((x, c) # exits) =
     (if \<bar>ts - x\<bar> < bd then full_scan ts (Some c) \<bar>ts - x\<bar> exits else full_scan ts best bd exits)"

lemma full_scan_far: "\<forall>e \<in> set exits. bd \<le> \<bar>ts - fst e\<bar> \<Longrightarrow> full_scan ts b bd exits = (b, bd)"
  by (induction exits) auto

lemma nearest_scan_full:
  "sorted (map fst exits) \<Longrightarrow> nearest_scan ts tol b bd exits = full_scan ts b bd exits"
proof (induction ts tol b bd exits rule: nearest_scan.induct)
  case (2 ts tol b bd x c exits)
  have late: "\<forall>e \<in> set exits. m \<le> \<bar>ts - fst e\<bar>" if "ts < x" "m \<le> x - ts" for m
    using that 2(2) by force
  show ?case
  proof (cases "ts < x \<and> tol < x - ts")
    case True
    then show ?thesis using full_scan_far [OF late] by (auto simp: Let_def)
  next
    case False
    then show ?thesis using 2 by (auto simp: Let_def split: if_splits)
  qed
qed simp

lemma full_scan_min:
  "exits \<noteq> [] \<Longrightarrow> full_scan ts b bd exits =
     (let e = arg_min_list (\<lambda>e. \<bar>ts - fst e\<bar>) exits in if \<bar>ts - fst e\<bar> < bd then (Some (snd e), \<bar>ts - fst e\<bar>) else (b, bd))"
proof (induction exits arbitrary: b bd)
  case (Cons e exits)
  obtain x c where e: "e = (x, c)" by (cases e)
  show ?case
  proof (cases exits)
    case Nil
    then show ?thesis by (simp add: e)
  next
    case (Cons f fs)
    then have ne: "exits \<noteq> []" by simp
    have IH: "full_scan ts b bd exits =
     (let e = arg_min_list (\<lambda>e. \<bar>ts - fst e\<bar>) exits in if \<bar>ts - fst e\<bar> < bd then (Some (snd e), \<bar>ts - fst e\<bar>) else (b, bd))" for b bd
      by (rule Cons.IH [OF ne])
    show ?thesis unfolding e Cons using IH [unfolded Cons] by (auto simp: Let_def)
  qed
qed simp

lemma nearest_match_spec:
  assumes "sorted (map fst exits)" "0 \<le> tol"
  shows "nearest_match ts tol exits = nearest_spec ts tol exits"
  using assms full_scan_min [of exits ts None "tol + 1000000"]
  by (auto simp: nearest_match_def nearest_spec_def nearest_scan_full Let_def)

lemma keep_first_keys:
  "distinct (map key (keep_first key seen rs)) \<and> set (map key (keep_first key seen rs)) = key ` set rs - set seen
    \<and> set (keep_first key seen rs) \<subseteq> set rs"
  by (induction key seen rs rule: keep_first.induct) auto

text \<open>
  Every forced re-authentication, taken once per time and thread and in the order of
  time, gets the first of the exits nearest to it when that is at most 50 ms away, although
  the scan stops early; the two counters of the summary add up to the number of events.
\<close>

theorem reauth_nearest:
  "find_force_reauth_events rs cs = map (\<lambda>r. \<lparr>ev_ts = timestamp r, ev_record = r,
       matched_cycle = nearest_spec (timestamp r) 50000 (exits_of cs)\<rparr>) (reauth_records rs)
   \<and> sorted (map timestamp (reauth_records rs))
   \<and> distinct (map (\<lambda>r. (timestamp r, tid r)) (reauth_records rs))
   \<and> (\<lambda>r. (timestamp r, tid r)) ` set (reauth_records rs)
       = (\<lambda>r. (timestamp r, tid r)) ` set (filter (\<lambda>r. found force_rx (message r)) rs)
   \<and> count_sleep_correlated (find_force_reauth_events rs cs) + count_unmatched (find_force_reauth_events rs cs)
       = length (reauth_records rs)"
proof -
  let ?key = "\<lambda>r. (timestamp r, tid r)" and ?fs = "filter (\<lambda>r. found force_rx (message r)) rs"
  have "sorted (map fst (exits_of cs))" by (simp add: exits_of_def)
  then have "find_force_reauth_events rs cs = map (\<lambda>r. \<lparr>ev_ts = timestamp r, ev_record = r,
       matched_cycle = nearest_spec (timestamp r) 50000 (exits_of cs)\<rparr>) (reauth_records rs)"
    by (simp add: find_force_reauth_events_def match_tolerance_def nearest_match_spec)
  moreover have m: "mset (reauth_records rs) = mset (keep_first ?key [] ?fs)"
    by (simp add: reauth_records_def by_time_def)
  then have "mset (map ?key (reauth_records rs)) = mset (map ?key (keep_first ?key [] ?fs))" by simp
  then have "distinct (map ?key (reauth_records rs)) \<longleftrightarrow> distinct (map ?key (keep_first ?key [] ?fs))"
      "set (map ?key (reauth_records rs)) = set (map ?key (keep_first ?key [] ?fs))"
    by (rule mset_eq_imp_distinct_iff, rule mset_eq_setD)
  then have "distinct (map ?key (reauth_records rs))" "?key ` set (reauth_records rs) = ?key ` set ?fs"
    using keep_first_keys [of ?key "[]" ?fs] by (simp_all only: set_map list.set Diff_empty simp_thms)
  moreover have "sorted (map timestamp (reauth_records rs))" by (simp add: reauth_records_def)
  moreover have "length (find_force_reauth_events rs cs) = length (reauth_records rs)"
    by (simp add: find_force_reauth_events_def)
  then have "count_sleep_correlated (find_force_reauth_events rs cs) + count_unmatched (find_force_reauth_events rs cs)
       = length (reauth_records rs)"
    using sum_length_filter_compl [of is_sleep_correlated "find_force_reauth_events rs cs"]
    unfolding count_sleep_correlated_def count_unmatched_def by simp
  ultimately show ?thesis by (intro conjI)
qed

text \<open>
  An entry whose exit is lost is paired with the exit of a later entry: pairing goes by the
  order of the two lists, not by adjacency.
\<close>

definition standby_line :: "int \<Rightarrow> string \<Rightarrow> log_line" where
  "standby_line t w = \<lparr>timestamp = t, level = ''INFO'', pid = 1, tid = 1,
     message = ''Power Change Event: Detected Modern Standby '' @ w, raw = [], line_no = 1\<rparr>"

theorem standby_not_adjacent:
  "map standby_us (find_modern_standby_cycles
     [standby_line 0 ''entry'', standby_line 100 ''entry'', standby_line 101 ''exit'']) = [Some 101, None]"
proof -
  have "map (\<lambda>r. (is_entry r, is_exit r)) [standby_line 0 ''entry'', standby_line 100 ''entry'', standby_line 101 ''exit'']
      = [(True, False), (True, False), (False, True)]" by code_simp
  then show ?thesis
    by (simp add: find_modern_standby_cycles_def by_time_def standby_line_def standby_us_def both_ends_def entry_only_def)
qed

end
