(* ===== verification/Corr_Auth.thy ===== *)
theory Corr_Auth
  imports Corr_Standby
begin

text \<open>
  The authentication state pairer (\<open>correlators/auth_state.py\<close>): losses and recoveries of
  the authenticated state, read from the log and sorted by time, are paired into events by
  a machine whose state is the loss that is pending.
\<close>

definition auth_rx :: rx where
  "auth_rx = RSeqs [RStr ''ZPA Auth state changed,'', RStar (RSet [CSpace]), RStr ''From:'', RStar (RSet [CSpace]),
     RGroup 1 (RPlus (RSet [CWord])), RStar (RSet [CSpace]), RStr ''To:'', RStar (RSet [CSpace]), RGroup 2 (RPlus (RSet [CWord]))]"

datatype auth_outcome = Recovered | Unresolved | Degenerate

record auth_event =
  lost_ts :: int
  recovered_ts :: "int option"
  ev_outcome :: auth_outcome
  lost_record :: "log_line option"
  recovered_record :: "log_line option"

definition recovery_us :: "auth_event \<Rightarrow> int option" where
  "recovery_us e = map_option (\<lambda>t. t - lost_ts e) (recovered_ts e)"

record transition =
  at_ts :: int
  frm :: string
  dest :: string
  line :: log_line

definition read_transition :: "log_line \<Rightarrow> transition option" where
  "read_transition r = (case rx_search True auth_rx (message r) of
       None \<Rightarrow> None
     | Some m \<Rightarrow> Some \<lparr>at_ts = timestamp r, frm = py_upper (grp 1 m), dest = py_upper (grp 2 m), line = r\<rparr>)"

definition transitions :: "log_line list \<Rightarrow> transition list" where
  "transitions rs = sort_key at_ts (List.map_filter read_transition rs)"

definition is_loss :: "transition \<Rightarrow> bool" where
  "is_loss t = (frm t = ''AUTHENTICATED'' \<and> dest t = ''AUTHENTICATION_REQUIRED'')"

definition is_recovery :: "transition \<Rightarrow> bool" where
  "is_recovery t = (frm t = ''AUTHENTICATION_REQUIRED'' \<and> dest t = ''AUTHENTICATED'')"

definition new_loss :: "transition \<Rightarrow> auth_event" where
  "new_loss t = \<lparr>lost_ts = at_ts t, recovered_ts = None, ev_outcome = Unresolved,
     lost_record = Some (line t), recovered_record = None\<rparr>"

definition orphan_recovery :: "transition \<Rightarrow> auth_event" where
  "orphan_recovery t = \<lparr>lost_ts = at_ts t, recovered_ts = Some (at_ts t), ev_outcome = Degenerate,
     lost_record = None, recovered_record = Some (line t)\<rparr>"

definition recover :: "transition \<Rightarrow> auth_event \<Rightarrow> auth_event" where
  "recover t e = e\<lparr>recovered_ts := Some (at_ts t), recovered_record := Some (line t), ev_outcome := Recovered\<rparr>"

text \<open>One transition: the events so far and the pending loss.\<close>

type_synonym auth_state = "auth_event list \<times> auth_event option"

definition auth_step :: "auth_state \<Rightarrow> transition \<Rightarrow> auth_state" where
  "auth_step st t = (case st of (events, pending_loss) \<Rightarrow>
     if is_loss t then
       (case pending_loss of None \<Rightarrow> events | Some p \<Rightarrow> events @ [p\<lparr>ev_outcome := Unresolved\<rparr>], Some (new_loss t))
     else if is_recovery t then
       (case pending_loss of None \<Rightarrow> (events @ [orphan_recovery t], None) | Some p \<Rightarrow> (events @ [recover t p], None))
     else st)"

definition finish_auth :: "auth_state \<Rightarrow> auth_event list" where
  "finish_auth st = (case st of (events, pending_loss) \<Rightarrow> case pending_loss of None \<Rightarrow> events | Some p \<Rightarrow> events @ [p])"

definition find_auth_state_events :: "log_line list \<Rightarrow> auth_event list" where
  "find_auth_state_events rs = finish_auth (foldl auth_step ([], None) (transitions rs))"

section \<open>The pairing is complete and its events do not overlap\<close>

definition ev_span :: "auth_event \<Rightarrow> int list" where
  "ev_span e = lost_ts e # (case recovered_ts e of None \<Rightarrow> [] | Some t \<Rightarrow> [t])"

text \<open>How the outcome of an event follows from the lines it holds.\<close>

definition event_ok :: "auth_event \<Rightarrow> bool" where
  "event_ok e = (case (lost_record e, recovered_record e) of
       (Some l, Some r) \<Rightarrow> ev_outcome e = Recovered \<and> lost_ts e = timestamp l \<and> recovered_ts e = Some (timestamp r)
     | (Some l, None) \<Rightarrow> ev_outcome e = Unresolved \<and> lost_ts e = timestamp l \<and> recovered_ts e = None
     | (None, Some r) \<Rightarrow> ev_outcome e = Degenerate \<and> lost_ts e = timestamp r \<and> recovered_ts e = Some (timestamp r)
     | (None, None) \<Rightarrow> False)"

definition read_ok :: "transition \<Rightarrow> bool" where
  "read_ok t = (at_ts t = timestamp (line t))"

definition pending_ok :: "auth_event option \<Rightarrow> bool" where
  "pending_ok p = (case p of None \<Rightarrow> True | Some e \<Rightarrow> event_ok e \<and> recovered_record e = None)"

text \<open>The state after a prefix of the transitions.\<close>

definition auth_inv :: "transition list \<Rightarrow> auth_state \<Rightarrow> bool" where
  "auth_inv ts st = (list_all event_ok (finish_auth st) \<and> pending_ok (snd st)
     \<and> List.map_filter lost_record (finish_auth st) = map line (filter is_loss ts)
     \<and> List.map_filter recovered_record (finish_auth st) = map line (filter is_recovery ts)
     \<and> sorted (concat (map ev_span (finish_auth st)))
     \<and> set (concat (map ev_span (finish_auth st))) \<subseteq> set (map at_ts ts))"

lemma loss_not_recovery: "is_loss t \<Longrightarrow> \<not> is_recovery t"
  by (simp add: is_loss_def is_recovery_def)

lemma map_filter_append: "List.map_filter f (xs @ ys) = List.map_filter f xs @ List.map_filter f ys"
  by (simp add: List.map_filter_def)

lemma pending_unresolved: "pending_ok (Some e) \<Longrightarrow> e\<lparr>ev_outcome := Unresolved\<rparr> = e"
  by (cases e) (auto simp: pending_ok_def event_ok_def split: option.splits)

lemmas auth_defs = finish_auth_def new_loss_def orphan_recovery_def recover_def event_ok_def pending_ok_def
  ev_span_def read_ok_def map_filter_append List.map_filter_simps

lemma auth_inv_step:
  assumes inv: "auth_inv ts (events, p)" and t: "read_ok t" "\<forall>u \<in> set ts. at_ts u \<le> at_ts t"
  shows "auth_inv (ts @ [t]) (auth_step (events, p) t)"
proof -
  have late: "u \<le> at_ts t" if "u \<in> set (concat (map ev_span (finish_auth (events, p))))" for u
    using that inv t(2) unfolding auth_inv_def by fastforce
  consider "is_loss t" "\<not> is_recovery t" | "\<not> is_loss t" "is_recovery t" | "\<not> is_loss t" "\<not> is_recovery t"
    using loss_not_recovery by blast
  then show ?thesis
  proof cases
    case 1
    have "pending_ok p" using inv by (simp add: auth_inv_def)
    then have "finish_auth (auth_step (events, p) t) = finish_auth (events, p) @ [new_loss t]"
      using 1 by (cases p) (simp_all add: auth_step_def finish_auth_def pending_unresolved)
    moreover have "snd (auth_step (events, p) t) = Some (new_loss t)" using 1 by (simp add: auth_step_def)
    ultimately show ?thesis using inv late t(1) 1 unfolding auth_inv_def
      by (auto simp: new_loss_def event_ok_def pending_ok_def ev_span_def read_ok_def map_filter_append
          List.map_filter_simps sorted_append)
  next
    case 2
    show ?thesis
    proof (cases p)
      case None
      then have "auth_step (events, p) t = (events @ [orphan_recovery t], None)" using 2 by (simp add: auth_step_def)
      then show ?thesis using inv late t(1) 2 None unfolding auth_inv_def
        by (auto simp: auth_defs sorted_append)
    next
      case (Some e)
      then have "auth_step (events, p) t = (events @ [recover t e], None)" using 2 by (simp add: auth_step_def)
      then show ?thesis using inv late t(1) 2 Some unfolding auth_inv_def
        by (auto simp: auth_defs sorted_append split: option.splits)
    qed
  next
    case 3
    then show ?thesis using inv unfolding auth_inv_def auth_step_def by auto
  qed
qed

lemma auth_inv_run:
  "sorted (map at_ts ts) \<Longrightarrow> list_all read_ok ts \<Longrightarrow> auth_inv ts (foldl auth_step ([], None) ts)"
proof (induction ts rule: rev_induct)
  case Nil
  then show ?case by (simp add: auth_inv_def auth_defs List.map_filter_simps)
next
  case (snoc t ts)
  obtain events p where st: "foldl auth_step ([], None) ts = (events, p)" by (metis prod.exhaust)
  with snoc have "auth_inv ts (events, p)" by (simp add: sorted_append)
  then have "auth_inv (ts @ [t]) (auth_step (events, p) t)"
    using snoc.prems by (intro auth_inv_step) (auto simp: sorted_append)
  then show ?case by (simp add: st)
qed

lemma transitions_read: "sorted (map at_ts (transitions rs))" "list_all read_ok (transitions rs)"
  by (auto simp: transitions_def List.map_filter_def list_all_iff read_transition_def read_ok_def split: option.splits)


text \<open>
  A second loss in a row makes the first one unresolved, and a change from a state to itself
  is not an event; neither is marked degenerate.
\<close>

definition auth_line :: "int \<Rightarrow> string \<Rightarrow> string \<Rightarrow> log_line" where
  "auth_line t a b = \<lparr>timestamp = t, level = ''INFO'', pid = 1, tid = 1,
     message = ''ZPA Auth state changed, From: '' @ a @ '' To: '' @ b, raw = [], line_no = 1\<rparr>"

theorem repeated_loss_unresolved:
  "map ev_outcome (find_auth_state_events
     [auth_line 1 ''AUTHENTICATED'' ''AUTHENTICATED'',
      auth_line 2 ''AUTHENTICATED'' ''AUTHENTICATION_REQUIRED'',
      auth_line 3 ''AUTHENTICATED'' ''AUTHENTICATION_REQUIRED'']) = [Unresolved, Unresolved]"
  by code_simp

end
