(* ===== verification/Corr_Mtunnel.thy ===== *)
theory Corr_Mtunnel
  imports Corr_Standby
begin

text \<open>
  The classifier of microtunnel closes (\<open>correlators/mtunnel.py\<close>).  One pass over the log
  keeps, per tag, when the tunnel was opened, when it last carried data and the name of its
  application; a close line is filed once per tag and second, and clears the times of its
  tag, since tags are used again.
\<close>

section \<open>The pass over the records\<close>

definition quote_space :: "cset list" where
  "quote_space = [CLit (CHR 0x22), CSpace, CLit (CHR '':'')]"

definition mt_tag_rx :: rx where
  "mt_tag_rx = RSeqs [RStr ''tag_id'', RStar (RSet quote_space), RGroup 1 (RPlus (RSet [CRange (CHR ''0'') (CHR ''9'')]))]"

definition mt_app_rx :: rx where
  "mt_app_rx = RSeqs [RStr ''App'', RStar (RSet [CSpace]), RStr ''Name'', RPlus (RSet (CLit (CHR ''='') # quote_space)),
     RGroup 1 (RPlus (RNot [CLit (CHR 0x22), CSpace, CLit (CHR '','')]))]"

definition end_rx :: rx where
  "end_rx = RStr ''zpn_mtunnel_end''"

definition request_rx :: rx where
  "request_rx = RStr ''zpn_mtunnel_request''"

definition data_rx :: rx where
  "data_rx = RAlts [RStr ''bytes'', RSeqs [RStr ''data'', RPlus (RSet [CSpace]), RStr ''event''], RStr ''onSocketReadable'',
     RStr ''RxBytes'', RStr ''TxBytes'', RStr ''zpn_data'']"

text \<open>The first group of a case-sensitive search.\<close>

definition search_group1 :: "rx \<Rightarrow> string \<Rightarrow> string option" where
  "search_group1 r s = (case rx_search False r s of None \<Rightarrow> None | Some m \<Rightarrow> rx_group 1 m)"

datatype close_reason = CLOSED_FROM_ASSISTANT | RESET_FROM_SERVER | SETUP_FAIL_SAML_EXPIRED | OTHER

definition classify_reason :: "string \<Rightarrow> close_reason" where
  "classify_reason text = (let t = py_upper text in
     if occurs ''CLOSED_FROM_ASSISTANT'' t then CLOSED_FROM_ASSISTANT
     else if occurs ''RESET_FROM_SERVER'' t then RESET_FROM_SERVER
     else if occurs ''SETUP_FAIL_SAML_EXPIRED'' t then SETUP_FAIL_SAML_EXPIRED
     else OTHER)"

record mclose =
  tag_id :: nat
  close_ts :: int
  reason :: close_reason
  app_name :: "string option"
  open_ts :: "int option"
  last_byte_ts :: "int option"
  mc_record :: log_line

definition lifetime_us :: "mclose \<Rightarrow> int option" where
  "lifetime_us c = map_option (\<lambda>t. close_ts c - t) (open_ts c)"

definition idle_us :: "mclose \<Rightarrow> int option" where
  "idle_us c = map_option (\<lambda>t. close_ts c - t) (last_byte_ts c)"

definition active_window :: int where
  "active_window = 30 * 1000000"

definition was_active_at_close :: "mclose \<Rightarrow> bool" where
  "was_active_at_close c = (case idle_us c of None \<Rightarrow> False | Some i \<Rightarrow> i \<le> active_window)"

record mt_state =
  opens :: "(nat, int) dict"
  last_bytes :: "(nat, int) dict"
  app_names :: "(nat, string) dict"
  closes_seen :: "(nat \<times> int, mclose) dict"

definition tag_of :: "log_line \<Rightarrow> nat option" where
  "tag_of r = map_option nat_of_digits (search_group1 mt_tag_rx (message r))"

text \<open>\<open>(tag_id, r.timestamp.replace(microsecond=0))\<close>\<close>

definition mt_close_key :: "nat \<Rightarrow> log_line \<Rightarrow> nat \<times> int" where
  "mt_close_key t r = (t, timestamp r div 1000000)"

definition note_app :: "nat \<Rightarrow> log_line \<Rightarrow> mt_state \<Rightarrow> mt_state" where
  "note_app t r s = (case search_group1 mt_app_rx (message r) of
       None \<Rightarrow> s | Some a \<Rightarrow> s\<lparr>app_names := dict_set t a (app_names s)\<rparr>)"

definition note_data :: "nat \<Rightarrow> log_line \<Rightarrow> mt_state \<Rightarrow> mt_state" where
  "note_data t r s = (if found data_rx (message r) then s\<lparr>last_bytes := dict_set t (timestamp r) (last_bytes s)\<rparr> else s)"

definition note_open :: "nat \<Rightarrow> log_line \<Rightarrow> mt_state \<Rightarrow> mt_state" where
  "note_open t r s = (if found request_rx (message r) then s\<lparr>opens := dict_set t (timestamp r) (opens s)\<rparr> else s)"

definition mt_close_of :: "nat \<Rightarrow> log_line \<Rightarrow> mt_state \<Rightarrow> mclose" where
  "mt_close_of t r s = \<lparr>tag_id = t, close_ts = timestamp r, reason = classify_reason (message r),
     app_name = dict_get (app_names s) t, open_ts = dict_get (opens s) t, last_byte_ts = dict_get (last_bytes s) t,
     mc_record = r\<rparr>"

text \<open>\<open>d.pop(k, None)\<close>\<close>

definition dict_pop :: "'k \<Rightarrow> ('k, 'v) dict \<Rightarrow> ('k, 'v) dict" where
  "dict_pop k d = filter (\<lambda>kv. fst kv \<noteq> k) d"

definition note_close :: "nat \<Rightarrow> log_line \<Rightarrow> mt_state \<Rightarrow> mt_state" where
  "note_close t r s =
     (if \<not> found end_rx (message r) \<or> mt_close_key t r \<in> set (dict_keys (closes_seen s)) then s
      else s\<lparr>closes_seen := dict_set (mt_close_key t r) (mt_close_of t r s) (closes_seen s),
             opens := dict_pop t (opens s), last_bytes := dict_pop t (last_bytes s)\<rparr>)"

definition mt_step :: "log_line \<Rightarrow> mt_state \<Rightarrow> mt_state" where
  "mt_step r s = (case tag_of r of
       None \<Rightarrow> s
     | Some t \<Rightarrow> note_close t r (note_open t r (note_data t r (note_app t r s))))"

definition mt_init :: mt_state where
  "mt_init = \<lparr>opens = [], last_bytes = [], app_names = [], closes_seen = []\<rparr>"

definition classify_mtunnel_closes :: "log_line list \<Rightarrow> mclose list" where
  "classify_mtunnel_closes rs = sort_key close_ts (map snd (closes_seen (fold mt_step rs mt_init)))"

section \<open>Each close is filed once\<close>

definition is_close_line :: "log_line \<Rightarrow> bool" where
  "is_close_line r = (tag_of r \<noteq> None \<and> found end_rx (message r))"

definition end_key :: "log_line \<Rightarrow> nat \<times> int" where
  "end_key r = mt_close_key (the (tag_of r)) r"

lemma closes_step:
  "closes_seen (mt_step r s) = (if is_close_line r \<and> end_key r \<notin> set (dict_keys (closes_seen s))
     then closes_seen s @ [(end_key r, mt_close_of (the (tag_of r)) r (note_open (the (tag_of r)) r (note_data (the (tag_of r)) r
       (note_app (the (tag_of r)) r s))))] else closes_seen s)"
proof -
  have new: "dict_set k v d = d @ [(k, v)]" if "k \<notin> set (dict_keys d)" for k v and d :: "(nat \<times> int, mclose) dict"
    using that by (induction d) (auto simp: dict_set_def)
  show ?thesis
    by (cases "tag_of r") (auto simp: mt_step_def is_close_line_def end_key_def note_close_def note_open_def note_data_def note_app_def
      new split: option.splits)
qed

lemma keep_first_cong: "set seen = set seen' \<Longrightarrow> keep_first key seen rs = keep_first key seen' rs"
  by (induction key seen rs arbitrary: seen' rule: keep_first.induct) auto

lemma closes_records:
  "map (\<lambda>(k, c). (k, mc_record c, close_ts c, tag_id c)) (closes_seen (fold mt_step rs s))
   = map (\<lambda>(k, c). (k, mc_record c, close_ts c, tag_id c)) (closes_seen s)
     @ map (\<lambda>r. (end_key r, r, timestamp r, the (tag_of r)))
        (keep_first end_key (dict_keys (closes_seen s)) (filter is_close_line rs))"
proof (induction rs arbitrary: s)
  case (Cons r rs)
  show ?case
  proof (cases "is_close_line r \<and> end_key r \<notin> set (dict_keys (closes_seen s))")
    case True
    let ?seen = "dict_keys (closes_seen s)"
    have "keep_first end_key (?seen @ [end_key r]) (filter is_close_line rs) = keep_first end_key (end_key r # ?seen) (filter is_close_line rs)"
      by (rule keep_first_cong) auto
    with True show ?thesis by (simp add: Cons.IH closes_step mt_close_of_def)
  next
    case False
    then show ?thesis by (auto simp: Cons.IH closes_step)
  qed
qed simp

lemma map_sort_key: "map g (sort_key (\<lambda>x. h (g x)) xs) = sort_key h (map g xs)"
proof -
  have "map g (insort_key (\<lambda>x. h (g x)) x ys) = insort_key h (g x) (map g ys)" for x ys
    by (induction ys) auto
  then show ?thesis by (induction xs) simp_all
qed

text \<open>
  The closes reported are the end lines of the log, the first of each tag and second, in
  the order of time, each under the tag and the time of its line.
\<close>

theorem closes_once:
  "map mc_record (classify_mtunnel_closes rs) = by_time (keep_first end_key [] (filter is_close_line rs))
   \<and> map tag_id (classify_mtunnel_closes rs) = map (\<lambda>r. the (tag_of r)) (map mc_record (classify_mtunnel_closes rs))
   \<and> map close_ts (classify_mtunnel_closes rs) = map timestamp (map mc_record (classify_mtunnel_closes rs))"
proof -
  let ?cs = "map snd (closes_seen (fold mt_step rs mt_init))" and ?ks = "keep_first end_key [] (filter is_close_line rs)"
  let ?row = "\<lambda>c. (mc_record c, close_ts c, tag_id c)" and ?of = "\<lambda>r. (r, timestamp r, the (tag_of r))"
  have "map (\<lambda>(k, c). ?row c) (closes_seen (fold mt_step rs mt_init)) = map ?of ?ks"
    using arg_cong [OF closes_records [of rs mt_init], of "map snd"] by (simp add: mt_init_def comp_def case_prod_unfold)
  then have rows: "map ?row ?cs = map ?of ?ks" by (simp add: comp_def case_prod_unfold)
  have "map ?row (classify_mtunnel_closes rs) = sort_key (fst \<circ> snd) (map ?row ?cs)"
    unfolding classify_mtunnel_closes_def using map_sort_key [of ?row "fst \<circ> snd" ?cs] by simp
  also have "\<dots> = map ?of (by_time ?ks)"
    unfolding rows by_time_def using map_sort_key [of ?of "fst \<circ> snd" ?ks] by simp
  finally have *: "map ?row (classify_mtunnel_closes rs) = map ?of (by_time ?ks)" .
  have "map mc_record (classify_mtunnel_closes rs) = by_time ?ks"
    using arg_cong [OF *, of "map fst"] by (simp add: comp_def)
  moreover have "map tag_id (classify_mtunnel_closes rs) = map (\<lambda>r. the (tag_of r)) (by_time ?ks)"
    using arg_cong [OF *, of "map (snd \<circ> snd)"] by (simp add: comp_def)
  moreover have "map close_ts (classify_mtunnel_closes rs) = map timestamp (by_time ?ks)"
    using arg_cong [OF *, of "map (fst \<circ> snd)"] by (simp add: comp_def)
  ultimately show ?thesis by simp
qed

section \<open>The sessions of a tag\<close>

text \<open>A session neither opens nor carries data after its close, nor before an earlier close of its tag.\<close>

definition upto :: "int \<Rightarrow> int option \<Rightarrow> bool" where
  "upto b v = (case v of None \<Rightarrow> True | Some t \<Rightarrow> t \<le> b)"

definition since :: "int \<Rightarrow> int option \<Rightarrow> bool" where
  "since b v = (case v of None \<Rightarrow> True | Some t \<Rightarrow> b \<le> t)"

lemma upto_since_simps [simp]: "upto b None" "since b None" "upto b (Some t) = (t \<le> b)" "since b (Some t) = (b \<le> t)"
  by (simp_all add: upto_def since_def)

definition session_ok :: "mclose \<Rightarrow> bool" where
  "session_ok c = (upto (close_ts c) (open_ts c) \<and> upto (close_ts c) (last_byte_ts c))"

definition follows :: "mclose \<Rightarrow> mclose \<Rightarrow> bool" where
  "follows c d = (tag_id c = tag_id d \<longrightarrow> since (close_ts c) (open_ts d) \<and> since (close_ts c) (last_byte_ts d))"

definition mt_inv :: "int \<Rightarrow> mt_state \<Rightarrow> bool" where
  "mt_inv now s = ((\<forall>t. upto now (dict_get (opens s) t) \<and> upto now (dict_get (last_bytes s) t))
     \<and> (\<forall>c \<in> set (map snd (closes_seen s)). session_ok c \<and> close_ts c \<le> now
         \<and> since (close_ts c) (dict_get (opens s) (tag_id c)) \<and> since (close_ts c) (dict_get (last_bytes s) (tag_id c)))
     \<and> sorted (map (close_ts \<circ> snd) (closes_seen s)) \<and> sorted_wrt follows (map snd (closes_seen s)))"

lemma dict_get_pop: "dict_get (dict_pop k d) j = (if j = k then None else dict_get d j)"
  by (induction d) (auto simp: dict_pop_def)

lemma mt_inv_later: "mt_inv now s \<Longrightarrow> now \<le> t \<Longrightarrow> mt_inv t s"
  unfolding mt_inv_def by (fastforce simp: upto_def split: option.splits)

lemma mt_inv_app: "mt_inv now s \<Longrightarrow> mt_inv now (note_app t r s)"
  by (simp add: note_app_def mt_inv_def split: option.split)

lemma mt_inv_data: "mt_inv (timestamp r) s \<Longrightarrow> mt_inv (timestamp r) (note_data t r s)"
  by (auto simp: note_data_def mt_inv_def dict_get_set)

lemma mt_inv_open: "mt_inv (timestamp r) s \<Longrightarrow> mt_inv (timestamp r) (note_open t r s)"
  by (auto simp: note_open_def mt_inv_def dict_get_set)

lemma mt_inv_close:
  assumes "mt_inv (timestamp r) s"
  shows "mt_inv (timestamp r) (note_close t r s)"
proof (cases "found end_rx (message r) \<and> mt_close_key t r \<notin> set (dict_keys (closes_seen s))")
  case True
  have new: "dict_set k v d = d @ [(k, v)]" if "k \<notin> set (dict_keys d)" for k v and d :: "(nat \<times> int, mclose) dict"
    using that by (induction d) (auto simp: dict_set_def)
  have "note_close t r s = s\<lparr>closes_seen := closes_seen s @ [(mt_close_key t r, mt_close_of t r s)],
      opens := dict_pop t (opens s), last_bytes := dict_pop t (last_bytes s)\<rparr>"
    using True by (simp add: note_close_def new)
  with assms show ?thesis
    by (auto simp: mt_inv_def dict_get_pop mt_close_of_def session_ok_def follows_def sorted_append sorted_wrt_append)
next
  case False
  with assms show ?thesis by (auto simp: note_close_def)
qed

lemma mt_inv_step: "mt_inv now s \<Longrightarrow> now \<le> timestamp r \<Longrightarrow> mt_inv (timestamp r) (mt_step r s)"
  by (auto simp: mt_step_def split: option.split intro!: mt_inv_close mt_inv_open mt_inv_data mt_inv_app intro: mt_inv_later)

lemma mt_inv_fold:
  "sorted (map timestamp rs) \<Longrightarrow> mt_inv now s \<Longrightarrow> \<forall>r \<in> set rs. now \<le> timestamp r \<Longrightarrow> \<exists>t. mt_inv t (fold mt_step rs s)"
proof (induction rs arbitrary: now s)
  case (Cons r rs)
  then have "mt_inv (timestamp r) (mt_step r s)" by (intro mt_inv_step) auto
  with Cons.IH Cons.prems(1) show ?case by simp
qed auto

text \<open>
  C14: In a log in order of time, no session of a microtunnel is opened or carries data after
  its close, and the times of a session lie at or after every earlier close of its tag.
\<close>

theorem sessions_separate:
  assumes "sorted (map timestamp rs)"
  shows "list_all session_ok (classify_mtunnel_closes rs) \<and> sorted_wrt follows (classify_mtunnel_closes rs)"
proof -
  have "mt_inv (case rs of [] \<Rightarrow> 0 | r # _ \<Rightarrow> timestamp r) mt_init" by (simp add: mt_inv_def mt_init_def upto_def)
  with mt_inv_fold [OF assms this] assms obtain t where inv: "mt_inv t (fold mt_step rs mt_init)"
    by (cases rs) auto
  then have "sorted (map close_ts (map snd (closes_seen (fold mt_step rs mt_init))))" by (simp add: mt_inv_def)
  then have "classify_mtunnel_closes rs = map snd (closes_seen (fold mt_step rs mt_init))"
    unfolding classify_mtunnel_closes_def by (rule sort_key_id_if_sorted)
  with inv show ?thesis by (auto simp: mt_inv_def list_all_iff)
qed

definition mt_line :: "int \<Rightarrow> string \<Rightarrow> log_line" where
  "mt_line t m = \<lparr>timestamp = t, level = ''INFO'', pid = 1, tid = 1, message = m, raw = [], line_no = 1\<rparr>"

definition end_text :: string where
  "end_text = ''zpn_mtunnel_end tag_id: 7''"

definition request_text :: string where
  "request_text = ''zpn_mtunnel_request tag_id: 7''"

lemma mt_texts:
  "tag_of (mt_line t end_text) = Some 7" "tag_of (mt_line t request_text) = Some 7"
  "found end_rx end_text" "\<not> found end_rx request_text" "\<not> found request_rx end_text" "found request_rx request_text"
  "\<not> found data_rx end_text" "\<not> found data_rx request_text"
  "search_group1 mt_app_rx end_text = None" "search_group1 mt_app_rx request_text = None"
  by code_simp+

lemma mt_line_fields [simp]: "timestamp (mt_line t m) = t" "message (mt_line t m) = m"
  by (simp_all add: mt_line_def)

theorem sessions_separate_witness:
  "list_all session_ok (classify_mtunnel_closes
     [mt_line 1 request_text, mt_line 2000000 end_text, mt_line 3000000 request_text, mt_line 5000000 end_text])
   \<and> map (\<lambda>c. (open_ts c, close_ts c)) (classify_mtunnel_closes
     [mt_line 1 request_text, mt_line 2000000 end_text, mt_line 3000000 request_text, mt_line 5000000 end_text])
   = [(Some 1, 2000000), (Some 3000000, 5000000)]"
proof
  let ?rs = "[mt_line 1 request_text, mt_line 2000000 end_text, mt_line 3000000 request_text, mt_line 5000000 end_text]"
  show "map (\<lambda>c. (open_ts c, close_ts c)) (classify_mtunnel_closes ?rs) = [(Some 1, 2000000), (Some 3000000, 5000000)]"
    by (simp add: classify_mtunnel_closes_def mt_init_def mt_step_def mt_texts note_app_def note_data_def note_open_def
      note_close_def mt_close_key_def mt_close_of_def dict_set_def dict_pop_def)
  show "list_all session_ok (classify_mtunnel_closes ?rs)"
    using sessions_separate [of ?rs] by simp
qed

text \<open>
  A close line that reports byte counts is itself taken for data, so its tunnel counts as
  active at the close even when it had carried nothing.
\<close>

theorem closing_bytes_active:
  "map was_active_at_close (classify_mtunnel_closes [mt_line 5 ''zpn_mtunnel_end tag_id: 7 tx_bytes: 0'']) = [True]"
proof -
  let ?m = "''zpn_mtunnel_end tag_id: 7 tx_bytes: 0''"
  have "tag_of (mt_line 5 ?m) = Some 7" "found data_rx ?m" "found end_rx ?m" "\<not> found request_rx ?m"
      "search_group1 mt_app_rx ?m = None" by code_simp+
  then show ?thesis
    by (simp add: classify_mtunnel_closes_def mt_init_def mt_step_def note_app_def note_data_def note_open_def
      note_close_def mt_close_key_def mt_close_of_def dict_set_def dict_pop_def was_active_at_close_def idle_us_def active_window_def)
qed

end
