(* ===== verification/Corr_Polling.thy ===== *)
theory Corr_Polling
  imports Corr_Mtunnel Pcap_Reader
begin

text \<open>
  The learner of polling cadences (\<open>correlators/polling_cadence.py\<close>): microtunnel opens
  are gathered per application, opens close to each other count as one, and the gaps between
  them are counted in bins of a minute.  The code divides in floating point: a gap is a whole
  number of microseconds below an hour, so rounding its minutes to the nearest even integer
  agrees with the exact quotient, and a confidence of at most \<open>n\<close> gaps compares with
  0.70 and 0.35 as the fraction does.
\<close>

definition min_opens :: nat where
  "min_opens = 4"

definition cluster_window :: int where
  "cluster_window = 5 * 1000000"

definition session_boundary :: int where
  "session_boundary = 3600 * 1000000"

record cadence =
  pc_app :: string
  open_count :: nat
  interval_seconds :: "int option"
  hits :: nat
  gaps_total :: nat
  is_polled :: bool
  open_times :: "int list"

section \<open>The opens of each application\<close>

definition tag_dash_rx :: rx where
  "tag_dash_rx = RSeqs [RStr ''TAG'', RSet [CLit (CHR ''-''), CLit (CHR ''_'')], RStr ''ID'',
     RStar (RSet (CLit (CHR ''='') # quote_space)), RGroup 1 (RPlus (RSet [CRange (CHR ''0'') (CHR ''9'')]))]"

definition app_tag :: "string \<Rightarrow> nat option" where
  "app_tag msg = map_option nat_of_digits (case search_group1 mt_tag_rx msg of
       Some ds \<Rightarrow> Some ds
     | None \<Rightarrow> (case rx_search True tag_dash_rx msg of None \<Rightarrow> None | Some m \<Rightarrow> rx_group 1 m))"

definition note_tag :: "log_line \<Rightarrow> (nat, string) dict \<Rightarrow> (nat, string) dict" where
  "note_tag r d = (case search_group1 mt_app_rx (message r) of
       None \<Rightarrow> d
     | Some a \<Rightarrow> (case app_tag (message r) of None \<Rightarrow> d | Some t \<Rightarrow> dict_set t a d))"

definition tag_to_app :: "log_line list \<Rightarrow> (nat, string) dict" where
  "tag_to_app rs = fold note_tag rs []"

definition is_request :: "log_line \<Rightarrow> bool" where
  "is_request r = (found request_rx (message r) \<and> tag_of r \<noteq> None)"

definition add_open :: "(nat, string) dict \<Rightarrow> log_line \<Rightarrow> (string, int list) dict \<Rightarrow> (string, int list) dict" where
  "add_open apps r d = (case dict_get apps (the (tag_of r)) of
       None \<Rightarrow> d
     | Some a \<Rightarrow> if a = [] then d else dict_set a (dict_getd d a [] @ [timestamp r]) d)"

definition opens_by_app :: "log_line list \<Rightarrow> (string, int list) dict" where
  "opens_by_app rs = fold (add_open (tag_to_app rs))
     (keep_first (\<lambda>r. (the (tag_of r), timestamp r)) [] (filter is_request rs)) []"

section \<open>The cadence of one application\<close>

text \<open>The start of each cluster; \<open>last\<close> is the start of the current one.\<close>

fun clusters_from :: "int \<Rightarrow> int list \<Rightarrow> int list" where
  "clusters_from s [] = [s]"
| "clusters_from s (t # ts) = (if cluster_window < t - s then s # clusters_from t ts else clusters_from s ts)"

definition clusters :: "int list \<Rightarrow> int list" where
  "clusters ts = (case ts of [] \<Rightarrow> [] | t # ts \<Rightarrow> clusters_from t ts)"

definition session_gaps :: "int list \<Rightarrow> int list" where
  "session_gaps cs = filter (\<lambda>g. g < session_boundary) (map (\<lambda>(a, b). b - a) (zip cs (tl cs)))"

definition minute_bin :: "int \<Rightarrow> int" where
  "minute_bin g = int (rne_div (nat g) 60000000)"

text \<open>\<open>Counter(binned)\<close> and the first of its most common entries.\<close>

definition bin_counts :: "int list \<Rightarrow> (int, nat) dict" where
  "bin_counts bs = fold (\<lambda>b d. dict_add b 1 d) bs []"

definition most_common :: "(int, nat) dict \<Rightarrow> int \<times> nat" where
  "most_common d = arg_min_list (\<lambda>bn. - int (snd bn)) d"

definition not_polled :: "string \<Rightarrow> int list \<Rightarrow> cadence" where
  "not_polled app ts = \<lparr>pc_app = app, open_count = length ts, interval_seconds = None, hits = 0, gaps_total = 1,
     is_polled = False, open_times = ts\<rparr>"

definition learn_app :: "string \<Rightarrow> int list \<Rightarrow> cadence" where
  "learn_app app ts0 = (let ts = sort ts0 in
     if length ts < min_opens then not_polled app ts
     else let gs = session_gaps (clusters ts) in
     if length gs < min_opens - 1 then not_polled app ts
     else let d = bin_counts (map minute_bin gs);
              (mode_min, mode_count) = most_common d;
              h = mode_count + (dict_getd d (mode_min - 1) 0 + dict_getd d (mode_min + 1) 0);
              n = length gs in
       \<lparr>pc_app = app, open_count = length ts, interval_seconds = Some (mode_min * 60), hits = h, gaps_total = n,
        is_polled = (7 * n \<le> 10 * h \<or> 10 \<le> mode_count \<and> 35 * n \<le> 100 * h), open_times = ts\<rparr>)"

definition learn_polling_cadence :: "log_line list \<Rightarrow> (string, cadence) dict" where
  "learn_polling_cadence rs = map (\<lambda>(a, ts). (a, learn_app a ts)) (opens_by_app rs)"

text \<open>
  Whether an open continues the cadence: a tenth of the interval either way.  The bounds are
  rounded products below 66 minutes, so comparing whole microseconds is exact.
\<close>

definition is_polling_open :: "cadence \<Rightarrow> int \<Rightarrow> int option \<Rightarrow> bool" where
  "is_polling_open c t prior = (is_polled c \<and> (case interval_seconds c of
       None \<Rightarrow> False
     | Some s \<Rightarrow> (case prior of
           None \<Rightarrow> True
         | Some p \<Rightarrow> 9 * s * 1000000 \<le> 10 * (t - p) \<and> 10 * (t - p) \<le> 11 * s * 1000000)))"

section \<open>What is learned\<close>

lemma bin_counts_get: "dict_getd (bin_counts bs) b 0 = length (filter (\<lambda>x. x = b) bs)"
proof -
  have "dict_getd (fold (\<lambda>b d. dict_add b 1 d) bs d) b 0 = dict_getd d b 0 + length (filter (\<lambda>x. x = b) bs)" for d
    by (induction bs arbitrary: d) (auto simp: dict_getd_add)
  then show ?thesis by (simp add: bin_counts_def dict_getd_def)
qed

lemma bin_counts_keys: "distinct (dict_keys (bin_counts bs))" "set (dict_keys (bin_counts bs)) = set bs"
proof -
  have keys: "fst ` set (dict_add k n d) = insert k (fst ` set d)" for k n and d :: "(int, nat) dict"
    using dict_keys_add [of k n d] by simp
  have "distinct (dict_keys d) \<Longrightarrow> distinct (dict_keys (fold (\<lambda>b d. dict_add b 1 d) bs d))
      \<and> set (dict_keys (fold (\<lambda>b d. dict_add b 1 d) bs d)) = set (dict_keys d) \<union> set bs" for d :: "(int, nat) dict"
    by (induction bs arbitrary: d) (auto simp: distinct_dict_add keys)
  then show "distinct (dict_keys (bin_counts bs))" "set (dict_keys (bin_counts bs)) = set bs"
    by (simp_all add: bin_counts_def)
qed

definition count_in :: "int list \<Rightarrow> int \<Rightarrow> nat" where
  "count_in bs b = length (filter (\<lambda>x. x = b) bs)"

lemma most_common_bin:
  assumes "bs \<noteq> []" "most_common (bin_counts bs) = (m, c)"
  shows "m \<in> set bs" "c = count_in bs m" "b \<in> set bs \<Longrightarrow> count_in bs b \<le> c"
proof -
  have ne: "bin_counts bs \<noteq> []" using bin_counts_keys(2) [of bs] assms(1) by auto
  have mem: "(m, c) \<in> set (bin_counts bs)" using arg_min_list_in [OF ne] assms(2) by (metis most_common_def)
  have entry: "n = count_in bs k" if "(k, n) \<in> set (bin_counts bs)" for k n
    using that bin_counts_get [of bs k] bin_counts_keys(1) [of bs] by (simp add: dict_getd_def count_in_def)
  show "m \<in> set bs" using mem bin_counts_keys(2) by force
  show c: "c = count_in bs m" using entry [OF mem] .
  show "count_in bs b \<le> c" if b: "b \<in> set bs"
  proof -
    from b obtain n where n: "(b, n) \<in> set (bin_counts bs)" using bin_counts_keys(2) [of bs] by force
    then have "- int c \<le> - int n"
      using f_arg_min_list_f [OF ne, of "\<lambda>bn. - int (snd bn)"] assms(2)
      by (simp add: most_common_def) (metis (no_types, lifting) Min_le finite_imageI finite_set image_eqI snd_conv)
    with entry [OF n] show ?thesis by simp
  qed
qed

text \<open>The clusters of ascending times: they start more than a window apart, and every time lies in one.\<close>

definition apart :: "int \<Rightarrow> int \<Rightarrow> bool" where
  "apart a b = (cluster_window < b - a)"

definition covered_by :: "int list \<Rightarrow> int \<Rightarrow> bool" where
  "covered_by cs t = list_ex (\<lambda>c. c \<le> t \<and> t - c \<le> cluster_window) cs"

lemma clusters_from_apart:
  "sorted (s # ts) \<Longrightarrow> sorted_wrt apart (clusters_from s ts) \<and> list_all (\<lambda>c. s \<le> c) (clusters_from s ts)"
proof (induction ts arbitrary: s)
  case (Cons t ts)
  show ?case
  proof (cases "cluster_window < t - s")
    case True
    have IH: "sorted_wrt apart (clusters_from t ts)" "\<forall>c \<in> set (clusters_from t ts). t \<le> c"
      using Cons by (simp_all add: list_all_iff)
    then have "\<forall>c \<in> set (clusters_from t ts). apart s c" using True by (auto simp: apart_def)
    with IH True Cons.prems show ?thesis by (auto simp: list_all_iff)
  next
    case False
    with Cons.IH [of s] Cons.prems show ?thesis by simp
  qed
qed simp

lemma clusters_from_covers:
  "sorted (s # ts) \<Longrightarrow> list_all (covered_by (clusters_from s ts)) (s # ts)"
proof (induction ts arbitrary: s)
  case (Cons t ts)
  show ?case
  proof (cases "cluster_window < t - s")
    case True
    with Cons.IH [of t] Cons.prems show ?thesis
      by (auto simp: list_all_iff covered_by_def cluster_window_def)
  next
    case False
    with Cons.IH [of s] Cons.prems have IH: "list_all (covered_by (clusters_from s ts)) (s # ts)" by simp
    have "s \<in> set (clusters_from s ts)" if "sorted (s # ts)" for s ts
      using that by (induction ts arbitrary: s) auto
    then have "covered_by (clusters_from s ts) t"
      using False Cons.prems by (auto simp: covered_by_def list_ex_iff intro!: bexI [of _ s])
    with IH False show ?thesis by simp
  qed
qed (simp add: covered_by_def cluster_window_def)

text \<open>
  The clusters of an application's opens start more than five seconds apart and every
  open lies within five seconds of the start of one.
\<close>

theorem clusters_of_opens:
  "sorted_wrt apart (clusters (sort ts)) \<and> list_all (covered_by (clusters (sort ts))) (sort ts)"
  using clusters_from_apart clusters_from_covers
  by (cases "sort ts") (metis clusters_def list.case(1) list.pred_inject(1) sorted_wrt.simps(1),
      metis clusters_def list.case(2) sorted_sort)

definition near_bin :: "int list \<Rightarrow> int \<Rightarrow> nat" where
  "near_bin bs m = length (filter (\<lambda>b. \<bar>b - m\<bar> \<le> 1) bs)"

text \<open>
  An application counts as polled exactly when it has four opens, three gaps within a
  session, and enough of the gaps within a minute of their most frequent length: seven in
  ten, or ten of that very length with 35 in a
  hundred near it; the gaps counted never exceed the gaps there are.
\<close>

theorem polled_iff:
  fixes ts :: "int list"
  defines "bs \<equiv> map minute_bin (session_gaps (clusters (sort ts)))"
  defines "m \<equiv> fst (most_common (bin_counts bs))"
  shows "(is_polled (learn_app app ts) \<longleftrightarrow> 4 \<le> length ts \<and> 3 \<le> length bs
      \<and> (7 * length bs \<le> 10 * near_bin bs m \<or> 10 \<le> count_in bs m \<and> 35 * length bs \<le> 100 * near_bin bs m))
    \<and> hits (learn_app app ts) \<le> gaps_total (learn_app app ts)
    \<and> open_times (learn_app app ts) = sort ts \<and> open_count (learn_app app ts) = length ts"
proof (cases "4 \<le> length ts \<and> 3 \<le> length bs")
  case False
  then show ?thesis by (auto simp: learn_app_def bs_def min_opens_def not_polled_def Let_def)
next
  case True
  then have ne: "bs \<noteq> []" by auto
  obtain m' c where mc: "most_common (bin_counts bs) = (m', c)" by (metis prod.exhaust)
  have c: "c = count_in bs m" "m' = m" using most_common_bin(2) [OF ne mc] by (simp_all add: m_def mc)
  have "near_bin bs m = count_in bs m + (count_in bs (m - 1) + count_in bs (m + 1))"
    unfolding near_bin_def count_in_def by (induction bs) auto
  then have h: "count_in bs m + (dict_getd (bin_counts bs) (m - 1) 0 + dict_getd (bin_counts bs) (m + 1) 0) = near_bin bs m"
    by (simp add: bin_counts_get count_in_def)
  have "learn_app app ts = \<lparr>pc_app = app, open_count = length ts, interval_seconds = Some (m * 60), hits = near_bin bs m,
      gaps_total = length bs, is_polled = (7 * length bs \<le> 10 * near_bin bs m \<or> 10 \<le> count_in bs m \<and> 35 * length bs \<le> 100 * near_bin bs m),
      open_times = sort ts\<rparr>"
    using True mc c unfolding learn_app_def Let_def min_opens_def bs_def h [unfolded bs_def, symmetric] by simp
  moreover have "near_bin bs m \<le> length bs" by (simp add: near_bin_def)
  ultimately show ?thesis using True by simp
qed

end
