(* ===== verification/Corr_Service.thy ===== *)
theory Corr_Service
  imports Corr_Standby
begin

text \<open>
  Service starts (\<open>correlators/service_lifecycle.py\<close>) and the token verdict
  (\<open>correlators/prt_availability.py\<close>).  The first five records of every log file decide
  whether it begins a process or only continues one; an event is later judged by the last
  fresh start before it.
\<close>

section \<open>Service starts\<close>

definition version_rx :: rx where
  "version_rx = RSeqs [RGroup 1 (RStrs [''ZSATunnel'', ''ZSATray'', ''ZSATrayManager'', ''ZSAService'']),
     RPlus (RSet [CSpace]), ROpt (RGroup 2 (RSeq (RStr ''App'') (RPlus (RSet [CSpace])))), RStr ''Version'']"

definition rotation_rx :: rx where
  "rotation_rx = RSeqs [RStr ''[LogMon]'', RPlus (RSet [CSpace]), RStr ''Previous'', RPlus (RSet [CSpace]), RStr ''log'']"

definition timezone_rx :: rx where
  "timezone_rx = RSeqs [RBegin, RStr ''Timezone'', RStar (RSet [CSpace]), RStr '':'']"

datatype start_kind = FRESH_PROCESS_START | LOG_ROTATION

record service_start =
  ss_ts :: int
  ss_kind :: start_kind
  ss_component :: string
  ss_pid :: nat
  ss_file :: string
  ss_record :: log_line

definition is_fresh_start :: "service_start \<Rightarrow> bool" where
  "is_fresh_start s = (ss_kind s = FRESH_PROCESS_START)"

definition fresh_window :: int where
  "fresh_window = 120 * 1000000"

definition is_within_fresh_window :: "service_start \<Rightarrow> int \<Rightarrow> bool" where
  "is_within_fresh_window s t = (is_fresh_start s \<and> 0 \<le> t - ss_ts s \<and> t - ss_ts s \<le> fresh_window)"

text \<open>A record of a file comes with the name of its source, where it has one.\<close>

type_synonym sourced = "string option \<times> log_line"

definition make_start :: "sourced \<Rightarrow> start_kind \<Rightarrow> service_start" where
  "make_start sr k = (case sr of (src, r) \<Rightarrow> \<lparr>ss_ts = timestamp r, ss_kind = k,
     ss_component = (case src of None \<Rightarrow> ''unknown'' | Some n \<Rightarrow> classify_log_file n), ss_pid = pid r,
     ss_file = (case src of None \<Rightarrow> [] | Some n \<Rightarrow> n), ss_record = r\<rparr>)"

definition start_marker :: "string \<Rightarrow> start_kind option" where
  "start_marker msg = (if found rotation_rx msg then Some LOG_ROTATION
     else if found version_rx msg \<or> found timezone_rx msg then Some FRESH_PROCESS_START else None)"

fun first_marker :: "sourced list \<Rightarrow> service_start option" where
  "first_marker [] = None"
| "first_marker (sr # rest) = (case start_marker (message (snd sr)) of
       Some k \<Rightarrow> Some (make_start sr k)
     | None \<Rightarrow> first_marker rest)"

definition find_service_starts :: "sourced list list \<Rightarrow> service_start list" where
  "find_service_starts files = sort_key ss_ts (List.map_filter (\<lambda>rs. first_marker (take 5 rs)) files)"

definition fresh_candidate :: "int \<Rightarrow> string option \<Rightarrow> service_start \<Rightarrow> bool" where
  "fresh_candidate t what s = (is_fresh_start s \<and> ss_ts s \<le> t \<and> (what = None \<or> what = Some (ss_component s)))"

definition nearest_fresh_start :: "service_start list \<Rightarrow> int \<Rightarrow> string option \<Rightarrow> service_start option" where
  "nearest_fresh_start starts t what = (case filter (fresh_candidate t what) starts of [] \<Rightarrow> None | cs \<Rightarrow> Some (last cs))"

text \<open>
  The start an event is judged by is a fresh start of the component, read from a marker
  in the first five records of its file and not after the event, and no later one exists;
  without one there is no fresh start before the event at all.
\<close>

theorem nearest_fresh_start_last:
  "case nearest_fresh_start (find_service_starts files) t what of
     None \<Rightarrow> filter (fresh_candidate t what) (List.map_filter (\<lambda>rs. first_marker (take 5 rs)) files) = []
   | Some s \<Rightarrow> s \<in> set (List.map_filter (\<lambda>rs. first_marker (take 5 rs)) files) \<and> fresh_candidate t what s
       \<and> list_all (\<lambda>u. ss_ts u \<le> ss_ts s) (filter (fresh_candidate t what) (List.map_filter (\<lambda>rs. first_marker (take 5 rs)) files))"
proof -
  let ?ss = "find_service_starts files" and ?ms = "List.map_filter (\<lambda>rs. first_marker (take 5 rs)) files"
  have set: "set ?ss = set ?ms" by (simp add: find_service_starts_def)
  have sorted: "sorted (map ss_ts (filter (fresh_candidate t what) ?ss))"
    unfolding find_service_starts_def by (rule sorted_filter) simp
  show ?thesis
  proof (cases "filter (fresh_candidate t what) ?ss" rule: rev_cases)
    case Nil
    then show ?thesis using set by (simp add: nearest_fresh_start_def filter_empty_conv)
  next
    case (snoc cs s)
    then have "nearest_fresh_start ?ss t what = Some s"
      by (cases cs) (simp_all add: nearest_fresh_start_def)
    moreover have "s \<in> set (filter (fresh_candidate t what) ?ss)" unfolding snoc by simp
    moreover have "\<forall>u \<in> set (filter (fresh_candidate t what) ?ss). ss_ts u \<le> ss_ts s"
      using sorted unfolding snoc by (auto simp: sorted_append)
    ultimately show ?thesis using set by (auto simp: list_all_iff)
  qed
qed

section \<open>The token verdict\<close>

definition dots :: rx where
  "dots = RStar RDot"

definition wam_ok_rx :: rx where
  "wam_ok_rx = RGroup 1 (RAlts [RStr ''wamCloudConnect'', RSeqs [RStr ''WAM'', RPlus (RSet [CSpace]), RStr ''token''],
     RSeqs [RStr ''AcquireTokenSilent'', dots, RStr ''success''], RStr ''primaryRefreshToken'',
     RStr [CHR 0x22, CHR ''P'', CHR ''R'', CHR ''T'', CHR 0x22], RStr ''prt_token''])"

definition wam_bad_rx :: rx where
  "wam_bad_rx = RGroup 1 (RAlts [RStr ''WAM_E_NO_ACCOUNT'', RStr ''no_account_found'', RStr ''AADSTS50059'',
     RSeqs [RStr ''AcquireTokenSilent'', dots, RStr ''fail''], RSeqs [RStr ''interactive'', dots, RStr ''fallback'']])"

definition join_rx :: "string list \<Rightarrow> string \<Rightarrow> rx" where
  "join_rx names v = RGroup 1 (RAlts (map (\<lambda>n. RSeqs [RStr n, RStar (RSet [CSpace]), RStr '':'', RStar (RSet [CSpace]), RStr v]) names))"

definition join_none_rx :: rx where
  "join_none_rx = join_rx [''AzureAdJoined'', ''DomainJoined'', ''WorkplaceJoined''] ''NO''"

definition join_yes_rx :: rx where
  "join_yes_rx = join_rx [''AzureAdJoined'', ''WorkplaceJoined''] ''YES''"

datatype confidence = LIKELY_PRESENT | LIKELY_ABSENT | UNCERTAIN

record prt =
  pos_signals :: nat
  neg_signals :: nat
  dsreg_yes :: nat
  dsreg_no :: nat
  examples :: "log_line list"

definition add_example :: "log_line \<Rightarrow> prt \<Rightarrow> prt" where
  "add_example r p = (if length (examples p) < 6 then p\<lparr>examples := examples p @ [r]\<rparr> else p)"

definition prt_step :: "log_line \<Rightarrow> prt \<Rightarrow> prt" where
  "prt_step r p0 = (let msg = message r;
     p1 = (if found wam_ok_rx msg then add_example r (p0\<lparr>pos_signals := pos_signals p0 + 1\<rparr>) else p0);
     p2 = (if found wam_bad_rx msg then add_example r (p1\<lparr>neg_signals := neg_signals p1 + 1\<rparr>) else p1);
     p3 = (if found join_yes_rx msg then p2\<lparr>dsreg_yes := dsreg_yes p2 + 1\<rparr> else p2) in
     if found join_none_rx msg then p3\<lparr>dsreg_no := dsreg_no p3 + 1\<rparr> else p3)"

definition prt_scan :: "log_line list \<Rightarrow> prt" where
  "prt_scan rs = fold prt_step rs \<lparr>pos_signals = 0, neg_signals = 0, dsreg_yes = 0, dsreg_no = 0, examples = []\<rparr>"

definition prt_verdict :: "prt \<Rightarrow> confidence" where
  "prt_verdict p =
     (if 2 \<le> dsreg_yes p \<and> dsreg_no p = 0 then LIKELY_PRESENT
      else if 2 \<le> dsreg_no p \<and> dsreg_yes p = 0 then LIKELY_ABSENT
      else if 3 \<le> pos_signals p \<and> neg_signals p = 0 then LIKELY_PRESENT
      else if 2 \<le> neg_signals p \<and> pos_signals p = 0 then LIKELY_ABSENT
      else UNCERTAIN)"

definition detect_prt_availability :: "log_line list \<Rightarrow> confidence \<times> prt" where
  "detect_prt_availability rs = (prt_verdict (prt_scan rs), prt_scan rs)"

text \<open>
  The four counters are the numbers of matching records and at most six examples are
  kept; so the verdict does not depend on the order of the records.
\<close>

theorem prt_counts:
  "pos_signals (prt_scan rs) = length (filter (\<lambda>r. found wam_ok_rx (message r)) rs)
   \<and> neg_signals (prt_scan rs) = length (filter (\<lambda>r. found wam_bad_rx (message r)) rs)
   \<and> dsreg_yes (prt_scan rs) = length (filter (\<lambda>r. found join_yes_rx (message r)) rs)
   \<and> dsreg_no (prt_scan rs) = length (filter (\<lambda>r. found join_none_rx (message r)) rs)
   \<and> length (examples (prt_scan rs)) \<le> 6"
proof -
  have "pos_signals (fold prt_step rs p) = pos_signals p + length (filter (\<lambda>r. found wam_ok_rx (message r)) rs)
     \<and> neg_signals (fold prt_step rs p) = neg_signals p + length (filter (\<lambda>r. found wam_bad_rx (message r)) rs)
     \<and> dsreg_yes (fold prt_step rs p) = dsreg_yes p + length (filter (\<lambda>r. found join_yes_rx (message r)) rs)
     \<and> dsreg_no (fold prt_step rs p) = dsreg_no p + length (filter (\<lambda>r. found join_none_rx (message r)) rs)" for p
    by (induction rs arbitrary: p) (auto simp: prt_step_def add_example_def Let_def)
  moreover have "length (examples p) \<le> 6 \<Longrightarrow> length (examples (fold prt_step rs p)) \<le> 6" for p
    by (induction rs arbitrary: p) (auto simp: prt_step_def add_example_def Let_def)
  ultimately show ?thesis by (simp add: prt_scan_def)
qed

end
