(* ===== verification/Py_Ip.thy ===== *)
theory Py_Ip
  imports Py_Prelude
begin

text \<open>
  What the program uses of Python's \<open>ipaddress\<close> module: the strict parsers of IPv4 and IPv6
  addresses, membership in a network, and the classes of addresses, with the tables of the
  registries as the module has them.  An address is its integer.
\<close>

section \<open>Parsing\<close>

definition parse_octet :: "string \<Rightarrow> int option" where
  "parse_octet s = (if s = [] \<or> \<not> list_all (\<lambda>c. 48 \<le> code_of c \<and> code_of c \<le> 57) s \<or> 3 < length s
       \<or> (s \<noteq> ''0'' \<and> prefix ''0'' s) \<or> 255 < nat_of_digits s then None
     else Some (int (nat_of_digits s)))"

definition from_digits :: "int \<Rightarrow> int list \<Rightarrow> int" where
  "from_digits base ds = foldl (\<lambda>n d. base * n + d) 0 ds"

definition ip4_of_text :: "string \<Rightarrow> int option" where
  "ip4_of_text s = (let os = split_on (CHR ''.'') s in
     if length os \<noteq> 4 then None else map_option (from_digits 256) (all_some (map parse_octet os)))"

definition hex_val :: "char \<Rightarrow> int option" where
  "hex_val c = (let n = code_of c in
     if 48 \<le> n \<and> n \<le> 57 then Some (int n - 48) else if 97 \<le> n \<and> n \<le> 102 then Some (int n - 87)
     else if 65 \<le> n \<and> n \<le> 70 then Some (int n - 55) else None)"

definition parse_hextet :: "string \<Rightarrow> int option" where
  "parse_hextet s = (if s = [] \<or> 4 < length s then None else map_option (from_digits 16) (all_some (map hex_val s)))"

text \<open>The groups of an address, an IPv4 suffix taken as two of them.\<close>

definition v6_parts :: "string \<Rightarrow> (string + int) list option" where
  "v6_parts s = (let ps = split_on (CHR '':'') s in
     if length ps < 3 then None
     else if CHR ''.'' \<in> set (last ps)
     then (case ip4_of_text (last ps) of None \<Rightarrow> None | Some n \<Rightarrow> Some (map Inl (butlast ps) @ [Inr (n div 65536), Inr (n mod 65536)]))
     else Some (map Inl ps))"

definition part_val :: "string + int \<Rightarrow> int option" where
  "part_val p = (case p of Inl s \<Rightarrow> parse_hextet s | Inr n \<Rightarrow> Some n)"

text \<open>The index of the empty group inside, of which there is at most one.\<close>

definition skip_indices :: "(string + int) list \<Rightarrow> nat list" where
  "skip_indices ps = filter (\<lambda>i. ps ! i = Inl []) [1..<length ps - 1]"

definition join_v6 :: "(string + int) list \<Rightarrow> nat \<Rightarrow> (string + int) list \<Rightarrow> int option" where
  "join_v6 hi skipped lo = (case (all_some (map part_val hi), all_some (map part_val lo)) of
       (Some hs, Some ls) \<Rightarrow> Some (from_digits 65536 (hs @ replicate skipped 0 @ ls))
     | _ \<Rightarrow> None)"

definition ip6_int :: "string \<Rightarrow> int option" where
  "ip6_int s = (case v6_parts s of
       None \<Rightarrow> None
     | Some ps \<Rightarrow>
         if 9 < length ps then None
         else (case skip_indices ps of
             [] \<Rightarrow> if length ps \<noteq> 8 \<or> hd ps = Inl [] \<or> last ps = Inl [] then None else join_v6 ps 0 []
           | [i] \<Rightarrow>
               let hi = (if hd ps = Inl [] then i - 1 else i);
                   lo = (if last ps = Inl [] then length ps - i - 2 else length ps - i - 1) in
               if hd ps = Inl [] \<and> hi \<noteq> 0 \<or> last ps = Inl [] \<and> lo \<noteq> 0 \<or> 8 \<le> hi + lo then None
               else join_v6 (take hi ps) (8 - (hi + lo)) (drop (length ps - lo) ps)
           | _ \<Rightarrow> None))"

text \<open>A scope follows a percent sign; a slash is refused.\<close>

definition ip6_of_text :: "string \<Rightarrow> int option" where
  "ip6_of_text s = (if CHR ''/'' \<in> set s then None
     else case partition_at ''%'' s of (addr, sep, scope) \<Rightarrow>
       if sep \<noteq> [] \<and> (scope = [] \<or> CHR ''%'' \<in> set scope) then None else ip6_int addr)"

datatype ip_addr = V4 int | V6 int

definition ip_address :: "string \<Rightarrow> ip_addr option" where
  "ip_address s = (case ip4_of_text s of Some n \<Rightarrow> Some (V4 n) | None \<Rightarrow> map_option V6 (ip6_of_text s))"

section \<open>Classes of addresses\<close>

text \<open>A network: the address written as its first groups, and the prefix length.\<close>

definition v4_net :: "int list \<Rightarrow> nat \<Rightarrow> int \<Rightarrow> bool" where
  "v4_net bs len a = (a div 2 ^ (32 - len) = from_digits 256 (bs @ replicate (4 - length bs) 0) div 2 ^ (32 - len))"

definition v6_net :: "int list \<Rightarrow> nat \<Rightarrow> int \<Rightarrow> bool" where
  "v6_net gs len a = (a div 2 ^ (128 - len) = from_digits 65536 (gs @ replicate (8 - length gs) 0) div 2 ^ (128 - len))"

definition v4_private :: "int \<Rightarrow> bool" where
  "v4_private a = (list_ex (\<lambda>(bs, l). v4_net bs l a)
       [([0], 8), ([10], 8), ([127], 8), ([169, 254], 16), ([172, 16], 12), ([192, 0, 0], 24), ([192, 0, 0, 170], 31),
        ([192, 0, 2], 24), ([192, 168], 16), ([198, 18], 15), ([198, 51, 100], 24), ([203, 0, 113], 24), ([240], 4),
        ([255, 255, 255, 255], 32)]
     \<and> \<not> list_ex (\<lambda>(bs, l). v4_net bs l a) [([192, 0, 0, 9], 32), ([192, 0, 0, 10], 32)])"

definition v6_private :: "int \<Rightarrow> bool" where
  "v6_private a = (if a div 2 ^ 32 = 0xFFFF then v4_private (a mod 2 ^ 32)
     else list_ex (\<lambda>(gs, l). v6_net gs l a)
       [([0, 0, 0, 0, 0, 0, 0, 1], 128), ([], 128), ([0, 0, 0, 0, 0, 0xFFFF], 96), ([0x64, 0xFF9B, 1], 48), ([0x100], 64),
        ([0x2001], 23), ([0x2001, 0xDB8], 32), ([0x2002], 16), ([0xFC00], 7), ([0xFE80], 10)]
     \<and> \<not> list_ex (\<lambda>(gs, l). v6_net gs l a)
       [([0x2001, 1, 0, 0, 0, 0, 0, 1], 128), ([0x2001, 1, 0, 0, 0, 0, 0, 2], 128), ([0x2001, 3], 32), ([0x2001, 4, 0x112], 48),
        ([0x2001, 0x20], 28), ([0x2001, 0x30], 28)])"

fun is_private :: "ip_addr \<Rightarrow> bool" where
  "is_private (V4 a) = v4_private a"
| "is_private (V6 a) = v6_private a"

fun is_loopback :: "ip_addr \<Rightarrow> bool" where
  "is_loopback (V4 a) = v4_net [127] 8 a"
| "is_loopback (V6 a) = (a = 1)"

fun is_link_local :: "ip_addr \<Rightarrow> bool" where
  "is_link_local (V4 a) = v4_net [169, 254] 16 a"
| "is_link_local (V6 a) = v6_net [0xFE80] 10 a"

fun is_multicast :: "ip_addr \<Rightarrow> bool" where
  "is_multicast (V4 a) = v4_net [224] 4 a"
| "is_multicast (V6 a) = v6_net [0xFF00] 8 a"

fun is_unspecified :: "ip_addr \<Rightarrow> bool" where
  "is_unspecified (V4 a) = (a = 0)"
| "is_unspecified (V6 a) = (a = 0)"

definition in_cgnat :: "int \<Rightarrow> bool" where
  "in_cgnat a = v4_net [100, 64] 10 a"

section \<open>The characters of an address\<close>

lemma parse_octet_chars: "parse_octet s = Some n \<Longrightarrow> c \<in> set s \<Longrightarrow> 48 \<le> code_of c \<and> code_of c \<le> 57"
  by (auto simp: parse_octet_def list_all_iff split: if_splits)

lemma split_on_set: "c \<in> set s \<Longrightarrow> c \<noteq> d \<Longrightarrow> \<exists>p \<in> set (split_on d s). c \<in> set p"
  by (induction s) (auto split: list.splits)

lemma ip4_chars:
  assumes "ip4_of_text s = Some n" "c \<in> set s"
  shows "c = CHR ''.'' \<or> (48 \<le> code_of c \<and> code_of c \<le> 57)"
proof (rule ccontr)
  assume no: "\<not> ?thesis"
  then obtain p where p: "p \<in> set (split_on (CHR ''.'') s)" "c \<in> set p" using split_on_set assms(2) by metis
  from assms(1) obtain ns where "all_some (map parse_octet (split_on (CHR ''.'') s)) = Some ns"
    by (auto simp: ip4_of_text_def Let_def split: if_splits)
  then have "parse_octet p \<noteq> None" using all_some_Some p(1) by (metis (no_types, lifting) image_eqI list.set_map option.distinct(1) imageE)
  with parse_octet_chars p(2) no show False by blast
qed

end
