(* ===== verification/Redactor.thy ===== *)
theory Redactor
  imports Py_Ip Py_Regex
begin

text \<open>
  The redactor (\<open>pii.py\<close>): a table of tokens that stand for personal values, filled by a
  first pass over two system files and then by the text itself, and the scrub of a text,
  which replaces the known values first and then whatever six patterns find.  The files of
  the first pass are their contents in the order of the walk, \<open>None\<close> where one cannot be read.
\<close>

section \<open>The patterns\<close>

abbreviation upper_az :: cset where
  "upper_az \<equiv> CRange (CHR ''A'') (CHR ''Z'')"

abbreviation lower_az :: cset where
  "lower_az \<equiv> CRange (CHR ''a'') (CHR ''z'')"

abbreviation num09 :: cset where
  "num09 \<equiv> CRange (CHR ''0'') (CHR ''9'')"

text \<open>\<open>r{m,n}\<close>\<close>

definition RBetween :: "nat \<Rightarrow> nat \<Rightarrow> rx \<Rightarrow> rx" where
  "RBetween m n r = RSeq (RTimes m r) (RUpTo (n - m) r)"

definition email_rx :: rx where
  "email_rx = RSeqs [RBound, RPlus (RSet [upper_az, lower_az, num09, CLit (CHR ''.''), CLit (CHR ''_''), CLit (CHR ''%''), CLit (CHR ''+''), CLit (CHR ''-'')]),
     RLit (CHR ''@''), RPlus (RSet [upper_az, lower_az, num09, CLit (CHR ''.''), CLit (CHR ''-'')]), RLit (CHR ''.''),
     RAtLeast 2 (RSet [upper_az, lower_az]), RBound]"

definition quad_octet :: rx where
  "quad_octet = RBetween 1 3 (RSet [CDigit])"

definition dotted_quad :: rx where
  "dotted_quad = RSeq (RTimes 3 (RSeq quad_octet (RLit (CHR ''.'')))) quad_octet"

definition dotted_rx :: rx where
  "dotted_rx = RSeqs [RBound, dotted_quad, RBound]"

definition hex1 :: rx where
  "hex1 = RSet [num09, CRange (CHR ''a'') (CHR ''f''), CRange (CHR ''A'') (CHR ''F'')]"

definition hextet :: rx where
  "hextet = RBetween 1 4 hex1"

definition colon :: rx where
  "colon = RLit (CHR '':'')"

definition ipv6_rx :: rx where
  "ipv6_rx = RSeqs [ROpt (RLit (CHR ''['')),
     RAlts [RSeq hextet (RTimes 7 (RSeq colon hextet)),
       RSeqs [RUpTo 7 (RSeq hextet colon), colon, RUpTo 7 (RSeq (ROpt colon) hextet)],
       RSeqs [RStr ''::'', ROpt (RSeqs [RStr ''ffff'', ROpt (RSeq colon (RBetween 1 4 (RLit (CHR ''0'')))), colon]), dotted_quad]],
     ROpt (RLit (CHR '']''))]"

definition word_dash :: "cset list" where
  "word_dash = [CWord, CLit (CHR ''-'')]"

definition mac_rx :: rx where
  "mac_rx = RSeqs [RNotBehind [word_dash], RTimes 5 (RSeqs [RTimes 2 hex1, RSet [CLit (CHR '':''), CLit (CHR ''-'')]]), RTimes 2 hex1,
     RNotAhead word_dash]"

definition blob_rx :: rx where
  "blob_rx = RSeqs [RBound, RAtLeast 40 (RSet [upper_az, lower_az, num09, CLit (CHR ''+''), CLit (CHR ''/'')]),
     RUpTo 2 (RLit (CHR ''='')), RBound]"

definition sid_rx :: rx where
  "sid_rx = RSeqs [RBound, RStr ''S-'', RSet [CDigit], RLit (CHR ''-''), RPlus (RSet [CDigit]),
     RAtLeast 2 (RSeq (RLit (CHR ''-'')) (RPlus (RSet [CDigit]))), RBound]"

text \<open>A field of the system files: its label, tabs_spaces, and the rest of the line.\<close>

definition eol :: "cset list" where
  "eol = [CLit (CHR 0x0D), CLit (CHR 0x0A)]"

definition tabs_spaces :: rx where
  "tabs_spaces = RStar (RSet [CLit (CHR '' ''), CLit (CHR 0x09)])"

definition rest_of_line :: rx where
  "rest_of_line = RGroup 1 (RPlus (RNot eol))"

definition host_name_rx :: rx where
  "host_name_rx = RSeqs [RBound, RStr ''Host Name:'', tabs_spaces, rest_of_line]"

definition domain_rx :: rx where
  "domain_rx = RSeqs [RNotBehind (map (\<lambda>c. [CLit c]) ''USERDNS''), RBound, RStr ''Domain:'', tabs_spaces, rest_of_line]"

definition owner_rx :: rx where
  "owner_rx = RSeqs [RBound, RStr ''Registered Owner:'', tabs_spaces, rest_of_line]"

definition logon_server_rx :: rx where
  "logon_server_rx = RSeqs [RBound, RStr ''Logon Server:'', tabs_spaces, RLit (CHR 0x5C), RLit (CHR 0x5C), RGroup 1 (RPlus (RNot (CSpace # eol)))]"

section \<open>The allow lists\<close>

definition allowed_suffixes :: "string list" where
  "allowed_suffixes = [''.zscaler.net'', ''.zscalerone.net'', ''.zscalertwo.net'', ''.zscalerthree.net'', ''.zscloud.net'',
     ''.zscalergov.net'', ''.cloudfront.net'', ''.akamai.net'', ''.akamaiedge.net'']"

definition allowed_exact :: "string list" where
  "allowed_exact = [''localhost'', ''localhost.localdomain'']"

definition hostname_is_allowlisted :: "string \<Rightarrow> bool" where
  "hostname_is_allowlisted host = (let h = rstrip_by (\<lambda>c. c = CHR ''.'') (py_lower host) in
     h \<in> set allowed_exact \<or> list_ex (\<lambda>s. suffix s h \<or> h = lstrip_by (\<lambda>c. c = CHR ''.'') s) allowed_suffixes)"

definition ip_is_visible :: "string \<Rightarrow> bool" where
  "ip_is_visible ip = (case ip_address ip of
       None \<Rightarrow> False
     | Some a \<Rightarrow> is_private a \<or> is_loopback a \<or> is_link_local a \<or> is_multicast a \<or> is_unspecified a
         \<or> (case a of V4 n \<Rightarrow> in_cgnat n | V6 _ \<Rightarrow> False))"

section \<open>The table of tokens\<close>

datatype pii_kind = HOST | USER | DOMAIN | EMAIL | IP | MAC | TOKEN | SID

primrec kind_name :: "pii_kind \<Rightarrow> string" where
  "kind_name HOST = ''HOST''"
| "kind_name USER = ''USER''"
| "kind_name DOMAIN = ''DOMAIN''"
| "kind_name EMAIL = ''EMAIL''"
| "kind_name IP = ''IP''"
| "kind_name MAC = ''MAC''"
| "kind_name TOKEN = ''TOKEN''"
| "kind_name SID = ''SID''"

definition casefold_kinds :: "pii_kind list" where
  "casefold_kinds = [HOST, EMAIL, DOMAIN]"

record redactor =
  mapping :: "(string, string) dict"
  rev_map :: "(string, string) dict"
  counters :: "(pii_kind, nat) dict"
  literals :: "(pii_kind \<times> string) list"
  stats :: "(pii_kind, nat) dict"

definition new_redactor :: redactor where
  "new_redactor = \<lparr>mapping = [], rev_map = [], counters = [], literals = [], stats = []\<rparr>"

definition hit :: "pii_kind \<Rightarrow> redactor \<Rightarrow> redactor" where
  "hit k r = r\<lparr>stats := dict_add k 1 (stats r)\<rparr>"

definition total_hits :: "redactor \<Rightarrow> nat" where
  "total_hits r = dict_total (stats r)"

definition show_token :: "pii_kind \<Rightarrow> nat \<Rightarrow> string" where
  "show_token k n = ''<'' @ kind_name k @ ''_'' @ pad 3 n @ ''>''"

definition key_of :: "pii_kind \<Rightarrow> string \<Rightarrow> string" where
  "key_of k raw = (if List.member casefold_kinds k then py_lower raw else raw)"

text \<open>\<open>_intern\<close>: the token of a value, a new one the first time.\<close>

definition intern :: "pii_kind \<Rightarrow> string \<Rightarrow> redactor \<Rightarrow> string \<times> redactor" where
  "intern k raw r = (case dict_get (mapping r) (key_of k raw) of
       Some tok \<Rightarrow> (tok, r)
     | None \<Rightarrow>
         let n = dict_getd (counters r) k 0 + 1; tok = show_token k n in
         (tok, r\<lparr>counters := dict_set k n (counters r), mapping := dict_set (key_of k raw) tok (mapping r),
                 rev_map := dict_set tok raw (rev_map r)\<rparr>))"

section \<open>The first pass\<close>

definition prepass_rules :: "(pii_kind \<times> rx) list" where
  "prepass_rules = [(HOST, host_name_rx), (DOMAIN, domain_rx), (USER, owner_rx), (HOST, logon_server_rx)]"

definition note_value :: "pii_kind \<Rightarrow> string \<Rightarrow> redactor \<Rightarrow> redactor" where
  "note_value k value r = (let raw = py_strip value in
     if raw = [] \<or> py_upper raw = ''N/A'' then r
     else if k = HOST \<and> hostname_is_allowlisted raw then r
     else (let r1 = snd (intern k raw r) in r1\<lparr>literals := literals r1 @ [(k, raw)]\<rparr>))"

definition prepass_file :: "string option \<Rightarrow> redactor \<Rightarrow> redactor" where
  "prepass_file content r = (case content of
       None \<Rightarrow> r
     | Some bytes \<Rightarrow> let text = take (64 * 1024) bytes in
         fold (\<lambda>(k, rx). fold (\<lambda>m. note_value k (case rx_group 1 m of None \<Rightarrow> [] | Some v \<Rightarrow> v)) (rx_finditer True rx text)) prepass_rules r)"

definition prepass :: "string option list \<Rightarrow> string option list \<Rightarrow> redactor \<Rightarrow> redactor" where
  "prepass app_infos system_infos r = (let r1 = fold prepass_file system_infos (fold prepass_file app_infos r) in
     r1\<lparr>literals := sort_key (\<lambda>l. - int (length (snd l))) (literals r1)\<rparr>)"

section \<open>The scrub\<close>

text \<open>A pass: the value is replaced by its token, unless it is to stay.\<close>

definition redact :: "pii_kind \<Rightarrow> (string \<Rightarrow> bool) \<Rightarrow> string \<Rightarrow> redactor \<Rightarrow> string \<times> redactor" where
  "redact k keep raw r = (if keep raw then (raw, r) else intern k raw (hit k r))"

definition email_domain :: "string \<Rightarrow> string" where
  "email_domain raw = rev (takeWhile (\<lambda>c. c \<noteq> CHR ''@'') (rev raw))"

definition keep_email :: "string \<Rightarrow> bool" where
  "keep_email raw = hostname_is_allowlisted (email_domain raw)"

definition keep_ipv4 :: "string \<Rightarrow> bool" where
  "keep_ipv4 raw = (ip4_of_text raw = None \<or> ip_is_visible raw)"

definition keep_ipv6 :: "string \<Rightarrow> bool" where
  "keep_ipv6 raw = (ip6_of_text raw = None \<or> ip_is_visible raw)"

definition passes :: "(pii_kind \<times> rx \<times> (string \<Rightarrow> bool)) list" where
  "passes = [(EMAIL, email_rx, keep_email), (IP, dotted_rx, keep_ipv4), (IP, ipv6_rx, keep_ipv6), (MAC, mac_rx, \<lambda>_. False),
     (SID, sid_rx, \<lambda>_. False), (TOKEN, blob_rx, \<lambda>_. False)]"

definition run_pass :: "pii_kind \<times> rx \<times> (string \<Rightarrow> bool) \<Rightarrow> string \<times> redactor \<Rightarrow> string \<times> redactor" where
  "run_pass p tr = (case p of (k, rx, keep) \<Rightarrow> rx_sub False rx (redact k keep) (fst tr) (snd tr))"

text \<open>A known literal, wherever it stands and in any case; every replacement is a hit.\<close>

definition put_token :: "pii_kind \<Rightarrow> string \<Rightarrow> string \<Rightarrow> redactor \<Rightarrow> string \<times> redactor" where
  "put_token k tok w r = (tok, hit k r)"

definition run_literal :: "pii_kind \<times> string \<Rightarrow> string \<times> redactor \<Rightarrow> string \<times> redactor" where
  "run_literal l tr = (case l of (k, raw) \<Rightarrow>
     rx_sub True (RStr raw) (put_token k (dict_getd (mapping (snd tr)) (key_of k raw) [])) (fst tr) (snd tr))"

definition scrub :: "string \<Rightarrow> redactor \<Rightarrow> string \<times> redactor" where
  "scrub text r = (if text = [] then (text, r) else fold run_pass passes (fold run_literal (literals r) (text, r)))"

fun scrub_iter :: "string list \<Rightarrow> redactor \<Rightarrow> string list \<times> redactor" where
  "scrub_iter [] r = ([], r)"
| "scrub_iter (l # ls) r = (case scrub l r of (t, r1) \<Rightarrow> case scrub_iter ls r1 of (ts, r2) \<Rightarrow> (t # ts, r2))"

end
