(* ===== verification/Rx_Subst.thy ===== *)
theory Rx_Subst
  imports Py_Regex
begin

text \<open>
  What a substitution does to a text: it cuts it at the matches, and a property of the
  state and of the pieces put in carries over to the whole.
\<close>

section \<open>One match\<close>

lemma search_split:
  "rx_search_from ic r b a = Some t \<Longrightarrow> \<exists>pre. a = pre @ drop (length pre) a \<and> pre = take (length pre) a
    \<and> rx_match_at ic r (rev pre @ b) (drop (length pre) a) = Some t
    \<and> (\<forall>i < length pre. rx_match_at ic r (rev (take i a) @ b) (drop i a) = None)"
proof (induction ic r b a rule: rx_search_from.induct)
  case (1 ic r b)
  then show ?case by (intro exI [of _ "[]"]) simp
next
  case (2 ic r b c a)
  show ?case
  proof (cases "rx_match_at ic r b (c # a)")
    case None
    with 2 obtain pre where pre: "pre = take (length pre) a" "a = pre @ drop (length pre) a" "rx_match_at ic r (rev pre @ c # b) (drop (length pre) a) = Some t"
        "\<forall>i < length pre. rx_match_at ic r (rev (take i a) @ c # b) (drop i a) = None" by auto
    have whole: "c # a = (c # pre) @ drop (length (c # pre)) (c # a)" using pre(2) by simp
    have early: "rx_match_at ic r (rev (take i (c # a)) @ b) (drop i (c # a)) = None" if "i < length (c # pre)" for i
      using that None pre(4) by (cases i) simp_all
    from pre(1) have "c # pre = take (length (c # pre)) (c # a)" by simp
    with pre(3) early whole show ?thesis by (intro exI [of _ "c # pre"]) simp
  next
    case (Some u)
    with 2 show ?thesis by (intro exI [of _ "[]"]) simp
  qed
qed

text \<open>The text before a match, the match and the text after it.\<close>

lemma search_cut:
  assumes "rx_search_from ic (RGroup 0 r) b a = Some t"
  obtains pre w where "a = pre @ w @ fst (snd t)" "matched_text t = w"
    "\<forall>i < length pre. rx_match_at ic (RGroup 0 r) (rev (take i a) @ b) (drop i a) = None"
    "rx_match_at ic (RGroup 0 r) (rev pre @ b) (drop (length pre) a) = Some t"
proof -
  from search_split [OF assms] obtain pre where pre: "a = pre @ drop (length pre) a"
      "rx_match_at ic (RGroup 0 r) (rev pre @ b) (drop (length pre) a) = Some t"
      "\<forall>i < length pre. rx_match_at ic (RGroup 0 r) (rev (take i a) @ b) (drop i a) = None" by blast
  let ?s = "(rev pre @ b, drop (length pre) a, [])"
  from pre(2) have "t \<in> set (rx_run ic (RGroup 0 r) ?s)" unfolding rx_match_at_def by (rule head_opt_in)
  then obtain u where u: "u \<in> set (rx_run ic r ?s)" "t = close_group 0 ?s u" by auto
  obtain w where w: "spans ?s u w" using rx_run_advance [OF u(1)] unfolding advance_spans by blast
  then have "matched_text t = w" by (simp add: u(2) close_group_def spans_def matched_text_def rx_group_def dict_get_set)
  moreover have "drop (length pre) a = w @ fst (snd t)" using w by (simp add: u(2) close_group_def spans_def)
  ultimately show thesis using pre that [of pre w] by metis
qed

section \<open>A substitution piece by piece\<close>

text \<open>
  \<open>rx_cut ic r b a\<close>: no match, or the text before the first match, the match and the rest.
\<close>

lemma sub_none: "rx_search_from ic (RGroup 0 r) b a = None \<Longrightarrow> rx_sub_from ic r f b a st = (a, st)"
  by (subst rx_sub_from.simps) simp

lemma sub_some:
  assumes "rx_search_from ic (RGroup 0 r) b a = Some t" "a = pre @ w @ fst (snd t)" "matched_text t = w"
    "length (fst (snd t)) < length a" "f w st = (out, st1)"
    "rx_sub_from ic r f (fst t) (fst (snd t)) st1 = (tail, st2)"
  shows "rx_sub_from ic r f b a st = (pre @ out @ tail, st2)"
proof -
  have "take (length a - length w - length (fst (snd t))) a = pre" using assms(2) by simp
  with assms show ?thesis by (subst rx_sub_from.simps) (simp add: Let_def)
qed

lemma sub_stop:
  assumes "rx_search_from ic (RGroup 0 r) b a = Some t" "\<not> length (fst (snd t)) < length a"
  shows "rx_sub_from ic r f b a st = (a, st)"
  using assms by (subst rx_sub_from.simps) (simp add: Let_def split: prod.split)

text \<open>Induction over the matches.\<close>

lemma sub_induct [consumes 0, case_names none stop cut]:
  assumes none: "\<And>b a. rx_search_from ic (RGroup 0 r) b a = None \<Longrightarrow> P b a"
    and stop: "\<And>b a t. rx_search_from ic (RGroup 0 r) b a = Some t \<Longrightarrow> \<not> length (fst (snd t)) < length a \<Longrightarrow> P b a"
    and cut: "\<And>b a t pre w. rx_search_from ic (RGroup 0 r) b a = Some t \<Longrightarrow> a = pre @ w @ fst (snd t) \<Longrightarrow> matched_text t = w \<Longrightarrow>
      length (fst (snd t)) < length a \<Longrightarrow> P (fst t) (fst (snd t)) \<Longrightarrow> P b a"
  shows "P b a"
proof (induction "length a" arbitrary: b a rule: less_induct)
  case less
  show ?case
  proof (cases "rx_search_from ic (RGroup 0 r) b a")
    case None
    then show ?thesis by (rule none)
  next
    case (Some t)
    obtain pre w where "a = pre @ w @ fst (snd t)" "matched_text t = w" using search_cut [OF Some] by metis
    with Some less cut stop show ?thesis by metis
  qed
qed

text \<open>An invariant of the state, and what it says of the pieces that are put in.\<close>

inductive patched :: "(string \<Rightarrow> bool) \<Rightarrow> string \<Rightarrow> string \<Rightarrow> bool" for P where
  same: "patched P s s"
| put: "P new \<Longrightarrow> patched P u v \<Longrightarrow> patched P (x @ w @ u) (x @ new @ v)"

lemma patched_prepend: "patched P u v \<Longrightarrow> patched P (x @ u) (x @ v)"
proof (induction rule: patched.induct)
  case (put new u v y w)
  then show ?case using patched.put [OF put(1,2), of "x @ y" w] by simp
qed (rule patched.same)

lemma sub_patched:
  assumes step: "\<And>w st out st'. I st \<Longrightarrow> f w st = (out, st') \<Longrightarrow> I st' \<and> (out = w \<or> P out)"
  shows "I st \<Longrightarrow> rx_sub_from ic r f b a st = (out, st') \<Longrightarrow> I st' \<and> patched P a out"
proof (induction b a arbitrary: st out st' rule: sub_induct [of ic r])
  case (none b a)
  then show ?case by (simp add: sub_none patched.same)
next
  case (stop b a t)
  then show ?case by (simp add: sub_stop patched.same)
next
  case (cut b a t pre w)
  obtain o1 st1 where o1: "f w st = (o1, st1)" by (metis prod.exhaust)
  obtain tail st2 where tl: "rx_sub_from ic r f (fst t) (fst (snd t)) st1 = (tail, st2)" by (metis prod.exhaust)
  have out: "out = pre @ o1 @ tail" "st' = st2" using sub_some [OF cut(1-4) o1 tl] cut.prems(2) by simp_all
  have s: "I st1" "o1 = w \<or> P o1" using step [OF cut.prems(1) o1] by simp_all
  have t: "I st2" "patched P (fst (snd t)) tail" using cut(5) [OF s(1) tl] by simp_all
  have "patched P (pre @ w @ fst (snd t)) (pre @ o1 @ tail)"
    using s(2) t(2) patched_prepend [of P "fst (snd t)" tail "pre @ w"] patched.put [of P o1 "fst (snd t)" tail pre w] by auto
  with t(1) cut(2) show ?case by (simp add: out)
qed

text \<open>
  A substitution whose pieces no longer depend on the state once it has run gives the same
  text again from any later state.
\<close>

lemma sub_settled:
  assumes step: "\<And>w st out st'. I st \<Longrightarrow> f w st = (out, st') \<Longrightarrow> I st' \<and> ext st st'
      \<and> (\<forall>st2. I st2 \<longrightarrow> ext st' st2 \<longrightarrow> (\<exists>st3. g w st2 = (out, st3) \<and> I st3 \<and> ext st2 st3))"
    and refl: "\<And>st. ext st st" and trans: "\<And>x y z. ext x y \<Longrightarrow> ext y z \<Longrightarrow> ext x z"
  shows "I st \<Longrightarrow> rx_sub_from ic r f b a st = (out, st') \<Longrightarrow> I st' \<and> ext st st'
      \<and> (\<forall>st2. I st2 \<longrightarrow> ext st' st2 \<longrightarrow> (\<exists>st3. rx_sub_from ic r g b a st2 = (out, st3) \<and> I st3 \<and> ext st2 st3))"
proof (induction b a arbitrary: st out st' rule: sub_induct [of ic r])
  case (none b a)
  then show ?case using refl by (auto simp: sub_none)
next
  case (stop b a t)
  then show ?case using refl by (auto simp: sub_stop)
next
  case (cut b a t pre w)
  obtain o1 st1 where o1: "f w st = (o1, st1)" by (metis prod.exhaust)
  obtain tail stt where tl: "rx_sub_from ic r f (fst t) (fst (snd t)) st1 = (tail, stt)" by (metis prod.exhaust)
  have out: "out = pre @ o1 @ tail" "st' = stt" using sub_some [OF cut(1-4) o1 tl] cut.prems(2) by simp_all
  note s = step [OF cut.prems(1) o1]
  note t = cut(5) [OF conjunct1 [OF s] tl]
  have "\<exists>st3. rx_sub_from ic r g b a st2 = (out, st3) \<and> I st3 \<and> ext st2 st3" if st2: "I st2" "ext st' st2" for st2
  proof -
    have "ext st1 st2" using t st2(2) trans out(2) by blast
    with s st2(1) obtain st3 where st3: "g w st2 = (o1, st3)" "I st3" "ext st2 st3" by blast
    moreover have "ext stt st3" using st2(2) st3(3) trans out(2) by blast
    ultimately obtain st4 where st4: "rx_sub_from ic r g (fst t) (fst (snd t)) st3 = (tail, st4)" "I st4" "ext st3 st4"
      using t by blast
    have "rx_sub_from ic r g b a st2 = (out, st4)" using sub_some [OF cut(1-4) st3(1) st4(1)] out(1) by simp
    with st4 st3(3) trans show ?thesis by blast
  qed
  with s t trans out(2) show ?case by blast
qed

section \<open>A literal in any case\<close>

lemma lower_less: "lower_char x = CHR ''<'' \<longleftrightarrow> x = CHR ''<''" "lower_char x = CHR ''>'' \<longleftrightarrow> x = CHR ''>''"
  by (auto simp: lower_char_def Let_def split: if_splits dest!: arg_cong [of _ _ code_of])

text \<open>Under \<open>re.IGNORECASE\<close> a character of a literal matches exactly its case variants.\<close>

lemma csets_lit: "in_csets True [CLit c] x \<longleftrightarrow> lower_char x = lower_char c"
proof
  assume "in_csets True [CLit c] x"
  then show "lower_char x = lower_char c" by (rule in_csets_lit_lower)
next
  let ?up = "\<lambda>n::nat. (65 \<le> n \<and> n \<le> 90) \<or> (192 \<le> n \<and> n \<le> 222 \<and> n \<noteq> 215)"
  assume eq: "lower_char x = lower_char c"
  show "in_csets True [CLit c] x"
  proof (cases "x = c \<or> lower_char x = c")
    case True
    then show ?thesis by (auto simp: in_csets_def)
  next
    case False
    have up: "?up (code_of c)"
    proof (rule ccontr)
      assume "\<not> ?up (code_of c)"
      then have "lower_char c = c" unfolding lower_char_def Let_def by (rule if_not_P)
      with False eq show False by metis
    qed
    have "lower_char c = char_of (code_of c + 32)" unfolding lower_char_def Let_def using up by (rule if_P)
    moreover have "code_of c + 32 < 256" using up by auto
    ultimately have n: "code_of (lower_char c) = code_of c + 32" by simp
    have "\<not> ?up (code_of x)"
    proof
      assume x: "?up (code_of x)"
      then have "lower_char x = char_of (code_of x + 32)" unfolding lower_char_def Let_def by (rule if_P)
      moreover have "code_of x + 32 < 256" using x by auto
      ultimately have "code_of (lower_char x) = code_of x + 32" by simp
      then have "code_of (lower_char c) = code_of x + 32" unfolding eq .
      with n have "code_of x = code_of c" by linarith
      then have "x = c" by (metis char_of_char)
      with False show False by simp
    qed
    then have "lower_char x = x" unfolding lower_char_def Let_def by (rule if_not_P)
    then have xn: "code_of x = code_of c + 32" using n eq by simp
    with up have "(97 \<le> code_of x \<and> code_of x \<le> 122) \<or> (224 \<le> code_of x \<and> code_of x \<le> 254 \<and> code_of x \<noteq> 247)" by auto
    then have "upper_char x = char_of (code_of x - 32)" unfolding upper_char_def Let_def by (rule if_P)
    then have "upper_char x = c" using xn by simp
    then show ?thesis by (simp add: in_csets_def)
  qed
qed

lemma run_literal_ic: "rx_run True (RStr v) (b, a, g) =
    (if prefix (py_lower v) (py_lower a) then [(rev (take (length v) a) @ b, drop (length v) a, g)] else [])"
proof (induction v arbitrary: b a)
  case (Cons c v)
  then show ?case by (cases a) (auto simp: csets_lit)
qed simp

lemma literal_at: "rx_match_at True (RGroup 0 (RStr v)) b a = None \<longleftrightarrow> \<not> prefix (py_lower v) (py_lower a)"
  by (simp add: rx_match_at_def run_literal_ic head_opt_def)

lemma literal_search: "rx_search_from True (RGroup 0 (RStr v)) b a = None \<longleftrightarrow> \<not> sublist (py_lower v) (py_lower a)"
proof (induction a arbitrary: b)
  case Nil
  then show ?case using literal_at [of v b "[]"] by simp
next
  case (Cons c a)
  then show ?case using literal_at [of v b "c # a"]
    by (cases "rx_match_at True (RGroup 0 (RStr v)) b (c # a)") (auto simp: sublist_Cons_right)
qed

text \<open>\<open>v\<close> is mentioned in \<open>s\<close>: it occurs there in some case.\<close>

definition mentions :: "string \<Rightarrow> string \<Rightarrow> bool" where
  "mentions v s = occurs (py_lower v) (py_lower s)"

lemma mentions_sublist: "mentions v s \<longleftrightarrow> sublist (py_lower v) (py_lower s)"
  by (simp add: mentions_def occurs_iff_sublist)

lemma sublist_split: "sublist l (x @ c # y) \<Longrightarrow> c \<notin> set l \<Longrightarrow> sublist l x \<or> sublist l y"
proof (induction x)
  case Nil
  then show ?case by (cases l) (auto simp: sublist_Cons_right)
next
  case (Cons d x)
  show ?case
  proof (cases "prefix l (d # x @ c # y)")
    case True
    then obtain zs where zs: "l @ zs = (d # x) @ c # y" by (auto simp: prefix_def)
    then consider us where "l = (d # x) @ us" "us @ zs = c # y" | us where "l @ us = d # x"
      using append_eq_append_conv2 [of l zs "d # x" "c # y"] by metis
    then have "prefix l (d # x)"
    proof cases
      case 1
      then show ?thesis using Cons.prems(2) by (cases us) auto
    next
      case 2
      then show ?thesis by (metis prefixI)
    qed
    then show ?thesis by (simp add: prefix_imp_sublist)
  next
    case False
    then have "sublist l (x @ c # y)" using Cons.prems(1) by (auto simp: sublist_Cons_right)
    with Cons.IH Cons.prems(2) show ?thesis by (auto simp: sublist_Cons_right)
  qed
qed

text \<open>A piece in angle brackets that does not mention \<open>v\<close> brings no new mention of it.\<close>

definition bracket_free :: "string \<Rightarrow> bool" where
  "bracket_free v = (v \<noteq> [] \<and> CHR ''<'' \<notin> set v \<and> CHR ''>'' \<notin> set v)"

lemma mentions_bracket:
  assumes "bracket_free v" "mentions v (x @ ''<'' @ t @ ''>'' @ y)" "\<not> mentions v t"
  shows "mentions v x \<or> mentions v y"
proof -
  have lt: "CHR ''<'' \<notin> set (py_lower v)" "CHR ''>'' \<notin> set (py_lower v)"
    using assms(1) lower_less unfolding bracket_free_def py_lower_def set_map by (metis imageE)+
  have low: "lower_char (CHR ''<'') = CHR ''<''" "lower_char (CHR ''>'') = CHR ''>''"
    by (rule lower_less(1) [THEN iffD2, OF refl], rule lower_less(2) [THEN iffD2, OF refl])
  have "py_lower (x @ ''<'' @ t @ ''>'' @ y) = py_lower x @ CHR ''<'' # (py_lower t @ CHR ''>'' # py_lower y)"
    by (simp only: py_lower_simps append.simps low)
  with assms(2) have "sublist (py_lower v) (py_lower x @ CHR ''<'' # (py_lower t @ CHR ''>'' # py_lower y))"
    by (simp only: mentions_sublist)
  from sublist_split [OF this lt(1)] show ?thesis
  proof
    assume "sublist (py_lower v) (py_lower x)"
    then show ?thesis by (simp add: mentions_sublist)
  next
    assume "sublist (py_lower v) (py_lower t @ CHR ''>'' # py_lower y)"
    from sublist_split [OF this lt(2)] assms(3) show ?thesis by (simp add: mentions_sublist)
  qed
qed

lemma mentions_append: "mentions v x \<Longrightarrow> mentions v (y @ x @ z)"
proof -
  assume "mentions v x"
  then obtain ps ss where "py_lower x = ps @ py_lower v @ ss" by (auto simp: mentions_sublist sublist_def)
  then have "py_lower (y @ x @ z) = (py_lower y @ ps) @ py_lower v @ (ss @ py_lower z)" by simp
  then show ?thesis unfolding mentions_sublist sublist_def by blast
qed

lemma patched_mentions:
  assumes "\<And>p. P p \<Longrightarrow> \<exists>t. p = ''<'' @ t @ ''>'' \<and> \<not> mentions v t" "bracket_free v"
  shows "patched P old new \<Longrightarrow> mentions v new \<Longrightarrow> mentions v old"
proof (induction rule: patched.induct)
  case (put new u y x w)
  obtain t where t: "new = ''<'' @ t @ ''>''" "\<not> mentions v t" using assms(1) [OF put(1)] by blast
  with put.prems mentions_bracket [OF assms(2), of x t y] have "mentions v x \<or> mentions v y" by simp
  with put(3) show ?case using mentions_append [of v x "[]" "w @ u"] mentions_append [of v u "x @ w" "[]"] by auto
qed

text \<open>Replacing a literal by a piece in brackets that does not mention it leaves no mention of it.\<close>

lemma literal_gone:
  assumes v: "bracket_free v" and t: "\<not> mentions v t" and f: "\<And>w st. fst (f w st) = ''<'' @ t @ ''>''"
  shows "\<not> mentions v (fst (rx_sub_from True (RStr v) f b a st))"
proof (induction b a arbitrary: st rule: sub_induct [of True "RStr v"])
  case (none b a)
  then show ?case by (simp add: sub_none literal_search mentions_sublist)
next
  case (stop b a t')
  from search_cut [OF stop(1)] obtain pre w where c: "a = pre @ w @ fst (snd t')" "matched_text t' = w"
      "rx_match_at True (RGroup 0 (RStr v)) (rev pre @ b) (drop (length pre) a) = Some t'" by metis
  have "prefix (py_lower v) (py_lower (drop (length pre) a))" using c(3) literal_at by (metis option.distinct(1))
  moreover have "fst (snd t') = drop (length v) (drop (length pre) a)"
    using c(3) by (auto simp: rx_match_at_def run_literal_ic head_opt_def close_group_def split: if_splits)
  ultimately have "length (fst (snd t')) < length a"
    using v prefix_length_le [of "py_lower v" "py_lower (drop (length pre) a)"] length_greater_0_conv [of v]
    by (simp add: bracket_free_def del: length_greater_0_conv)
  with stop show ?case by simp
next
  case (cut b a t' pre w)
  from search_cut [OF cut(1)] obtain pre' w' where c: "a = pre' @ w' @ fst (snd t')" "matched_text t' = w'"
      "\<forall>i < length pre'. rx_match_at True (RGroup 0 (RStr v)) (rev (take i a) @ b) (drop i a) = None" by metis
  with cut(2,3) have pre: "pre' = pre" by simp
  have "\<not> mentions v pre"
  proof
    assume "mentions v pre"
    then obtain ps ss where ps: "py_lower pre = ps @ py_lower v @ ss" unfolding mentions_sublist by (auto simp: sublist_def)
    have "length ps < length pre" using arg_cong [OF ps, of length] v by (simp add: bracket_free_def)
    moreover have "prefix (py_lower v) (py_lower (drop (length ps) a))"
    proof -
      have "py_lower (drop (length ps) a) = drop (length ps) (py_lower a)" by (simp add: py_lower_def drop_map)
      also have "\<dots> = py_lower v @ ss @ py_lower (w @ fst (snd t'))" unfolding cut(2) using ps by simp
      finally show ?thesis by simp
    qed
    ultimately show False using c(3) literal_at pre by blast
  qed
  moreover obtain o1 st1 where o1: "f w st = (o1, st1)" by (metis prod.exhaust)
  moreover obtain tail st2 where tl: "rx_sub_from True (RStr v) f (fst t') (fst (snd t')) st1 = (tail, st2)" by (metis prod.exhaust)
  moreover have "\<not> mentions v tail" using cut(5) [of st1] tl by simp
  moreover have "o1 = ''<'' @ t @ ''>''" using f [of w st] o1 by simp
  ultimately show ?case
    using sub_some [OF cut(1-4) o1 tl] mentions_bracket [OF v, of pre t tail] t by auto
qed

end
