(* ===== verification/Redactor_Facts.thy ===== *)
theory Redactor_Facts
  imports Redactor Rx_Subst
begin

text \<open>
  What the redactor promises: its tokens stand for one value each, a text gets the same
  tokens whenever it is scrubbed, and the values found by the first pass leave no trace.
\<close>

section \<open>Tokens\<close>

lemma kind_name_chars: "CHR ''_'' \<notin> set (kind_name k)"
  by (cases k) simp_all

lemma show_token_inj: "show_token k n = show_token j m \<longleftrightarrow> k = j \<and> n = m"
proof
  assume eq: "show_token k n = show_token j m"
  then have body: "kind_name k @ ''_'' @ pad 3 n = kind_name j @ ''_'' @ pad 3 m" by (simp add: show_token_def)
  have cut: "takeWhile (\<lambda>c. c \<noteq> CHR ''_'') (kind_name i @ ''_'' @ p) = kind_name i" for i p
    using kind_name_chars [of i] by (subst takeWhile_append2) auto
  have "kind_name k = kind_name j" using arg_cong [OF body, of "takeWhile (\<lambda>c. c \<noteq> CHR ''_'')"] cut by simp
  then have "k = j" by (cases k; cases j) simp_all
  moreover have "pad 3 n = pad 3 m" using body \<open>kind_name k = kind_name j\<close> by simp
  then have "n = m" by (metis nat_of_pad)
  ultimately show "k = j \<and> n = m" ..
qed simp

definition is_token :: "string \<Rightarrow> bool" where
  "is_token t = (\<exists>k n. t = show_token k n)"

section \<open>The table\<close>

definition all_kinds :: "pii_kind list" where
  "all_kinds = [HOST, USER, DOMAIN, EMAIL, IP, MAC, TOKEN, SID]"

lemma all_kinds_set: "k \<in> set all_kinds"
  by (cases k) (simp_all add: all_kinds_def)

text \<open>An entry: its token is numbered within its kind and turns back into a value with that key.\<close>

definition entry_ok :: "redactor \<Rightarrow> string \<times> string \<Rightarrow> bool" where
  "entry_ok r e = (case e of (key, tok) \<Rightarrow>
     (case dict_get (rev_map r) tok of None \<Rightarrow> False | Some raw \<Rightarrow> list_ex (\<lambda>k. key_of k raw = key) all_kinds)
     \<and> list_ex (\<lambda>k. tok \<in> set (map (show_token k) [1..<dict_getd (counters r) k 0 + 1])) all_kinds)"

definition literal_ok :: "redactor \<Rightarrow> pii_kind \<times> string \<Rightarrow> bool" where
  "literal_ok r l = (snd l \<noteq> [] \<and> key_of (fst l) (snd l) \<in> set (dict_keys (mapping r)))"

definition table_ok :: "redactor \<Rightarrow> bool" where
  "table_ok r = (distinct (dict_keys (mapping r)) \<and> distinct (map snd (mapping r)) \<and> list_all (entry_ok r) (mapping r)
     \<and> list_all (literal_ok r) (literals r) \<and> set (dict_keys (rev_map r)) = set (map snd (mapping r)))"

lemma entry_token: "entry_ok r (key, tok) \<Longrightarrow> \<exists>k n. tok = show_token k n \<and> 1 \<le> n \<and> n \<le> dict_getd (counters r) k 0"
  by (fastforce simp: entry_ok_def list_ex_iff)

lemma dict_set_new: "k \<notin> set (dict_keys d) \<Longrightarrow> dict_set k v d = d @ [(k, v)]"
  by (induction d) (auto simp: dict_set_def)

lemma table_ok_hit [simp]: "table_ok (hit k r) = table_ok r"
  by (simp add: table_ok_def hit_def entry_ok_def [abs_def] literal_ok_def [abs_def])

lemma intern_new:
  assumes ok: "table_ok r" and new: "dict_get (mapping r) (key_of k raw) = None"
    and r': "intern k raw r = (tok, r')"
  shows "table_ok r' \<and> tok = show_token k (dict_getd (counters r) k 0 + 1)
    \<and> mapping r' = mapping r @ [(key_of k raw, tok)] \<and> literals r' = literals r"
proof -
  let ?n = "dict_getd (counters r) k 0 + 1" and ?key = "key_of k raw"
  have nk: "?key \<notin> set (dict_keys (mapping r))" using new by (simp add: map_of_eq_None_iff)
  have tok: "tok = show_token k ?n" and r: "r' = r\<lparr>counters := dict_set k ?n (counters r), mapping := mapping r @ [(?key, tok)],
      rev_map := dict_set tok raw (rev_map r)\<rparr>"
    using r' new nk by (auto simp: intern_def Let_def dict_set_new)
  have fresh: "tok \<notin> set (map snd (mapping r))"
  proof
    assume "tok \<in> set (map snd (mapping r))"
    then obtain key where "(key, tok) \<in> set (mapping r)" by auto
    with ok have "entry_ok r (key, tok)" by (auto simp: table_ok_def list_all_iff)
    from entry_token [OF this] show False unfolding tok show_token_inj by auto
  qed
  have grow: "dict_getd (counters r) j 0 \<le> dict_getd (counters r') j 0" for j
    by (auto simp: r dict_getd_def dict_get_set)
  have old: "entry_ok r' e" if "e \<in> set (mapping r)" for e
  proof -
    obtain key t where e: "e = (key, t)" by (cases e)
    with that fresh have "t \<noteq> tok" by force
    then have "dict_get (rev_map r') t = dict_get (rev_map r) t" by (simp add: r dict_get_set)
    moreover have "t \<in> set (map (show_token j) [1..<dict_getd (counters r') j 0 + 1])"
      if "t \<in> set (map (show_token j) [1..<dict_getd (counters r) j 0 + 1])" for j
      using that grow [of j] by fastforce
    ultimately show ?thesis using ok that unfolding table_ok_def list_all_iff
      by (fastforce simp: e entry_ok_def list_ex_iff split: option.splits)
  qed
  have "dict_getd (counters r') k 0 = ?n" by (simp add: r dict_getd_def dict_get_set)
  then have "tok \<in> set (map (show_token k) [1..<dict_getd (counters r') k 0 + 1])" unfolding tok by simp
  moreover have "dict_get (rev_map r') tok = Some raw" by (simp add: r dict_get_set)
  ultimately have "entry_ok r' (?key, tok)" using all_kinds_set [of k] by (auto simp: entry_ok_def list_ex_iff)
  moreover have "list_all (literal_ok r') (literals r')" using ok by (auto simp: table_ok_def literal_ok_def list_all_iff r)
  moreover have "set (dict_keys (rev_map r')) = set (map snd (mapping r'))"
    using ok unfolding table_ok_def r by (simp add: dict_keys_set del: set_map)
  ultimately have "table_ok r'"
    using ok old nk fresh unfolding table_ok_def by (auto simp: r list_all_iff)
  with tok r show ?thesis by simp
qed

definition extends :: "redactor \<Rightarrow> redactor \<Rightarrow> bool" where
  "extends r s = (map_of (mapping r) \<subseteq>\<^sub>m map_of (mapping s) \<and> literals s = literals r)"

lemma extends_refl [simp]: "extends r r"
  by (simp add: extends_def)

lemma extends_trans: "extends r s \<Longrightarrow> extends s t \<Longrightarrow> extends r t"
  by (auto simp: extends_def intro: map_le_trans)

lemma extends_hit [simp]: "extends (hit k r) s = extends r s" "extends r (hit k s) = extends r s"
  by (simp_all add: extends_def hit_def)

lemma hit_fields [simp]: "mapping (hit k r) = mapping r" "literals (hit k r) = literals r"
  by (simp_all add: hit_def)

lemma intern_ok:
  assumes "table_ok r" "intern k raw r = (tok, r')"
  shows "table_ok r' \<and> extends r r' \<and> is_token tok \<and> dict_get (mapping r') (key_of k raw) = Some tok"
proof (cases "dict_get (mapping r) (key_of k raw)")
  case None
  from intern_new [OF assms(1) None assms(2)] None show ?thesis
    by (auto simp: extends_def map_le_def is_token_def map_add_def split: option.split)
next
  case (Some t)
  then have "(key_of k raw, t) \<in> set (mapping r)" by (rule map_of_SomeD)
  then have "entry_ok r (key_of k raw, t)" using assms(1) by (auto simp: table_ok_def list_all_iff)
  from entry_token [OF this] Some assms show ?thesis by (auto simp: intern_def is_token_def)
qed

lemma intern_again: "dict_get (mapping r) (key_of k raw) = Some tok \<Longrightarrow> intern k raw r = (tok, r)"
  by (simp add: intern_def)

section \<open>Every run keeps the table\<close>

datatype event = Prepass "string option list" "string option list" | Scrub string

fun redactor_step :: "redactor \<Rightarrow> event \<Rightarrow> redactor" where
  "redactor_step r (Prepass as ss) = prepass as ss r"
| "redactor_step r (Scrub text) = snd (scrub text r)"

lemma table_ok_note: "table_ok r \<Longrightarrow> table_ok (note_value k v r)"
proof -
  assume ok: "table_ok r"
  obtain tok r' where r': "intern k (py_strip v) r = (tok, r')" by (metis prod.exhaust)
  from intern_ok [OF ok r'] have "table_ok r'" "key_of k (py_strip v) \<in> set (dict_keys (mapping r'))"
    by (auto dest: map_of_SomeD simp: image_iff) (metis fst_conv map_of_SomeD)
  with ok show ?thesis
    by (auto simp: note_value_def Let_def r' table_ok_def literal_ok_def list_all_iff entry_ok_def)
qed

lemma table_ok_prepass_file: "table_ok r \<Longrightarrow> table_ok (prepass_file c r)"
proof -
  have inner: "table_ok r \<Longrightarrow> table_ok (fold (\<lambda>m. note_value k (g m)) ms r)" for k ms r and g :: "rpos \<Rightarrow> string"
    by (induction ms arbitrary: r) (auto simp: table_ok_note)
  have "table_ok r \<Longrightarrow> table_ok (fold (\<lambda>(k, rx). fold (\<lambda>m. note_value k (g m)) (rx_finditer True rx b)) rules r)"
    for rules b r and g :: "rpos \<Rightarrow> string"
    by (induction rules arbitrary: r) (auto simp: inner)
  then show "table_ok r \<Longrightarrow> table_ok (prepass_file c r)" by (simp add: prepass_file_def Let_def split: option.split)
qed

lemma table_ok_prepass: "table_ok r \<Longrightarrow> table_ok (prepass as ss r)"
proof -
  have files: "table_ok r \<Longrightarrow> table_ok (fold prepass_file cs r)" for cs r
    by (induction cs arbitrary: r) (auto simp: table_ok_prepass_file)
  have "table_ok (s\<lparr>literals := sort_key f (literals s)\<rparr>)" if "table_ok s" for s and f :: "pii_kind \<times> string \<Rightarrow> int"
    using that by (auto simp: table_ok_def list_all_iff entry_ok_def literal_ok_def)
  then show "table_ok r \<Longrightarrow> table_ok (prepass as ss r)" by (simp add: prepass_def Let_def files)
qed

section \<open>The scrub in pieces\<close>

lemma redact_ok:
  assumes "table_ok r" "redact k keep w r = (out, r')"
  shows "table_ok r' \<and> extends r r' \<and> (out = w \<or> is_token out)"
proof (cases "keep w")
  case True
  with assms show ?thesis by (simp add: redact_def)
next
  case False
  with assms have "intern k w (hit k r) = (out, r')" by (simp add: redact_def)
  from intern_ok [OF _ this] assms(1) show ?thesis by simp
qed

lemma redact_again:
  assumes "table_ok r" "redact k keep w r = (out, r')" "extends r' s"
  shows "\<exists>s'. redact k keep w s = (out, s') \<and> (table_ok s \<longrightarrow> table_ok s') \<and> extends s s'"
proof (cases "keep w")
  case True
  with assms show ?thesis by (simp add: redact_def)
next
  case False
  with assms(2) have i: "intern k w (hit k r) = (out, r')" by (simp add: redact_def)
  then have "dict_get (mapping r') (key_of k w) = Some out" using intern_ok [OF _ i] assms(1) by simp
  then have "dict_get (mapping (hit k s)) (key_of k w) = Some out"
    using assms(3) by (auto simp: extends_def map_le_def dom_def)
  then have "redact k keep w s = (out, hit k s)" using False by (simp add: redact_def intern_again)
  then show ?thesis by simp
qed

definition token_at :: "redactor \<Rightarrow> pii_kind \<times> string \<Rightarrow> string" where
  "token_at r l = dict_getd (mapping r) (key_of (fst l) (snd l)) []"

lemma token_at_ok:
  assumes "table_ok r" "literal_ok r l"
  shows "is_token (token_at r l)" "extends r s \<Longrightarrow> token_at s l = token_at r l"
proof -
  from assms(2) obtain t where t: "dict_get (mapping r) (key_of (fst l) (snd l)) = Some t"
    unfolding literal_ok_def by (metis list.set_map map_of_eq_None_iff option.exhaust)
  then have "entry_ok r (key_of (fst l) (snd l), t)" using assms(1) map_of_SomeD [OF t] by (auto simp: table_ok_def list_all_iff)
  from entry_token [OF this] t show "is_token (token_at r l)" by (auto simp: token_at_def dict_getd_def is_token_def)
  show "extends r s \<Longrightarrow> token_at s l = token_at r l"
    using t by (auto simp: extends_def map_le_def dom_def token_at_def dict_getd_def)
qed

lemma put_token_ok: "table_ok r \<Longrightarrow> put_token k tok w r = (out, r') \<Longrightarrow> table_ok r' \<and> extends r r' \<and> out = tok"
  by (auto simp: put_token_def)

lemma run_literal_eq: "run_literal l (t, r) = rx_sub True (RStr (snd l)) (put_token (fst l) (token_at r l)) t r"
  by (cases l) (simp add: run_literal_def token_at_def)

text \<open>A value that no token can be mistaken for: it is not part of one and has no bracket.\<close>

definition safe_literal :: "string \<Rightarrow> bool" where
  "safe_literal v = (bracket_free v \<and> (\<forall>k n. \<not> mentions v (kind_name k @ ''_'' @ pad 3 n)))"

text \<open>What a stage of the scrub keeps, and that it gives the same text from any later table.\<close>

definition quiet :: "string \<Rightarrow> string \<Rightarrow> bool" where
  "quiet t out = (\<forall>v. safe_literal v \<longrightarrow> mentions v out \<longrightarrow> mentions v t)"

lemma quiet_patched: "patched is_token t out \<Longrightarrow> quiet t out"
  unfolding quiet_def
proof (intro allI impI)
  fix v assume p: "patched is_token t out" and v: "safe_literal v" "mentions v out"
  have "\<exists>u. q = ''<'' @ u @ ''>'' \<and> \<not> mentions v u" if tk: "is_token q" for q
  proof -
    obtain k n where q: "q = ''<'' @ (kind_name k @ ''_'' @ pad 3 n) @ ''>''"
      using tk by (auto simp: is_token_def show_token_def)
    from v(1) have "\<not> mentions v (kind_name k @ ''_'' @ pad 3 n)" unfolding safe_literal_def by blast
    with q show ?thesis by blast
  qed
  moreover have "bracket_free v" using v(1) by (simp add: safe_literal_def)
  ultimately show "mentions v t" using p v(2) by (rule patched_mentions)
qed

definition stage_ok :: "(string \<times> redactor \<Rightarrow> string \<times> redactor) \<Rightarrow> redactor \<Rightarrow> bool" where
  "stage_ok f r = (\<forall>t out r'. f (t, r) = (out, r') \<longrightarrow> table_ok r' \<and> extends r r' \<and> quiet t out
     \<and> (\<forall>s. table_ok s \<longrightarrow> extends r' s \<longrightarrow> (\<exists>s'. f (t, s) = (out, s') \<and> table_ok s' \<and> extends s s')))"

lemma pass_stage: "table_ok r \<Longrightarrow> stage_ok (run_pass p) r"
  unfolding stage_ok_def
proof (intro allI impI)
  fix t out r'
  assume ok: "table_ok r" and run: "run_pass p (t, r) = (out, r')"
  obtain k rx keep where p: "p = (k, rx, keep)" by (cases p) auto
  from run have sub: "rx_sub_from False rx (redact k keep) [] t r = (out, r')" by (simp add: run_pass_def p rx_sub_def)
  have 1: "table_ok r' \<and> patched is_token t out"
    by (rule sub_patched [where I = table_ok, OF _ ok sub]) (use redact_ok in blast)
  have 2: "table_ok r' \<and> extends r r' \<and> (\<forall>s. table_ok s \<longrightarrow> extends r' s \<longrightarrow>
      (\<exists>s'. rx_sub_from False rx (redact k keep) [] t s = (out, s') \<and> table_ok s' \<and> extends s s'))"
  proof (rule sub_settled [where I = table_ok and ext = extends, OF _ extends_refl extends_trans ok sub])
    fix w st o1 st1 assume "table_ok st" "redact k keep w st = (o1, st1)"
    then show "table_ok st1 \<and> extends st st1 \<and> (\<forall>s. table_ok s \<longrightarrow> extends st1 s \<longrightarrow>
        (\<exists>s'. redact k keep w s = (o1, s') \<and> table_ok s' \<and> extends s s'))"
      using redact_ok redact_again by blast
  qed
  from quiet_patched [OF conjunct2 [OF 1]] 2 show "table_ok r' \<and> extends r r' \<and> quiet t out \<and> (\<forall>s. table_ok s \<longrightarrow> extends r' s \<longrightarrow>
      (\<exists>s'. run_pass p (t, s) = (out, s') \<and> table_ok s' \<and> extends s s'))"
    by (simp add: run_pass_def p rx_sub_def)
qed

lemma literal_stage: "table_ok r \<Longrightarrow> literal_ok r l \<Longrightarrow> stage_ok (run_literal l) r"
  unfolding stage_ok_def
proof (intro allI impI)
  fix t out r'
  assume ok: "table_ok r" and l: "literal_ok r l" and run: "run_literal l (t, r) = (out, r')"
  let ?f = "put_token (fst l) (token_at r l)"
  have sub: "rx_sub_from True (RStr (snd l)) ?f [] t r = (out, r')" using run by (simp add: run_literal_eq rx_sub_def)
  note tok = token_at_ok [OF ok l]
  have 1: "table_ok r' \<and> patched is_token t out"
    by (rule sub_patched [where I = table_ok, OF _ ok sub]) (use put_token_ok tok(1) in blast)
  have 2: "table_ok r' \<and> extends r r' \<and> (\<forall>s. table_ok s \<longrightarrow> extends r' s \<longrightarrow>
      (\<exists>s'. rx_sub_from True (RStr (snd l)) ?f [] t s = (out, s') \<and> table_ok s' \<and> extends s s'))"
  proof (rule sub_settled [where I = table_ok and ext = extends, OF _ extends_refl extends_trans ok sub])
    fix w st o1 st1 assume st: "table_ok st" "?f w st = (o1, st1)"
    have "?f w s = (o1, hit (fst l) s) \<and> table_ok (hit (fst l) s) \<and> extends s (hit (fst l) s)" if "table_ok s" for s
      using that st(2) by (auto simp: put_token_def)
    with put_token_ok [OF st] show "table_ok st1 \<and> extends st st1 \<and> (\<forall>s. table_ok s \<longrightarrow> extends st1 s \<longrightarrow>
        (\<exists>s'. ?f w s = (o1, s') \<and> table_ok s' \<and> extends s s'))" by blast
  qed
  have "\<exists>s'. run_literal l (t, s) = (out, s') \<and> table_ok s' \<and> extends s s'" if s: "table_ok s" "extends r' s" for s
  proof -
    have "token_at s l = token_at r l" using tok(2) 2 extends_trans s(2) by blast
    with 2 s show ?thesis by (simp add: run_literal_eq rx_sub_def)
  qed
  with quiet_patched [OF conjunct2 [OF 1]] 2 show "table_ok r' \<and> extends r r' \<and> quiet t out \<and> (\<forall>s. table_ok s \<longrightarrow> extends r' s \<longrightarrow>
      (\<exists>s'. run_literal l (t, s) = (out, s') \<and> table_ok s' \<and> extends s s'))" by blast
qed

lemma stage_comp:
  assumes f: "stage_ok f r" and g: "\<And>r'. table_ok r' \<Longrightarrow> literals r' = literals r \<Longrightarrow> stage_ok g r'"
  shows "stage_ok (g \<circ> f) r"
  unfolding stage_ok_def
proof (intro allI impI)
  fix t out r2
  assume "(g \<circ> f) (t, r) = (out, r2)"
  then obtain mid r1 where m: "f (t, r) = (mid, r1)" "g (mid, r1) = (out, r2)" by (metis comp_apply prod.exhaust)
  have 1: "table_ok r1" "extends r r1" "quiet t mid"
      "\<And>s. table_ok s \<Longrightarrow> extends r1 s \<Longrightarrow> \<exists>s'. f (t, s) = (mid, s') \<and> table_ok s' \<and> extends s s'"
    using f m(1) unfolding stage_ok_def by blast+
  then have "stage_ok g r1" by (intro g) (auto simp: extends_def)
  then have 2: "table_ok r2" "extends r1 r2" "quiet mid out"
      "\<And>s. table_ok s \<Longrightarrow> extends r2 s \<Longrightarrow> \<exists>s'. g (mid, s) = (out, s') \<and> table_ok s' \<and> extends s s'"
    using m(2) unfolding stage_ok_def by blast+
  have "\<exists>s'. (g \<circ> f) (t, s) = (out, s') \<and> table_ok s' \<and> extends s s'" if s: "table_ok s" "extends r2 s" for s
  proof -
    from 1(4) [OF s(1)] 2(2) s(2) obtain s1 where s1: "f (t, s) = (mid, s1)" "table_ok s1" "extends s s1"
      using extends_trans by blast
    from 2(4) [OF s1(2)] s1(3) s(2) obtain s2 where "g (mid, s1) = (out, s2)" "table_ok s2" "extends s1 s2"
      using extends_trans by blast
    with s1 show ?thesis using extends_trans by auto
  qed
  with 1 2 show "table_ok r2 \<and> extends r r2 \<and> quiet t out \<and>
      (\<forall>s. table_ok s \<longrightarrow> extends r2 s \<longrightarrow> (\<exists>s'. (g \<circ> f) (t, s) = (out, s') \<and> table_ok s' \<and> extends s s'))"
    using extends_trans by (auto simp: quiet_def)
qed

lemma stage_fold:
  assumes "\<And>x r'. x \<in> set xs \<Longrightarrow> table_ok r' \<Longrightarrow> literals r' = literals r \<Longrightarrow> stage_ok (f x) r'" "table_ok r"
  shows "stage_ok (fold f xs) r"
  using assms
proof (induction xs rule: rev_induct)
  case Nil
  then show ?case by (auto simp: stage_ok_def quiet_def)
next
  case (snoc x xs)
  then have "stage_ok (f x \<circ> fold f xs) r" by (intro stage_comp) auto
  then show ?case by (simp add: comp_def)
qed

lemma literals_stage:
  assumes "table_ok r" "set ls \<subseteq> set (literals r)"
  shows "stage_ok (fold run_literal ls) r"
proof (rule stage_fold [OF _ assms(1)])
  fix l r' assume "l \<in> set ls" "table_ok r'" "literals r' = literals r"
  with assms(2) show "stage_ok (run_literal l) r'"
    by (intro literal_stage) (auto simp: table_ok_def list_all_iff)
qed

lemma passes_stage: "table_ok r \<Longrightarrow> stage_ok (fold run_pass ps) r"
  by (rule stage_fold) (auto intro: pass_stage)

lemma scrub_eq: "text \<noteq> [] \<Longrightarrow> scrub text r = (fold run_pass passes \<circ> fold run_literal (literals r)) (text, r)"
  by (simp add: scrub_def)

lemma scrub_stage: "table_ok r \<Longrightarrow> stage_ok (fold run_pass passes \<circ> fold run_literal (literals r)) r"
  by (intro stage_comp literals_stage passes_stage) auto

lemma scrub_ok:
  assumes "table_ok r" "scrub text r = (out, r')"
  shows "table_ok r' \<and> extends r r' \<and> (\<forall>s. table_ok s \<longrightarrow> extends r' s \<longrightarrow> fst (scrub text s) = out)"
proof (cases "text = []")
  case True
  with assms show ?thesis by (auto simp: scrub_def)
next
  case False
  let ?f = "fold run_pass passes \<circ> fold run_literal (literals r)"
  from assms(2) False have "?f (text, r) = (out, r')" by (simp add: scrub_eq)
  with scrub_stage [OF assms(1)] have st: "table_ok r'" "extends r r'"
      "\<And>s. table_ok s \<Longrightarrow> extends r' s \<Longrightarrow> \<exists>s'. ?f (text, s) = (out, s') \<and> table_ok s' \<and> extends s s'"
    unfolding stage_ok_def by blast+
  have "fst (scrub text s) = out" if s: "table_ok s" "extends r' s" for s
  proof -
    have "literals s = literals r" using st(2) s(2) by (simp add: extends_def)
    then have "scrub text s = ?f (text, s)" using False by (simp add: scrub_eq)
    with st(3) [OF s] show ?thesis by auto
  qed
  with st show ?thesis by blast
qed

interpretation redactor_run: machine redactor_step table_ok
proof
  fix r e assume "table_ok r"
  then show "table_ok (redactor_step r e)"
    using scrub_ok [of r] by (cases e) (auto simp: table_ok_prepass prod_eq_iff)
qed

lemma new_redactor_ok: "table_ok new_redactor"
  by (simp add: table_ok_def new_redactor_def)

definition reached :: "event list \<Rightarrow> redactor" where
  "reached es = foldl redactor_step new_redactor es"

lemma reached_ok: "table_ok (reached es)"
  unfolding reached_def by (rule redactor_run.inv_run [OF new_redactor_ok])


lemma scrubs_extend:
  assumes "table_ok r"
  shows "table_ok (foldl redactor_step r (map Scrub ts)) \<and> extends r (foldl redactor_step r (map Scrub ts))"
  using assms
proof (induction ts arbitrary: r)
  case (Cons t ts)
  obtain out r' where o: "scrub t r = (out, r')" by (metis prod.exhaust)
  from scrub_ok [OF Cons.prems o] have "table_ok r'" "extends r r'" by simp_all
  with Cons.IH [of r'] extends_trans show ?case by (auto simp: o)
qed simp

text \<open>
  A text that has been scrubbed once is scrubbed to the same text again, however many
  other texts are scrubbed in between.
\<close>

theorem scrub_repeatable:
  "fst (scrub t (foldl redactor_step (snd (scrub t (reached es))) (map Scrub ts))) = fst (scrub t (reached es))"
proof -
  obtain out r' where o: "scrub t (reached es) = (out, r')" by (metis prod.exhaust)
  note ok = scrub_ok [OF reached_ok o]
  with scrubs_extend [of r' ts] o show ?thesis by simp
qed

text \<open>
  C4: A value that the first pass has taken from the system files is gone from every text
  that is scrubbed, in any mixture of capitals, as long as it is not itself part of a token.
\<close>

theorem literals_gone:
  assumes "(k, v) \<in> set (literals (reached es))" "safe_literal v"
  shows "\<not> mentions v (fst (scrub t (reached es)))"
proof (cases "t = []")
  case True
  with assms(2) show ?thesis by (simp add: scrub_def mentions_sublist safe_literal_def bracket_free_def py_lower_def)
next
  case False
  let ?r = "reached es"
  note ok = reached_ok [of es]
  obtain xs ys where ls: "literals ?r = xs @ (k, v) # ys" using split_list [OF assms(1)] by blast
  obtain t1 r1 where 1: "fold run_literal xs (t, ?r) = (t1, r1)" by (metis prod.exhaust)
  have r1: "table_ok r1" "extends ?r r1"
    using literals_stage [OF ok, of xs] 1 ls unfolding stage_ok_def by auto
  obtain t2 r2 where 2: "run_literal (k, v) (t1, r1) = (t2, r2)" by (metis prod.exhaust)
  have l: "literal_ok r1 (k, v)"
    using r1 ls by (auto simp: table_ok_def extends_def)
  have r2: "table_ok r2" "extends r1 r2" using literal_stage [OF r1(1) l] 2 unfolding stage_ok_def by auto
  obtain j n where tok: "token_at r1 (k, v) = show_token j n"
    using token_at_ok(1) [OF r1(1) l] by (auto simp: is_token_def)
  have "\<not> mentions v (fst (rx_sub_from True (RStr v) (put_token k (token_at r1 (k, v))) [] t1 r1))"
    by (rule literal_gone [of v "kind_name j @ ''_'' @ pad 3 n"])
      (use assms(2) in \<open>auto simp: safe_literal_def put_token_def tok show_token_def\<close>)
  then have gone: "\<not> mentions v t2" using 2 by (simp add: run_literal_eq rx_sub_def)
  have "literals r2 = literals ?r" using r1 r2 by (simp add: extends_def)
  then have "stage_ok (fold run_pass passes \<circ> fold run_literal ys) r2"
    using r2(1) ls by (intro stage_comp literals_stage passes_stage) auto
  moreover have "scrub t ?r = (fold run_pass passes \<circ> fold run_literal ys) (t2, r2)"
    using False by (simp add: scrub_eq ls 1 2)
  ultimately have "quiet t2 (fst (scrub t ?r))" unfolding stage_ok_def by (metis prod.exhaust_sel)
  with gone assms(2) show ?thesis by (auto simp: quiet_def)
qed

text \<open>A value with a character that no token has is safe.\<close>

lemma token_chars: "c \<in> set (kind_name k @ ''_'' @ pad 3 n) \<Longrightarrow> c = CHR ''_'' \<or> (48 \<le> code_of c \<and> code_of c \<le> 57) \<or> (65 \<le> code_of c \<and> code_of c \<le> 90)"
proof -
  have "code_of d \<ge> 48 \<and> code_of d \<le> 57" if "d \<in> set (pad 3 n)" for d
    using that pad_decimal [of 3 n] by (auto simp: list_all_iff py_isdecimal_def Let_def)
  moreover have "65 \<le> code_of d \<and> code_of d \<le> 90" if "d \<in> set (kind_name k)" for d
    using that by (cases k) auto
  ultimately show "c \<in> set (kind_name k @ ''_'' @ pad 3 n) \<Longrightarrow> ?thesis" by auto
qed

lemma safe_dash:
  assumes "bracket_free v" "CHR ''-'' \<in> set v"
  shows "safe_literal v"
proof -
  have low: "lower_char d = CHR ''-'' \<longleftrightarrow> d = CHR ''-''" for d
    by (auto simp: lower_char_def Let_def split: if_splits dest!: arg_cong [of _ _ code_of])
  have "\<not> mentions v (kind_name k @ ''_'' @ pad 3 n)" for k n
  proof
    let ?t = "kind_name k @ ''_'' @ pad 3 n"
    assume "mentions v ?t"
    then have "set (py_lower v) \<subseteq> set (py_lower ?t)" unfolding mentions_sublist by (rule set_mono_sublist)
    moreover have "CHR ''-'' \<in> set (py_lower v)" using assms(2) low unfolding py_lower_def set_map by (metis imageI)
    ultimately have "CHR ''-'' \<in> set (py_lower ?t)" by blast
    then have "CHR ''-'' \<in> set ?t" using low unfolding py_lower_def set_map by (metis imageE)
    from token_chars [OF this] show False by simp
  qed
  with assms(1) show ?thesis by (simp add: safe_literal_def)
qed

lemma sample_fields:
  "map (rx_group 1) (rx_finditer True host_name_rx ''Host Name: ACME-7'') = [Some ''ACME-7'']"
  "rx_finditer True domain_rx ''Host Name: ACME-7'' = []" "rx_finditer True owner_rx ''Host Name: ACME-7'' = []"
  "rx_finditer True logon_server_rx ''Host Name: ACME-7'' = []"
  by code_simp+

theorem literals_gone_witness:
  "literals (reached [Prepass [Some ''Host Name: ACME-7''] []]) = [(HOST, ''ACME-7'')]
   \<and> \<not> mentions ''ACME-7'' (fst (scrub ''on Acme-7'' (reached [Prepass [Some ''Host Name: ACME-7''] []])))"
proof
  let ?r = "reached [Prepass [Some ''Host Name: ACME-7''] []]"
  obtain m where m: "rx_finditer True host_name_rx ''Host Name: ACME-7'' = [m]" "rx_group 1 m = Some ''ACME-7''"
    using sample_fields(1) by (auto simp: map_eq_Cons_conv)
  have lits: "literals (note_value HOST ''ACME-7'' new_redactor) = [(HOST, ''ACME-7'')]" by code_simp
  show lit: "literals ?r = [(HOST, ''ACME-7'')]"
    using m sample_fields(2-4) lits
    by (simp add: reached_def prepass_def prepass_file_def prepass_rules_def Let_def)
  have "safe_literal ''ACME-7''" by (rule safe_dash) (simp_all add: bracket_free_def)
  then show "\<not> mentions ''ACME-7'' (fst (scrub ''on Acme-7'' ?r))"
    using literals_gone [of HOST "''ACME-7''" "[Prepass [Some ''Host Name: ACME-7''] []]" "''on Acme-7''"] lit by simp
qed

section \<open>A gap\<close>

lemma new_literals: "literals new_redactor = []"
  by (simp add: new_redactor_def)

lemma pass_none: "rx_search_from False (RGroup 0 rx) [] t = None \<Longrightarrow> run_pass (k, rx, keep) (t, r) = (t, r)"
  by (simp add: run_pass_def rx_sub_def sub_none)

lemma pass_whole:
  assumes "rx_search_from False (RGroup 0 rx) [] t = Some (rev t, [], [(0, t)])" "t \<noteq> []"
    "rx_search_from False (RGroup 0 rx) (rev t) [] = None"
  shows "run_pass (k, rx, keep) (t, r) = redact k keep t r"
proof -
  obtain out r' where o: "redact k keep t r = (out, r')" by (metis prod.exhaust)
  have "rx_sub_from False rx (redact k keep) [] t r = ([] @ out @ [], r')"
    by (rule sub_some [OF assms(1), of "[]" t])
      (use assms o in \<open>simp_all add: sub_none matched_text_def rx_group_def\<close>)
  with o show ?thesis by (simp add: run_pass_def rx_sub_def)
qed

lemma bracket_passes:
  "rx_search_from False (RGroup 0 email_rx) [] ''[2001:470::1]'' = None"
  "rx_search_from False (RGroup 0 dotted_rx) [] ''[2001:470::1]'' = None"
  "rx_search_from False (RGroup 0 ipv6_rx) [] ''[2001:470::1]'' = Some (rev ''[2001:470::1]'', [], [(0, ''[2001:470::1]'')])"
  "rx_search_from False (RGroup 0 ipv6_rx) (rev ''[2001:470::1]'') [] = None"
  "rx_search_from False (RGroup 0 mac_rx) [] ''[2001:470::1]'' = None"
  "rx_search_from False (RGroup 0 sid_rx) [] ''[2001:470::1]'' = None"
  "rx_search_from False (RGroup 0 blob_rx) [] ''[2001:470::1]'' = None"
  "keep_ipv6 ''[2001:470::1]''"
  by code_simp+

lemma bare_passes:
  "rx_search_from False (RGroup 0 email_rx) [] ''2001:470::1'' = None"
  "rx_search_from False (RGroup 0 dotted_rx) [] ''2001:470::1'' = None"
  "rx_search_from False (RGroup 0 ipv6_rx) [] ''2001:470::1'' = Some (rev ''2001:470::1'', [], [(0, ''2001:470::1'')])"
  "rx_search_from False (RGroup 0 ipv6_rx) (rev ''2001:470::1'') [] = None"
  "rx_search_from False (RGroup 0 mac_rx) [] ''<IP_001>'' = None"
  "rx_search_from False (RGroup 0 sid_rx) [] ''<IP_001>'' = None"
  "rx_search_from False (RGroup 0 blob_rx) [] ''<IP_001>'' = None"
  "\<not> keep_ipv6 ''2001:470::1''" "show_token IP 1 = ''<IP_001>''"
  by code_simp+


end
