(* ===== verification/Session_Recon.thy ===== *)
theory Session_Recon
  imports Log_Index_Facts Line_Types
begin

text \<open>
  Session reconstruction (\<open>session_recon.py\<close>): from an identifier, the lines of an index
  that mention it, in order, each with its phase and the identifiers beside it, and the
  summary of them all.
\<close>

section \<open>The type of an identifier\<close>

definition alnum :: "cset list" where
  "alnum = [CRange (CHR ''a'') (CHR ''z''), CRange (CHR ''A'') (CHR ''Z''), CRange (CHR ''0'') (CHR ''9'')]"

definition blob :: "cset list" where
  "blob = alnum @ [CLit (CHR ''+''), CLit (CHR ''/''), CLit (CHR ''=''), CLit (CHR ''_''), CLit (CHR ''-'')]"

definition mtunnel_prefix_rx :: rx where
  "mtunnel_prefix_rx = RSeqs [RBegin, RTimes 4 (RSet alnum), RUpTo 4 (RSet alnum), RTimes 10 (RSet blob), RStar (RSet blob), REnd]"

definition hexes :: "nat \<Rightarrow> rx" where
  "hexes n = RTimes n (RSet [CRange (CHR ''0'') (CHR ''9''), CRange (CHR ''a'') (CHR ''f'')])"

definition uuid_rx :: rx where
  "uuid_rx = RSeqs [RBegin, hexes 8, RLit (CHR ''-''), hexes 4, RLit (CHR ''-''), hexes 4, RLit (CHR ''-''), hexes 4,
     RLit (CHR ''-''), hexes 12, REnd]"

definition is_prefix_shaped :: "string \<Rightarrow> bool" where
  "is_prefix_shaped s = (rx_match False mtunnel_prefix_rx s \<noteq> None)"

definition guess_id_type :: "string \<Rightarrow> string" where
  "guess_id_type query_id = (let q = py_strip query_id in
     if q = [] then ''free''
     else if list_all py_isdigit q then ''tag_id''
     else if rx_match True uuid_rx q \<noteq> None then ''session_id''
     else if CHR '','' \<in> set q \<and> (case partition_at '','' q of (left, _, right) \<Rightarrow> is_prefix_shaped left \<and> is_prefix_shaped right)
     then ''mtunnel_id''
     else if is_prefix_shaped q then ''broker_session''
     else ''free'')"

section \<open>Phases\<close>

abbreviation dots :: rx where
  "dots \<equiv> RStar RDot"

definition sep :: rx where
  "sep = RSet [CLit (CHR ''_''), CLit (CHR '' '')]"

definition phase_order :: "(string \<times> rx) list" where
  "phase_order =
    [(''mtunnel_setup'', RAlt (RSeqs [RStr ''mtunnel'', ROpt sep, RStrs [''setup'', ''request'', ''open'', ''start'']]) (RStr ''BRK_MT_SETUP'')),
     (''mtunnel_close'', RAlts [RSeqs [RStr ''mtunnel'', ROpt sep, RStrs [''close'', ''end'', ''terminate'']],
        RSeq (RStr ''BRK_MT_'') (RStrs [''CLOSED'', ''TERMINATED'']), RStr ''zpn_mtunnel_end'']),
     (''saml_expired'', RAlts [RStr ''SAML_EXPIRED'', RSeqs [RStr ''saml'', dots, RStr ''expir''], RStr ''saml force expired'']),
     (''auth_transition'', RStrs [''AUTHENTICATED'', ''AUTHENTICATION_REQUIRED'']),
     (''broker_redirect'', RAlts [RStr ''BRK_REDIRECT'', RSeqs [RStr ''broker'', dots, RStr ''redirect''],
        RSeqs [RStr ''BRK_MT_'', dots, RStr ''BALANCE'']]),
     (''dc_changed'', RAlts [RSeqs [RStr ''zcc_tunnel'', dots, RStr ''dc_changed''], RSeqs [RStr ''SME'', dots, RStr ''chang''],
        RSeqs [RStr ''Service Edge'', dots, RStr ''chang'']]),
     (''power_change'', RStrs [''Power Change Event'', ''Modern Standby'', ''force_reauth_sleep_trigger'']),
     (''network_change'', RAlts [RSeqs [RStr ''network'', sep, RStrs [''change'', ''transition'', ''state'']],
        RSeqs [RStr ''adapter '', RStrs [''up'', ''down'', ''state'']]]),
     (''trust_state_change'', RAlts [RSeqs [RStr ''trusted'', ROpt sep, RStr ''network'', dots, RStrs [''enter'', ''exit'', ''change'']],
        RStr ''OFF_TRUSTED'', RStr ''NON_TRUSTED'', RStr ''TRUSTED_NETWORK'']),
     (''data_ack'', RAlts [RStr ''mtunnel_request_ack'', RSeqs [RStr ''data'', dots, RStrs [''sent'', ''received'']],
        RSeqs [RStr ''bytes'', sep, RStrs [''in'', ''out'']]]),
     (''service_start'', RAlts [RSeq (RStr ''service '') (RStrs [''started'', ''starting'', ''initialized'']),
        RSeq (RStr ''ZSAService '') (RStrs [''up'', ''start'']), RSeq (RStr ''ZCC '') (RStrs [''starting'', ''up''])]),
     (''cert_expiry_check'', RAlts [RStr ''getCertExpiryDaySec'', RSeqs [RStr ''cert'', dots, RStr ''expir'']]),
     (''policy_push'', RAlts [RSeqs [RStr ''zpn_'', RStrs [''trusted_networks'', ''posture_profile'', ''forwarding_profile''], RStr ''_ack''],
        RStr ''TrayPolicy::serialize'', RSeqs [RStr ''policy'', dots, RStr ''push'']]),
     (''kerberos_lookup'', RAlts [RStr ''_kerberos._tcp'', RSeqs [RStr ''kerberos'', dots, RStr ''SRV''], RStr ''_ldap._tcp'', RStr ''_gc._tcp'']),
     (''tray_notification'', RAlt (RStr ''send ZSATray Notification'') (RSeqs [RStr ''tray'', dots, RStr ''notif'']))]"

definition classify_phase :: "string \<Rightarrow> string" where
  "classify_phase b = (if b = [] then ''data''
     else case find (\<lambda>p. rx_search True (snd p) b \<noteq> None) phase_order of None \<Rightarrow> ''data'' | Some p \<Rightarrow> fst p)"

definition known_phases :: "string list" where
  "known_phases = map fst phase_order @ [''data'']"

section \<open>Related identifiers\<close>

text \<open>\<open>name[=:\s]+\<close> and a captured value.\<close>

definition assign_rx :: "rx \<Rightarrow> rx \<Rightarrow> rx" where
  "assign_rx nm val = RSeqs [nm, RPlus (RSet [CLit (CHR ''=''), CLit (CHR '':''), CSpace]), RGroup 1 val]"

definition broker_chars :: "cset list" where
  "broker_chars = [CRange (CHR ''a'') (CHR ''z''), CRange (CHR ''0'') (CHR ''9''), CLit (CHR ''_''), CLit (CHR ''-'')]"

definition digits_plus :: rx where
  "digits_plus = RPlus (RSet [CDigit])"

definition related_rx :: "(string \<times> rx) list" where
  "related_rx =
    [(''tag_id'', assign_rx (RStr ''tag_id'') digits_plus),
     (''err_code'', assign_rx (RSeqs [RStr ''err'', ROpt sep, RStr ''code'']) digits_plus),
     (''mtunnel_id'', assign_rx (RStr ''mtunnel_id'') (RSeqs [RPlus (RSet blob), RLit (CHR '',''), RPlus (RSet blob)])),
     (''conn_id'', assign_rx (RStr ''conn_id'') (RPlus (RSet blob))),
     (''app'', assign_rx (RSeqs [RStr ''app'', ROpt sep, RStr ''name'']) (RPlus (RSet (alnum @ [CLit (CHR ''.''), CLit (CHR ''_''), CLit (CHR ''-'')])))),
     (''broker'', RGroup 1 (RSeqs [RStr ''broker'', RStar (RSet broker_chars), RLit (CHR ''.''),
        RStar (RSeq (RPlus (RSet broker_chars)) (RLit (CHR ''.''))), RStrs [''zpath'', ''zscaler'', ''zpalb'', ''zpaservice''], RStr ''.net'']))]"


definition add_id :: "string \<Rightarrow> string \<Rightarrow> (string, string list) dict \<Rightarrow> (string, string list) dict" where
  "add_id k v d = dict_set k (dict_getd d k [] @ [v]) d"

definition extract_related_ids :: "string \<Rightarrow> (string, string list) dict" where
  "extract_related_ids b = fold (\<lambda>(k, r). fold (\<lambda>m. add_id k (grp 1 m)) (rx_finditer True r b)) related_rx []"

section \<open>Which lines belong to the session\<close>

text \<open>\<open>re.compile(rf"name[=:\s]+{re.escape(q)}\b", re.IGNORECASE)\<close>\<close>

definition field_rx :: "string \<Rightarrow> string \<Rightarrow> rx" where
  "field_rx nm q = RSeqs [RStr nm, RPlus (RSet [CLit (CHR ''=''), CLit (CHR '':''), CSpace]), RStr q, RBound]"

definition line_matches :: "string \<Rightarrow> string \<Rightarrow> indexed_line \<Rightarrow> bool" where
  "line_matches query_id id_type ln = (let q = py_strip query_id; within = occurs (py_lower q) (py_lower (body ln)) in
     if id_type = ''tag_id'' \<or> id_type = ''conn_id'' then rx_search True (field_rx id_type q) (body ln) \<noteq> None
     else if id_type = ''session_id''
     then (case session_id ln of None \<Rightarrow> within | Some sid \<Rightarrow> (sid \<noteq> [] \<and> py_lower sid = py_lower q) \<or> within)
     else within)"

section \<open>The reconstruction\<close>

record recon_line =
  r_ts :: int
  r_level :: string
  r_component :: string
  r_source :: string
  r_line_no :: nat
  r_phase :: string
  r_body :: string
  r_related :: "(string, string list) dict"

record session_recon =
  query_id :: string
  id_type :: string
  line_count :: nat
  first_ts :: "int option"
  last_ts :: "int option"
  span_us :: "int option"
  files_touched :: "(string, nat) dict"
  components_touched :: "(string, nat) dict"
  phase_histogram :: "(string, nat) dict"
  related_summary :: "(string, string list) dict"
  recon_lines :: "recon_line list"

definition recon_line_of :: "indexed_line \<Rightarrow> recon_line" where
  "recon_line_of ln = \<lparr>r_ts = ts ln, r_level = level ln, r_component = component ln, r_source = source_file ln,
     r_line_no = line_no ln, r_phase = classify_phase (body ln), r_body = body ln, r_related = extract_related_ids (body ln)\<rparr>"

text \<open>A \<open>Counter\<close> over a list, and the sets of identifiers by type.\<close>

definition counter_of :: "('a \<Rightarrow> 'k) \<Rightarrow> 'a list \<Rightarrow> ('k, nat) dict" where
  "counter_of f xs = fold (\<lambda>x. dict_add (f x) 1) xs []"

definition add_set :: "string \<Rightarrow> string list \<Rightarrow> (string, string list) dict \<Rightarrow> (string, string list) dict" where
  "add_set k vs d = (if vs = [] then d else dict_set k (fold List.insert vs (dict_getd d k [])) d)"

definition related_sets :: "indexed_line list \<Rightarrow> (string, string list) dict" where
  "related_sets ms = fold (\<lambda>ln. fold (\<lambda>(k, vs). add_set k vs) (extract_related_ids (body ln))) ms []"

definition drop_self :: "string \<Rightarrow> string \<Rightarrow> (string, string list) dict \<Rightarrow> (string, string list) dict" where
  "drop_self ty q d = (case dict_get d ty of
       None \<Rightarrow> d
     | Some vs \<Rightarrow> if q \<in> set vs then dict_set ty (remove1 q vs) d else d)"

definition matched_lines :: "indexed_line list \<Rightarrow> string \<Rightarrow> string \<Rightarrow> indexed_line list" where
  "matched_lines ls q ty = sort_key line_key (filter (line_matches q ty) ls)"

definition head_ts :: "recon_line list \<Rightarrow> int option" where
  "head_ts rs = (case rs of [] \<Rightarrow> None | r # _ \<Rightarrow> Some (r_ts r))"

definition reconstruct_session :: "indexed_line list \<Rightarrow> string \<Rightarrow> string option \<Rightarrow> session_recon" where
  "reconstruct_session ls q ty0 = (let
     ty = (case ty0 of None \<Rightarrow> guess_id_type q | Some ty \<Rightarrow> ty);
     ms = matched_lines ls q ty;
     rs = map recon_line_of ms;
     a = head_ts rs; z = head_ts (rev rs) in
     \<lparr>query_id = q, id_type = ty, line_count = length rs, first_ts = a, last_ts = z,
      span_us = (case (a, z) of (Some s, Some t) \<Rightarrow> Some (t - s) | _ \<Rightarrow> None),
      files_touched = counter_of source_file ms, components_touched = counter_of component ms,
      phase_histogram = counter_of (\<lambda>ln. classify_phase (body ln)) ms,
      related_summary = map (\<lambda>(k, vs). (k, sort vs)) (drop_self ty q (related_sets ms)),
      recon_lines = rs\<rparr>)"

definition group_lines_by_component :: "session_recon \<Rightarrow> (string, recon_line list) dict" where
  "group_lines_by_component rc = fold (\<lambda>r d.
     let k = (if r_component r = [] then ''(unknown)'' else r_component r) in dict_set k (dict_getd d k [] @ [r]) d)
     (recon_lines rc) []"

section \<open>The summary counts the lines\<close>

lemma counter_of_ok:
  "distinct (dict_keys (counter_of f xs)) \<and> dict_total (counter_of f xs) = length xs
    \<and> dict_getd (counter_of f xs) k 0 = length (filter (\<lambda>x. f x = k) xs)"
proof -
  have "distinct (dict_keys d) \<Longrightarrow> distinct (dict_keys (fold (\<lambda>x. dict_add (f x) 1) xs d))
      \<and> dict_total (fold (\<lambda>x. dict_add (f x) 1) xs d) = dict_total d + length xs
      \<and> dict_getd (fold (\<lambda>x. dict_add (f x) 1) xs d) k 0 = dict_getd d k 0 + length (filter (\<lambda>x. f x = k) xs)" for d
    by (induction xs arbitrary: d) (auto simp: distinct_dict_add dict_total_add dict_getd_add)
  from this [of "[]"] show ?thesis by (simp add: counter_of_def dict_total_def dict_getd_def)
qed

definition time_span_ok :: "session_recon \<Rightarrow> bool" where
  "time_span_ok rc = (case span_us rc of None \<Rightarrow> recon_lines rc = [] | Some d \<Rightarrow> 0 \<le> d \<and> recon_lines rc \<noteq> [])"

lemma line_key_ts: "line_key a \<le> line_key b \<Longrightarrow> ts a \<le> ts b"
  by (auto simp: line_key_def less_eq_prod_def)

lemma matched_ts: "sorted (map ts (matched_lines ls q ty))"
proof -
  have "sorted (map line_key (matched_lines ls q ty))" by (simp add: matched_lines_def)
  then show ?thesis
    unfolding sorted_map by (rule sorted_wrt_mono_rel [rotated]) (rule line_key_ts)
qed

text \<open>
  A reconstruction holds exactly the matching lines of the index, in the order of time,
  file and line; its three histograms count them, each adding up to the line count; and its
  duration is not negative, and missing only when no line matched.
\<close>

theorem recon_counts:
  fixes ls q ty0
  defines "rc \<equiv> reconstruct_session ls q ty0"
  shows "recon_lines rc = map recon_line_of (matched_lines ls q (id_type rc))
    \<and> mset (matched_lines ls q (id_type rc)) = mset (filter (line_matches q (id_type rc)) ls)
    \<and> sorted (map line_key (matched_lines ls q (id_type rc)))
    \<and> map dict_total [files_touched rc, components_touched rc, phase_histogram rc] = replicate 3 (line_count rc)
    \<and> dict_getd (phase_histogram rc) p 0 = length (filter (\<lambda>r. r_phase r = p) (recon_lines rc))
    \<and> line_count rc = length (recon_lines rc) \<and> time_span_ok rc"
proof -
  let ?ms = "matched_lines ls q (id_type rc)"
  have lines: "recon_lines rc = map recon_line_of ?ms" "line_count rc = length ?ms"
    by (simp_all add: rc_def reconstruct_session_def Let_def)
  have tallies: "files_touched rc = counter_of source_file ?ms" "components_touched rc = counter_of component ?ms"
      "phase_histogram rc = counter_of (\<lambda>ln. classify_phase (body ln)) ?ms"
    by (simp_all add: rc_def reconstruct_session_def Let_def)
  have dur: "span_us rc = (case (head_ts (recon_lines rc), head_ts (rev (recon_lines rc))) of
      (Some s, Some t) \<Rightarrow> Some (t - s) | _ \<Rightarrow> None)"
    by (simp add: rc_def reconstruct_session_def Let_def)
  have "time_span_ok rc"
  proof (cases "?ms")
    case Nil
    then show ?thesis by (simp add: time_span_ok_def dur lines head_ts_def)
  next
    case (Cons m ms)
    then have le: "ts m \<le> ts (last ?ms)" using matched_ts [of ls q "id_type rc"] by (auto simp: Cons)
    have r: "rev ?ms = last ?ms # rev (butlast ?ms)"
      using Cons by (metis append_butlast_last_id list.distinct(1) rev_eq_Cons_iff rev_rev_ident)
    have "head_ts (rev (recon_lines rc)) = Some (ts (last ?ms))"
      unfolding lines rev_map r by (simp add: head_ts_def recon_line_of_def)
    moreover have "head_ts (recon_lines rc) = Some (ts m)" "recon_lines rc \<noteq> []"
      unfolding lines Cons by (simp_all add: head_ts_def recon_line_of_def)
    ultimately show ?thesis using le by (simp add: time_span_ok_def dur)
  qed
  moreover have "mset ?ms = mset (filter (line_matches q (id_type rc)) ls)" "sorted (map line_key ?ms)"
    by (simp_all add: matched_lines_def)
  ultimately show ?thesis
    using counter_of_ok [of source_file ?ms] counter_of_ok [of component ?ms] counter_of_ok [of "\<lambda>ln. classify_phase (body ln)" ?ms]
    by (simp add: lines tallies numeral_3_eq_3 filter_map comp_def recon_line_of_def)
qed

section \<open>Identifiers, groups and the index\<close>

definition ids_of :: "string \<Rightarrow> indexed_line \<Rightarrow> string set" where
  "ids_of k ln = set (dict_getd (extract_related_ids (body ln)) k [])"

lemma dict_keys_extract: "distinct (dict_keys (extract_related_ids b))"
proof -
  have one: "distinct (dict_keys d) \<Longrightarrow> distinct (dict_keys (fold (\<lambda>m. add_id k (g m)) ms d))" for k ms d and g :: "rpos \<Rightarrow> string"
    by (induction ms arbitrary: d) (auto simp: add_id_def alist.ok_put)
  have "distinct (dict_keys d) \<Longrightarrow> distinct (dict_keys (fold (\<lambda>(k, r). fold (\<lambda>m. add_id k (grp 1 m)) (rx_finditer True r b)) rs d))" for rs d
    by (induction rs arbitrary: d) (auto simp: one)
  then show ?thesis unfolding extract_related_ids_def by simp
qed

lemma dict_getd_rec:
  "dict_getd [] j w = w" "dict_getd ((k, v) # d) j w = (if j = k then v else dict_getd d j w)"
  "dict_getd (dict_set k v d) j w = (if j = k then v else dict_getd d j w)"
  by (simp_all add: dict_getd_def dict_get_set)

lemma add_set_get: "set (dict_getd (add_set k vs d) j []) = set (dict_getd d j []) \<union> (if j = k then set vs else {})"
proof -
  have "set (fold List.insert vs ws) = set vs \<union> set ws" for ws by (induction vs arbitrary: ws) auto
  then show ?thesis by (auto simp: add_set_def dict_getd_rec)
qed

lemma add_sets_get:
  "distinct (dict_keys kvs) \<Longrightarrow> set (dict_getd (fold (\<lambda>(k, vs). add_set k vs) kvs d) j [])
    = set (dict_getd d j []) \<union> set (dict_getd kvs j [])"
proof (induction kvs arbitrary: d)
  case (Cons kv kvs)
  obtain k vs where kv: "kv = (k, vs)" by (cases kv)
  have "dict_getd kvs k [] = []" using Cons.prems by (intro dict_getd_notin) (simp add: kv)
  with Cons show ?case by (auto simp: kv add_set_get dict_getd_rec)
qed (simp add: dict_getd_rec)

definition sets_ok :: "(string, string list) dict \<Rightarrow> bool" where
  "sets_ok d = (distinct (dict_keys d) \<and> list_all (\<lambda>kv. distinct (snd kv)) d)"

lemma sets_ok_set: "sets_ok d \<Longrightarrow> distinct vs \<Longrightarrow> sets_ok (dict_set k vs d)"
proof -
  assume d: "sets_ok d" "distinct vs"
  have "list_all (\<lambda>kv. distinct (snd kv)) (dict_set k vs d)"
    using d by (induction d) (auto simp: sets_ok_def dict_set_def)
  with d show ?thesis by (simp add: sets_ok_def alist.ok_put)
qed

lemma sets_ok_get: "sets_ok d \<Longrightarrow> distinct (dict_getd d k [])"
  by (auto simp: sets_ok_def dict_getd_def list_all_iff dest!: map_of_SomeD split: option.split)

lemma sets_ok_add: "sets_ok d \<Longrightarrow> sets_ok (add_set k vs d)"
proof -
  have "distinct ws \<Longrightarrow> distinct (fold List.insert vs ws)" for ws :: "string list"
    by (induction vs arbitrary: ws) auto
  then show "sets_ok d \<Longrightarrow> sets_ok (add_set k vs d)"
    by (simp add: add_set_def sets_ok_set sets_ok_get)
qed

lemma sets_ok_adds: "sets_ok d \<Longrightarrow> sets_ok (fold (\<lambda>(k, vs). add_set k vs) kvs d)"
  by (induction kvs arbitrary: d) (auto simp: sets_ok_add)

lemma related_sets_ok:
  "sets_ok (related_sets ms) \<and> set (dict_getd (related_sets ms) k []) = (\<Union>ln \<in> set ms. ids_of k ln)"
proof -
  let ?f = "\<lambda>ln. fold (\<lambda>(k, vs). add_set k vs) (extract_related_ids (body ln))"
  have "sets_ok d \<Longrightarrow> sets_ok (fold ?f ms d)
      \<and> set (dict_getd (fold ?f ms d) k []) = set (dict_getd d k []) \<union> (\<Union>ln \<in> set ms. ids_of k ln)" for d
    by (induction ms arbitrary: d) (auto simp: sets_ok_adds add_sets_get dict_keys_extract ids_of_def)
  moreover have "sets_ok []" "dict_getd [] k [] = []" by (simp_all add: sets_ok_def dict_getd_def)
  ultimately show ?thesis unfolding related_sets_def by (metis list.set(1) sup_bot_left)
qed

lemma drop_self_ok:
  assumes "sets_ok d"
  shows "sets_ok (drop_self ty q d)
    \<and> set (dict_getd (drop_self ty q d) k []) = set (dict_getd d k []) - (if k = ty then {q} else {})"
  using assms sets_ok_get [OF assms, of ty]
  by (auto simp: drop_self_def dict_getd_def dict_get_set sets_ok_set set_remove1_eq split: option.splits)

lemma dict_getd_map_snd: "dict_getd (map (\<lambda>(k, vs). (k, f vs)) d) k (f v) = f (dict_getd d k v)"
  by (induction d) (auto simp: dict_getd_def)

text \<open>
  The summary lists, for each type of identifier, exactly the identifiers found on the
  lines of the session, once each and sorted, without the one that was asked for.
\<close>

theorem related_ids_exact:
  fixes ls q ty0
  defines "rc \<equiv> reconstruct_session ls q ty0"
  shows "set (dict_getd (related_summary rc) k [])
      = (\<Union>ln \<in> set (matched_lines ls q (id_type rc)). ids_of k ln) - (if k = id_type rc then {q} else {})
    \<and> distinct (dict_getd (related_summary rc) k []) \<and> sorted (dict_getd (related_summary rc) k [])"
proof -
  let ?d = "drop_self (id_type rc) q (related_sets (matched_lines ls q (id_type rc)))"
  have "related_summary rc = map (\<lambda>(k, vs). (k, sort vs)) ?d"
    by (simp add: rc_def reconstruct_session_def Let_def)
  then have s: "dict_getd (related_summary rc) k [] = sort (dict_getd ?d k [])"
    using dict_getd_map_snd [of sort ?d k "[]"] by simp
  have d: "sets_ok ?d" "set (dict_getd ?d k [])
      = (\<Union>ln \<in> set (matched_lines ls q (id_type rc)). ids_of k ln) - (if k = id_type rc then {q} else {})"
    using drop_self_ok [of "related_sets (matched_lines ls q (id_type rc))" "id_type rc" q k]
      related_sets_ok [of "matched_lines ls q (id_type rc)" k] by simp_all
  then show ?thesis unfolding s by (simp add: sets_ok_get)
qed

text \<open>
  C0: grouping by component splits the lines of a reconstruction: the group of a component
  holds its lines, and only those, in their order, and the groups hold every line.
\<close>

definition group_name :: "recon_line \<Rightarrow> string" where
  "group_name r = (if r_component r = [] then ''(unknown)'' else r_component r)"

lemma groups_fold:
  assumes "distinct (dict_keys d)"
  shows "distinct (dict_keys (fold (\<lambda>r d. dict_set (group_name r) (dict_getd d (group_name r) [] @ [r]) d) rs d))
    \<and> dict_getd (fold (\<lambda>r d. dict_set (group_name r) (dict_getd d (group_name r) [] @ [r]) d) rs d) k []
      = dict_getd d k [] @ filter (\<lambda>r. group_name r = k) rs"
  using assms
proof (induction rs arbitrary: d)
  case (Cons r rs)
  have "distinct (dict_keys (dict_set (group_name r) (dict_getd d (group_name r) [] @ [r]) d))"
    using Cons.prems by (rule alist.ok_put)
  from Cons.IH [OF this] show ?case by (simp add: dict_getd_rec)
qed simp

lemma groups_total:
  assumes "distinct (dict_keys d)" "\<And>k. dict_getd d k [] = filter (\<lambda>r. f r = k) rs"
  shows "mset (concat (map snd d)) = mset (filter (\<lambda>r. f r \<in> set (dict_keys d)) rs)"
  using assms
proof (induction d arbitrary: rs)
  case (Cons kv d)
  obtain k vs where kv: "kv = (k, vs)" by (cases kv)
  have vs: "vs = filter (\<lambda>r. f r = k) rs" using Cons.prems(2) [of k] by (simp add: kv dict_getd_def)
  let ?rest = "filter (\<lambda>r. f r \<noteq> k) rs"
  have "dict_getd d j [] = filter (\<lambda>r. f r = j) ?rest" for j
  proof (cases "j = k")
    case True
    then show ?thesis using Cons.prems(1) dict_getd_notin [of k d "[]"] by (simp add: kv)
  next
    case False
    then have "filter (\<lambda>r. f r = j) ?rest = filter (\<lambda>r. f r = j) rs" by (auto intro: filter_cong)
    then show ?thesis using Cons.prems(2) [of j] False by (simp add: kv dict_getd_def)
  qed
  then have "mset (concat (map snd d)) = mset (filter (\<lambda>r. f r \<in> set (dict_keys d)) ?rest)"
    using Cons.prems(1) by (intro Cons.IH) (simp_all add: kv)
  moreover have "f r \<noteq> k \<and> f r \<in> set (dict_keys d) \<longleftrightarrow> f r \<in> set (dict_keys d)" for r
    using Cons.prems(1) by (auto simp: kv)
  ultimately have "mset (concat (map snd d)) = mset (filter (\<lambda>r. f r \<in> set (dict_keys d)) rs)"
    by (simp add: conj_commute)
  moreover have "mset (filter (\<lambda>r. f r = k \<or> f r \<in> set (dict_keys d)) rs)
      = mset (filter (\<lambda>r. f r = k) rs) + mset (filter (\<lambda>r. f r \<in> set (dict_keys d)) rs)"
    using Cons.prems(1) by (induction rs) (auto simp: kv)
  ultimately show ?case by (simp add: kv vs)
qed simp

theorem components_split:
  "dict_getd (group_lines_by_component rc) k [] = filter (\<lambda>r. group_name r = k) (recon_lines rc)
   \<and> distinct (dict_keys (group_lines_by_component rc))
   \<and> mset (concat (map snd (group_lines_by_component rc))) = mset (recon_lines rc)"
proof -
  let ?g = "group_lines_by_component rc" and ?rs = "recon_lines rc"
  have g: "?g = fold (\<lambda>r d. dict_set (group_name r) (dict_getd d (group_name r) [] @ [r]) d) ?rs []"
    by (simp add: group_lines_by_component_def group_name_def Let_def)
  have get: "dict_getd ?g k [] = filter (\<lambda>r. group_name r = k) ?rs" for k
    unfolding g using groups_fold [of "[]" ?rs k] by (simp add: dict_getd_def)
  have dist: "distinct (dict_keys ?g)" unfolding g using groups_fold [of "[]" ?rs] by simp
  have "group_name r \<in> set (dict_keys ?g)" if "r \<in> set ?rs" for r
  proof (rule ccontr)
    assume "group_name r \<notin> set (dict_keys ?g)"
    then have "dict_getd ?g (group_name r) [] = []" by (rule dict_getd_notin)
    with get [of "group_name r"] that show False by (metis (mono_tags) filter_empty_conv)
  qed
  then have all: "filter (\<lambda>r. group_name r \<in> set (dict_keys ?g)) ?rs = ?rs" by (rule filter_True [OF ballI])
  have "mset (concat (map snd ?g)) = mset ?rs" using groups_total [OF dist get] unfolding all .
  with get dist show ?thesis by blast
qed

section \<open>Sessions of the index\<close>

definition ids_read :: "log_index \<Rightarrow> bool" where
  "ids_read idx = list_all (\<lambda>ln. session_id ln = extract_session_id (body ln)) (lines idx)"

lemma ids_read_line: "read_line c n k rw = Some (ln, z) \<Longrightarrow> session_id ln = extract_session_id (body ln)"
  by (auto simp: read_line_def split: option.splits)

lemma ids_read_lines: "ids_read idx \<Longrightarrow> ids_read (read_lines m c name n rws idx)"
proof (induction m c name n rws idx rule: read_lines.induct)
  case (2 m c name n rw rws idx)
  have "ids_read (add_line lz idx)" if "read_line c name n rw = Some lz" for lz
    using that "2.prems" ids_read_line by (cases lz) (auto simp: ids_read_def add_line_def)
  with 2 show ?case by (auto simp: Let_def ids_read_def split: option.split)
qed simp

lemma ids_read_files: "ids_read idx \<Longrightarrow> ids_read (snd (index_files m budget cs used idx))"
proof (induction m budget cs used idx rule: index_files.induct)
  case (2 m budget c f sz cs used idx)
  have "ids_read (read_lines m c (file_name f) 1 rws idx)" for rws using "2.prems" by (rule ids_read_lines)
  with 2 show ?case by (auto simp: Let_def ids_read_def split: option.split)
qed simp

lemma session_digits: "extract_session_id b = Some sid \<Longrightarrow> sid \<noteq> [] \<and> list_all py_isdecimal sid"
  using session_decimal by (simp add: decimal_def)

lemma strip_digits: "list_all py_isdecimal s \<Longrightarrow> py_strip s = s"
proof -
  assume s: "list_all py_isdecimal s"
  have "dropWhile py_isspace u = u" if "list_all py_isdecimal u" for u
    using that by (cases u) (auto dest: py_isdecimal_not)
  moreover have "list_all py_isdecimal (rev s)" using s by (simp add: list_all_iff)
  ultimately show ?thesis using s by (simp add: strip_by_def lstrip_by_def rstrip_by_def)
qed

text \<open>
  Reconstructing a session by its identifier, as a session identifier, returns every line
  that the index files under it, whatever the files and the budget the index was built from.
\<close>

theorem indexed_lines_found:
  "mset (dict_getd (by_session_id (build_index max_lines budget fs)) sid [])
   \<subseteq># mset (matched_lines (lines (build_index max_lines budget fs)) sid ''session_id'')"
proof (cases sid)
  case Nil
  have "dict_getd (by_session_id (build_index max_lines budget fs)) [] [] = []" by (rule build_index_nil)
  then show ?thesis by (simp add: Nil)
next
  case (Cons c k)
  let ?idx = "build_index max_lines budget fs"
  have "ids_read empty_index" by (simp add: ids_read_def empty_index_def)
  then have "ids_read ?idx"
    using ids_read_files [of empty_index max_lines budget "newest_first (iter_log_files fs)" "[]"]
    by (auto simp: build_index_def ids_read_def list_all_iff split: prod.split)
  then have "line_matches sid ''session_id'' ln" if "ln \<in> set (lines ?idx)" "session_id ln = Some sid" for ln
    using that session_digits [of "body ln" sid] strip_digits [of sid]
    by (auto simp: line_matches_def Let_def ids_read_def list_all_iff)
  then have "filter (\<lambda>ln. session_id ln = Some sid) (lines ?idx)
      = filter (\<lambda>ln. session_id ln = Some sid) (filter (line_matches sid ''session_id'') (lines ?idx))"
    by (auto intro: filter_cong)
  then have "mset (filter (\<lambda>ln. session_id ln = Some sid) (lines ?idx))
      \<subseteq># mset (filter (line_matches sid ''session_id'') (lines ?idx))"
    by (metis mset_filter multiset_filter_subset)
  then show ?thesis
    using build_index_ok [of max_lines budget fs c k] by (simp add: matched_lines_def Cons)
qed

text \<open>
  A session the index knows is written in decimal digits, and detection takes such an
  identifier for a tag; so without a forced type its lines are looked for under another name.
\<close>

theorem indexed_id_taken_for_tag:
  assumes "extract_session_id b = Some sid"
  shows "guess_id_type sid = ''tag_id''"
proof -
  have "sid \<noteq> []" "list_all py_isdecimal sid" using session_digits [OF assms] by simp_all
  moreover have "list_all py_isdigit sid"
    using calculation(2) by (auto simp: list_all_iff py_isdigit_def py_isdecimal_def)
  ultimately show ?thesis by (simp add: guess_id_type_def strip_digits Let_def)
qed

theorem indexed_id_taken_for_tag_witness:
  "guess_id_type ''65589'' = ''tag_id''"
proof (rule indexed_id_taken_for_tag)
  show "extract_session_id ''ID=65589, closed'' = Some ''65589''" by code_simp
qed

text \<open>
  Two alternatives of the phase table are never reached: the acknowledgement of a tunnel
  request is taken for a set-up, and that of the trusted networks for a change of trust.
\<close>

theorem shadowed_phases:
  "classify_phase ''zpn_mtunnel_request_ack'' = ''mtunnel_setup'' \<and> classify_phase ''zpn_trusted_networks_ack'' = ''trust_state_change''"
  by code_simp

end
