(* ===== verification/Id_Inventory.thy ===== *)
theory Id_Inventory
  imports Session_Recon
begin

text \<open>
  The inventory of identifiers (\<open>id_inventory.py\<close>): every identifier, code and host name of
  every line of an index, grouped by type, with how often, when and where it was seen.  The
  inventory is read back through sorted views only, so the order in which the code walks
  its sets is not visible.
\<close>

section \<open>Patterns\<close>

abbreviation any_space :: rx where
  "any_space \<equiv> RStar (RSet [CSpace])"

abbreviation quote_mark :: rx where
  "quote_mark \<equiv> ROpt (RLit (CHR 0x22))"

text \<open>\<open>name[=:\s]+(value)\<close> and \<open>name\"?\s*[:=]\s*\"?(value)\"?\<close>\<close>

definition labelled_rx :: "rx \<Rightarrow> rx \<Rightarrow> rx" where
  "labelled_rx nm val = RSeqs [nm, quote_mark, any_space, RSet [CLit (CHR '':''), CLit (CHR ''='')], any_space,
     quote_mark, RGroup 1 val, quote_mark]"

definition low_alnum :: "cset list" where
  "low_alnum = [CRange (CHR ''a'') (CHR ''z''), CRange (CHR ''0'') (CHR ''9'')]"

definition caps_num :: "cset list" where
  "caps_num = [CRange (CHR ''A'') (CHR ''Z''), CRange (CHR ''0'') (CHR ''9''), CLit (CHR ''_'')]"

definition inv_tag_rx :: rx where
  "inv_tag_rx = assign_rx (RStr ''tag_id'') digits_plus"

definition inv_mtunnel_rx :: rx where
  "inv_mtunnel_rx = RSeqs [assign_rx (RStr ''mtunnel_id'') (RPlus (RSet blob)), RLit (CHR '',''), RGroup 2 (RPlus (RSet blob))]"

definition inv_conn_rx :: rx where
  "inv_conn_rx = assign_rx (RStr ''conn_id'') (RPlus (RSet blob))"

definition inv_session_rx :: rx where
  "inv_session_rx = assign_rx (RSeqs [RStr ''session'', ROpt sep, RStr ''id'']) (RPlus (RSet blob))"

definition inv_err_rx :: rx where
  "inv_err_rx = assign_rx (RSeqs [RStr ''err'', ROpt sep, RStr ''code'']) digits_plus"

definition inv_symbol_rx :: rx where
  "inv_symbol_rx = RSeqs [RBound, RGroup 1 (RAlts [RSeq (RStr ''BRK_MT_'') (RAtLeast 4 (RSet caps_num)),
     RSeq (RStr ''BRK_REDIRECT_'') (RPlus (RSet caps_num)), RSeq (RStr ''ZPN_'') (RAtLeast 4 (RSet caps_num)),
     RSeq (RStr ''ZEVENT_'') (RAtLeast 4 (RSet caps_num)), RSeq (RStr ''ZS_'') (RAtLeast 4 (RSet caps_num))]), RBound]"

definition inv_app_rx :: rx where
  "inv_app_rx = assign_rx (RAlt (RSeqs [RStr ''App'', sep, RStr ''Name'']) (RStr ''app_name''))
     (RPlus (RSet (alnum @ [CLit (CHR ''.''), CLit (CHR ''_''), CLit (CHR ''-'')])))"

definition inv_broker_rx :: rx where
  "inv_broker_rx = RSeqs [RBound, RGroup 1 (RSeqs [RStr ''broker'', RStar (RSet broker_chars), RLit (CHR ''.''),
     RStar (RSeq (RPlus (RSet broker_chars)) (RLit (CHR ''.''))), RStrs [''zpath'', ''zscaler'', ''zpalb'', ''zpaservice''], RStr ''.net'']), RBound]"

definition dash_low :: rx where
  "dash_low = RSet [CLit (CHR ''-''), CLit (CHR ''_'')]"

definition inv_sme_rx :: rx where
  "inv_sme_rx = RSeqs [RBound, RGroup 1 (RSeqs [RAlts [RStr ''sme'',
       RSeqs [ROpt (RSeq (RPlus (RSet broker_chars)) dash_low), RStr ''sme'', dash_low, RPlus (RSet broker_chars)],
       RSeqs [RPlus (RSet broker_chars), dash_low, RStr ''sme'', RStar (RSet [CRange (CHR ''0'') (CHR ''9'')])]],
     RStr ''.zscaler'', RStar (RSet low_alnum), RStr ''.net'']), RBound]"

definition inv_octet :: rx where
  "inv_octet = RAlts [RSeq (RStr ''25'') (RSet [CRange (CHR ''0'') (CHR ''5'')]),
     RSeqs [RStr ''2'', RSet [CRange (CHR ''0'') (CHR ''4'')], RSet [CDigit]], RSeq (RStr ''1'') (RTimes 2 (RSet [CDigit])),
     RSeq (ROpt (RSet [CRange (CHR ''1'') (CHR ''9'')])) (RSet [CDigit])]"

definition inv_ipv4_rx :: rx where
  "inv_ipv4_rx = RSeqs [RBound, RGroup 1 (RSeq inv_octet (RTimes 3 (RSeq (RLit (CHR ''.'')) inv_octet))), RBound]"

definition inv_http_rx :: rx where
  "inv_http_rx = RSeqs [RStr ''HTTP'', ROpt (RSeqs [RLit (CHR ''/''), RSet [CDigit], RLit (CHR ''.''), RSet [CDigit]]), RPlus (RSet [CSpace]),
     RGroup 1 (RSeq (RSet [CRange (CHR ''1'') (CHR ''5'')]) (RTimes 2 (RSet [CDigit]))), RBound]"

definition dns_label :: rx where
  "dns_label = RSeq (RSet low_alnum) (ROpt (RSeq (RUpTo 61 (RSet (low_alnum @ [CLit (CHR ''-'')]))) (RSet low_alnum)))"

definition dns_prefix :: rx where
  "dns_prefix = RStar (RSeq dns_label (RLit (CHR ''.'')))"

definition zia_cloud_rx :: rx where
  "zia_cloud_rx = RSeqs [RBound, dns_prefix, RGroup 1 (RStrs [''zscalerthree'', ''zscalertwo'', ''zscalerbeta'', ''zscalergov'', ''zscalerten'', ''zscloud'', ''zscaler'']),
     RLit (CHR ''.''), RGroup 2 (RStrs [''net'', ''us'']), RBound]"

definition cloud_value :: rx where
  "cloud_value = RSeqs [RSet low_alnum, RTimes 2 (RSet (low_alnum @ [CLit (CHR ''.''), CLit (CHR ''-'')])), RUpTo 38 (RSet (low_alnum @ [CLit (CHR ''.''), CLit (CHR ''-'')]))]"

definition zia_label_rx :: rx where
  "zia_label_rx = labelled_rx (RAlts [RSeq (RStr ''ziaCloudName'') (ROpt (RStr ''WithTld'')), RStr ''zia_cloud_name'', RStr ''cloudName'', RStr ''cloud_name''])
     cloud_value"

definition zpa_cloud_rx :: rx where
  "zpa_cloud_rx = RSeqs [RBound, dns_prefix, RGroup 1 (RStrs [''zpath.net'', ''zpabeta.net'', ''zpagov.net'', ''private.zscaler.com'']), RBound]"

definition zpa_label_rx :: rx where
  "zpa_label_rx = labelled_rx (RAlts [RStr ''zpaCloud'', RStr ''zpn_cloud'', RStr ''zpnCloud'', RSeqs [RStr ''Broker'', any_space, RStr ''Cloud'']])
     cloud_value"

definition dc_gateway_rx :: rx where
  "dc_gateway_rx = RSeqs [RStr ''zs'', digits_plus, RLit (CHR ''-''), RGroup 1 (RPlus (RSet low_alnum)), RLit (CHR ''-''), RPlus (RSet low_alnum),
     RStr ''-sme.gateway.'', RPlus (RSet [CRange (CHR ''a'') (CHR ''z'')]), RStr ''.net'']"

definition dc_token_rx :: rx where
  "dc_token_rx = RSeqs [RBegin, RTimes 3 (RSet [CRange (CHR ''a'') (CHR ''z'')]), RSet [CDigit], RUpTo 1 (RSet [CDigit]), REnd]"

definition mail_rx :: rx where
  "mail_rx = RSeqs [RPlus (RSet (alnum @ [CLit (CHR ''.''), CLit (CHR ''_''), CLit (CHR ''%''), CLit (CHR ''+''), CLit (CHR ''-'')])), RLit (CHR ''@''),
     RPlus (RSet (alnum @ [CLit (CHR ''.''), CLit (CHR ''-'')])), RLit (CHR ''.''), RAtLeast 2 (RSet [CRange (CHR ''A'') (CHR ''Z''), CRange (CHR ''a'') (CHR ''z'')])]"

definition user_label_rx :: rx where
  "user_label_rx = labelled_rx (RAlts [RStr ''loginName'', RStr ''login_name'', RSeqs [RStr ''Login'', any_space, RStr ''name''], RStr ''UPN'', RStr ''userName'', RStr ''user_name''])
     mail_rx"

definition for_user_rx :: rx where
  "for_user_rx = RSeqs [RStr ''for user'', any_space, RLit (CHR ''=''), any_space, RGroup 1 mail_rx]"

definition login_hint_rx :: rx where
  "login_hint_rx = RSeqs [RStr ''login_hint='', RGroup 1 (RPlus (RNot [CLit (CHR ''&''), CSpace, CLit (CHR 0x22), CLit (CHR 0x27)]))]"

definition bare_mail_rx :: rx where
  "bare_mail_rx = RSeqs [RBound, RGroup 1 mail_rx, RBound]"

definition device_host_rx :: rx where
  "device_host_rx = labelled_rx (RAlts [RStr ''hostName'', RStr ''computerName'', RStr ''host_name'',
       RSeqs [RStr ''Host'', any_space, RSet [CLit (CHR ''N''), CLit (CHR ''n'')], RStr ''ame'']])
     (RSeq (RTimes 2 (RSet (alnum @ [CLit (CHR ''.''), CLit (CHR ''_''), CLit (CHR ''-'')])))
       (RUpTo 62 (RSet (alnum @ [CLit (CHR ''.''), CLit (CHR ''_''), CLit (CHR ''-'')]))))"

definition org_rx :: rx where
  "org_rx = labelled_rx (RAlts [RStr ''companyOrgId'', RStr ''company_id'', RStr ''companyId'', RSeqs [RStr ''Org'', any_space, RStr ''ID'']])
     digits_plus"

definition version_no_rx :: rx where
  "version_no_rx = labelled_rx (RAlts [RStr ''ZCCVersion'', RStr ''clientVersion'', RStr ''appVersion'', RStr ''zccVersion'', RSeqs [RStr ''Agent'', any_space, RStr ''Version'']])
     (RSeqs [digits_plus, RSeq (RLit (CHR ''.'')) digits_plus, RUpTo 3 (RSeq (RLit (CHR ''.'')) digits_plus)])"

section \<open>The identifiers of a line\<close>

definition found1 :: "bool \<Rightarrow> rx \<Rightarrow> string \<Rightarrow> string list" where
  "found1 ic r b = map (grp 1) (rx_finditer ic r b)"

fun split_when :: "(char \<Rightarrow> bool) \<Rightarrow> string \<Rightarrow> string list" where
  "split_when p [] = [[]]"
| "split_when p (c # s) = (if p c then [] # split_when p s
     else case split_when p s of [] \<Rightarrow> [[c]] | w # ws \<Rightarrow> (c # w) # ws)"

text \<open>The labels of a host name that look like the code of a data centre.\<close>

definition derive_dc_tokens :: "string \<Rightarrow> string list" where
  "derive_dc_tokens h = map py_upper (filter (\<lambda>l. rx_match True dc_token_rx l \<noteq> None)
     (split_when (\<lambda>c. c = CHR ''.'' \<or> c = CHR ''-'') h))"

definition hostname_noise :: "string list" where
  "hostname_noise = [''searching'', ''unknown'', ''pending'', ''none'', ''null'', ''n/a'', ''na'', ''localhost'', ''disabled'', ''enabled'',
     ''true'', ''false'', ''empty'', ''failed'', ''success'', ''connecting'', ''connected'', ''disconnected'', ''resolving'', ''waiting'',
     ''retrying'', ''initializing'', ''unavailable'', ''notfound'', ''not_found'', ''error'', ''default'', ''undefined'', ''nil'']"

text \<open>\<open>str.isupper\<close> on the ASCII characters a host name is matched from.\<close>

definition ascii_isupper :: "string \<Rightarrow> bool" where
  "ascii_isupper s = (list_ex (\<lambda>c. cset_has c (CRange (CHR ''A'') (CHR ''Z''))) s \<and> \<not> list_ex (\<lambda>c. cset_has c (CRange (CHR ''a'') (CHR ''z''))) s)"

definition looks_like_device_hostname :: "string \<Rightarrow> bool" where
  "looks_like_device_hostname val = (val \<noteq> [] \<and> \<not> List.member hostname_noise (py_lower val)
     \<and> (list_ex (\<lambda>c. List.member ''-_.'' c) val \<or> list_ex py_isdigit val \<or> ascii_isupper val \<and> 3 \<le> length val))"

definition app_name_noise :: "string list" where
  "app_name_noise = [''unknown'', ''null'', ''none'', [], ''true'', ''false'']"

definition ipv4_noise :: "string list" where
  "ipv4_noise = [''0.0.0.0'', ''127.0.0.1'', ''255.255.255.255'']"

definition domain_noise :: "string list" where
  "domain_noise = [''zscaler.com'', ''zscaler.net'', ''example.com'', ''test.com'']"

text \<open>The finds of one pattern under one type, in order.\<close>

type_synonym id_hit = "string \<times> string"

abbreviation under :: "string \<Rightarrow> string list \<Rightarrow> id_hit list" where
  "under ty vs \<equiv> map (\<lambda>v. (ty, v)) vs"

definition mtunnel_hits :: "string \<Rightarrow> id_hit list" where
  "mtunnel_hits b = concat (map (\<lambda>m. [(''mtunnel_id'', grp 1 m @ '','' @ grp 2 m), (''broker_session'', grp 1 m), (''data_channel'', grp 2 m)])
     (rx_finditer True inv_mtunnel_rx b))"

definition plumbing_hits :: "string \<Rightarrow> id_hit list" where
  "plumbing_hits b =
     under ''tag_id'' (filter (list_ex (\<lambda>c. c \<noteq> CHR ''0'')) (found1 True inv_tag_rx b))
   @ mtunnel_hits b
   @ under ''conn_id'' (found1 True inv_conn_rx b)
   @ under ''session_id'' (found1 True inv_session_rx b)
   @ under ''err_code'' (found1 True inv_err_rx b)
   @ under ''symbolic_code'' (found1 False inv_symbol_rx b)
   @ under ''app'' (filter (\<lambda>v. \<not> List.member app_name_noise (py_lower v)) (found1 True inv_app_rx b))"

definition broker_hosts :: "string \<Rightarrow> string list" where
  "broker_hosts b = map py_lower (found1 True inv_broker_rx b)"

definition sme_hosts :: "string \<Rightarrow> string list" where
  "sme_hosts b = map py_lower (found1 True inv_sme_rx b)"

definition label_clouds :: "rx \<Rightarrow> string \<Rightarrow> string list" where
  "label_clouds r b = filter (\<lambda>v. v \<noteq> [] \<and> \<not> List.member app_name_noise v)
     (map (\<lambda>v. strip_by (\<lambda>c. c = CHR ''.'') (py_lower v)) (found1 True r b))"

definition cloud_hits :: "string \<Rightarrow> id_hit list" where
  "cloud_hits b =
     under ''zia_cloud'' (map (\<lambda>m. py_lower (grp 1 m) @ ''.'' @ py_lower (grp 2 m)) (rx_finditer True zia_cloud_rx b))
   @ under ''zia_cloud'' (map (\<lambda>v. if CHR ''.'' \<in> set v then v else v @ ''.net'') (label_clouds zia_label_rx b))
   @ under ''zpa_cloud'' (map py_lower (found1 True zpa_cloud_rx b))
   @ under ''zpa_cloud'' (label_clouds zpa_label_rx b)"

definition dc_hits :: "string \<Rightarrow> id_hit list" where
  "dc_hits b = under ''dc'' (map py_upper (found1 True dc_gateway_rx b)
     @ concat (map derive_dc_tokens (broker_hosts b @ sme_hosts b)))"

definition login_hint_value :: "string \<Rightarrow> string" where
  "login_hint_value v = replace_all ''+'' '' '' (replace_all ''%40'' ''@'' v)"

definition labelled_users :: "string \<Rightarrow> string list" where
  "labelled_users b = found1 True user_label_rx b @ found1 True for_user_rx b
     @ filter (\<lambda>v. CHR ''@'' \<in> set v) (map login_hint_value (found1 True login_hint_rx b))"

definition mail_domain :: "string \<Rightarrow> string" where
  "mail_domain a = py_lower (case partition_at ''@'' a of (l, s, d) \<Rightarrow> if s = [] then l else d)"

definition user_names :: "string \<Rightarrow> string list" where
  "user_names b = (if labelled_users b \<noteq> [] then labelled_users b
     else filter (\<lambda>a. \<not> List.member domain_noise (mail_domain a)) (found1 False bare_mail_rx b))"

definition all_hits :: "string \<Rightarrow> id_hit list" where
  "all_hits b = plumbing_hits b
   @ under ''broker'' (broker_hosts b)
   @ under ''sme_host'' (sme_hosts b)
   @ under ''ipv4'' (filter (\<lambda>v. \<not> List.member ipv4_noise v) (found1 False inv_ipv4_rx b))
   @ under ''http_status'' (found1 False inv_http_rx b)
   @ cloud_hits b
   @ dc_hits b
   @ under ''username'' (user_names b)
   @ under ''device_hostname'' (filter looks_like_device_hostname (found1 False device_host_rx b))
   @ under ''org_id'' (found1 True org_rx b)
   @ under ''zcc_version'' (found1 True version_no_rx b)"

definition extract_all :: "string \<Rightarrow> (string, string list) dict" where
  "extract_all b = fold (\<lambda>(k, v). add_id k v) (all_hits b) []"

section \<open>The inventory\<close>

record id_stat =
  id_value :: string
  id_count :: nat
  id_first :: int
  id_last :: int
  id_files :: "string list"
  id_components :: "string list"

type_synonym inventory = "(string, (string, id_stat) dict) dict"

definition first_sight :: "string \<Rightarrow> indexed_line \<Rightarrow> id_stat" where
  "first_sight v ln = \<lparr>id_value = v, id_count = 0, id_first = ts ln, id_last = ts ln, id_files = [], id_components = []\<rparr>"

definition add_name :: "string \<Rightarrow> string list \<Rightarrow> string list" where
  "add_name n ns = (if n = [] then ns else List.insert n ns)"

definition see :: "indexed_line \<Rightarrow> id_stat \<Rightarrow> id_stat" where
  "see ln s = s\<lparr>id_count := id_count s + 1,
     id_first := (if ts ln < id_first s then ts ln else id_first s),
     id_last := (if id_last s < ts ln then ts ln else id_last s),
     id_files := add_name (source_file ln) (id_files s),
     id_components := add_name (component ln) (id_components s)\<rparr>"

definition note_id :: "indexed_line \<Rightarrow> string \<Rightarrow> string \<Rightarrow> inventory \<Rightarrow> inventory" where
  "note_id ln ty v g = (let bucket = dict_getd g ty [];
     stat = (case dict_get bucket v of None \<Rightarrow> first_sight v ln | Some s \<Rightarrow> s) in
     dict_set ty (dict_set v (see ln stat) bucket) g)"

definition inventory_line :: "indexed_line \<Rightarrow> inventory \<Rightarrow> inventory" where
  "inventory_line ln g = fold (\<lambda>(ty, vs). fold (note_id ln ty) (remdups vs)) (extract_all (body ln)) g"

definition build_inventory :: "indexed_line list \<Rightarrow> inventory" where
  "build_inventory ls = fold inventory_line ls []"

definition tag_types :: "inventory \<Rightarrow> string list" where
  "tag_types g = sort (dict_keys g)"

text \<open>\<open>values_for\<close>: an unknown order is the \<open>ValueError\<close> of the code.\<close>

definition most_frequent :: "id_stat list \<Rightarrow> id_stat list" where
  "most_frequent ss = sort_key (\<lambda>s. (- int (id_count s), id_value s)) ss"

definition values_for :: "inventory \<Rightarrow> string \<Rightarrow> string \<Rightarrow> string + id_stat list" where
  "values_for g ty order = (let stats = map snd (dict_getd g ty []) in
     if order = ''count'' then Inr (most_frequent stats)
     else if order = ''value'' then Inr (sort_key id_value stats)
     else if order = ''first_ts'' then Inr (sort_key (\<lambda>s. (id_first s, id_value s)) stats)
     else if order = ''last_ts'' then Inr (rev (sort_key (\<lambda>s. (id_last s, id_value s)) stats))
     else Inl order)"

definition total_by_type :: "inventory \<Rightarrow> (string, nat) dict" where
  "total_by_type g = map (\<lambda>(ty, b). (ty, length b)) g"

definition total_ids :: "inventory \<Rightarrow> nat" where
  "total_ids g = sum_list (map (\<lambda>(ty, b). length b) g)"

text \<open>The inventory turned around: component, then type, then the values seen there.\<close>

definition comps_of :: "id_stat \<Rightarrow> string list" where
  "comps_of s = (if id_components s = [] then [''(unknown)''] else id_components s)"

definition placements :: "inventory \<Rightarrow> (string \<times> string \<times> id_stat) list" where
  "placements g = concat (map (\<lambda>(ty, b). concat (map (\<lambda>(v, s). map (\<lambda>c. (c, ty, s)) (comps_of s)) b)) g)"

definition place :: "string \<times> string \<times> id_stat \<Rightarrow> (string, (string, id_stat list) dict) dict \<Rightarrow> (string, (string, id_stat list) dict) dict" where
  "place p acc = (case p of (c, ty, s) \<Rightarrow>
     let d = dict_getd acc c [] in dict_set c (dict_set ty (dict_getd d ty [] @ [s]) d) acc)"

definition group_by_component :: "inventory \<Rightarrow> (string, (string, id_stat list) dict) dict" where
  "group_by_component g = map (\<lambda>(c, d). (c, map (\<lambda>(ty, ss). (ty, most_frequent ss)) d)) (fold place (placements g) [])"

section \<open>What the inventory records\<close>

definition stat_of :: "inventory \<Rightarrow> string \<Rightarrow> string \<Rightarrow> id_stat option" where
  "stat_of g ty v = dict_get (dict_getd g ty []) v"

definition mentions_id :: "string \<Rightarrow> string \<Rightarrow> indexed_line \<Rightarrow> bool" where
  "mentions_id ty v ln = List.member (dict_getd (extract_all (body ln)) ty []) v"

definition seen_as :: "string \<Rightarrow> indexed_line \<Rightarrow> id_stat option \<Rightarrow> id_stat" where
  "seen_as v ln o' = see ln (case o' of None \<Rightarrow> first_sight v ln | Some s \<Rightarrow> s)"

lemma stat_of_note:
  "stat_of (note_id ln ty v g) ty' v' = (if ty' = ty \<and> v' = v then Some (seen_as v ln (stat_of g ty v)) else stat_of g ty' v')"
  by (auto simp: stat_of_def note_id_def seen_as_def Let_def dict_getd_rec dict_get_set)

lemma stat_of_notes:
  "distinct vs \<Longrightarrow> stat_of (fold (note_id ln ty) vs g) ty' v'
     = (if ty' = ty \<and> v' \<in> set vs then Some (seen_as v' ln (stat_of g ty v')) else stat_of g ty' v')"
  by (induction vs arbitrary: g) (auto simp: stat_of_note)

lemma dict_getd_in: "distinct (dict_keys d) \<Longrightarrow> (k, v) \<in> set d \<Longrightarrow> dict_getd d k w = v"
  by (simp add: dict_getd_def)

lemma extract_all_keys: "distinct (dict_keys (extract_all b))"
proof -
  have "distinct (dict_keys d) \<Longrightarrow> distinct (dict_keys (fold (\<lambda>(k, v). add_id k v) hs d))" for hs d
    by (induction hs arbitrary: d) (auto simp: add_id_def alist.ok_put)
  then show ?thesis by (simp add: extract_all_def)
qed

lemma stat_of_types:
  assumes "distinct (dict_keys d)"
  shows "stat_of (fold (\<lambda>(ty, vs). fold (note_id ln ty) (remdups vs)) d g) ty v
    = (if v \<in> set (dict_getd d ty []) then Some (seen_as v ln (stat_of g ty v)) else stat_of g ty v)"
  using assms
proof (induction d arbitrary: g)
  case (Cons kv d)
  obtain k vs where kv: "kv = (k, vs)" by (cases kv)
  have "dict_getd d k [] = []" using Cons.prems by (intro dict_getd_notin) (simp add: kv)
  with Cons show ?case by (auto simp: kv stat_of_notes dict_getd_rec)
qed (simp add: dict_getd_rec)

lemma stat_of_line:
  "stat_of (inventory_line ln g) ty v = (if mentions_id ty v ln then Some (seen_as v ln (stat_of g ty v)) else stat_of g ty v)"
  by (simp add: inventory_line_def stat_of_types extract_all_keys mentions_id_def)

text \<open>The lines a value was seen on determine everything the inventory says of it.\<close>

definition names_of :: "(indexed_line \<Rightarrow> string) \<Rightarrow> indexed_line list \<Rightarrow> string set" where
  "names_of f ls = set (filter (\<lambda>n. n \<noteq> []) (map f ls))"

definition stat_ok :: "string \<Rightarrow> indexed_line list \<Rightarrow> id_stat \<Rightarrow> bool" where
  "stat_ok v ls s = (id_value s = v \<and> id_count s = length ls
     \<and> id_first s = Min (set (map ts ls)) \<and> id_last s = Max (set (map ts ls))
     \<and> set (id_files s) = names_of source_file ls \<and> set (id_components s) = names_of component ls
     \<and> distinct (id_files s) \<and> distinct (id_components s))"

definition stat_spec :: "string \<Rightarrow> indexed_line list \<Rightarrow> id_stat option \<Rightarrow> bool" where
  "stat_spec v ls o' = (case o' of None \<Rightarrow> ls = [] | Some s \<Rightarrow> ls \<noteq> [] \<and> stat_ok v ls s)"

lemma add_name_set: "set (add_name n ns) = set ns \<union> (if n = [] then {} else {n})" "distinct ns \<Longrightarrow> distinct (add_name n ns)"
  by (auto simp: add_name_def)

lemma min_max_if: "min a b = (if a < b then a else (b::int))" "max a b = (if b < a then a else b)"
  by (simp_all add: min_def max_def)

lemma Min_Max_snoc:
  assumes "ls \<noteq> []"
  shows "Min (set (map ts (ls @ [ln]))) = (if ts ln < Min (set (map ts ls)) then ts ln else Min (set (map ts ls)))"
    and "Max (set (map ts (ls @ [ln]))) = (if Max (set (map ts ls)) < ts ln then ts ln else Max (set (map ts ls)))"
proof -
  have s: "set (map ts (ls @ [ln])) = insert (ts ln) (set (map ts ls))" by simp
  have ne: "set (map ts ls) \<noteq> {}" using assms by simp
  have "Min (set (map ts (ls @ [ln]))) = min (ts ln) (Min (set (map ts ls)))"
    unfolding s by (rule Min_insert [OF finite_set ne])
  then show "Min (set (map ts (ls @ [ln]))) = (if ts ln < Min (set (map ts ls)) then ts ln else Min (set (map ts ls)))"
    by (simp only: min_max_if)
  have "Max (set (map ts (ls @ [ln]))) = max (ts ln) (Max (set (map ts ls)))"
    unfolding s by (rule Max_insert [OF finite_set ne])
  then show "Max (set (map ts (ls @ [ln]))) = (if Max (set (map ts ls)) < ts ln then ts ln else Max (set (map ts ls)))"
    by (simp only: min_max_if)
qed

lemma stat_spec_step: "stat_spec v ls o' \<Longrightarrow> stat_spec v (ls @ [ln]) (Some (seen_as v ln o'))"
proof (cases o')
  case None
  assume "stat_spec v ls o'"
  with None show ?thesis
    by (auto simp: stat_spec_def stat_ok_def seen_as_def see_def first_sight_def add_name_set names_of_def)
next
  case (Some s)
  assume "stat_spec v ls o'"
  with Some have ls: "ls \<noteq> []" "stat_ok v ls s" by (simp_all add: stat_spec_def)
  have names: "names_of f (ls @ [ln]) = names_of f ls \<union> (if f ln = [] then {} else {f ln})" for f
    by (auto simp: names_of_def)
  show ?thesis using ls(2) unfolding Some stat_spec_def stat_ok_def seen_as_def see_def option.case Min_Max_snoc [OF ls(1)] names
    by (simp add: add_name_set)
qed

text \<open>
  C21: A value is in the inventory exactly when a line mentions it, and then its entry counts
  those lines, each once, spans their times, and names their files and components.
\<close>

theorem inventory_spec:
  "stat_spec v (filter (mentions_id ty v) ls) (stat_of (build_inventory ls) ty v)"
proof (induction ls rule: rev_induct)
  case Nil
  then show ?case by (simp add: build_inventory_def stat_of_def dict_getd_rec stat_spec_def)
next
  case (snoc ln ls)
  have "build_inventory (ls @ [ln]) = inventory_line ln (build_inventory ls)" by (simp add: build_inventory_def)
  with snoc show ?case by (simp add: stat_of_line stat_spec_step)
qed

section \<open>The inventory turned around\<close>

definition bucket_ok :: "string \<times> (string, id_stat) dict \<Rightarrow> bool" where
  "bucket_ok kb = (snd kb \<noteq> [] \<and> distinct (dict_keys (snd kb)) \<and> list_all (\<lambda>(v, s). id_value s = v \<and> distinct (id_components s)) (snd kb))"

definition inventory_ok :: "inventory \<Rightarrow> bool" where
  "inventory_ok g = (distinct (dict_keys g) \<and> list_all bucket_ok g)"

lemma dict_set_nonempty [simp]: "dict_set k v d \<noteq> []"
  by (cases d) (auto simp: dict_set_def)

lemma list_all_dict_set: "list_all P d \<Longrightarrow> P (k, v) \<Longrightarrow> list_all P (dict_set k v d)"
  by (induction d) (auto simp: dict_set_def)

lemma dict_getd_mem: "dict_getd d k w \<noteq> w \<Longrightarrow> (k, dict_getd d k w) \<in> set d"
  by (auto simp: dict_getd_def split: option.splits dest: map_of_SomeD)

lemma inventory_ok_note: "inventory_ok g \<Longrightarrow> inventory_ok (note_id ln ty v g)"
proof -
  assume g: "inventory_ok g"
  let ?b = "dict_getd g ty []" and ?st = "seen_as v ln (dict_get (dict_getd g ty []) v)"
  have b: "?b = [] \<or> bucket_ok (ty, ?b)"
    using g dict_getd_mem [of g ty "[]"] by (auto simp: inventory_ok_def list_all_iff)
  then have keys: "distinct (dict_keys ?b)" and stats: "list_all (\<lambda>(v, s). id_value s = v \<and> distinct (id_components s)) ?b"
    by (auto simp: bucket_ok_def)
  have "id_value s = v \<and> distinct (id_components s)" if "dict_get ?b v = Some s" for s
    using that stats by (auto simp: list_all_iff dest: map_of_SomeD)
  then have "id_value ?st = v \<and> distinct (id_components ?st)"
    by (auto simp: seen_as_def see_def first_sight_def add_name_set split: option.split)
  then have "bucket_ok (ty, dict_set v ?st ?b)"
    using keys stats by (simp add: bucket_ok_def alist.ok_put list_all_dict_set)
  moreover have "note_id ln ty v g = dict_set ty (dict_set v ?st ?b) g"
    by (simp add: note_id_def seen_as_def Let_def)
  ultimately show ?thesis using g by (simp add: inventory_ok_def alist.ok_put list_all_dict_set)
qed

lemma inventory_ok_built: "inventory_ok (build_inventory ls)"
proof -
  have many: "inventory_ok g \<Longrightarrow> inventory_ok (fold (note_id ln ty) vs g)" for ln ty vs g
    by (induction vs arbitrary: g) (auto simp: inventory_ok_note)
  have types: "inventory_ok g \<Longrightarrow> inventory_ok (fold (\<lambda>(ty, vs). fold (note_id ln ty) (remdups vs)) d g)" for ln d g
    by (induction d arbitrary: g) (auto simp: many)
  have "inventory_ok g \<Longrightarrow> inventory_ok (fold inventory_line ls g)" for g
    by (induction ls arbitrary: g) (auto simp: inventory_line_def types)
  then show ?thesis by (simp add: build_inventory_def inventory_ok_def)
qed

lemma placed:
  "dict_getd (dict_getd (fold place ps acc) c []) ty []
    = dict_getd (dict_getd acc c []) ty [] @ map (snd \<circ> snd) (filter (\<lambda>p. fst p = c \<and> fst (snd p) = ty) ps)"
  by (induction ps arbitrary: acc) (auto simp: place_def Let_def dict_getd_rec)

lemma places_of_bucket:
  "list_all (\<lambda>(v, s). distinct (id_components s)) b \<Longrightarrow>
   map (snd \<circ> snd) (filter (\<lambda>p. fst p = c \<and> fst (snd p) = ty) (concat (map (\<lambda>(v, s). map (\<lambda>c. (c, ty', s)) (comps_of s)) b)))
     = (if ty' = ty then filter (\<lambda>s. List.member (comps_of s) c) (map snd b) else [])"
proof (induction b)
  case (Cons vs b)
  have "distinct cs \<Longrightarrow> filter (\<lambda>p. fst p = c \<and> fst (snd p) = ty) (map (\<lambda>c. (c, ty', s)) cs)
      = (if ty' = ty \<and> c \<in> set cs then [(c, ty', s)] else [])" for cs and s :: id_stat
    by (induction cs) auto
  moreover have "distinct (comps_of (snd vs))" using Cons.prems by (auto simp: comps_of_def case_prod_unfold)
  ultimately show ?case using Cons by (simp add: case_prod_unfold)
qed simp

lemma places_of:
  assumes "inventory_ok g"
  shows "map (snd \<circ> snd) (filter (\<lambda>p. fst p = c \<and> fst (snd p) = ty) (placements g))
    = filter (\<lambda>s. List.member (comps_of s) c) (map snd (dict_getd g ty []))"
  using assms
proof (induction g)
  case (Cons kb g)
  obtain k b where kb: "kb = (k, b)" by (cases kb)
  have "list_all (\<lambda>(v, s). distinct (id_components s)) b" "inventory_ok g" "k \<notin> set (dict_keys g)"
    using Cons.prems by (auto simp: kb inventory_ok_def bucket_ok_def list_all_iff)
  then show ?case
    using Cons.IH places_of_bucket [of b c ty k] dict_getd_notin [of k g "[]"]
    by (auto simp: kb placements_def dict_getd_rec comp_def)
qed (simp add: placements_def dict_getd_rec)

text \<open>
  Turned around by component, the inventory lists under a component and a type exactly
  the values of that type seen in the component, each once, the most frequent first.
\<close>

theorem inventory_by_component:
  "dict_getd (dict_getd (group_by_component (build_inventory ls)) c []) ty []
   = most_frequent (filter (\<lambda>s. List.member (comps_of s) c) (map snd (dict_getd (build_inventory ls) ty [])))
   \<and> distinct (map id_value (map snd (dict_getd (build_inventory ls) ty [])))"
proof
  let ?g = "build_inventory ls" and ?f = "map (\<lambda>(ty, ss). (ty, most_frequent ss))"
  have n: "most_frequent [] = []" by (simp add: most_frequent_def)
  have "dict_getd (dict_getd (map (\<lambda>(c, d). (c, ?f d)) out') c (?f [])) ty (most_frequent []) = most_frequent (dict_getd (dict_getd out' c []) ty [])" for out'
    unfolding dict_getd_map_snd ..
  then show "dict_getd (dict_getd (group_by_component ?g) c []) ty [] = most_frequent (filter (\<lambda>s. List.member (comps_of s) c) (map snd (dict_getd ?g ty [])))"
    using places_of [OF inventory_ok_built] by (simp add: group_by_component_def n placed dict_getd_rec)
  have "dict_getd ?g ty [] = [] \<or> bucket_ok (ty, dict_getd ?g ty [])"
    using inventory_ok_built [of ls] dict_getd_mem [of ?g ty "[]"] by (auto simp: inventory_ok_def list_all_iff)
  moreover have "map id_value (map snd b) = dict_keys b" if "bucket_ok (ty, b)" for b
    using that by (auto simp: bucket_ok_def list_all_iff)
  ultimately have "dict_getd ?g ty [] = [] \<or> map id_value (map snd (dict_getd ?g ty [])) = dict_keys (dict_getd ?g ty [])
      \<and> distinct (dict_keys (dict_getd ?g ty []))"
    by (auto simp: bucket_ok_def simp del: map_map)
  then show "distinct (map id_value (map snd (dict_getd ?g ty [])))" by (elim disjE conjE) (simp_all del: map_map)
qed

end
