(* ===== verification/Timeline.thy ===== *)
theory Timeline
  imports Id_Inventory
begin

text \<open>
  The timeline (\<open>timeline.py\<close>): the lines of an index within a radius of a time, in lanes
  that gather the phases of the session reconstruction, and the comparison of two windows.
  Times are microseconds of UTC; the conversion of a naive centre has been done.
\<close>

section \<open>Windows\<close>

definition phase_lanes :: "(string, string) dict" where
  "phase_lanes = [(''auth_transition'', ''auth''), (''saml_expired'', ''auth''), (''mtunnel_setup'', ''mtunnel''), (''mtunnel_close'', ''mtunnel''),
     (''data_ack'', ''mtunnel''), (''broker_redirect'', ''broker''), (''dc_changed'', ''broker''), (''power_change'', ''power''),
     (''network_change'', ''network''), (''trust_state_change'', ''network''), (''service_start'', ''service''), (''policy_push'', ''policy''),
     (''cert_expiry_check'', ''cert''), (''kerberos_lookup'', ''kerberos''), (''tray_notification'', ''tray'')]"

definition lane_order :: "string list" where
  "lane_order = [''auth'', ''mtunnel'', ''broker'', ''power'', ''network'', ''service'', ''policy'', ''cert'', ''kerberos'', ''tray'', ''data'']"

definition phase_to_lane :: "string \<Rightarrow> string" where
  "phase_to_lane p = dict_getd phase_lanes p ''data''"

record timeline_event =
  te_ts :: int
  te_lane :: string
  te_phase :: string
  te_level :: string
  te_component :: string
  te_source :: string
  te_line_no :: nat
  te_body :: string

record lane_window =
  w_centre :: int
  w_radius :: int
  w_start :: int
  w_end :: int
  total_events :: nat
  lane_counts :: "(string, nat) dict"
  lane_events :: "(string, timeline_event list) dict"
  ids_seen :: "(string, string list) dict"

definition lane_of :: "indexed_line \<Rightarrow> string" where
  "lane_of ln = phase_to_lane (classify_phase (body ln))"

definition event_of :: "indexed_line \<Rightarrow> timeline_event" where
  "event_of ln = \<lparr>te_ts = ts ln, te_lane = lane_of ln, te_phase = classify_phase (body ln), te_level = level ln,
     te_component = component ln, te_source = source_file ln, te_line_no = line_no ln, te_body = body ln\<rparr>"

definition wanted :: "string list option \<Rightarrow> string \<Rightarrow> bool" where
  "wanted lanes lane = (case lanes of None \<Rightarrow> True | Some ls \<Rightarrow> List.member ls lane)"

definition add_event :: "indexed_line \<Rightarrow> (string, timeline_event list) dict \<Rightarrow> (string, timeline_event list) dict" where
  "add_event ln d = dict_set (lane_of ln) (dict_getd d (lane_of ln) [] @ [event_of ln]) d"

definition window_step :: "string list option \<Rightarrow> indexed_line \<Rightarrow> lane_window \<Rightarrow> lane_window" where
  "window_step lanes ln w =
     (if ts ln < w_start w \<or> w_end w < ts ln then w
      else w\<lparr>lane_counts := dict_add (lane_of ln) 1 (lane_counts w), total_events := total_events w + 1,
             lane_events := (if wanted lanes (lane_of ln) then add_event ln (lane_events w) else lane_events w),
             ids_seen := fold (\<lambda>(k, vs). add_set k vs) (extract_all (body ln)) (ids_seen w)\<rparr>)"

text \<open>\<open>lane_counts.setdefault(lane, 0)\<close>\<close>

definition set_default :: "string \<Rightarrow> (string, nat) dict \<Rightarrow> (string, nat) dict" where
  "set_default k d = (case dict_get d k of None \<Rightarrow> dict_set k 0 d | Some _ \<Rightarrow> d)"

definition empty_window :: "int \<Rightarrow> int \<Rightarrow> lane_window" where
  "empty_window centre radius = \<lparr>w_centre = centre, w_radius = radius, w_start = centre - radius, w_end = centre + radius,
     total_events = 0, lane_counts = [], lane_events = [], ids_seen = []\<rparr>"

definition build_timeline :: "indexed_line list \<Rightarrow> int \<Rightarrow> int \<Rightarrow> string list option \<Rightarrow> lane_window" where
  "build_timeline ls centre radius lanes = (let w = fold (window_step lanes) ls (empty_window centre radius) in
     w\<lparr>lane_counts := fold set_default lane_order (lane_counts w),
       lane_events := map (\<lambda>(k, es). (k, sort_key (\<lambda>e. (te_ts e, te_line_no e)) es)) (lane_events w)\<rparr>)"

definition flatten_events :: "lane_window \<Rightarrow> timeline_event list" where
  "flatten_events w = sort_key (\<lambda>e. (te_ts e, te_source e, te_line_no e)) (concat (map snd (lane_events w)))"

section \<open>The lanes of a window\<close>

definition in_window :: "int \<Rightarrow> int \<Rightarrow> indexed_line \<Rightarrow> bool" where
  "in_window centre radius ln = (centre - radius \<le> ts ln \<and> ts ln \<le> centre + radius)"

definition window_inv :: "string list option \<Rightarrow> int \<Rightarrow> int \<Rightarrow> indexed_line list \<Rightarrow> lane_window \<Rightarrow> bool" where
  "window_inv lanes centre radius ls w = (w_start w = centre - radius \<and> w_end w = centre + radius
     \<and> total_events w = length ls \<and> distinct (dict_keys (lane_counts w)) \<and> dict_total (lane_counts w) = length ls
     \<and> (\<forall>k. dict_getd (lane_counts w) k 0 = length (filter (\<lambda>ln. lane_of ln = k) ls))
     \<and> distinct (dict_keys (lane_events w))
     \<and> (\<forall>k. dict_getd (lane_events w) k [] = map event_of (filter (\<lambda>ln. lane_of ln = k \<and> wanted lanes k) ls))
     \<and> set (dict_keys (lane_counts w)) \<subseteq> lane_of ` set ls \<and> set (dict_keys (lane_events w)) \<subseteq> lane_of ` set ls
     \<and> (\<forall>k. set (dict_getd (ids_seen w) k []) = (\<Union>ln \<in> set ls. set (dict_getd (extract_all (body ln)) k []))) \<and> sets_ok (ids_seen w))"

lemma window_inv_step:
  assumes "window_inv lanes centre radius ls w" "in_window centre radius ln"
  shows "window_inv lanes centre radius (ls @ [ln]) (window_step lanes ln w)"
proof -
  have keys: "set (dict_keys (dict_add k 1 d)) = insert k (set (dict_keys d))" for k and d :: "(string, nat) dict"
    by (rule dict_keys_add)
  show ?thesis
    using assms unfolding window_inv_def in_window_def window_step_def add_event_def
    by (auto simp: dict_getd_add distinct_dict_add dict_total_add dict_getd_rec alist.ok_put add_sets_get extract_all_keys
        sets_ok_adds dict_keys_set [unfolded list.set_map] dict_keys_add [unfolded list.set_map])
qed

lemma window_inv_skip: "window_inv lanes centre radius ls w \<Longrightarrow> \<not> in_window centre radius ln \<Longrightarrow> window_step lanes ln w = w"
  by (auto simp: window_inv_def in_window_def window_step_def)

lemma window_inv_fold: "window_inv lanes centre radius (filter (in_window centre radius) ls) (fold (window_step lanes) ls (empty_window centre radius))"
proof (induction ls rule: rev_induct)
  case Nil
  then show ?case by (simp add: window_inv_def empty_window_def dict_getd_rec dict_total_def sets_ok_def)
next
  case (snoc ln ls)
  then show ?case by (cases "in_window centre radius ln") (simp_all add: window_inv_step window_inv_skip)
qed

lemma lane_known: "List.member lane_order (phase_to_lane p)"
proof (cases "dict_get phase_lanes p")
  case None
  then show ?thesis by (simp add: phase_to_lane_def dict_getd_def lane_order_def)
next
  case (Some l)
  then have "(p, l) \<in> set phase_lanes" by (rule map_of_SomeD)
  then have "l \<in> snd ` set phase_lanes" by force
  moreover have "list_all (\<lambda>l. List.member lane_order l) (map snd phase_lanes)" by code_simp
  ultimately show ?thesis using Some by (auto simp: phase_to_lane_def dict_getd_def list_all_iff)
qed

lemma set_defaults:
  assumes "distinct (dict_keys d)"
  shows "dict_getd (fold set_default ks d) k 0 = dict_getd d k 0 \<and> distinct (dict_keys (fold set_default ks d))
    \<and> set (dict_keys (fold set_default ks d)) = set (dict_keys d) \<union> set ks \<and> dict_total (fold set_default ks d) = dict_total d"
  using assms
proof (induction ks arbitrary: d)
  case (Cons j ks)
  have "dict_total (dict_set j 0 d) = dict_total d" if "dict_get d j = None"
    using that by (induction d) (auto simp: dict_set_def dict_total_def split: if_splits)
  moreover have "j \<in> set (dict_keys d)" if "dict_get d j = Some n" for n
    using that by (force dest: map_of_SomeD)
  moreover have "dict_getd (dict_set j 0 d) k 0 = dict_getd d k 0" if "dict_get d j = None"
    using that by (simp add: dict_getd_def dict_get_set)
  ultimately show ?case
    using Cons.IH [of d] Cons.IH [of "dict_set j 0 d"] Cons.prems dict_keys_set [of j 0 d]
    by (cases "dict_get d j") (auto simp: set_default_def alist.ok_put)
qed simp

lemma window_counts:
  fixes ls centre radius lanes
  defines "w \<equiv> build_timeline ls centre radius lanes" and "ins \<equiv> filter (in_window centre radius) ls"
  shows "total_events w = length ins" "dict_total (lane_counts w) = length ins"
    "dict_getd (lane_counts w) k 0 = length (filter (\<lambda>ln. lane_of ln = k) ins)"
    "distinct (dict_keys (lane_counts w))" "set (dict_keys (lane_counts w)) = set lane_order"
    "set (dict_getd (ids_seen w) k []) = (\<Union>ln \<in> set ins. set (dict_getd (extract_all (body ln)) k []))"
    "sets_ok (ids_seen w)"
proof -
  have inv: "window_inv lanes centre radius ins (fold (window_step lanes) ls (empty_window centre radius))"
    unfolding ins_def by (rule window_inv_fold)
  have "lane_of ` set ins \<subseteq> set lane_order" using lane_known by (auto simp: lane_of_def)
  moreover have "set (dict_keys (lane_counts (fold (window_step lanes) ls (empty_window centre radius)))) \<subseteq> lane_of ` set ins"
    using inv by (simp add: window_inv_def)
  ultimately have "set (dict_keys (lane_counts (fold (window_step lanes) ls (empty_window centre radius)))) \<union> set lane_order = set lane_order"
    by blast
  then show "total_events w = length ins" "dict_total (lane_counts w) = length ins"
    "dict_getd (lane_counts w) k 0 = length (filter (\<lambda>ln. lane_of ln = k) ins)"
    "distinct (dict_keys (lane_counts w))" "set (dict_keys (lane_counts w)) = set lane_order"
    "set (dict_getd (ids_seen w) k []) = (\<Union>ln \<in> set ins. set (dict_getd (extract_all (body ln)) k []))"
    "sets_ok (ids_seen w)"
    using inv set_defaults [of "lane_counts (fold (window_step lanes) ls (empty_window centre radius))" lane_order]
    unfolding w_def build_timeline_def Let_def window_inv_def by simp_all
qed

abbreviation lane_sort :: "timeline_event list \<Rightarrow> timeline_event list" where
  "lane_sort \<equiv> sort_key (\<lambda>e. (te_ts e, te_line_no e))"

lemma lanes_sorted: "mset (concat (map snd d)) = mset (concat (map snd (map (\<lambda>(k, es). (k, lane_sort es)) d)))"
  by (induction d) auto

lemma window_events:
  fixes ls centre radius lanes
  defines "w \<equiv> build_timeline ls centre radius lanes" and "ins \<equiv> filter (in_window centre radius) ls"
  shows "dict_getd (lane_events w) k [] = lane_sort (map event_of (filter (\<lambda>ln. lane_of ln = k \<and> wanted lanes k) ins))"
    and "lanes = None \<Longrightarrow> mset (concat (map snd (lane_events w))) = mset (map event_of ins)"
proof -
  let ?f = "fold (window_step lanes) ls (empty_window centre radius)"
  have inv: "window_inv lanes centre radius ins ?f" unfolding ins_def by (rule window_inv_fold)
  then have get: "dict_getd (lane_events ?f) k [] = map event_of (filter (\<lambda>ln. lane_of ln = k \<and> wanted lanes k) ins)" for k
    by (simp add: window_inv_def)
  have w: "lane_events w = map (\<lambda>(k, es). (k, lane_sort es)) (lane_events ?f)"
    by (simp add: w_def build_timeline_def Let_def)
  show "dict_getd (lane_events w) k [] = lane_sort (map event_of (filter (\<lambda>ln. lane_of ln = k \<and> wanted lanes k) ins))"
    unfolding w get [symmetric] using dict_getd_map_snd [of lane_sort "lane_events ?f" k "[]"] by simp
  show "mset (concat (map snd (lane_events w))) = mset (map event_of ins)" if "lanes = None"
  proof -
    have lane: "te_lane (event_of ln) = lane_of ln" for ln by (simp add: event_of_def)
    have "dict_getd (lane_events ?f) k [] = filter (\<lambda>e. te_lane e = k) (map event_of ins)" for k
      unfolding get by (simp add: filter_map comp_def lane that wanted_def)
    moreover have "distinct (dict_keys (lane_events ?f))" using inv by (simp add: window_inv_def)
    ultimately have "mset (concat (map snd (lane_events ?f)))
        = mset (filter (\<lambda>e. te_lane e \<in> set (dict_keys (lane_events ?f))) (map event_of ins))"
      by (intro groups_total)
    also have "\<dots> = mset (map event_of ins)"
    proof -
      have "lane_of ln \<in> set (dict_keys (lane_events ?f))" if "ln \<in> set ins" for ln
      proof (rule ccontr)
        assume "\<not> ?thesis"
        then have "dict_getd (lane_events ?f) (lane_of ln) [] = []" by (rule dict_getd_notin)
        with get [of "lane_of ln"] that show False by (auto simp: \<open>lanes = None\<close> wanted_def filter_empty_conv)
      qed
      then have "filter (\<lambda>e. te_lane e \<in> set (dict_keys (lane_events ?f))) (map event_of ins) = map event_of ins"
        by (intro filter_True) (auto simp: lane)
      then show ?thesis by simp
    qed
    also have "mset (concat (map snd (lane_events ?f))) = mset (concat (map snd (lane_events w)))"
      unfolding w by (rule lanes_sorted)
    finally show ?thesis by simp
  qed
qed

text \<open>
  A window holds exactly the lines within the radius: the counts of the eleven lanes add
  up to them, each lane lists its own lines in order of time where it is wanted, and with all
  lanes the flattened window is every line of the window in order.
\<close>

theorem timeline_lanes:
  fixes ls centre radius lanes
  defines "w \<equiv> build_timeline ls centre radius lanes" and "ins \<equiv> filter (in_window centre radius) ls"
  shows "total_events w = length ins \<and> dict_total (lane_counts w) = length ins
    \<and> dict_getd (lane_counts w) k 0 = length (filter (\<lambda>ln. lane_of ln = k) ins)
    \<and> set (dict_keys (lane_counts w)) = set lane_order
    \<and> dict_getd (lane_events w) k [] = (if wanted lanes k then lane_sort (map event_of (filter (\<lambda>ln. lane_of ln = k) ins)) else [])
    \<and> mset (flatten_events (build_timeline ls centre radius None)) = mset (map event_of ins)
    \<and> sorted (map (\<lambda>e. (te_ts e, te_source e, te_line_no e)) (flatten_events w))"
  using window_counts(1-3,5) [of ls centre radius lanes] window_events(1) [of ls centre radius lanes k] window_events(2) [of None ls centre radius]
  unfolding w_def ins_def by (simp add: flatten_events_def)

section \<open>Two windows compared\<close>

record lane_delta =
  ld_lane :: string
  count_a :: nat
  count_b :: nat
  ld_delta :: int

record id_delta =
  id_type_of :: string
  only_in_a :: "string list"
  only_in_b :: "string list"
  in_both :: "string list"

definition lane_delta_of :: "lane_window \<Rightarrow> lane_window \<Rightarrow> string \<Rightarrow> lane_delta" where
  "lane_delta_of a b lane = (let m = dict_getd (lane_counts a) lane 0; n = dict_getd (lane_counts b) lane 0 in
     \<lparr>ld_lane = lane, count_a = m, count_b = n, ld_delta = int n - int m\<rparr>)"

definition id_delta_of :: "lane_window \<Rightarrow> lane_window \<Rightarrow> string \<Rightarrow> id_delta" where
  "id_delta_of a b ty = (let as = dict_getd (ids_seen a) ty []; bs = dict_getd (ids_seen b) ty [] in
     \<lparr>id_type_of = ty, only_in_a = sort (filter (\<lambda>v. \<not> List.member bs v) as), only_in_b = sort (filter (\<lambda>v. \<not> List.member as v) bs),
      in_both = sort (filter (List.member bs) as)\<rparr>)"

definition types_seen :: "lane_window \<Rightarrow> lane_window \<Rightarrow> string list" where
  "types_seen a b = sort (remdups (dict_keys (ids_seen a) @ dict_keys (ids_seen b)))"

definition diff_windows :: "lane_window \<Rightarrow> lane_window \<Rightarrow> lane_delta list \<times> id_delta list" where
  "diff_windows a b = (map (lane_delta_of a b) lane_order, map (id_delta_of a b) (types_seen a b))"

definition swap_lane :: "lane_delta \<Rightarrow> lane_delta" where
  "swap_lane d = \<lparr>ld_lane = ld_lane d, count_a = count_b d, count_b = count_a d, ld_delta = - ld_delta d\<rparr>"

definition swap_id :: "id_delta \<Rightarrow> id_delta" where
  "swap_id d = \<lparr>id_type_of = id_type_of d, only_in_a = only_in_b d, only_in_b = only_in_a d, in_both = in_both d\<rparr>"

lemma both_sides:
  assumes "distinct as" "distinct bs"
  shows "sort (filter (List.member bs) as) = sort (filter (List.member as) (bs :: string list))"
proof (rule sorted_distinct_set_unique)
  show "set (sort (filter (List.member bs) as)) = set (sort (filter (List.member as) bs))" by auto
qed (use assms in auto)

text \<open>
  Comparing two windows of an index the other way round turns every difference around,
  the lane differences add up to the difference of the totals, and for each type the
  identifiers of both windows are split into those of one, of the other and of both.
\<close>

theorem diff_symmetric:
  fixes ls ca ra cb rb la lb
  defines "a \<equiv> build_timeline ls ca ra la" and "b \<equiv> build_timeline ls cb rb lb"
  shows "map swap_lane (fst (diff_windows b a)) = fst (diff_windows a b)
    \<and> map swap_id (snd (diff_windows b a)) = snd (diff_windows a b)
    \<and> sum_list (map ld_delta (fst (diff_windows a b))) = int (total_events b) - int (total_events a)
    \<and> set (only_in_a (id_delta_of a b ty)) \<union> set (in_both (id_delta_of a b ty)) = set (dict_getd (ids_seen a) ty [])
    \<and> set (only_in_a (id_delta_of a b ty)) \<inter> set (dict_getd (ids_seen b) ty []) = {}"
proof (intro conjI)
  have ids: "distinct (dict_getd (ids_seen w) ty [])" if "w = build_timeline ls c r l" for w c r l ty
    using window_counts(7) [of ls c r l] that by (simp add: sets_ok_get)
  have d: "distinct (dict_getd (ids_seen a) ty [])" "distinct (dict_getd (ids_seen b) ty [])" for ty
    by (rule ids [OF a_def [THEN meta_eq_to_obj_eq]], rule ids [OF b_def [THEN meta_eq_to_obj_eq]])
  show "map swap_lane (fst (diff_windows b a)) = fst (diff_windows a b)"
    by (simp add: diff_windows_def lane_delta_of_def swap_lane_def Let_def)
  have "types_seen b a = types_seen a b"
    unfolding types_seen_def by (rule sorted_distinct_set_unique) auto
  moreover have "swap_id (id_delta_of b a ty) = id_delta_of a b ty" for ty
    using both_sides [OF d] by (simp add: id_delta_of_def swap_id_def Let_def)
  ultimately show "map swap_id (snd (diff_windows b a)) = snd (diff_windows a b)"
    by (simp add: diff_windows_def)
  have sum: "dict_total d = sum_list (map (\<lambda>k. dict_getd d k 0) lane_order)"
    if "distinct (dict_keys d)" "set (dict_keys d) = set lane_order" for d :: "(string, nat) dict"
  proof -
    have "distinct lane_order" by code_simp
    then have "mset (dict_keys d) = mset lane_order" using that by (subst set_eq_iff_mset_eq_distinct [symmetric]) auto
    then have "sum_list (map (\<lambda>k. dict_getd d k 0) lane_order) = sum_list (map (\<lambda>k. dict_getd d k 0) (dict_keys d))"
      by (metis mset_map sum_mset_sum_list)
    also have "map (\<lambda>k. dict_getd d k 0) (dict_keys d) = map snd d"
      using that(1) by (auto simp: dict_getd_def)
    finally show ?thesis by (simp add: dict_total_def)
  qed
  have "int (sum_list (map f xs)) - int (sum_list (map g xs)) = sum_list (map (\<lambda>k. int (f k) - int (g k)) xs)"
    for f g and xs :: "string list" by (induction xs) auto
  then show "sum_list (map ld_delta (fst (diff_windows a b))) = int (total_events b) - int (total_events a)"
    using sum [of "lane_counts a"] sum [of "lane_counts b"] window_counts(1,2,4,5) [of ls ca ra la] window_counts(1,2,4,5) [of ls cb rb lb]
    unfolding a_def b_def by (simp add: diff_windows_def lane_delta_of_def Let_def comp_def)
qed (auto simp: id_delta_of_def Let_def)

end
