(* ===== verification/Synthetic_Ip.thy ===== *)
theory Synthetic_Ip
  imports Py_Ip Rx_Subst
begin

text \<open>
  Addresses that the client makes up (\<open>synthetic_ip.py\<close>): the note for an address of the shared
  range 100.64.0.0/10, and the notes for the addresses a text mentions.  The dash of a note lies
  outside the characters of the model and stands as the bytes of its UTF-8 encoding.
\<close>

section \<open>Notes\<close>

record synthetic_note =
  sn_address :: string
  sn_headline :: string
  sn_detail :: string
  sn_basis :: string

definition em_dash :: string where
  "em_dash = [CHR 0xE2, CHR 0x80, CHR 0x94]"

definition note_title :: "synthetic_note \<Rightarrow> string" where
  "note_title n = sn_headline n
     @ (if sn_basis n = ''documented'' then [] else '' (observed, not vendor-documented)'')
     @ '' '' @ em_dash @ '' '' @ sn_detail n"

definition observed_roles :: "(string, string \<times> string) dict" where
  "observed_roles =
     [(''100.64.0.6'', (''ZIA tunnel health check'',
         ''The client'' @ [CHR 0x27] @ ''s own TCP echo probe target '' @ em_dash @ '' bundles show ''
         @ ''checkTunTcpEchoServerUpImpl connecting to 100.64.0.6:80 to test that the ''
         @ ''internet tunnel is up. A refusal or timeout here is a local interception ''
         @ ''or endpoint-firewall problem, not an unreachable server.'')),
      (''100.64.0.8'', (''Client probe target'',
         ''Seen in bundles as a probe destination (port 9090). Treat a failure here ''
         @ ''the same way: local, not remote.''))]"

text \<open>\<open>address in CGNAT_NETWORK\<close>, \<open>address in DEFAULT_SYNTHETIC_NETWORK\<close> and \<open>str(address)\<close>.\<close>

definition cgnat_network :: "int \<Rightarrow> bool" where
  "cgnat_network a = v4_net [100, 64] 10 a"

definition default_synthetic_network :: "int \<Rightarrow> bool" where
  "default_synthetic_network a = v4_net [100, 64] 16 a"

fun is_synthetic :: "ip_addr \<Rightarrow> bool" where
  "is_synthetic (V4 a) = cgnat_network a"
| "is_synthetic (V6 a) = False"

definition ip4_text :: "int \<Rightarrow> string" where
  "ip4_text a = join_with ''.'' (map str_of_int [a div 2 ^ 24, a div 2 ^ 16 mod 256, a div 2 ^ 8 mod 256, a mod 256])"

definition default_range_note :: "string \<Rightarrow> synthetic_note" where
  "default_range_note text1 = \<lparr>sn_address = text1, sn_headline = ''ZCC synthetic IP (Private Access)'',
     sn_detail = ''Not a real destination. The client answered a DNS request for a ''
       @ ''Private Access application with this address from its synthetic pool ''
       @ ''(default 100.64.0.0/16) and captures traffic sent here into the ''
       @ ''tunnel. To find which application it stands for, look for the DNS ''
       @ ''record in this log that handed it out.'',
     sn_basis = ''documented''\<rparr>"

definition shared_range_note :: "string \<Rightarrow> synthetic_note" where
  "shared_range_note text1 = \<lparr>sn_address = text1, sn_headline = ''Shared address space (RFC 6598)'',
     sn_detail = ''Inside 100.64.0.0/10 but outside the default synthetic range, so either ''
       @ ''the tenant configured a different synthetic range or this is carrier ''
       @ ''NAT addressing. Not a routable customer address either way.'',
     sn_basis = ''documented''\<rparr>"

definition describe_address :: "string \<Rightarrow> synthetic_note option" where
  "describe_address value1 = (case ip_address value1 of
       Some (V4 a) \<Rightarrow>
         if \<not> is_synthetic (V4 a) then None
         else (case dict_get observed_roles (ip4_text a) of
             Some (headline, detail) \<Rightarrow>
               Some \<lparr>sn_address = ip4_text a, sn_headline = headline, sn_detail = detail, sn_basis = ''observed''\<rparr>
           | None \<Rightarrow> if default_synthetic_network a then Some (default_range_note (ip4_text a))
               else Some (shared_range_note (ip4_text a)))
     | _ \<Rightarrow> None)"

section \<open>Addresses in a text\<close>

definition octet_rx :: rx where
  "octet_rx = RAlts [RSeq (RStr ''25'') (RSet [CRange (CHR ''0'') (CHR ''5'')]),
     RSeqs [RStr ''2'', RSet [CRange (CHR ''0'') (CHR ''4'')], RSet [CDigit]],
     RSeq (RStr ''1'') (RTimes 2 (RSet [CDigit])),
     RSeq (ROpt (RSet [CRange (CHR ''1'') (CHR ''9'')])) (RSet [CDigit])]"

definition dotted_quad_rx :: rx where
  "dotted_quad_rx = RSeqs [RBound, octet_rx, RTimes 3 (RSeq (RLit (CHR ''.'')) octet_rx), RBound]"

definition add_note :: "string \<Rightarrow> (string, synthetic_note) dict \<Rightarrow> (string, synthetic_note) dict" where
  "add_note token found = (case describe_address token of
       None \<Rightarrow> found
     | Some note1 \<Rightarrow> dict_set (sn_address note1) note1 found)"

definition notes_in :: "string \<Rightarrow> (string, synthetic_note) dict" where
  "notes_in s = fold add_note (map matched_text (rx_finditer False (RGroup 0 dotted_quad_rx) s)) []"

section \<open>A note repeats the address it was asked for\<close>

text \<open>\<open>str(ip_address(s))\<close> is \<open>s\<close> for IPv4: the parser refuses leading zeros.\<close>

definition plain_number :: "string \<Rightarrow> bool" where
  "plain_number s = (list_all py_isdecimal s \<and> s \<noteq> [] \<and> (s \<noteq> ''0'' \<longrightarrow> hd s \<noteq> CHR ''0''))"

lemma digit_char_val: "py_isdecimal c \<Longrightarrow> digit_char (digit_val c) = c"
  by (auto simp: py_isdecimal_def digit_char_def digit_val_def Let_def)

lemma digit_val_less: "py_isdecimal c \<Longrightarrow> digit_val c < 10"
  by (auto simp: py_isdecimal_def digit_val_def Let_def)

lemma nat_of_digits_snoc: "nat_of_digits (s @ [c]) = 10 * nat_of_digits s + digit_val c"
  by (simp add: nat_of_digits_def)

lemma digits_positive: "list_all py_isdecimal s \<Longrightarrow> s \<noteq> [] \<Longrightarrow> hd s \<noteq> CHR ''0'' \<Longrightarrow> 0 < nat_of_digits s"
proof (induction s rule: rev_induct)
  case (snoc c s)
  show ?case
  proof (cases "s = []")
    case True
    with snoc.prems have "digit_char (digit_val c) \<noteq> CHR ''0''" by (simp add: digit_char_val)
    moreover have "code_of (digit_char 0) = code_of (CHR ''0'')" by (simp add: digit_char_def)
    then have "digit_char 0 = CHR ''0''" by (simp only: of_char_eq_iff)
    ultimately have "digit_val c \<noteq> 0" by metis
    with True show ?thesis by (simp add: nat_of_digits_def)
  next
    case False
    with snoc show ?thesis by (simp add: nat_of_digits_snoc)
  qed
qed simp

lemma str_of_digits: "plain_number s \<Longrightarrow> str_of_nat (nat_of_digits s) = s"
proof (induction s rule: rev_induct)
  case (snoc c s)
  from snoc.prems have c: "py_isdecimal c" by (simp add: plain_number_def)
  show ?case
  proof (cases "s = []")
    case True
    with c show ?thesis by (simp add: nat_of_digits_def str_of_nat.simps digit_char_val digit_val_less)
  next
    case False
    with snoc.prems have hd: "hd s \<noteq> CHR ''0''" "list_all py_isdecimal s"
      by (auto simp: plain_number_def hd_append append_eq_Cons_conv)
    then have "plain_number s" by (simp add: plain_number_def False)
    with snoc.IH have "str_of_nat (nat_of_digits s) = s" .
    moreover have "0 < nat_of_digits s" using digits_positive [OF hd(2) False hd(1)] .
    ultimately show ?thesis using c
      by (simp add: nat_of_digits_snoc str_of_nat.simps [of "10 * nat_of_digits s + digit_val c"] digit_char_val digit_val_less)
  qed
qed (simp add: plain_number_def)

lemma octet_text: "parse_octet s = Some n \<Longrightarrow> str_of_int n = s \<and> 0 \<le> n \<and> n \<le> 255"
proof -
  assume n: "parse_octet s = Some n"
  then have "plain_number s"
    by (cases s) (auto simp: parse_octet_def plain_number_def list_all_iff py_isdecimal_def Let_def split: if_splits)
  with n show ?thesis by (auto simp: parse_octet_def str_of_int_def str_of_digits split: if_splits)
qed

lemma ip4_octets:
  assumes "ip4_of_text s = Some n"
  shows "\<exists>a b c d. split_on (CHR ''.'') s = map str_of_int [a, b, c, d] \<and> n = ((a * 256 + b) * 256 + c) * 256 + d
    \<and> {a, b, c, d} \<subseteq> {0..255}"
proof -
  let ?os = "split_on (CHR ''.'') s"
  from assms obtain ns where ns: "length ?os = 4" "map parse_octet ?os = map Some ns" "n = from_digits 256 ns"
    by (auto simp: ip4_of_text_def Let_def dest!: all_some_Some split: if_splits)
  then have "length ns = 4" by (metis length_map)
  then obtain a b c d where abcd: "ns = [a, b, c, d]" by (auto simp: eval_nat_numeral length_Suc_conv)
  from ns(1) obtain p q r t where ps: "?os = [p, q, r, t]" by (auto simp: eval_nat_numeral length_Suc_conv)
  from ns(2) abcd ps have "parse_octet p = Some a" "parse_octet q = Some b" "parse_octet r = Some c" "parse_octet t = Some d" by simp_all
  note octet_text [OF this(1)] octet_text [OF this(2)] octet_text [OF this(3)] octet_text [OF this(4)]
  then show ?thesis using ps ns(3) abcd by (intro exI [of _ a] exI [of _ b] exI [of _ c] exI [of _ d]) (simp add: from_digits_def)
qed

lemma ip4_text_parsed: "ip4_of_text s = Some n \<Longrightarrow> ip4_text n = s"
proof -
  assume "ip4_of_text s = Some n"
  then obtain a b c d where s: "split_on (CHR ''.'') s = map str_of_int [a, b, c, d]" "n = ((a * 256 + b) * 256 + c) * 256 + d"
      and r: "{a, b, c, d} \<subseteq> {0..255}" using ip4_octets by metis
  have cut: "(x * 256 + y) div 256 = x \<and> (x * 256 + y) mod 256 = y" if "0 \<le> y" "y \<le> 255" for x y :: int
    using that by simp
  have "n div 2 ^ 24 = n div 256 div 256 div 256 \<and> n div 2 ^ 16 = n div 256 div 256 \<and> n div 2 ^ 8 = n div 256"
    by (simp add: zdiv_zmult2_eq [symmetric])
  moreover have "n div 256 = (a * 256 + b) * 256 + c \<and> n mod 256 = d" unfolding s(2) by (rule cut) (use r in auto)
  moreover have "((a * 256 + b) * 256 + c) div 256 = a * 256 + b \<and> ((a * 256 + b) * 256 + c) mod 256 = c" by (rule cut) (use r in auto)
  moreover have "(a * 256 + b) div 256 = a \<and> (a * 256 + b) mod 256 = b" by (rule cut) (use r in auto)
  ultimately have "n div 2 ^ 24 = a \<and> n div 2 ^ 16 mod 256 = b \<and> n div 2 ^ 8 mod 256 = c \<and> n mod 256 = d" by metis
  then have "ip4_text n = join_with ''.'' (split_on (CHR ''.'') s)" by (simp add: ip4_text_def s(1))
  also have "\<dots> = s" by (rule join_split)
  finally show "ip4_text n = s" .
qed

lemma shared_range: "cgnat_network a \<longleftrightarrow> 0x64400000 \<le> a \<and> a < 0x64800000"
  by (auto simp: cgnat_network_def v4_net_def from_digits_def numeral_2_eq_2)

lemma describes_iff: "describe_address v \<noteq> None \<longleftrightarrow> (\<exists>a. ip4_of_text v = Some a \<and> cgnat_network a)"
  by (auto simp: describe_address_def ip_address_def split: option.splits prod.splits)

lemma note_address: "describe_address v = Some n \<Longrightarrow> sn_address n = v"
proof -
  assume n: "describe_address v = Some n"
  then obtain a where a: "ip4_of_text v = Some a" using describes_iff [of v] by auto
  with n show "sn_address n = v"
    by (auto simp: describe_address_def ip_address_def default_range_note_def shared_range_note_def ip4_text_parsed [OF a]
        split: option.splits if_splits)
qed

lemma notes_fold:
  "dict_get (fold add_note ws d) v = (if v \<in> set ws \<and> describe_address v \<noteq> None then describe_address v else dict_get d v)"
proof (induction ws arbitrary: d)
  case (Cons w ws)
  have "dict_get (add_note w d) v = (if v = w \<and> describe_address v \<noteq> None then describe_address v else dict_get d v)"
    by (auto simp: add_note_def dict_get_set dest: note_address split: option.splits)
  with Cons show ?case by auto
qed simp

text \<open>
  The notes on a text are exactly those of the addresses it mentions.  An address has a note when it lies in
  100.64.0.0/10, and the note is filed under the address as it stands in the text.
\<close>

theorem notes_spec:
  "dict_get (notes_in s) v = (if v \<in> set (map matched_text (rx_finditer False (RGroup 0 dotted_quad_rx) s)) then describe_address v else None)
   \<and> (describe_address v \<noteq> None \<longleftrightarrow> (\<exists>a. ip4_of_text v = Some a \<and> 0x64400000 \<le> a \<and> a < 0x64800000))
   \<and> (describe_address v = None \<or> map_option sn_address (describe_address v) = Some v)"
  using describes_iff [of v] note_address [of v]
  by (cases "describe_address v") (auto simp: notes_in_def notes_fold shared_range)

end
