(* ===== verification/Raw_View.thy ===== *)
theory Raw_View
  imports Log_Index Flow_Ledger Synthetic_Ip
begin

text \<open>
  The raw log viewer (\<open>raw_view.py\<close>): the lines of one file, filtered and in pages, and the HTML
  of a line, escaped and with its known tokens marked.  A compiled filter expression is a pattern
  of the model; the matches in the error catalogue are an argument.
\<close>

section \<open>Tokens\<close>

definition any_char :: "string \<Rightarrow> cset list" where
  "any_char s = map CLit s"

definition digit_rx :: rx where
  "digit_rx = RSet [CDigit]"

definition stamp_rx :: rx where
  "stamp_rx = RSeqs [RBound, RTimes 4 digit_rx, RLit (CHR ''-''), RTimes 2 digit_rx, RLit (CHR ''-''), RTimes 2 digit_rx,
     RSet (any_char ''T ''), RTimes 2 digit_rx, RLit (CHR '':''), RTimes 2 digit_rx, RLit (CHR '':''), RTimes 2 digit_rx,
     ROpt (RSeq (RLit (CHR ''.'')) (RPlus digit_rx)),
     ROpt (RAlts [RLit (CHR ''Z''), RSeq (RSet (any_char ''+-'')) (RTimes 4 digit_rx),
       RSeqs [RSet (any_char ''+-''), RTimes 2 digit_rx, RLit (CHR '':''), RTimes 2 digit_rx]]), RBound]"

definition symcode_chars :: "cset list" where
  "symcode_chars = [CRange (CHR ''A'') (CHR ''Z''), CRange (CHR ''0'') (CHR ''9''), CLit (CHR ''_'')]"

definition symcode_rx :: rx where
  "symcode_rx = RSeqs [RBound, RAlts [RSeq (RStr ''BRK_MT_'') (RAtLeast 4 (RSet symcode_chars)),
       RSeq (RStr ''BRK_REDIRECT_'') (RPlus (RSet symcode_chars)), RSeq (RStr ''ZPN_'') (RAtLeast 4 (RSet symcode_chars)),
       RSeq (RStr ''ZEVENT_'') (RAtLeast 4 (RSet symcode_chars)), RSeq (RStr ''ZS_'') (RAtLeast 4 (RSet symcode_chars))], RBound]"

definition spaces_rx :: rx where
  "spaces_rx = RStar (RSet [CSpace])"

definition tagid_rx :: rx where
  "tagid_rx = RSeqs [RBound, RStr ''tag_id'', spaces_rx, RSet (any_char ''=:''), spaces_rx, RGroup 1 (RPlus digit_rx), RBound]"

definition errcode_rx :: rx where
  "errcode_rx = RSeqs [RBound, RStr ''err'', ROpt (RSet (any_char ''_ '')), RStr ''code'', spaces_rx, RSet (any_char ''=:''), spaces_rx,
     RGroup 1 (RPlus digit_rx), RBound]"

definition idkv_chars :: "cset list" where
  "idkv_chars = [CRange (CHR ''a'') (CHR ''z''), CRange (CHR ''A'') (CHR ''Z''), CRange (CHR ''0'') (CHR ''9'')] @ any_char ''+/=_,-''"

definition idkv_rx :: rx where
  "idkv_rx = RSeqs [RBound, RStrs [''session_id'', ''mtunnel_id'', ''conn_id''], spaces_rx, RSet (any_char ''=:''), spaces_rx,
     RGroup 1 (RPlus (RSet idkv_chars)), RBound]"

definition broker_name_chars :: "cset list" where
  "broker_name_chars = [CRange (CHR ''a'') (CHR ''z''), CRange (CHR ''0'') (CHR ''9'')] @ any_char ''_-''"

definition raw_broker_rx :: rx where
  "raw_broker_rx = RSeqs [RBound, RStr ''broker'', RStar (RSet broker_name_chars), RLit (CHR ''.''),
     RStar (RSeq (RPlus (RSet broker_name_chars)) (RLit (CHR ''.''))), RStrs [''zpath'', ''zscaler'', ''zpalb'', ''zpaservice''], RStr ''.net'', RBound]"

definition level_rx :: rx where
  "level_rx = RSeqs [RBound, RStrs [''INF'', ''WRN'', ''ERR'', ''DBG'', ''TRC'', ''VRB'', ''FTL'', ''INFO'', ''WARN'', ''ERROR'',
     ''DEBUG'', ''TRACE'', ''VERBOSE'', ''FATAL'', ''CRIT'', ''CRITICAL''], RBound]"

text \<open>The patterns in the order they claim text: a name, whether case is ignored, and the pattern.\<close>

definition highlights :: "(string \<times> bool \<times> rx) list" where
  "highlights = [(''ts'', False, stamp_rx), (''symcode'', False, symcode_rx), (''tagid'', True, tagid_rx), (''errcode'', True, errcode_rx),
     (''idkv'', True, idkv_rx), (''broker'', True, raw_broker_rx), (''level'', False, level_rx), (''ipv4'', False, dotted_quad_rx)]"

text \<open>The class of a token is its name after \<open>hl-\<close>.\<close>

definition token_cls :: "string \<Rightarrow> string" where
  "token_cls name = ''hl-'' @ name"

section \<open>Highlighting\<close>

definition replace_char :: "char \<Rightarrow> string \<Rightarrow> string \<Rightarrow> string" where
  "replace_char c new s = concat (map (\<lambda>x. if x = c then new else [x]) s)"

text \<open>\<open>html.escape\<close>: the ampersand first, then the angles and both quotes.\<close>

definition html_escape :: "string \<Rightarrow> string" where
  "html_escape s = replace_char (CHR 0x27) ''&#x27;'' (replace_char (CHR 0x22) ''&quot;''
     (replace_char (CHR ''>'') ''&gt;'' (replace_char (CHR ''<'') ''&lt;'' (replace_char (CHR ''&'') ''&amp;'' s))))"

type_synonym mark = "nat \<times> nat \<times> string"

definition match_span :: "rpos \<Rightarrow> nat \<times> nat" where
  "match_span t = (length (fst t) - length (matched_text t), length (fst t))"

definition claim_match :: "string \<Rightarrow> rpos \<Rightarrow> bool list \<times> mark list \<Rightarrow> bool list \<times> mark list" where
  "claim_match cls t st = (case (match_span t, st) of ((s, e), (claimed, marks)) \<Rightarrow>
     if list_ex id (slice claimed s e) then (claimed, marks)
     else (fold (\<lambda>i cl. cl[i := True]) [s..<e] claimed, marks @ [(s, e, cls)]))"

definition claim_all :: "string \<Rightarrow> bool list \<times> mark list" where
  "claim_all b = fold (\<lambda>(name, ic, r). fold (claim_match (token_cls name)) (rx_finditer ic (RGroup 0 r) b)) highlights
     (replicate (length b) False, [])"

definition open_tag :: "string \<Rightarrow> string \<Rightarrow> string" where
  "open_tag cls token = ''<span class='' @ [CHR 0x22] @ cls
     @ (case (if cls = ''hl-ipv4'' then describe_address token else None) of
          Some note1 \<Rightarrow> '' hl-synthetic'' @ [CHR 0x22] @ '' title='' @ [CHR 0x22] @ html_escape (note_title note1) @ [CHR 0x22] @ ''>''
        | None \<Rightarrow> [CHR 0x22] @ ''>'')"

fun put_marks :: "string \<Rightarrow> nat \<Rightarrow> mark list \<Rightarrow> string" where
  "put_marks b cursor [] = (if cursor < length b then html_escape (drop cursor b) else [])"
| "put_marks b cursor ((s, e, cls) # ms) =
     (if cursor < s then html_escape (slice b cursor s) else [])
     @ open_tag cls (slice b s e) @ html_escape (slice b s e) @ ''</span>'' @ put_marks b e ms"

definition highlight_tokens :: "string \<Rightarrow> string" where
  "highlight_tokens b = (if b = [] then []
     else let marks = snd (claim_all b) in
       if marks = [] then html_escape b else put_marks b 0 (sort_key fst marks))"

section \<open>The lines of a file\<close>

definition list_source_files :: "log_index \<Rightarrow> (string \<times> nat) list" where
  "list_source_files idx = sort_key fst (fold (\<lambda>ln counts. if source_file ln = [] then counts else dict_add (source_file ln) 1 counts) (lines idx) [])"

definition get_file_lines :: "log_index \<Rightarrow> string \<Rightarrow> string option \<Rightarrow> rx option \<Rightarrow> indexed_line list" where
  "get_file_lines idx name substring q_pat =
     filter (\<lambda>ln. source_file ln = name
       \<and> (case substring of None \<Rightarrow> True | Some q \<Rightarrow> q = [] \<or> occurs (py_lower q) (py_lower (body ln)))
       \<and> (case q_pat of None \<Rightarrow> True | Some r \<Rightarrow> rx_search True r (body ln) \<noteq> None)) (lines idx)"

definition paginate :: "'a list \<Rightarrow> int \<Rightarrow> int \<Rightarrow> 'a list \<times> int \<times> int" where
  "paginate ls page page_size =
     (let size1 = (if page_size \<le> 0 then 200 else page_size);
          total_pages = max 1 ((int (length ls) + size1 - 1) div size1);
          page1 = (if page < 1 then 1 else page);
          page2 = (if page1 > total_pages then total_pages else page1);
          start = (page2 - 1) * size1 in
      (slice ls (nat start) (nat (start + size1)), page2, total_pages))"

section \<open>Severity\<close>

text \<open>What the code reads of an entry of the error catalogue.\<close>

record cat_entry =
  ce_code :: string
  ce_label :: string
  ce_severity :: string

definition error_levels :: "string list" where
  "error_levels = [''ERR'', ''CRT'', ''ERROR'', ''CRITICAL'', ''CRIT'', ''FATAL'', ''FTL'']"

definition warning_levels :: "string list" where
  "warning_levels = [''WAR'', ''WRN'', ''WARN'', ''WARNING'']"

definition severity_rank :: "string \<Rightarrow> nat" where
  "severity_rank sv = (if sv = ''critical'' then 2 else if sv = ''medium'' then 1 else 0)"

definition documented_severity :: "cat_entry list \<Rightarrow> string \<times> string" where
  "documented_severity entries1 =
     (let worst = (if list_ex (\<lambda>e. ce_severity e = ''critical'') entries1 then ''critical''
            else if list_ex (\<lambda>e. ce_severity e = ''warning'') entries1 then ''warning'' else []);
          label = (case List.find (\<lambda>e. ce_severity e = worst) entries1 of
             Some e \<Rightarrow> if ce_code e \<noteq> [] then ce_code e else ce_label e | None \<Rightarrow> []) in
      if worst = [] then ([], [])
      else (if worst = ''critical'' then ''critical'' else ''medium'',
        ''documented '' @ worst @ (if label = [] then [] else '': '' @ label)))"

definition level_severity :: "string \<Rightarrow> string" where
  "level_severity level1 = (if List.member error_levels (py_upper level1) then ''critical''
     else if List.member warning_levels (py_upper level1) then ''medium'' else [])"

definition line_severity :: "(string \<Rightarrow> cat_entry list) \<Rightarrow> string \<Rightarrow> string \<Rightarrow> string \<times> string" where
  "line_severity known level1 b =
     (let (documented, why) = documented_severity (known b); from_level = level_severity level1 in
      if severity_rank from_level \<le> severity_rank documented \<and> documented \<noteq> [] then (documented, why)
      else if from_level \<noteq> [] then (from_level, py_upper level1 @ '' record'')
      else ([], []))"

section \<open>Rendered lines\<close>

record raw_line =
  rl_line_no :: nat
  rl_ts_iso :: string
  rl_level :: string
  rl_body :: string
  rl_highlighted :: string
  rl_severity :: string
  rl_why :: string

text \<open>\<open>strftime("%Y-%m-%d %H:%M:%S")\<close>, for years from 1000 on.\<close>

definition stamp_text :: "int \<Rightarrow> string" where
  "stamp_text t = (let s = nat (t div 1000000); d = s div 86400; y = year_of_day d; r = d - days_before_year y; m = month_of_day y r in
     pad 4 y @ ''-'' @ pad 2 m @ ''-'' @ pad 2 (r - days_before_month y m + 1) @ '' ''
     @ pad 2 (s div 3600 mod 24) @ '':'' @ pad 2 (s div 60 mod 60) @ '':'' @ pad 2 (s mod 60))"

definition to_raw_lines :: "(string \<Rightarrow> cat_entry list) \<Rightarrow> indexed_line list \<Rightarrow> raw_line list" where
  "to_raw_lines known = map (\<lambda>ln. case line_severity known (level ln) (body ln) of (severity, why) \<Rightarrow>
     \<lparr>rl_line_no = line_no ln, rl_ts_iso = stamp_text (ts ln), rl_level = level ln, rl_body = body ln,
       rl_highlighted = highlight_tokens (body ln), rl_severity = severity, rl_why = why\<rparr>)"

definition level_html :: "string \<Rightarrow> string" where
  "level_html level1 =
     (let slug = take 3 (py_lower (py_strip level1));
          cls = (if List.member [''err'', ''crt'', ''war'', ''wrn'', ''inf'', ''dbg'', ''trc''] slug then ''lv lv-'' @ slug else ''lv'');
          cell = html_escape level1 in
      ''<span class='' @ [CHR 0x22] @ cls @ [CHR 0x22] @ ''>'' @ cell @ replicate (5 - length cell) (CHR '' '') @ ''</span>'')"

definition content_columns :: "raw_line list \<Rightarrow> nat \<Rightarrow> nat" where
  "content_columns ls minimum = max minimum (fold max (map (length \<circ> rl_body) ls) 0 + (7 + 3 + 19 + 2 + 5 + 2))"

definition level_scopes :: "(string, string list) dict" where
  "level_scopes = [(''ERR only'', error_levels), (''WAR only'', warning_levels), (''ERR + WAR'', error_levels @ warning_levels)]"

definition filter_by_level :: "raw_line list \<Rightarrow> string \<Rightarrow> raw_line list" where
  "filter_by_level ls scope = (case dict_get level_scopes scope of
       None \<Rightarrow> ls
     | Some ws \<Rightarrow> filter (\<lambda>l. List.member ws (py_upper (rl_level l))) ls)"

definition severity_counts :: "raw_line list \<Rightarrow> (string, nat) dict" where
  "severity_counts ls = fold (\<lambda>l. dict_add (if rl_severity l = [] then ''other'' else rl_severity l) 1) ls
     [(''critical'', 0), (''medium'', 0), (''other'', 0)]"

fun find_line_index :: "raw_line list \<Rightarrow> nat \<Rightarrow> nat option" where
  "find_line_index [] n = None"
| "find_line_index (l # ls) n = (if rl_line_no l = n then Some 0 else map_option Suc (find_line_index ls n))"

end
