(* ===== verification/Raw_View_Facts.thy ===== *)
theory Raw_View_Facts
  imports Raw_View Rx_Captures
begin

text \<open>
  What the viewer shows: the HTML of a line carries no tag but the marks, its text is the line,
  every token is marked, and the pages of a file are its lines.
\<close>

section \<open>Reading HTML\<close>

text \<open>The text outside the tags, the tags, and the five entities read back.\<close>

fun text_of :: "bool \<Rightarrow> string \<Rightarrow> string" where
  "text_of in_tag [] = []"
| "text_of True (c # s) = text_of (c \<noteq> CHR ''>'') s"
| "text_of False (c # s) = (if c = CHR ''<'' then text_of True s else c # text_of False s)"

fun tags_of :: "string option \<Rightarrow> string \<Rightarrow> string list" where
  "tags_of None [] = []"
| "tags_of (Some w) [] = [rev w]"
| "tags_of None (c # s) = (if c = CHR ''<'' then tags_of (Some []) s else tags_of None s)"
| "tags_of (Some w) (c # s) = (if c = CHR ''>'' then rev w # tags_of None s else tags_of (Some (c # w)) s)"

definition entities :: "(string \<times> char) list" where
  "entities = [(''&amp;'', CHR ''&''), (''&lt;'', CHR ''<''), (''&gt;'', CHR ''>''), (''&quot;'', CHR 0x22), (''&#x27;'', CHR 0x27)]"

function read_entities :: "string \<Rightarrow> string" where
  "read_entities [] = []"
| "read_entities (c # s) = (case List.find (\<lambda>(e, d). prefix e (c # s)) entities of
       None \<Rightarrow> c # read_entities s
     | Some (e, d) \<Rightarrow> d # read_entities (drop (length e - 1) s))"
  by pat_completeness auto
termination
  by (relation "measure length") auto

section \<open>Escaping\<close>

definition escape_char :: "char \<Rightarrow> string" where
  "escape_char c = (if c = CHR ''&'' then ''&amp;'' else if c = CHR ''<'' then ''&lt;'' else if c = CHR ''>'' then ''&gt;''
     else if c = CHR 0x22 then ''&quot;'' else if c = CHR 0x27 then ''&#x27;'' else [c])"

text \<open>The five replacements in a row are one substitution of characters.\<close>

lemma html_escape_chars: "html_escape s = concat (map escape_char s)"
  by (induction s) (simp_all add: html_escape_def replace_char_def escape_char_def)

lemma html_escape_append [simp]: "html_escape (s @ t) = html_escape s @ html_escape t" "html_escape [] = []"
  by (simp_all add: html_escape_chars)

lemma escape_char_cases:
  "(escape_char c, c) \<in> set entities \<or> (escape_char c = [c] \<and> c \<notin> {CHR ''&'', CHR ''<'', CHR ''>'', CHR 0x22, CHR 0x27})"
  by (simp add: escape_char_def entities_def)

definition markup_free :: "string \<Rightarrow> bool" where
  "markup_free s = list_all (\<lambda>c. c \<noteq> CHR ''<'' \<and> c \<noteq> CHR ''>'' \<and> c \<noteq> CHR 0x22 \<and> c \<noteq> CHR 0x27) s"

lemma escape_markup_free: "markup_free (html_escape s)"
  by (induction s) (simp_all add: html_escape_chars markup_free_def escape_char_def)

lemma read_entity: "(e, c) \<in> set entities \<Longrightarrow> read_entities (e @ s) = c # read_entities s"
  by (auto simp: entities_def)

lemma read_plain: "c \<noteq> CHR ''&'' \<Longrightarrow> read_entities (c # s) = c # read_entities s"
  by (auto simp: entities_def)

lemma read_escaped_append: "read_entities (html_escape s @ t) = s @ read_entities t"
proof (induction s)
  case (Cons c s)
  from escape_char_cases [of c] show ?case
  proof
    assume "(escape_char c, c) \<in> set entities"
    with Cons show ?thesis by (simp add: html_escape_chars read_entity del: read_entities.simps)
  next
    assume "escape_char c = [c] \<and> c \<notin> {CHR ''&'', CHR ''<'', CHR ''>'', CHR 0x22, CHR 0x27}"
    with Cons show ?thesis by (simp add: html_escape_chars read_plain del: read_entities.simps)
  qed
qed simp

lemma read_escaped: "read_entities (html_escape s) = s"
  using read_escaped_append [of s "[]"] by simp

lemma text_plain: "markup_free x \<Longrightarrow> text_of False (x @ y) = x @ text_of False y"
  by (induction x) (simp_all add: markup_free_def)

lemma tags_plain: "markup_free x \<Longrightarrow> tags_of None (x @ y) = tags_of None y"
  by (induction x) (simp_all add: markup_free_def)

lemma text_in_tag: "CHR ''>'' \<notin> set w \<Longrightarrow> text_of True (w @ CHR ''>'' # y) = text_of False y"
  by (induction w) auto

lemma tags_in_tag: "CHR ''>'' \<notin> set w \<Longrightarrow> tags_of (Some v) (w @ CHR ''>'' # y) = (rev v @ w) # tags_of None y"
  by (induction w arbitrary: v) auto

section \<open>A pattern that eats\<close>

primrec eats :: "rx \<Rightarrow> bool" where
  "eats REmpty = False"
| "eats (RSet cs) = True"
| "eats (RNot cs) = True"
| "eats RDot = True"
| "eats (RSeq r q) = (eats r \<or> eats q)"
| "eats (RAlt r q) = (eats r \<and> eats q)"
| "eats (RStar r) = False"
| "eats (RStarLazy r) = False"
| "eats (RTimes n r) = (0 < n \<and> eats r)"
| "eats (RGroup n r) = eats r"
| "eats RBegin = False"
| "eats REnd = False"
| "eats RBound = False"
| "eats (RNotBehind css) = False"
| "eats (RNotAhead cs) = False"

lemma run_not_shorter: "t \<in> set (rx_run ic r s) \<Longrightarrow> length (fst s) \<le> length (fst t)"
  using rx_run_advance [of t ic r s] by (auto simp: advance_def)

lemma eats_run: "eats r \<Longrightarrow> t \<in> set (rx_run ic r s) \<Longrightarrow> length (fst s) < length (fst t)"
proof (induction r arbitrary: s t)
  case (RSet cs)
  then show ?case by (cases s; cases "fst (snd s)") (auto split: if_splits)
next
  case (RNot cs)
  then show ?case by (cases s; cases "fst (snd s)") (auto split: if_splits)
next
  case RDot
  then show ?case by (cases s; cases "fst (snd s)") (auto split: if_splits)
next
  case (RSeq r q)
  then obtain u where u: "u \<in> set (rx_run ic r s)" "t \<in> set (rx_run ic q u)" by auto
  with RSeq run_not_shorter [OF u(1)] run_not_shorter [OF u(2)] show ?case by fastforce
next
  case (RTimes n r)
  then obtain k where n: "n = Suc k" by (cases n) auto
  with RTimes.prems obtain u where u: "u \<in> set (rx_run ic r s)" "t \<in> set (rx_run ic (RTimes k r) u)" by auto
  with RTimes n run_not_shorter [OF u(2)] show ?case by fastforce
qed (auto simp: close_group_def)

text \<open>A match of \<open>finditer\<close> lies in the subject.\<close>

lemma finditer_span:
  assumes "eats r" "t \<in> set (rx_finditer_from ic (RGroup 0 r) b a)"
  shows "\<exists>pre post. rev b @ a = pre @ matched_text t @ post \<and> fst t = rev (pre @ matched_text t) \<and> matched_text t \<noteq> []"
  using assms(2)
proof (induction ic "RGroup 0 r" b a rule: rx_finditer_from.induct)
  case (1 ic b a)
  from 1 obtain u where u: "rx_search_from ic (RGroup 0 r) b a = Some u"
    by (cases "rx_search_from ic (RGroup 0 r) b a") (simp_all add: rx_finditer_from.simps [of ic "RGroup 0 r" b a])
  from search_cut [OF u] obtain pre w where w: "a = pre @ w @ fst (snd u)" "matched_text u = w"
      "rx_match_at ic (RGroup 0 r) (rev pre @ b) (drop (length pre) a) = Some u" by metis
  have run: "u \<in> set (rx_run ic (RGroup 0 r) (rev pre @ b, drop (length pre) a, []))"
    using w(3) unfolding rx_match_at_def by (rule head_opt_in)
  have adv: "fst u = rev w @ rev pre @ b" using rx_match_at_advance [OF w(3)] w(1) by (auto simp: advance_def)
  show ?case
  proof (cases "t = u")
    case True
    have "w \<noteq> []" using eats_run [OF _ run] assms(1) adv by auto
    with True w adv show ?thesis by (intro exI [of _ "rev b @ pre"] exI [of _ "fst (snd u)"]) simp
  next
    case False
    with 1 u have t: "t \<in> set (rx_finditer_from ic (RGroup 0 r) (fst u) (fst (snd u)))" "length (fst (snd u)) < length a"
      by (auto simp: rx_finditer_from.simps [of ic "RGroup 0 r" b a] split: if_splits)
    with 1(1) [OF u] have "\<exists>pre post. rev (fst u) @ fst (snd u) = pre @ matched_text t @ post \<and> fst t = rev (pre @ matched_text t) \<and> matched_text t \<noteq> []"
      by auto
    moreover have "rev (fst u) @ fst (snd u) = rev b @ a" using w(1) adv by simp
    ultimately show ?thesis by simp
  qed
qed

lemma match_span_in:
  assumes "eats r" "t \<in> set (rx_finditer ic (RGroup 0 r) b)" "match_span t = (s, e)"
  shows "s < e" "e \<le> length b" "slice b s e = matched_text t"
proof -
  from finditer_span [OF assms(1) assms(2) [unfolded rx_finditer_def]] obtain pre post
    where "b = pre @ matched_text t @ post" "fst t = rev (pre @ matched_text t)" "matched_text t \<noteq> []" by auto
  moreover from this assms(3) have "s = length pre" "e = length pre + length (matched_text t)" by (simp_all add: match_span_def)
  ultimately show "s < e" "e \<le> length b" "slice b s e = matched_text t"
    by (simp_all add: slice_def)
qed

section \<open>What the patterns claim\<close>

definition marks_apart :: "mark \<Rightarrow> mark \<Rightarrow> bool" where
  "marks_apart m n = (fst (snd m) \<le> fst n \<or> fst (snd n) \<le> fst m)"

definition mark_covers :: "mark \<Rightarrow> nat \<Rightarrow> bool" where
  "mark_covers m i = (fst m \<le> i \<and> i < fst (snd m))"

text \<open>The claimed characters are those of the marks, which are not empty and do not meet.\<close>

definition claims_ok :: "string \<Rightarrow> string set \<Rightarrow> bool list \<times> mark list \<Rightarrow> bool" where
  "claims_ok b cs st = (case st of (claimed, marks) \<Rightarrow>
     length claimed = length b
     \<and> (\<forall>m \<in> set marks. fst m < fst (snd m) \<and> fst (snd m) \<le> length b \<and> snd (snd m) \<in> cs)
     \<and> (\<forall>i < length b. claimed ! i = (\<exists>m \<in> set marks. mark_covers m i))
     \<and> distinct marks \<and> (\<forall>m \<in> set marks. \<forall>n \<in> set marks. m = n \<or> marks_apart m n))"

lemma fold_set_True: "length (fold (\<lambda>i cl. cl[i := True]) is cl) = length cl
  \<and> (i < length cl \<longrightarrow> fold (\<lambda>i cl. cl[i := True]) is cl ! i = (cl ! i \<or> i \<in> set is))"
proof (induction "is" arbitrary: cl)
  case (Cons a "is")
  from Cons [of "cl[a := True]"] show ?case by (cases "a = i") (auto simp: nth_list_update)
qed simp

lemma slice_free: "e \<le> length cl \<Longrightarrow> list_ex id (slice cl s e) \<longleftrightarrow> (\<exists>i. s \<le> i \<and> i < e \<and> cl ! i)"
proof -
  assume e: "e \<le> length cl"
  have "list_ex id (slice cl s e) \<longleftrightarrow> (\<exists>j < e - s. cl ! (s + j))"
    using e by (auto simp: list_ex_length slice_def)
  also have "\<dots> \<longleftrightarrow> (\<exists>i. s \<le> i \<and> i < e \<and> cl ! i)"
    by (metis add_diff_inverse_nat add_diff_cancel_left' diff_less_mono le_add1 less_diff_conv add.commute not_le)
  finally show ?thesis .
qed

lemma claim_step:
  assumes ok: "claims_ok b cs st" and t: "fst (match_span t) < snd (match_span t)" "snd (match_span t) \<le> length b" and cls: "cls \<in> cs"
  shows "claims_ok b cs (claim_match cls t st)"
    and "\<exists>m \<in> set (snd (claim_match cls t st)). fst m < snd (match_span t) \<and> fst (match_span t) < fst (snd m)"
    and "set (snd st) \<subseteq> set (snd (claim_match cls t st))"
proof -
  obtain s e where se: "match_span t = (s, e)" by (cases "match_span t")
  obtain claimed marks where st: "st = (claimed, marks)" by (cases st)
  have len: "length claimed = length b" and cl: "\<forall>i < length b. claimed ! i = (\<exists>m \<in> set marks. mark_covers m i)"
    and ms: "\<forall>m \<in> set marks. fst m < fst (snd m) \<and> fst (snd m) \<le> length b \<and> snd (snd m) \<in> cs"
    using ok by (auto simp: claims_ok_def st)
  have busy: "list_ex id (slice claimed s e) \<longleftrightarrow> (\<exists>m \<in> set marks. fst m < e \<and> s < fst (snd m))"
  proof -
    have "list_ex id (slice claimed s e) \<longleftrightarrow> (\<exists>i. s \<le> i \<and> i < e \<and> (\<exists>m \<in> set marks. mark_covers m i))"
      using slice_free [of e claimed s] t se len cl by (auto intro: less_le_trans)
    also have "\<dots> \<longleftrightarrow> (\<exists>m \<in> set marks. fst m < e \<and> s < fst (snd m))"
    proof
      assume "\<exists>m \<in> set marks. fst m < e \<and> s < fst (snd m)"
      then obtain m where m: "m \<in> set marks" "fst m < e" "s < fst (snd m)" by blast
      with ms t se have "s \<le> max s (fst m) \<and> max s (fst m) < e \<and> mark_covers m (max s (fst m))" by (auto simp: mark_covers_def)
      with m(1) show "\<exists>i. s \<le> i \<and> i < e \<and> (\<exists>m \<in> set marks. mark_covers m i)" by blast
    qed (auto simp: mark_covers_def intro: le_less_trans less_le_trans)
    finally show ?thesis .
  qed
  show "set (snd st) \<subseteq> set (snd (claim_match cls t st))" by (auto simp: claim_match_def se st)
  show "\<exists>m \<in> set (snd (claim_match cls t st)). fst m < snd (match_span t) \<and> fst (match_span t) < fst (snd m)"
    using busy t by (auto simp: claim_match_def se st)
  show "claims_ok b cs (claim_match cls t st)"
  proof (cases "list_ex id (slice claimed s e)")
    case True
    with ok show ?thesis by (simp add: claim_match_def se st)
  next
    case False
    with busy have free: "\<forall>m \<in> set marks. e \<le> fst m \<or> fst (snd m) \<le> s" by (meson not_le)
    then have new: "(s, e, cls) \<notin> set marks" using t se by fastforce
    have "fold (\<lambda>i cl. cl[i := True]) [s..<e] claimed ! i = (\<exists>m \<in> set (marks @ [(s, e, cls)]). mark_covers m i)" if "i < length b" for i
      using fold_set_True [of "[s..<e]" claimed i] that len cl by (auto simp: mark_covers_def)
    with ok free new t se cls False show ?thesis
      by (auto simp: claims_ok_def claim_match_def st fold_set_True marks_apart_def)
  qed
qed

definition overlapped :: "rpos \<Rightarrow> mark list \<Rightarrow> bool" where
  "overlapped t marks = (\<exists>m \<in> set marks. fst m < snd (match_span t) \<and> fst (match_span t) < fst (snd m))"

lemma claim_matches:
  assumes "claims_ok b cs st" "cls \<in> cs" "\<And>t. t \<in> set us \<Longrightarrow> fst (match_span t) < snd (match_span t) \<and> snd (match_span t) \<le> length b"
  shows "claims_ok b cs (fold (claim_match cls) us st) \<and> set (snd st) \<subseteq> set (snd (fold (claim_match cls) us st))
    \<and> (\<forall>t \<in> set us. overlapped t (snd (fold (claim_match cls) us st)))"
  using assms
proof (induction us arbitrary: st)
  case (Cons t us)
  note step = claim_step [OF Cons.prems(1) _ _ Cons.prems(2), of t]
  from Cons.prems(3) [of t] have t: "fst (match_span t) < snd (match_span t)" "snd (match_span t) \<le> length b" by simp_all
  let ?st = "claim_match cls t st"
  let ?fin = "snd (fold (claim_match cls) us ?st)"
  have "claims_ok b cs (fold (claim_match cls) us ?st) \<and> set (snd ?st) \<subseteq> set ?fin \<and> (\<forall>t \<in> set us. overlapped t ?fin)"
    using Cons.prems(3) by (intro Cons.IH step(1) [OF t] Cons.prems(2)) simp
  moreover from this have "overlapped t ?fin" using step(2) [OF t] unfolding overlapped_def by blast
  ultimately show ?case using step(3) [OF t] by auto
qed simp

definition eating :: "(string \<times> bool \<times> rx) list \<Rightarrow> bool" where
  "eating ps = list_all (\<lambda>(name, ic, r). eats r) ps"

lemma claim_patterns:
  assumes "claims_ok b cs st" "eating ps" "(\<lambda>(name, ic, r). token_cls name) ` set ps \<subseteq> cs"
  defines "run \<equiv> fold (\<lambda>(name, ic, r). fold (claim_match (token_cls name)) (rx_finditer ic (RGroup 0 r) b)) ps"
  shows "claims_ok b cs (run st) \<and> set (snd st) \<subseteq> set (snd (run st))
    \<and> (\<forall>(name, ic, r) \<in> set ps. \<forall>t \<in> set (rx_finditer ic (RGroup 0 r) b). overlapped t (snd (run st)))"
  using assms(1-3) unfolding run_def
proof (induction ps arbitrary: st)
  case (Cons p ps)
  obtain name ic r where p: "p = (name, ic, r)" by (cases p)
  let ?us = "rx_finditer ic (RGroup 0 r) b"
  let ?st = "fold (claim_match (token_cls name)) ?us st"
  let ?fin = "snd (fold (\<lambda>(name, ic, r). fold (claim_match (token_cls name)) (rx_finditer ic (RGroup 0 r) b)) ps ?st)"
  have span: "fst (match_span t) < snd (match_span t) \<and> snd (match_span t) \<le> length b" if "t \<in> set ?us" for t
    using match_span_in [of r t ic b] Cons.prems(2) that p by (cases "match_span t") (simp add: eating_def)
  have one: "claims_ok b cs ?st \<and> set (snd st) \<subseteq> set (snd ?st) \<and> (\<forall>t \<in> set ?us. overlapped t (snd ?st))"
    using Cons.prems p by (intro claim_matches span) auto
  then have rest: "claims_ok b cs (fold (\<lambda>(name, ic, r). fold (claim_match (token_cls name)) (rx_finditer ic (RGroup 0 r) b)) ps ?st)
      \<and> set (snd ?st) \<subseteq> set ?fin \<and> (\<forall>(name, ic, r) \<in> set ps. \<forall>t \<in> set (rx_finditer ic (RGroup 0 r) b). overlapped t ?fin)"
    using Cons.prems by (intro Cons.IH) (auto simp: eating_def)
  moreover have "\<forall>t \<in> set ?us. overlapped t ?fin" using one rest unfolding overlapped_def by blast
  ultimately show ?case using one unfolding p by auto
qed simp

lemma eats_derived [simp]: "eats (RPlus r) = eats r" "eats (RLit c)" "\<not> eats (ROpt r)" "eats (RAtLeast (numeral n) r) = eats r"
  by (simp_all add: RPlus_def ROpt_def RAtLeast_def)

lemma highlights_eat: "eating highlights"
  by (simp add: eating_def highlights_def stamp_rx_def symcode_rx_def tagid_rx_def errcode_rx_def idkv_rx_def raw_broker_rx_def level_rx_def
      dotted_quad_rx_def octet_rx_def digit_rx_def RStrs_def)

definition token_classes :: "string list" where
  "token_classes = map (\<lambda>(name, ic, r). token_cls name) highlights"

lemma claim_all_ok: "claims_ok b (set token_classes) (claim_all b)
  \<and> (\<forall>(name, ic, r) \<in> set highlights. \<forall>t \<in> set (rx_finditer ic (RGroup 0 r) b). overlapped t (snd (claim_all b)))"
proof -
  have "claims_ok b (set token_classes) (replicate (length b) False, [])" by (simp add: claims_ok_def)
  from claim_patterns [OF this highlights_eat] show ?thesis by (auto simp: claim_all_def token_classes_def)
qed

section \<open>The marks in order\<close>

fun ordered_marks :: "string \<Rightarrow> nat \<Rightarrow> mark list \<Rightarrow> bool" where
  "ordered_marks b cursor [] = (cursor \<le> length b)"
| "ordered_marks b cursor ((s, e, cls) # ms) = (cursor \<le> s \<and> s < e \<and> e \<le> length b \<and> List.member token_classes cls \<and> ordered_marks b e ms)"

lemma sorted_marks:
  assumes "sorted (map fst ms)" "distinct ms" "\<forall>m \<in> set ms. cursor \<le> fst m"  "cursor \<le> length b"
    "\<forall>m \<in> set ms. fst m < fst (snd m) \<and> fst (snd m) \<le> length b \<and> snd (snd m) \<in> set token_classes"
    "\<forall>m \<in> set ms. \<forall>n \<in> set ms. m = n \<or> marks_apart m n"
  shows "ordered_marks b cursor ms"
  using assms
proof (induction ms arbitrary: cursor)
  case (Cons m ms)
  obtain s e cls where m: "m = (s, e, cls)" by (cases m)
  have "e \<le> fst n" if n: "n \<in> set ms" for n
  proof -
    from Cons.prems(2) n have "n \<noteq> m" by auto
    with Cons.prems(6) n have "marks_apart m n" by auto
    moreover have "s \<le> fst n" using Cons.prems(1) n m by auto
    moreover have "fst n < fst (snd n)" using Cons.prems(5) n by auto
    ultimately show ?thesis by (auto simp: marks_apart_def m)
  qed
  with Cons show ?case by (simp add: m)
qed simp

lemma marks_in_order: "ordered_marks b 0 (sort_key fst (snd (claim_all b)))"
proof -
  obtain cl ms where c: "claim_all b = (cl, ms)" by (cases "claim_all b")
  have ok: "claims_ok b (set token_classes) (cl, ms)" using claim_all_ok [of b] c by simp
  show ?thesis unfolding c
    by (rule sorted_marks) (use ok in \<open>auto simp: claims_ok_def distinct_sort\<close>)
qed

section \<open>The HTML of a line\<close>

text \<open>The tags of the marks: each opens with its class and closes again.\<close>

definition span_tag :: "string \<Rightarrow> string \<Rightarrow> string" where
  "span_tag cls token = ''span class='' @ [CHR 0x22] @ cls
     @ (case (if cls = ''hl-ipv4'' then describe_address token else None) of
          Some note1 \<Rightarrow> '' hl-synthetic'' @ [CHR 0x22] @ '' title='' @ [CHR 0x22] @ html_escape (note_title note1) @ [CHR 0x22]
        | None \<Rightarrow> [CHR 0x22])"

definition mark_tags :: "string \<Rightarrow> mark list \<Rightarrow> string list" where
  "mark_tags b ms = concat (map (\<lambda>(s, e, cls). [span_tag cls (slice b s e), ''/span'']) ms)"

lemma open_tag_span: "open_tag cls token = CHR ''<'' # span_tag cls token @ ''>''"
  by (simp add: open_tag_def span_tag_def split: option.split)

lemma classes_plain: "List.member token_classes cls \<Longrightarrow> CHR ''>'' \<notin> set cls"
proof -
  have "list_all (\<lambda>cls. CHR ''>'' \<notin> set cls) token_classes"
    by (simp add: token_classes_def highlights_def token_cls_def)
  then show "List.member token_classes cls \<Longrightarrow> CHR ''>'' \<notin> set cls" by (simp add: list_all_iff)
qed

lemma span_tag_closed: "List.member token_classes cls \<Longrightarrow> CHR ''>'' \<notin> set (span_tag cls token)"
  using classes_plain [of cls] escape_markup_free
  by (auto simp: span_tag_def markup_free_def list_all_iff split: option.split)

lemma text_of_mark:
  assumes "List.member token_classes cls"
  shows "text_of False (open_tag cls token @ html_escape token @ ''</span>'' @ y) = html_escape token @ text_of False y"
    and "tags_of None (open_tag cls token @ html_escape token @ ''</span>'' @ y) = span_tag cls token # ''/span'' # tags_of None y"
  using span_tag_closed [OF assms, of token] escape_markup_free [of token]
  by (simp_all add: open_tag_span text_in_tag tags_in_tag text_plain tags_plain)

lemma put_marks_read:
  "ordered_marks b cursor ms \<Longrightarrow> text_of False (put_marks b cursor ms) = html_escape (drop cursor b)
     \<and> tags_of None (put_marks b cursor ms) = mark_tags b ms"
proof (induction b cursor ms rule: put_marks.induct)
  case (1 b cursor)
  then show ?case
    using escape_markup_free text_plain [of _ "[]"] tags_plain [of _ "[]"] by (auto simp: mark_tags_def)
next
  case (2 b cursor s e cls ms)
  then have o: "cursor \<le> s" "s < e" "e \<le> length b" "List.member token_classes cls" "ordered_marks b e ms" by auto
  let ?pre = "if cursor < s then html_escape (slice b cursor s) else []"
  have pre: "?pre = html_escape (slice b cursor s)" using o(1) by (simp add: slice_def)
  have "drop cursor b = slice b cursor s @ slice b s e @ drop e b"
    using o(1-3) by (metis append_take_drop_id drop_drop le_add_diff_inverse2 less_imp_le slice_def)
  moreover have free: "markup_free ?pre" by (simp add: pre escape_markup_free)
  moreover note text_of_mark [OF o(4), of "slice b s e" "put_marks b e ms"]
  ultimately show ?case using 2 o
    by (simp add: text_plain tags_plain pre escape_markup_free mark_tags_def)
qed

text \<open>
  C5: A line is shown as it is and cannot bring markup of its own: the tags of its HTML are exactly those of the marks, one pair
  for each marked token, with classes of the table; the text outside the tags reads back as the line.
\<close>

theorem highlight_safe:
  "read_entities (text_of False (highlight_tokens b)) = b
   \<and> tags_of None (highlight_tokens b) = mark_tags b (sort_key fst (snd (claim_all b)))
   \<and> set (map (snd \<circ> snd) (snd (claim_all b))) \<subseteq> set token_classes"
proof -
  have classes: "set (map (snd \<circ> snd) (snd (claim_all b))) \<subseteq> set token_classes"
    using claim_all_ok [of b] by (cases "claim_all b") (auto simp: claims_ok_def)
  have esc: "text_of False (html_escape b) = html_escape b \<and> tags_of None (html_escape b) = []"
    using text_plain [OF escape_markup_free, of b "[]"] tags_plain [OF escape_markup_free, of b "[]"] by simp
  have empty: "snd (claim_all b) = []" if "b = []"
    using claim_all_ok [of b] that by (cases "claim_all b"; cases "snd (claim_all b)") (auto simp: claims_ok_def)
  show ?thesis
  proof (cases "snd (claim_all b) = []")
    case True
    with esc classes show ?thesis by (simp add: highlight_tokens_def read_escaped mark_tags_def)
  next
    case False
    then have "b \<noteq> []" using empty by blast
    with False put_marks_read [OF marks_in_order, of b] classes show ?thesis
      by (simp add: highlight_tokens_def read_escaped)
  qed
qed

text \<open>
  No token is overlooked: every match of a pattern of the table shares a character with a mark, and the marks do not
  overlap.
\<close>

theorem highlight_complete:
  assumes "(name, ic, r) \<in> set highlights" "t \<in> set (rx_finditer ic (RGroup 0 r) b)"
  shows "overlapped t (snd (claim_all b)) \<and> ordered_marks b 0 (sort_key fst (snd (claim_all b)))"
  using claim_all_ok [of b] marks_in_order assms by fastforce

definition sample_body :: string where
  "sample_body = ''tag_id=7''"

theorem highlight_complete_witness:
  "overlapped (hd (rx_finditer True (RGroup 0 tagid_rx) sample_body)) (snd (claim_all sample_body))"
proof -
  have "(''tagid'', True, tagid_rx) \<in> set highlights" by (simp add: highlights_def)
  moreover have "rx_finditer True (RGroup 0 tagid_rx) sample_body \<noteq> []" by code_simp
  then have "hd (rx_finditer True (RGroup 0 tagid_rx) sample_body) \<in> set (rx_finditer True (RGroup 0 tagid_rx) sample_body)" by simp
  ultimately show ?thesis using highlight_complete by blast
qed

section \<open>Pages\<close>

definition page_size_of :: "int \<Rightarrow> nat" where
  "page_size_of n = (if n \<le> 0 then 200 else nat n)"

definition page_count :: "'a list \<Rightarrow> int \<Rightarrow> int" where
  "page_count ls n = snd (snd (paginate ls 1 n))"

lemma page_count_alt: "page_count ls n = max 1 ((int (length ls) + int (page_size_of n) - 1) div int (page_size_of n))"
  by (simp add: page_count_def paginate_def Let_def page_size_of_def)

definition page_at :: "'a list \<Rightarrow> int \<Rightarrow> nat \<Rightarrow> 'a list" where
  "page_at ls p k = slice ls (nat ((p - 1) * int k)) (nat ((p - 1) * int k + int k))"

lemma paginate_clamped:
  "paginate ls p n = (page_at ls (max 1 (min p (page_count ls n))) (page_size_of n), max 1 (min p (page_count ls n)), page_count ls n)"
proof -
  have size: "(if n \<le> 0 then 200 else n) = int (page_size_of n)" by (simp add: page_size_of_def)
  have "(if (if p < 1 then 1 else p) > page_count ls n then page_count ls n else if p < 1 then 1 else p) = max 1 (min p (page_count ls n))"
    by (auto simp: page_count_alt)
  then show ?thesis unfolding paginate_def Let_def size page_count_alt [symmetric] by (simp only: page_at_def)
qed

lemma paginate_slice:
  assumes "1 \<le> p" "p \<le> page_count ls n"
  shows "fst (paginate ls p n) = take (page_size_of n) (drop (nat (p - 1) * page_size_of n) ls)"
proof -
  have "nat ((p - 1) * int (page_size_of n)) = nat (p - 1) * page_size_of n"
      "nat ((p - 1) * int (page_size_of n) + int (page_size_of n)) = nat (p - 1) * page_size_of n + page_size_of n"
    using assms(1) by (simp_all add: nat_add_distrib nat_mult_distrib)
  moreover have "max 1 (min p (page_count ls n)) = p" using assms by simp
  ultimately show ?thesis by (simp only: paginate_clamped page_at_def fst_conv slice_def) simp
qed

lemma take_pages: "concat (map (\<lambda>i. take k (drop (i * k) ls)) [0..<m]) = take (m * k) ls"
proof (induction m)
  case (Suc m)
  then show ?case by (simp add: take_add add.commute [of k])
qed simp

lemma pages_reach: "length ls \<le> nat (page_count ls n) * page_size_of n"
proof -
  let ?k = "int (page_size_of n)" and ?l = "int (length ls)"
  have k: "(if n \<le> 0 then 200 else n) = ?k" "0 < ?k" by (simp_all add: page_size_of_def)
  have p: "page_count ls n = max 1 ((?l + ?k - 1) div ?k)" by (rule page_count_alt)
  have "?l + ?k - 1 = ?k * ((?l + ?k - 1) div ?k) + (?l + ?k - 1) mod ?k" by simp
  moreover have "(?l + ?k - 1) mod ?k < ?k" using k(2) by simp
  ultimately have "?l \<le> ?k * ((?l + ?k - 1) div ?k)" by linarith
  also have "\<dots> \<le> ?k * page_count ls n" using k(2) by (intro mult_left_mono) (simp_all add: p)
  finally have "int (length ls) \<le> int (nat (page_count ls n) * page_size_of n)" using p by (simp add: mult.commute)
  then show ?thesis by linarith
qed

text \<open>
  The pages of a list, one after the other, are the list, whatever the page size; a page number out of range shows the first
  or the last page.
\<close>

theorem pages_partition:
  "concat (map (\<lambda>i. fst (paginate ls (int i + 1) n)) [0..<nat (page_count ls n)]) = ls
   \<and> paginate ls p n = paginate ls (max 1 (min p (page_count ls n))) n"
proof
  have eq: "map (\<lambda>i. fst (paginate ls (int i + 1) n)) [0..<nat (page_count ls n)] =
      map (\<lambda>i. take (page_size_of n) (drop (i * page_size_of n) ls)) [0..<nat (page_count ls n)]"
    by (rule map_cong) (auto simp: paginate_slice)
  show "concat (map (\<lambda>i. fst (paginate ls (int i + 1) n)) [0..<nat (page_count ls n)]) = ls"
    unfolding eq take_pages by (rule take_all [OF pages_reach])
  show "paginate ls p n = paginate ls (max 1 (min p (page_count ls n))) n"
    by (simp only: paginate_clamped) (simp add: page_count_alt)
qed

end
