(* ===== verification/Zpa_Apps.thy ===== *)
theory Zpa_Apps
  imports Log_Index
begin

text \<open>
  The registry of private applications (\<open>zpa_apps.py\<close>): an entry as the broker pushed it, the search
  for the entry of a host name, the summary of its ports, and the brokers and data centres a log
  names.
\<close>

section \<open>The registry\<close>

record zpa_app =
  za_domain :: string
  za_tcp :: "int list"
  za_udp :: "int list"
  za_ingress :: "int list"
  za_bypass :: bool
  za_bypass_type :: string
  za_icmp :: string
  za_bypass_on_reauth :: bool
  za_double_encrypt :: bool
  za_deleted :: bool
  za_first_seen :: "int option"
  za_last_seen :: "int option"
  za_push_count :: nat

text \<open>Pairs of a low and a high port.\<close>

fun port_pairs :: "int list \<Rightarrow> string list" where
  "port_pairs (lo # hi # ps) = (if lo = hi then str_of_int lo else str_of_int lo @ ''-'' @ str_of_int hi) # port_pairs ps"
| "port_pairs ps = []"

definition summarise_port_ranges :: "int list \<Rightarrow> string" where
  "summarise_port_ranges ranges = (if ranges = [] \<or> odd (length ranges) then [] else join_with '', '' (port_pairs ranges))"

definition format_port_summary :: "zpa_app \<Rightarrow> string" where
  "format_port_summary a =
     (let tcp = summarise_port_ranges (za_tcp a); udp = summarise_port_ranges (za_udp a);
          bits = (if tcp = [] then [] else [''TCP '' @ tcp]) @ (if udp \<noteq> [] \<and> udp \<noteq> tcp then [''UDP '' @ udp] else []) in
      if bits = [] then ''(none)'' else join_with ''  '' bits)"

text \<open>\<open>a.app_domain.lower().lstrip("*.").lstrip(".")\<close>\<close>

definition registered_suffix :: "zpa_app \<Rightarrow> string" where
  "registered_suffix a = lstrip_by (\<lambda>c. c = CHR ''.'') (lstrip_by (\<lambda>c. c = CHR ''*'' \<or> c = CHR ''.'') (py_lower (za_domain a)))"

definition find_app_for_domain :: "zpa_app list \<Rightarrow> string \<Rightarrow> zpa_app option" where
  "find_app_for_domain apps domain =
     (if domain = [] \<or> apps = [] then None
      else let d = py_strip (py_lower domain) in
        case List.find (\<lambda>a. py_lower (za_domain a) = d) apps of
          Some a \<Rightarrow> Some a
        | None \<Rightarrow> List.find (\<lambda>a. registered_suffix a \<noteq> [] \<and> suffix (registered_suffix a) d) apps)"

section \<open>Brokers\<close>

definition broker_dc_rx :: rx where
  "broker_dc_rx = RSeqs [RStr ''broker'', RPlus (RSet [CDigit]),
     RAlt (RPlus (RSet [CRange (CHR ''a'') (CHR ''z'')])) (RSeq (RLit (CHR ''-'')) (RPlus (RSet [CDigit]))), RLit (CHR ''.''),
     RGroup 1 (RSeq (RPlus (RSet [CRange (CHR ''a'') (CHR ''z'')])) (RPlus (RSet [CDigit]))), RStr ''.prod.zpath.net'']"

record broker_dcs =
  bd_dcs :: "string list"
  bd_hosts :: "string list"
  bd_primary :: string

definition group_text :: "nat \<Rightarrow> rpos \<Rightarrow> string" where
  "group_text n t = (case rx_group n t of None \<Rightarrow> [] | Some w \<Rightarrow> w)"

definition broker_matches :: "string \<Rightarrow> rpos list" where
  "broker_matches b = (if occurs ''zpath.net'' b then rx_finditer True (RGroup 0 broker_dc_rx) b else [])"

definition note_broker :: "rpos \<Rightarrow> (string, nat) dict \<times> string list \<Rightarrow> (string, nat) dict \<times> string list" where
  "note_broker t st = (dict_add (py_lower (group_text 1 t)) 1 (fst st), List.insert (py_lower (matched_text t)) (snd st))"

text \<open>\<open>Counter.common_first()\<close> keeps the order of first sight among equal counts.\<close>

definition common_first :: "(string, nat) dict \<Rightarrow> string list" where
  "common_first counts = map fst (sort_key (\<lambda>kn. - int (snd kn)) counts)"

definition extract_zpa_broker_dcs :: "log_index \<Rightarrow> broker_dcs" where
  "extract_zpa_broker_dcs idx =
     (let (counts, hosts) = fold note_broker (concat (map (broker_matches \<circ> body) (lines idx))) ([], []);
          dcs = common_first counts in
      \<lparr>bd_dcs = dcs, bd_hosts = sort hosts, bd_primary = (case dcs of [] \<Rightarrow> [] | d # _ \<Rightarrow> d)\<rparr>)"

section \<open>The entry of a host name\<close>

lemma find_Some: "List.find p xs = Some x \<Longrightarrow> x \<in> set xs \<and> p x"
  by (induction xs) (auto split: if_splits)

lemma find_None: "List.find p xs = None \<longleftrightarrow> (\<forall>x \<in> set xs. \<not> p x)"
  by (induction xs) auto

text \<open>
  The lookup finds an entry exactly when one is registered under the name itself or under an ending of it, and prefers the
  name itself.
\<close>

theorem find_app_spec:
  assumes "domain \<noteq> []"
  defines "d \<equiv> py_strip (py_lower domain)"
  shows "(find_app_for_domain apps domain = None \<longleftrightarrow>
      (\<forall>a \<in> set apps. py_lower (za_domain a) \<noteq> d \<and> (registered_suffix a = [] \<or> \<not> suffix (registered_suffix a) d)))
    \<and> (\<forall>a. find_app_for_domain apps domain = Some a \<longrightarrow> a \<in> set apps
      \<and> (py_lower (za_domain a) = d \<or> (suffix (registered_suffix a) d \<and> (\<forall>b \<in> set apps. py_lower (za_domain b) \<noteq> d))))"
proof (cases "List.find (\<lambda>a. py_lower (za_domain a) = d) apps")
  case None
  then have none: "\<forall>b \<in> set apps. py_lower (za_domain b) \<noteq> d" by (simp add: find_None)
  let ?p = "\<lambda>a. registered_suffix a \<noteq> [] \<and> suffix (registered_suffix a) d"
  have eq: "find_app_for_domain apps domain = List.find ?p apps"
    using None assms(1) by (simp add: find_app_for_domain_def d_def)
  have "List.find ?p apps = None \<longleftrightarrow> (\<forall>a \<in> set apps. py_lower (za_domain a) \<noteq> d \<and> (registered_suffix a = [] \<or> \<not> suffix (registered_suffix a) d))"
    unfolding find_None using none by blast
  moreover have "a \<in> set apps \<and> suffix (registered_suffix a) d" if "List.find ?p apps = Some a" for a
    using find_Some [OF that] by blast
  ultimately show ?thesis unfolding eq using none by blast
next
  case (Some a)
  then have "find_app_for_domain apps domain = Some a"
    using assms(1) by (cases apps) (simp_all add: find_app_for_domain_def d_def)
  moreover have "a \<in> set apps \<and> py_lower (za_domain a) = d" using find_Some [OF Some] .
  ultimately show ?thesis by (metis option.distinct(1) option.inject)
qed

definition plain_app :: "string \<Rightarrow> zpa_app" where
  "plain_app name = \<lparr>za_domain = name, za_tcp = [443, 443], za_udp = [], za_ingress = [], za_bypass = False, za_bypass_type = ''NEVER'',
     za_icmp = ''NONE'', za_bypass_on_reauth = False, za_double_encrypt = False, za_deleted = False, za_first_seen = None,
     za_last_seen = None, za_push_count = 1\<rparr>"

theorem find_app_witness: "find_app_for_domain [plain_app ''*.corp.example''] ''store.corp.example'' \<noteq> None"
proof -
  have "registered_suffix (plain_app ''*.corp.example'') = ''corp.example''
      \<and> suffix ''corp.example'' (py_strip (py_lower ''store.corp.example''))" by code_simp
  then show ?thesis
    using find_app_spec [of "''store.corp.example''" "[plain_app ''*.corp.example'']"] by simp
qed

text \<open>
  The documented result is the most specific entry; the code takes the first whose ending fits, and an ending need not
  start at a dot.
\<close>

lemma first_suffix_wins:
  "map_option za_domain (find_app_for_domain [plain_app ''*.example'', plain_app ''*.corp.example''] ''store.corp.example'') = Some ''*.example''"
  by code_simp

lemma suffix_inside_label:
  "map_option za_domain (find_app_for_domain [plain_app ''*.corp.example''] ''notcorp.example'') = Some ''*.corp.example''"
  by code_simp

end
