(* ===== verification/Zpa_Sessions.thy ===== *)
theory Zpa_Sessions
  imports Zpa_Apps "HOL-Library.Product_Lexorder" "HOL-Library.List_Lexorder" "HOL-Library.Char_ord"
begin

text \<open>
  The sessions of private access (\<open>zpa_session_correlator.py\<close>): one pass over the indexed lines
  keeps a session per tag; later passes fill in the names of applications and attach_line context.
  A line is its position in the index, which is its identity.  Numbers have at most the 4300
  digits \<open>int\<close> accepts; a latency is kept as the text \<open>float\<close> accepts.
\<close>

section \<open>Patterns\<close>

definition json_key :: "string \<Rightarrow> rx" where
  "json_key s = RSeqs [RLit (CHR 0x22), RStr s, RLit (CHR 0x22)]"

definition digits_rx :: rx where
  "digits_rx = RPlus (RSet [CDigit])"

definition ws_rx :: rx where
  "ws_rx = RStar (RSet [CSpace])"

definition ws1_rx :: rx where
  "ws1_rx = RPlus (RSet [CSpace])"

definition lazy_dots :: rx where
  "lazy_dots = RStarLazy RDot"

definition no_quote :: rx where
  "no_quote = RPlus (RNot [CLit (CHR 0x22)])"

definition json_value :: "string \<Rightarrow> rx \<Rightarrow> rx" where
  "json_value key v = RSeqs [json_key key, ws_rx, RLit (CHR '':''), ws_rx, v]"

definition json_text :: "string \<Rightarrow> rx" where
  "json_text key = json_value key (RSeqs [RLit (CHR 0x22), RGroup 1 no_quote, RLit (CHR 0x22)])"

definition zs_setup_rx :: rx where
  "zs_setup_rx = RSeqs [RStr ''ID='', RGroup 1 digits_rx, RLit (CHR '',''), ws_rx, RStr ''ZPN Connection'', ws1_rx, RStr ''local:'',
     RGroup 2 digits_rx, ws_rx, RStr ''->'', ws_rx, RGroup 3 (RPlus (RSet [CDigit, CLit (CHR ''.'')])), RLit (CHR '':''), RGroup 4 digits_rx,
     ws1_rx, RStr ''App Name='', RGroup 5 (RPlus (RNot [CLit (CHR '','')])), RLit (CHR '',''), RGroup 6 lazy_dots, RStr ''TAG-ID='',
     RGroup 7 digits_rx]"

definition zs_request_rx :: rx where
  "zs_request_rx = json_value ''zpn_mtunnel_request'' (RSeqs [RLit (CHR ''{''), RGroup 1 (RStar (RNot [CLit (CHR ''}'')])), RLit (CHR ''}'')])"

definition req_app_rx :: rx where
  "req_app_rx = json_text ''app_name''"

definition req_dip_rx :: rx where
  "req_dip_rx = json_text ''o_dip''"

definition req_port_rx :: rx where
  "req_port_rx = json_value ''server_port'' (RGroup 1 digits_rx)"

definition req_proto_rx :: rx where
  "req_proto_rx = json_value ''ip_protocol'' (RGroup 1 digits_rx)"

definition req_double_rx :: rx where
  "req_double_rx = json_value ''double_encrypt'' (RSeq (RLit (CHR ''1'')) RBound)"

definition req_tag_rx :: rx where
  "req_tag_rx = json_value ''tag_id'' (RGroup 1 digits_rx)"

definition setup_time_rx :: rx where
  "setup_time_rx = RSeqs [RStr ''zpn_mtunnel_request_ack'', ws1_rx, RStr ''tag_id:'', ws_rx, RGroup 1 digits_rx, lazy_dots, RStr ''Setup Time:'',
     ws_rx, RGroup 2 (RPlus (RSet [CDigit, CLit (CHR ''.'')])), ws_rx, RStr ''seconds'']"

definition ack_reauth_rx :: rx where
  "ack_reauth_rx = json_value ''reauth_timeout_s'' (RGroup 1 digits_rx)"

definition client_proto_rx :: rx where
  "client_proto_rx = RSeqs [RStr ''client for tag_id:'', ws_rx, RGroup 1 digits_rx, ws_rx, RLit (CHR ''=''), ws_rx, RStr ''proto='', RGroup 2 digits_rx]"

definition got_data_rx :: rx where
  "got_data_rx = RSeqs [RStr ''Got data for tag_id:'', ws_rx, RGroup 1 digits_rx]"

definition zs_keepalive_rx :: rx where
  "zs_keepalive_rx = RSeqs [RStr ''Updating mtunnel entry tag_id:'', ws_rx, RGroup 1 digits_rx, RLit (CHR '',''), ws_rx, RStr ''timeout:'', ws_rx,
     RGroup 2 digits_rx]"

definition client_end_rx :: rx where
  "client_end_rx = RSeqs [RStr ''Sending mtunnel end json'', RStar (RNot [CLit (CHR ''{'')]), RLit (CHR ''{''), RStar (RNot [CLit (CHR ''}'')]),
     json_value ''tag_id'' (RGroup 1 digits_rx), lazy_dots, RStr '':isbrokerSwitch'', ws1_rx, RGroup 2 digits_rx]"

definition end_connection_rx :: rx where
  "end_connection_rx = RSeqs [RStr ''Zpn endConnection called for tag id:'', ws_rx, RGroup 1 digits_rx, ws1_rx, RStr ''ShutdownMode:'', ws_rx,
     RGroup 2 (RPlus (RNot [CSpace]))]"

definition disconnect_rx :: rx where
  "disconnect_rx = RSeqs [RStr ''Disconnecting Tag id:'', ws_rx, RGroup 1 digits_rx, lazy_dots, RStr ''stats=['', ws_rx,
     RStr ''Cl:(Rx:'', RGroup 2 digits_rx, RStr '',Tx:'', RGroup 3 digits_rx, RLit (CHR '')''), ws_rx,
     RStr ''Sr:(Rx:'', RGroup 4 digits_rx, RStr '',Tx:'', RGroup 5 digits_rx, RLit (CHR '')''), ws_rx, RLit (CHR '']'')]"

definition chunk_rx :: "string \<Rightarrow> rx" where
  "chunk_rx s = RSeqs [RStr s, ws_rx, RGroup 1 digits_rx, lazy_dots, RStr ''tag'', ROpt (RSet [CLit (CHR '' ''), CLit (CHR ''_'')]), RStr ''id'',
     RPlus (RSet [CLit (CHR '':''), CLit (CHR '' '')]), RGroup 2 digits_rx]"

definition runtime_write_rx :: rx where
  "runtime_write_rx = chunk_rx ''Zpn client socket written bytes:''"

definition runtime_read_rx :: rx where
  "runtime_read_rx = chunk_rx ''Zpn Client socket read bytes:''"

definition loose_tag_rx :: rx where
  "loose_tag_rx = RSeqs [RBound, RStr ''tag'', ROpt (RSet [CLit (CHR '' ''), CLit (CHR ''_''), CLit (CHR ''-'')]), RStr ''id'',
     RPlus (RSet [CLit (CHR '':''), CLit (CHR '' ''), CLit (CHR ''='')]), RGroup 1 digits_rx, RBound]"

definition id_ref_rx :: rx where
  "id_ref_rx = RSeqs [RBound, RStr ''ID='', RGroup 1 digits_rx, RBound]"

definition tight :: "string \<Rightarrow> rx \<Rightarrow> rx" where
  "tight key v = RSeqs [json_key key, RLit (CHR '':''), v]"

definition skip_in_object :: rx where
  "skip_in_object = RStarLazy (RNot [CLit (CHR ''}'')])"

definition zs_ack_rx :: rx where
  "zs_ack_rx = RSeqs [RLit (CHR ''{''), tight ''zpn_mtunnel_request_ack'' (RLit (CHR ''{'')), tight ''tag_id'' (RGroup 1 digits_rx), RLit (CHR '',''),
     ROpt (RSeq skip_in_object (tight ''mtunnel_id'' (RSeqs [RLit (CHR 0x22), RGroup 2 no_quote, RLit (CHR 0x22)]))),
     ROpt (RSeq skip_in_object (tight ''error'' (RSeqs [RLit (CHR 0x22), RGroup 3 no_quote, RLit (CHR 0x22)]))),
     lazy_dots, tight ''err_code'' (RGroup 4 digits_rx)]"

definition zs_end_rx :: rx where
  "zs_end_rx = RSeqs [RLit (CHR ''{''), tight ''zpn_mtunnel_end'' (RLit (CHR ''{'')), tight ''tag_id'' (RGroup 1 digits_rx), RLit (CHR '',''), ws_rx,
     tight ''error'' (RSeqs [RLit (CHR 0x22), RGroup 2 no_quote, RLit (CHR 0x22)]), lazy_dots, tight ''err_code'' (RGroup 3 digits_rx),
     lazy_dots, tight ''drop_data'' (RGroup 4 digits_rx)]"

section \<open>Sessions\<close>

record zpa_session =
  zs_tag :: string
  zs_app :: string
  zs_conn :: "string option"
  zs_local_port :: "nat option"
  zs_dest_ip :: "string option"
  zs_dest_port :: "nat option"
  zs_double :: bool
  zs_proto :: "nat option"
  zs_setup_ts :: "int option"
  zs_request_ts :: "int option"
  zs_ack_ts :: "int option"
  zs_ack_code :: "nat option"
  zs_ack_error :: string
  zs_mtunnel :: string
  zs_latency :: "string option"
  zs_reauth :: "nat option"
  zs_end_ts :: "int option"
  zs_end_error :: string
  zs_end_code :: "nat option"
  zs_end_drop :: "nat option"
  zs_client_close :: "bool option"
  zs_broker_switch :: "bool option"
  zs_shutdown :: string
  zs_cl_rx :: "nat option"
  zs_cl_tx :: "nat option"
  zs_sr_rx :: "nat option"
  zs_sr_tx :: "nat option"
  zs_data_events :: nat
  zs_keepalives :: nat
  zs_written :: nat
  zs_read :: nat
  zs_write_events :: nat
  zs_read_events :: nat
  zs_source :: string
  zs_registry :: "zpa_app option"
  zs_lines :: "nat list"

definition new_session :: "string \<Rightarrow> zpa_session" where
  "new_session tag = \<lparr>zs_tag = tag, zs_app = [], zs_conn = None, zs_local_port = None, zs_dest_ip = None, zs_dest_port = None,
     zs_double = False, zs_proto = None, zs_setup_ts = None, zs_request_ts = None, zs_ack_ts = None, zs_ack_code = None,
     zs_ack_error = [], zs_mtunnel = [], zs_latency = None, zs_reauth = None, zs_end_ts = None, zs_end_error = [], zs_end_code = None,
     zs_end_drop = None, zs_client_close = None, zs_broker_switch = None, zs_shutdown = [], zs_cl_rx = None, zs_cl_tx = None,
     zs_sr_rx = None, zs_sr_tx = None, zs_data_events = 0, zs_keepalives = 0, zs_written = 0, zs_read = 0, zs_write_events = 0,
     zs_read_events = 0, zs_source = [], zs_registry = None, zs_lines = []\<rparr>"

type_synonym sessions = "(string, zpa_session) dict"

definition get_session :: "string \<Rightarrow> sessions \<Rightarrow> zpa_session" where
  "get_session tag d = (case dict_get d tag of None \<Rightarrow> new_session tag | Some s \<Rightarrow> s)"

definition first_hit :: "'a option list \<Rightarrow> 'a option" where
  "first_hit xs = fold (\<lambda>x acc. case acc of None \<Rightarrow> x | Some y \<Rightarrow> Some y) xs None"

text \<open>A text that is missing or empty.\<close>

definition blank_text :: "string option \<Rightarrow> bool" where
  "blank_text x = (case x of None \<Rightarrow> True | Some w \<Rightarrow> w = [])"

definition found_text :: "rx \<Rightarrow> string \<Rightarrow> string option" where
  "found_text r b = map_option (group_text 1) (rx_search False r b)"

definition group_number :: "nat \<Rightarrow> rpos \<Rightarrow> nat" where
  "group_number n m = nat_of_digits (group_text n m)"

text \<open>What \<open>float\<close> accepts of digits and dots: one digit at least, one dot at most.\<close>

definition float_text :: "string \<Rightarrow> string option" where
  "float_text s = (if list_ex py_isdecimal s \<and> length (filter (\<lambda>c. c = CHR ''.'') s) \<le> 1 then Some s else None)"

section \<open>One line of a session\<close>

text \<open>What a line does to its session, given the match, the body, its position and its time.\<close>

type_synonym handler = "nat \<Rightarrow> int \<Rightarrow> zpa_session \<Rightarrow> zpa_session"

definition attach_line :: "nat \<Rightarrow> zpa_session \<Rightarrow> zpa_session" where
  "attach_line i s = s\<lparr>zs_lines := zs_lines s @ [i]\<rparr>"

definition on_setup :: "rpos \<Rightarrow> string \<Rightarrow> handler" where
  "on_setup m b i t s =
     (let s1 = (if zs_app s = [] then s\<lparr>zs_app := py_strip (group_text 5 m), zs_source := ''setup_line''\<rparr> else s);
          s2 = s1\<lparr>zs_conn := (if blank_text (zs_conn s1) then rx_group 1 m else zs_conn s1),
                  zs_local_port := Some (group_number 2 m), zs_dest_port := Some (group_number 4 m), zs_dest_ip := rx_group 3 m\<rparr>;
          s3 = (if occurs ''DoubleEncrypt=1'' b then s2\<lparr>zs_double := True\<rparr> else s2);
          s4 = s3\<lparr>zs_setup_ts := or_else (zs_setup_ts s3) (Some t)\<rparr> in
      attach_line i s4)"

definition on_request :: "string \<Rightarrow> handler" where
  "on_request req i t s =
     (let s1 = (case if zs_app s = [] then found_text req_app_rx req else None of
            None \<Rightarrow> s | Some name \<Rightarrow> s\<lparr>zs_app := py_strip name, zs_source := ''request''\<rparr>);
          s2 = (if blank_text (zs_dest_ip s1) then s1\<lparr>zs_dest_ip := or_else (found_text req_dip_rx req) (zs_dest_ip s1)\<rparr> else s1);
          s3 = s2\<lparr>zs_dest_port := or_else (zs_dest_port s2) (map_option nat_of_digits (found_text req_port_rx req))\<rparr>;
          s4 = s3\<lparr>zs_proto := or_else (zs_proto s3) (map_option nat_of_digits (found_text req_proto_rx req))\<rparr>;
          s5 = (if \<not> zs_double s4 \<and> rx_search False req_double_rx req \<noteq> None then s4\<lparr>zs_double := True\<rparr> else s4);
          s6 = s5\<lparr>zs_request_ts := or_else (zs_request_ts s5) (Some t)\<rparr> in
      attach_line i s6)"

definition on_ack :: "rpos \<Rightarrow> string \<Rightarrow> handler" where
  "on_ack m b i t s =
     (let s1 = s\<lparr>zs_ack_code := Some (group_number 4 m)\<rparr>;
          s2 = (if group_text 2 m \<noteq> [] then s1\<lparr>zs_mtunnel := group_text 2 m\<rparr> else s1);
          s3 = (if group_text 3 m \<noteq> [] \<and> zs_ack_error s2 = [] then s2\<lparr>zs_ack_error := group_text 3 m\<rparr> else s2);
          s4 = s3\<lparr>zs_reauth := or_else (zs_reauth s3) (map_option nat_of_digits (found_text ack_reauth_rx b))\<rparr>;
          s5 = s4\<lparr>zs_ack_ts := or_else (zs_ack_ts s4) (Some t)\<rparr> in
      attach_line i s5)"

definition on_setup_time :: "rpos \<Rightarrow> handler" where
  "on_setup_time m i t s = attach_line i (case float_text (group_text 2 m) of None \<Rightarrow> s | Some f \<Rightarrow> s\<lparr>zs_latency := Some f\<rparr>)"

definition on_client_proto :: "rpos \<Rightarrow> handler" where
  "on_client_proto m i t s = attach_line i (s\<lparr>zs_proto := or_else (zs_proto s) (Some (group_number 2 m))\<rparr>)"

definition on_got_data :: handler where
  "on_got_data i t s = s\<lparr>zs_data_events := zs_data_events s + 1\<rparr>"

definition on_keepalive :: "rpos \<Rightarrow> handler" where
  "on_keepalive m i t s = s\<lparr>zs_keepalives := zs_keepalives s + 1, zs_reauth := or_else (zs_reauth s) (Some (group_number 2 m))\<rparr>"

definition on_client_end :: "rpos \<Rightarrow> handler" where
  "on_client_end m i t s = attach_line i
     (s\<lparr>zs_client_close := or_else (zs_client_close s) (Some (zs_end_ts s = None)),
        zs_broker_switch := or_else (zs_broker_switch s) (Some (group_number 2 m = 1))\<rparr>)"

definition on_end_connection :: "rpos \<Rightarrow> handler" where
  "on_end_connection m i t s = attach_line i (s\<lparr>zs_shutdown := group_text 2 m\<rparr>)"

definition on_disconnect :: "rpos \<Rightarrow> handler" where
  "on_disconnect m i t s = attach_line i (s\<lparr>zs_cl_rx := Some (group_number 2 m), zs_cl_tx := Some (group_number 3 m),
     zs_sr_rx := Some (group_number 4 m), zs_sr_tx := Some (group_number 5 m)\<rparr>)"

definition on_write :: "rpos \<Rightarrow> handler" where
  "on_write m i t s = attach_line i (s\<lparr>zs_written := zs_written s + group_number 1 m, zs_write_events := zs_write_events s + 1\<rparr>)"

definition on_read :: "rpos \<Rightarrow> handler" where
  "on_read m i t s = attach_line i (s\<lparr>zs_read := zs_read s + group_number 1 m, zs_read_events := zs_read_events s + 1\<rparr>)"

definition on_end :: "rpos \<Rightarrow> handler" where
  "on_end m i t s = attach_line i
     (if zs_end_ts s = None then s\<lparr>zs_end_ts := Some t, zs_end_error := group_text 2 m, zs_end_code := Some (group_number 3 m),
        zs_end_drop := Some (group_number 4 m)\<rparr> else s)"

section \<open>The pass over the lines\<close>

definition case_of :: "bool \<Rightarrow> rx \<Rightarrow> nat \<Rightarrow> (rpos \<Rightarrow> handler) \<Rightarrow> string \<Rightarrow> (string \<times> handler) option" where
  "case_of ic r g h b = map_option (\<lambda>m. (group_text g m, h m)) (rx_search ic r b)"

text \<open>A request without a tag falls through to the later patterns.\<close>

definition request_case :: "string \<Rightarrow> (string \<times> handler) option" where
  "request_case b = (case rx_search True zs_request_rx b of
       None \<Rightarrow> None
     | Some m \<Rightarrow> map_option (\<lambda>tag. (tag, on_request (group_text 1 m))) (found_text req_tag_rx (group_text 1 m)))"

text \<open>The tag and the handler of the first pattern that matches.\<close>

definition dispatch :: "string \<Rightarrow> (string \<times> handler) option" where
  "dispatch b = first_hit
     [case_of True zs_setup_rx 7 (\<lambda>m. on_setup m b) b, request_case b, case_of False zs_ack_rx 1 (\<lambda>m. on_ack m b) b,
      case_of True setup_time_rx 1 on_setup_time b, case_of True client_proto_rx 1 on_client_proto b,
      case_of True got_data_rx 1 (\<lambda>m. on_got_data) b, case_of True zs_keepalive_rx 1 on_keepalive b,
      case_of True client_end_rx 1 on_client_end b, case_of True end_connection_rx 1 on_end_connection b,
      case_of True disconnect_rx 1 on_disconnect b, case_of True runtime_write_rx 2 on_write b, case_of True runtime_read_rx 2 on_read b,
      case_of False zs_end_rx 1 on_end b]"

definition known_tag :: "sessions \<Rightarrow> string option \<Rightarrow> string option" where
  "known_tag d x = (case x of None \<Rightarrow> None | Some tag \<Rightarrow> if dict_get d tag = None then None else Some tag)"

text \<open>The session a line belongs to that no pattern recognises: by its tag, or by its connection.\<close>

definition loose_owner :: "string \<Rightarrow> sessions \<Rightarrow> string option" where
  "loose_owner b d = first_hit
     [known_tag d (found_text req_tag_rx b),
      known_tag d (map_option (group_text 1) (rx_search True loose_tag_rx b)),
      (case found_text id_ref_rx b of None \<Rightarrow> None | Some conn \<Rightarrow> map_option fst (List.find (\<lambda>(tag, s). zs_conn s = Some conn) d))]"

definition looks_like_zpa :: "string \<Rightarrow> bool" where
  "looks_like_zpa b = (occurs ''tag_id'' b \<or> occurs ''TAG-ID='' b \<or> occurs ''ag id'' b)"

definition session_line :: "nat \<Rightarrow> indexed_line \<Rightarrow> sessions \<Rightarrow> sessions" where
  "session_line i ln d = (let b = body ln in
     if b = [] \<or> \<not> looks_like_zpa b then d
     else (case dispatch b of
         Some (tag, h) \<Rightarrow> dict_set tag (h i (ts ln) (get_session tag d)) d
       | None \<Rightarrow> (case loose_owner b d of
             None \<Rightarrow> d
           | Some tag \<Rightarrow> dict_set tag (attach_line i (get_session tag d)) d)))"

definition positioned :: "indexed_line list \<Rightarrow> (nat \<times> indexed_line) list" where
  "positioned ls = zip [0..<length ls] ls"

definition main_pass :: "indexed_line list \<Rightarrow> sessions" where
  "main_pass ls = fold (\<lambda>(i, ln). session_line i ln) (positioned ls) []"

section \<open>Names that are filled in\<close>

record request_attrs =
  ra_app :: "string option"
  ra_dip :: "string option"
  ra_port :: "nat option"
  ra_proto :: "nat option"
  ra_ts :: int

definition request_line :: "indexed_line \<Rightarrow> (string, request_attrs) dict \<Rightarrow> (string, request_attrs) dict" where
  "request_line ln acc = (let b = body ln in
     if \<not> occurs ([CHR 0x22] @ ''zpn_mtunnel_request'' @ [CHR 0x22]) b then acc
     else (case rx_search True zs_request_rx b of
         None \<Rightarrow> acc
       | Some m \<Rightarrow> (let req = group_text 1 m in case found_text req_tag_rx req of
             None \<Rightarrow> acc
           | Some tag \<Rightarrow> if dict_get acc tag \<noteq> None then acc
               else dict_set tag \<lparr>ra_app = map_option py_strip (found_text req_app_rx req), ra_dip = found_text req_dip_rx req,
                 ra_port = map_option nat_of_digits (found_text req_port_rx req),
                 ra_proto = map_option nat_of_digits (found_text req_proto_rx req), ra_ts = ts ln\<rparr> acc)))"

definition request_attrs_by_tag :: "indexed_line list \<Rightarrow> (string, request_attrs) dict" where
  "request_attrs_by_tag ls = fold request_line ls []"

text \<open>Strategy 0: the earliest request of the tag.\<close>

definition from_request :: "request_attrs \<Rightarrow> zpa_session \<Rightarrow> zpa_session" where
  "from_request a s =
     (let s1 = (if zs_app s = [] \<and> \<not> blank_text (ra_app a) then s\<lparr>zs_app := the (ra_app a), zs_source := ''request''\<rparr> else s);
          s2 = (if blank_text (zs_dest_ip s1) \<and> \<not> blank_text (ra_dip a) then s1\<lparr>zs_dest_ip := ra_dip a\<rparr> else s1) in
      s2\<lparr>zs_dest_port := or_else (zs_dest_port s2) (ra_port a), zs_proto := or_else (zs_proto s2) (ra_proto a),
         zs_request_ts := or_else (zs_request_ts s2) (Some (ra_ts a))\<rparr>)"

definition map_sessions :: "(zpa_session \<Rightarrow> zpa_session) \<Rightarrow> sessions \<Rightarrow> sessions" where
  "map_sessions f d = map (\<lambda>(k, s). (k, f s)) d"

definition fill_requests :: "indexed_line list \<Rightarrow> sessions \<Rightarrow> sessions" where
  "fill_requests ls d = (let attrs = request_attrs_by_tag ls in
     map_sessions (\<lambda>s. case dict_get attrs (zs_tag s) of None \<Rightarrow> s | Some a \<Rightarrow> from_request a s) d)"

text \<open>Strategy 1: the first session with the same tunnel; it is another one when it has a name.\<close>

definition mtunnel_owner :: "sessions \<Rightarrow> string \<Rightarrow> string option" where
  "mtunnel_owner d mt = map_option fst (List.find (\<lambda>(k, s). zs_mtunnel s = mt) d)"

definition xref_one :: "(string \<Rightarrow> string option) \<Rightarrow> string \<Rightarrow> sessions \<Rightarrow> sessions" where
  "xref_one owner k d = (let s = get_session k d in
     if zs_app s \<noteq> [] \<or> zs_mtunnel s = [] then d
     else (case owner (zs_mtunnel s) of
         None \<Rightarrow> d
       | Some j \<Rightarrow> if j \<noteq> k \<and> zs_app (get_session j d) \<noteq> []
           then dict_set k (s\<lparr>zs_app := zs_app (get_session j d), zs_source := ''mtunnel_xref''\<rparr>) d else d))"

definition fill_mtunnels :: "sessions \<Rightarrow> sessions" where
  "fill_mtunnels d = fold (xref_one (mtunnel_owner d)) (dict_keys d) d"

text \<open>Strategy 2: the sessions beside it in the order of the tags, within a minute.\<close>

definition tag_order :: "sessions \<Rightarrow> string list" where
  "tag_order d = sort_key (\<lambda>k. (nat_of_digits k, k)) (dict_keys d)"

definition anchor_of :: "zpa_session \<Rightarrow> int option" where
  "anchor_of s = or_else (zs_request_ts s) (or_else (zs_ack_ts s) (zs_end_ts s))"

definition neighbour_window :: int where
  "neighbour_window = 60 * 1000000"

definition candidate_names :: "string list \<Rightarrow> nat \<Rightarrow> int \<Rightarrow> sessions \<Rightarrow> string list" where
  "candidate_names order i anchor d =
     (let sibs = map (\<lambda>j. get_session (order ! j) d) ((if 0 < i then [i - 1] else []) @ (if i + 1 < length order then [i + 1] else [])) in
      map zs_app (filter (\<lambda>s. zs_app s \<noteq> [] \<and> (case anchor_of s of None \<Rightarrow> False | Some t \<Rightarrow> \<bar>t - anchor\<bar> \<le> neighbour_window)) sibs))"

definition agreed_name :: "string list \<Rightarrow> string option" where
  "agreed_name names = (case names of [a] \<Rightarrow> Some a | a # b # _ \<Rightarrow> if a = b then Some a else None | [] \<Rightarrow> None)"

definition neighbour_one :: "string list \<Rightarrow> nat \<Rightarrow> sessions \<Rightarrow> sessions" where
  "neighbour_one order i d = (let s = get_session (order ! i) d in
     if zs_app s \<noteq> [] then d
     else (case anchor_of s of
         None \<Rightarrow> d
       | Some anchor \<Rightarrow> (case agreed_name (candidate_names order i anchor d) of
             None \<Rightarrow> d
           | Some name \<Rightarrow> dict_set (order ! i) (s\<lparr>zs_app := name, zs_source := ''neighbor''\<rparr>) d)))"

definition fill_neighbours :: "sessions \<Rightarrow> sessions" where
  "fill_neighbours d = fold (neighbour_one (tag_order d)) [0..<length (tag_order d)] d"

section \<open>Context and order\<close>

definition tags_where :: "(zpa_session \<Rightarrow> string option) \<Rightarrow> sessions \<Rightarrow> (string, string list) dict" where
  "tags_where key d = fold (\<lambda>(k, s) acc. case key s of None \<Rightarrow> acc | Some w \<Rightarrow> dict_set w (dict_getd acc w [] @ [k]) acc) d []"

definition app_to_sessions :: "sessions \<Rightarrow> (string, string list) dict" where
  "app_to_sessions d = tags_where (\<lambda>s. if zs_app s = [] then None else Some (py_lower (zs_app s))) d"

definition conn_to_sessions :: "sessions \<Rightarrow> (string, string list) dict" where
  "conn_to_sessions d = tags_where (\<lambda>s. if blank_text (zs_conn s) then None else zs_conn s) d"

definition context_tags :: "(string, string list) dict \<Rightarrow> (string, string list) dict \<Rightarrow> string \<Rightarrow> string list" where
  "context_tags apps conns b =
     (if apps \<noteq> [] \<and> (occurs ''zpn_dns_client_check'' b \<or> occurs ''ZPN domain:'' b \<or> occurs ''DNS request to broker'' b)
      then (case List.find (\<lambda>(app, ks). occurs app (py_lower b)) apps of None \<Rightarrow> [] | Some (app, ks) \<Rightarrow> ks) else [])
     @ (if conns \<noteq> [] \<and> occurs ''ID='' b
        then (case found_text id_ref_rx b of None \<Rightarrow> [] | Some conn \<Rightarrow> dict_getd conns conn []) else [])"

definition attach_once :: "nat \<Rightarrow> string \<Rightarrow> sessions \<Rightarrow> sessions" where
  "attach_once i k d = (let s = get_session k d in if List.member (zs_lines s) i then d else dict_set k (attach_line i s) d)"

definition context_line :: "(string, string list) dict \<Rightarrow> (string, string list) dict \<Rightarrow> nat \<Rightarrow> indexed_line \<Rightarrow> sessions \<Rightarrow> sessions" where
  "context_line apps conns i ln d = (if body ln = [] then d else fold (attach_once i) (context_tags apps conns (body ln)) d)"

definition add_context :: "indexed_line list \<Rightarrow> sessions \<Rightarrow> sessions" where
  "add_context ls d = fold (\<lambda>(i, ln). context_line (app_to_sessions d) (conn_to_sessions d) i ln) (positioned ls) d"

definition link_registry :: "zpa_app list \<Rightarrow> sessions \<Rightarrow> sessions" where
  "link_registry apps d = (if apps = [] then d
     else map_sessions (\<lambda>s. if zs_app s = [] then s else s\<lparr>zs_registry := find_app_for_domain apps (zs_app s)\<rparr>) d)"

definition sort_lines :: "indexed_line list \<Rightarrow> zpa_session \<Rightarrow> zpa_session" where
  "sort_lines ls s = s\<lparr>zs_lines := sort_key (\<lambda>i. ts (ls ! i)) (zs_lines s)\<rparr>"

definition session_start :: "zpa_session \<Rightarrow> int" where
  "session_start s = (case or_else (zs_setup_ts s) (or_else (zs_request_ts s) (or_else (zs_ack_ts s) (zs_end_ts s))) of
     None \<Rightarrow> dt_limit - 1 | Some t \<Rightarrow> t)"

definition name_passes :: "indexed_line list \<Rightarrow> sessions \<Rightarrow> sessions" where
  "name_passes ls d = fill_neighbours (fill_mtunnels (fill_requests ls d))"

definition extract_zpa_sessions :: "log_index \<Rightarrow> zpa_app list \<Rightarrow> zpa_session list" where
  "extract_zpa_sessions idx apps = (let ls = lines idx in
     sort_key session_start (map snd (map_sessions (sort_lines ls) (link_registry apps (add_context ls (name_passes ls (main_pass ls)))))))"

section \<open>What a session tells\<close>

definition session_outcome :: "zpa_session \<Rightarrow> string" where
  "session_outcome s =
     (if zs_end_ts s = None then
        (if zs_ack_ts s \<noteq> None \<and> zs_ack_code s = Some 1 then ''open''
         else if zs_ack_ts s \<noteq> None then ''setup_failed'' else ''incomplete'')
      else if zs_end_error s = ''BRK_MT_CLOSED_FROM_ASSISTANT'' then ''closed''
      else if zs_end_error s \<noteq> [] \<and> \<not> occurs ''NORMAL'' (py_upper (zs_end_error s)) then ''closed:'' @ take 40 (py_lower (zs_end_error s))
      else ''closed'')"

definition session_us :: "zpa_session \<Rightarrow> int option" where
  "session_us s = (case (zs_setup_ts s, zs_end_ts s) of (Some a, Some b) \<Rightarrow> Some (b - a) | _ \<Rightarrow> None)"

definition total_bytes :: "zpa_session \<Rightarrow> nat option" where
  "total_bytes s = map_option sum_list (all_some [zs_cl_rx s, zs_cl_tx s, zs_sr_rx s, zs_sr_tx s])"

definition bytes_to_server :: "zpa_session \<Rightarrow> nat option" where
  "bytes_to_server s = or_else (zs_cl_rx s) (if 0 < zs_written s then Some (zs_written s) else None)"

definition bytes_from_server :: "zpa_session \<Rightarrow> nat option" where
  "bytes_from_server s = or_else (zs_cl_tx s) (if 0 < zs_read s then Some (zs_read s) else None)"

definition bytes_source :: "zpa_session \<Rightarrow> string" where
  "bytes_source s = (if zs_cl_rx s \<noteq> None \<or> zs_cl_tx s \<noteq> None then ''disconnect''
     else if zs_written s \<noteq> 0 \<or> zs_read s \<noteq> 0 then ''runtime'' else [])"

definition has_byte_imbalance :: "zpa_session \<Rightarrow> bool" where
  "has_byte_imbalance s = (case all_some [zs_cl_rx s, zs_cl_tx s, zs_sr_rx s, zs_sr_tx s] of
       Some [cl_rx, cl_tx, sr_rx, sr_tx] \<Rightarrow> cl_rx \<noteq> sr_tx \<or> cl_tx \<noteq> sr_rx
     | _ \<Rightarrow> False)"

definition transport_label :: "zpa_session \<Rightarrow> string" where
  "transport_label s = (case zs_proto s of None \<Rightarrow> []
     | Some p \<Rightarrow> if p = 6 then ''TCP'' else if p = 17 then ''UDP'' else ''proto='' @ str_of_nat p)"

definition close_initiator :: "zpa_session \<Rightarrow> string" where
  "close_initiator s = (if zs_broker_switch s = Some True then ''broker_switch''
     else (case zs_client_close s of Some True \<Rightarrow> ''client'' | Some False \<Rightarrow> ''broker'' | None \<Rightarrow> []))"

section \<open>Sessions by application\<close>

text \<open>The counts and times of one application; the rates and averages the code rounds are left out.\<close>

record app_stats =
  as_name :: string
  as_total :: nat
  as_closed :: nat
  as_open :: nat
  as_failed :: nat
  as_other :: nat
  as_durations :: "int list"
  as_first :: "int option"
  as_last :: "int option"

definition count_outcome :: "zpa_session \<Rightarrow> app_stats \<Rightarrow> app_stats" where
  "count_outcome s r = (let oc = session_outcome s in
     if oc = ''closed'' then r\<lparr>as_closed := as_closed r + 1\<rparr>
     else if oc = ''open'' then r\<lparr>as_open := as_open r + 1\<rparr>
     else if oc = ''setup_failed'' then r\<lparr>as_failed := as_failed r + 1\<rparr>
     else r\<lparr>as_other := as_other r + 1\<rparr>)"

definition widen :: "int option \<Rightarrow> app_stats \<Rightarrow> app_stats" where
  "widen x r = (case x of None \<Rightarrow> r
     | Some t \<Rightarrow> r\<lparr>as_first := (case as_first r of None \<Rightarrow> Some t | Some a \<Rightarrow> Some (if t < a then t else a)),
                   as_last := (case as_last r of None \<Rightarrow> Some t | Some b \<Rightarrow> Some (if t > b then t else b))\<rparr>)"

definition count_session :: "zpa_session \<Rightarrow> app_stats \<Rightarrow> app_stats" where
  "count_session s r = (let r1 = count_outcome s r;
       r2 = (case session_us s of None \<Rightarrow> r1 | Some d \<Rightarrow> r1\<lparr>as_durations := as_durations r1 @ [d]\<rparr>) in
     widen (zs_end_ts s) (widen (zs_setup_ts s) r2))"

definition app_row :: "string \<Rightarrow> zpa_session list \<Rightarrow> app_stats" where
  "app_row name ss = fold count_session ss \<lparr>as_name = name, as_total = length ss, as_closed = 0, as_open = 0, as_failed = 0,
     as_other = 0, as_durations = [], as_first = None, as_last = None\<rparr>"

definition by_app :: "zpa_session list \<Rightarrow> (string, zpa_session list) dict" where
  "by_app ss = fold (\<lambda>s d. let key = (if zs_app s = [] then ''(unknown)'' else zs_app s) in dict_set key (dict_getd d key [] @ [s]) d) ss []"

definition app_rows :: "zpa_session list \<Rightarrow> app_stats list" where
  "app_rows ss = map (\<lambda>(name, l). app_row name l) (by_app ss)"

text \<open>The sessions the success rate is taken over.\<close>

definition decisive :: "app_stats \<Rightarrow> nat" where
  "decisive r = as_closed r + as_failed r + as_other r"

end
