(* ===== verification/Zpa_Session_Facts.thy ===== *)
theory Zpa_Session_Facts
  imports Zpa_Sessions
begin

text \<open>
  What the sessions are: one for each tag a line opens, with its lines once and in order; what a
  session holds comes from the lines of its own tag; and a name, once read, is never replaced.
\<close>

section \<open>Handlers\<close>

text \<open>A session without its lines.\<close>

definition core :: "zpa_session \<Rightarrow> zpa_session" where
  "core s = s\<lparr>zs_lines := []\<rparr>"

lemma core_fields [simp]:
  "zs_tag (core s) = zs_tag s" "zs_app (core s) = zs_app s" "zs_end_ts (core s) = zs_end_ts s" "zs_lines (core s) = []" "core (core s) = core s"
  "zs_source (core s) = zs_source s" "core (attach_line i s) = core s"
  by (simp_all add: core_def attach_line_def)

text \<open>A handler keeps the tag, adds its line at most, and neither reads the lines nor the position.\<close>

definition tame :: "handler \<Rightarrow> bool" where
  "tame h = (\<forall>i t s. zs_tag (h i t s) = zs_tag s \<and> zs_lines (h i t s) \<in> {zs_lines s, zs_lines s @ [i]}
     \<and> core (h i t s) = core (h 0 t (core s)))"

named_theorems zs_defs \<open>the handlers\<close>

declare on_setup_def [zs_defs] on_request_def [zs_defs] on_ack_def [zs_defs] on_setup_time_def [zs_defs] on_client_proto_def [zs_defs]
  on_got_data_def [zs_defs] on_keepalive_def [zs_defs] on_client_end_def [zs_defs] on_end_connection_def [zs_defs]
  on_disconnect_def [zs_defs] on_write_def [zs_defs] on_read_def [zs_defs] on_end_def [zs_defs]

lemma tame_short:
  "tame (on_setup_time m)" "tame (on_client_proto m)" "tame on_got_data" "tame (on_keepalive m)" "tame (on_client_end m)"
  "tame (on_end_connection m)" "tame (on_disconnect m)" "tame (on_write m)" "tame (on_read m)" "tame (on_end m)"
  by (simp_all add: tame_def zs_defs core_def attach_line_def split: option.split)

lemma tame_setup: "tame (on_setup m b)"
  by (simp add: tame_def zs_defs core_def attach_line_def Let_def)

lemma tame_ack: "tame (on_ack m b)"
  by (simp add: tame_def zs_defs core_def attach_line_def Let_def)

lemma tame_request: "tame (on_request q)"
  unfolding tame_def
proof (intro allI)
  fix i t s
  show "zs_tag (on_request q i t s) = zs_tag s \<and> zs_lines (on_request q i t s) \<in> {zs_lines s, zs_lines s @ [i]}
      \<and> core (on_request q i t s) = core (on_request q 0 t (core s))"
    by (cases "zs_app s = []"; cases "found_text req_app_rx q"; cases "blank_text (zs_dest_ip s)"; cases "zs_double s")
      (simp_all add: on_request_def core_def attach_line_def Let_def)
qed

lemma first_hit_in: "first_hit xs = Some y \<Longrightarrow> Some y \<in> set xs"
proof -
  have stay: "fold (\<lambda>x acc. case acc of None \<Rightarrow> x | Some y \<Rightarrow> Some y) xs (Some z) = Some z" for xs :: "'a option list" and z
    by (induction xs) simp_all
  show "first_hit xs = Some y \<Longrightarrow> Some y \<in> set xs"
    unfolding first_hit_def
  proof (induction xs)
    case (Cons x xs)
    then show ?case by (cases x) (auto simp: stay)
  qed simp
qed

definition handlers :: "string \<Rightarrow> handler set" where
  "handlers b = (\<Union>m. {on_setup m b, on_ack m b, on_setup_time m, on_client_proto m, on_got_data, on_keepalive m, on_client_end m,
     on_end_connection m, on_disconnect m, on_write m, on_read m, on_end m}) \<union> range on_request"

lemma case_of_range: "case_of ic r g h b = Some (tag, k) \<Longrightarrow> \<exists>m. k = h m"
  by (auto simp: case_of_def)

lemma dispatch_handler: "dispatch b = Some (tag, h) \<Longrightarrow> h \<in> handlers b"
proof -
  assume "dispatch b = Some (tag, h)"
  then have "Some (tag, h) \<in> set [case_of True zs_setup_rx 7 (\<lambda>m. on_setup m b) b, request_case b, case_of False zs_ack_rx 1 (\<lambda>m. on_ack m b) b,
      case_of True setup_time_rx 1 on_setup_time b, case_of True client_proto_rx 1 on_client_proto b,
      case_of True got_data_rx 1 (\<lambda>m. on_got_data) b, case_of True zs_keepalive_rx 1 on_keepalive b,
      case_of True client_end_rx 1 on_client_end b, case_of True end_connection_rx 1 on_end_connection b,
      case_of True disconnect_rx 1 on_disconnect b, case_of True runtime_write_rx 2 on_write b, case_of True runtime_read_rx 2 on_read b,
      case_of False zs_end_rx 1 on_end b]" unfolding dispatch_def by (rule first_hit_in)
  moreover have "h \<in> handlers b" if "request_case b = Some (tag, h)"
    using that by (auto simp: request_case_def handlers_def split: option.splits)
  ultimately show "h \<in> handlers b"
    by (auto dest!: sym [of "Some _"] case_of_range simp: handlers_def)
qed

lemma dispatch_tame: "dispatch b = Some (tag, h) \<Longrightarrow> tame h"
  by (drule dispatch_handler) (auto simp: handlers_def intro: tame_short tame_setup tame_ack tame_request)

section \<open>The table of sessions\<close>

definition fine_session :: "nat \<Rightarrow> string \<Rightarrow> zpa_session \<Rightarrow> bool" where
  "fine_session n k s = (zs_tag s = k \<and> distinct (zs_lines s) \<and> set (zs_lines s) \<subseteq> {..<n})"

definition fine_table :: "nat \<Rightarrow> sessions \<Rightarrow> bool" where
  "fine_table n d = (distinct (dict_keys d) \<and> (\<forall>(k, s) \<in> set d. fine_session n k s))"

lemma fine_new [simp]: "fine_session n k (new_session k)"
  by (simp add: fine_session_def new_session_def)

lemma fine_get: "fine_table n d \<Longrightarrow> fine_session n k (get_session k d)"
  by (auto simp: fine_table_def get_session_def dest: map_of_SomeD split: option.split)

lemma get_set: "get_session j (dict_set k s d) = (if j = k then s else get_session j d)"
  by (simp add: get_session_def dict_get_set)

lemma fine_set:
  assumes "fine_table n d" "fine_session n k s"
  shows "fine_table n (dict_set k s d)"
proof -
  have d: "distinct (dict_keys d)" using assms(1) by (simp add: fine_table_def)
  then have d': "distinct (dict_keys (dict_set k s d))" by (rule alist.ok_put)
  have "fine_session n j t" if "(j, t) \<in> set (dict_set k s d)" for j t
  proof -
    have "dict_get (dict_set k s d) j = Some t" using that d' by simp
    then show ?thesis using assms d by (auto simp: dict_get_set fine_table_def dest: map_of_SomeD split: if_splits)
  qed
  with d' show ?thesis by (auto simp: fine_table_def)
qed

lemma fine_more: "fine_table n d \<Longrightarrow> n \<le> m \<Longrightarrow> fine_table m d"
  by (fastforce simp: fine_table_def fine_session_def)

lemma get_in: "distinct (dict_keys d) \<Longrightarrow> (k, s) \<in> set d \<Longrightarrow> get_session k d = s"
  by (simp add: get_session_def)

lemma table_of_gets: "distinct (dict_keys d) \<Longrightarrow> d = map (\<lambda>k. (k, get_session k d)) (dict_keys d)"
proof -
  assume "distinct (dict_keys d)"
  then have "map (\<lambda>p. (fst p, get_session (fst p) d)) d = d" by (intro map_idI) (auto simp: get_in)
  then show ?thesis by (simp add: comp_def)
qed

lemma keys_set: "fst ` set (dict_set k s d) = insert k (fst ` set d)"
  using dict_keys_set [of k s d] by simp

lemma get_map_sessions: "get_session k (map_sessions f d) = (if k \<in> set (dict_keys d) then f (get_session k d) else new_session k)"
  by (induction d) (auto simp: map_sessions_def get_session_def)

lemma keys_map_sessions [simp]: "dict_keys (map_sessions f d) = dict_keys d"
  by (simp add: map_sessions_def comp_def case_prod_unfold)

lemma fine_map_sessions:
  assumes "fine_table n d" "\<And>k s. fine_session n k s \<Longrightarrow> fine_session n k (f s)"
  shows "fine_table n (map_sessions f d)"
  using assms by (auto simp: fine_table_def map_sessions_def comp_def case_prod_unfold)

section \<open>The pass over the lines\<close>

text \<open>The tag whose session a line opens or continues.\<close>

definition opened_by :: "indexed_line \<Rightarrow> string option" where
  "opened_by ln = (if body ln = [] \<or> \<not> looks_like_zpa (body ln) then None else map_option fst (dispatch (body ln)))"

lemma main_pass_snoc: "main_pass (ls @ [x]) = session_line (length ls) x (main_pass ls)"
  by (simp add: main_pass_def positioned_def)

lemma loose_owner_known: "loose_owner b d = Some tag \<Longrightarrow> tag \<in> set (dict_keys d)"
proof -
  assume "loose_owner b d = Some tag"
  then have "Some tag \<in> set [known_tag d (found_text req_tag_rx b),
      known_tag d (map_option (group_text 1) (rx_search True loose_tag_rx b)),
      (case found_text id_ref_rx b of None \<Rightarrow> None | Some conn \<Rightarrow> map_option fst (List.find (\<lambda>(tag, s). zs_conn s = Some conn) d))]"
    unfolding loose_owner_def by (rule first_hit_in)
  moreover have "tag \<in> set (dict_keys d)" if "known_tag d x = Some tag" for x
    using that by (auto simp: known_tag_def split: option.splits if_splits dest: map_of_SomeD intro: image_eqI [where x = "(tag, _)"])
  moreover have "tag \<in> set (dict_keys d)" if "List.find p d = Some (tag, z)" for p z
    using find_Some [OF that] by (auto intro: rev_image_eqI)
  ultimately show "tag \<in> set (dict_keys d)" by (auto split: option.splits dest!: sym [of "Some _"])
qed

text \<open>A line changes nothing, one session through its handler, or the lines of a known session.\<close>

lemma session_line_cases:
  obtains (none) "opened_by ln = None" "session_line i ln d = d"
  | (opened) tag h where "opened_by ln = Some tag" "dispatch (body ln) = Some (tag, h)" "tame h"
      "session_line i ln d = dict_set tag (h i (ts ln) (get_session tag d)) d"
  | (loose) tag where "opened_by ln = None" "tag \<in> set (dict_keys d)" "session_line i ln d = dict_set tag (attach_line i (get_session tag d)) d"
proof (cases "body ln = [] \<or> \<not> looks_like_zpa (body ln)")
  case True
  then show ?thesis using none by (simp add: opened_by_def session_line_def)
next
  case False
  show ?thesis
  proof (cases "dispatch (body ln)")
    case (Some p)
    obtain tag h where p: "p = (tag, h)" by (cases p)
    show ?thesis using False Some dispatch_tame [of "body ln" tag h] opened p by (auto simp: opened_by_def session_line_def)
  next
    case None
    show ?thesis
    proof (cases "loose_owner (body ln) d")
      case None
      with False \<open>dispatch (body ln) = None\<close> show ?thesis using none by (simp add: opened_by_def session_line_def)
    next
      case (Some tag)
      with False \<open>dispatch (body ln) = None\<close> show ?thesis using loose [of tag] loose_owner_known by (simp add: opened_by_def session_line_def)
    qed
  qed
qed

lemma fine_attach: "fine_session i k s \<Longrightarrow> fine_session (Suc i) k (attach_line i s)"
  by (auto simp: fine_session_def attach_line_def)

lemma fine_handled: "tame h \<Longrightarrow> fine_session i k s \<Longrightarrow> fine_session (Suc i) k (h i t s)"
proof -
  assume h: "tame h" and s: "fine_session i k s"
  have "zs_tag (h i t s) = zs_tag s" "zs_lines (h i t s) \<in> {zs_lines s, zs_lines s @ [i]}" using h by (simp_all add: tame_def)
  with s show ?thesis by (auto simp: fine_session_def)
qed

lemma fine_session_line: "fine_table i d \<Longrightarrow> fine_table (Suc i) (session_line i ln d)"
proof -
  assume d: "fine_table i d"
  then have d': "fine_table (Suc i) d" by (rule fine_more) simp
  show ?thesis
  proof (cases rule: session_line_cases [of ln i d])
    case none
    with d' show ?thesis by simp
  next
    case (opened tag h)
    with d d' show ?thesis by (simp add: fine_set fine_handled fine_get)
  next
    case (loose tag)
    with d d' show ?thesis by (simp add: fine_set fine_attach fine_get)
  qed
qed

lemma fine_main_pass: "fine_table (length ls) (main_pass ls)"
proof (induction ls rule: rev_induct)
  case Nil
  show ?case by (simp add: main_pass_def positioned_def fine_table_def)
next
  case (snoc x ls)
  then show ?case by (simp add: main_pass_snoc fine_session_line)
qed

lemma keys_session_line:
  "set (dict_keys (session_line i ln d)) = (case opened_by ln of None \<Rightarrow> {} | Some tag \<Rightarrow> {tag}) \<union> set (dict_keys d)"
  by (cases rule: session_line_cases [of ln i d]) (auto simp: keys_set)

lemma keys_main_pass: "set (dict_keys (main_pass ls)) = {tag. Some tag \<in> set (map opened_by ls)}"
proof (induction ls rule: rev_induct)
  case Nil
  show ?case by (simp add: main_pass_def positioned_def)
next
  case (snoc x ls)
  show ?case unfolding main_pass_snoc keys_session_line snoc by (auto split: option.splits)
qed

section \<open>Sessions do not see each other\<close>

definition own_step :: "string \<Rightarrow> indexed_line \<Rightarrow> zpa_session \<Rightarrow> zpa_session" where
  "own_step tag ln s = (if opened_by ln = Some tag then (case dispatch (body ln) of Some (j, h) \<Rightarrow> core (h 0 (ts ln) s) | None \<Rightarrow> s) else s)"

lemma core_session_line: "core (get_session tag (session_line i ln d)) = own_step tag ln (core (get_session tag d))"
proof (cases rule: session_line_cases [of ln i d])
  case none
  then show ?thesis by (simp add: own_step_def)
next
  case (opened j h)
  then show ?thesis by (simp add: own_step_def get_set tame_def)
next
  case (loose j)
  then show ?thesis by (simp add: own_step_def get_set)
qed

lemma core_main_pass: "core (get_session tag (main_pass ls)) = fold (own_step tag) ls (new_session tag)"
proof (induction ls rule: rev_induct)
  case Nil
  show ?case by (simp add: main_pass_def positioned_def get_session_def core_def new_session_def)
next
  case (snoc x ls)
  then show ?case by (simp add: main_pass_snoc core_session_line)
qed

lemma own_filter: "fold (own_step tag) ls s = fold (own_step tag) (filter (\<lambda>ln. opened_by ln = Some tag) ls) s"
  by (induction ls arbitrary: s) (simp_all add: own_step_def)

text \<open>
  C25: What is read into a session comes from the lines of its own tag alone: with all other lines removed, the same names,
  addresses, times, codes and counters result.
\<close>

theorem zpa_sessions_separate:
  "core (get_session tag (main_pass ls)) = core (get_session tag (main_pass (filter (\<lambda>ln. opened_by ln = Some tag) ls)))"
  unfolding core_main_pass using own_filter by metis

section \<open>Names are filled in, never replaced\<close>

definition app_names_of :: "sessions \<Rightarrow> string set" where
  "app_names_of d = range (\<lambda>k. zs_app (get_session k d))"

text \<open>
  \<open>fills N d e\<close>: the sessions of \<open>d\<close> are those of \<open>e\<close>; a name of \<open>d\<close> is the same in \<open>e\<close>, and a new one is in
  \<open>N\<close> or was the name of a session.
\<close>

definition fills :: "string set \<Rightarrow> sessions \<Rightarrow> sessions \<Rightarrow> bool" where
  "fills N d e = (dict_keys e = dict_keys d \<and> app_names_of e \<subseteq> N \<union> app_names_of d
     \<and> (\<forall>k. zs_tag (get_session k e) = zs_tag (get_session k d) \<and> zs_lines (get_session k e) = zs_lines (get_session k d)
        \<and> (zs_app (get_session k d) = [] \<or> zs_app (get_session k e) = zs_app (get_session k d) \<and> zs_source (get_session k e) = zs_source (get_session k d))))"

lemma fills_refl: "fills N d d"
  by (simp add: fills_def)

lemma fills_trans: "fills N d e \<Longrightarrow> fills N e f \<Longrightarrow> fills N d f"
  unfolding fills_def by (intro conjI allI) (metis, blast, metis+)

lemma fills_fold: "(\<And>x e. x \<in> set xs \<Longrightarrow> fills N e (f x e)) \<Longrightarrow> fills N d (fold f xs d)"
proof (induction xs arbitrary: d)
  case (Cons x xs)
  have "fills N d (f x d)" by (rule Cons.prems) simp
  moreover have "fills N (f x d) (fold f xs (f x d))" by (rule Cons.IH) (rule Cons.prems, simp)
  ultimately show ?case by (simp add: fills_trans)
qed (simp add: fills_refl)

lemma name_in: "zs_app (get_session k d) \<in> app_names_of d"
  by (simp add: app_names_of_def)

lemma keys_kept: "k \<in> set (dict_keys d) \<Longrightarrow> dict_keys (dict_set k s d) = dict_keys d"
  by (simp add: dict_set_def update_keys)

lemma fills_set:
  assumes "k \<in> set (dict_keys d)" "zs_app (get_session k d) = []" "name \<in> N \<union> app_names_of d"
  shows "fills N d (dict_set k ((get_session k d)\<lparr>zs_app := name, zs_source := src\<rparr>) d)"
  using assms name_in [of _ d] by (auto simp: fills_def keys_kept get_set app_names_of_def anchor_of_def)

definition filled :: "string set \<Rightarrow> zpa_session \<Rightarrow> zpa_session \<Rightarrow> bool" where
  "filled N s t = (zs_tag t = zs_tag s \<and> zs_lines t = zs_lines s \<and> zs_app t \<in> insert (zs_app s) N
     \<and> (zs_app s = [] \<or> zs_app t = zs_app s \<and> zs_source t = zs_source s))"

lemma absent_session: "k \<notin> set (dict_keys d) \<Longrightarrow> get_session k d = new_session k"
  by (metis get_session_def list.set_map map_of_eq_None_iff option.case(1))

lemma filled_refl: "filled N s s"
  by (simp add: filled_def)

lemma fills_map:
  assumes "\<And>s. filled N s (f s)"
  shows "fills N d (map_sessions f d)"
proof -
  have "filled N (get_session k d) (get_session k (map_sessions f d))" for k
    by (simp add: get_map_sessions absent_session filled_refl assms)
  then show ?thesis using name_in [of _ d] by (fastforce simp: fills_def filled_def app_names_of_def)
qed

subsection \<open>The earliest request\<close>

definition request_names :: "indexed_line list \<Rightarrow> string set" where
  "request_names ls = {name. \<exists>k a. dict_get (request_attrs_by_tag ls) k = Some a \<and> ra_app a = Some name}"

lemma filled_request:
  assumes "ra_app a = None \<or> the (ra_app a) \<in> N"
  shows "filled N s (from_request a s)"
  using assms
  by (cases "zs_app s = []"; cases "blank_text (ra_app a)"; cases "blank_text (zs_dest_ip s)"; cases "blank_text (ra_dip a)")
    (auto simp: filled_def from_request_def Let_def blank_text_def split: option.splits)

lemma fills_requests: "fills (request_names ls) d (fill_requests ls d)"
  unfolding fill_requests_def Let_def
proof (rule fills_map)
  fix s
  show "filled (request_names ls) s (case dict_get (request_attrs_by_tag ls) (zs_tag s) of None \<Rightarrow> s | Some a \<Rightarrow> from_request a s)"
  proof (cases "dict_get (request_attrs_by_tag ls) (zs_tag s)")
    case None
    then show ?thesis by (simp add: filled_def)
  next
    case (Some a)
    then have "ra_app a = None \<or> the (ra_app a) \<in> request_names ls" unfolding request_names_def by (cases "ra_app a") auto
    with Some show ?thesis by (simp add: filled_request)
  qed
qed

subsection \<open>The same tunnel, the sessions beside\<close>

lemma fills_xref: "fills N d (xref_one owner k d)"
proof (cases "k \<in> set (dict_keys d)")
  case True
  then show ?thesis unfolding xref_one_def Let_def
    by (simp add: fills_refl fills_set name_in split: option.split)
next
  case False
  then show ?thesis by (simp add: xref_one_def absent_session new_session_def fills_refl)
qed

lemma candidate_names_in: "set (candidate_names order i anchor d) \<subseteq> app_names_of d"
  by (auto simp: candidate_names_def app_names_of_def)

lemma agreed_name_in: "agreed_name names = Some n \<Longrightarrow> n \<in> set names"
  by (auto simp: agreed_name_def split: list.splits if_splits)

lemma agreed_candidate: "agreed_name (candidate_names order i anchor d) = Some n \<Longrightarrow> n \<in> app_names_of d"
  using agreed_name_in candidate_names_in by blast

lemma fills_neighbour: "fills N d (neighbour_one order i d)"
proof (cases "order ! i \<in> set (dict_keys d)")
  case True
  then show ?thesis unfolding neighbour_one_def Let_def
    by (simp add: fills_refl fills_set agreed_candidate split: option.split)
next
  case False
  then have "anchor_of (get_session (order ! i) d) = None" by (simp add: absent_session anchor_of_def or_else_def new_session_def)
  then show ?thesis by (simp add: neighbour_one_def Let_def fills_refl)
qed

lemma fills_mtunnels: "fills N d (fill_mtunnels d)"
  unfolding fill_mtunnels_def by (rule fills_fold) (rule fills_xref)

lemma fills_neighbours: "fills N d (fill_neighbours d)"
  unfolding fill_neighbours_def by (rule fills_fold) (rule fills_neighbour)

lemma fills_passes: "fills (request_names ls) d (name_passes ls d)"
  unfolding name_passes_def
  by (rule fills_trans [OF fills_requests fills_trans [OF fills_mtunnels fills_neighbours]])

text \<open>
  C15: The later passes keep every session and every name that was read, with its source; a name they fill in stands in a
  request of the log or is the name of another session.
\<close>

theorem names_kept:
  "dict_keys (name_passes ls (main_pass ls)) = dict_keys (main_pass ls)
   \<and> (zs_app (get_session k (main_pass ls)) = []
      \<or> zs_app (get_session k (name_passes ls (main_pass ls))) = zs_app (get_session k (main_pass ls))
        \<and> zs_source (get_session k (name_passes ls (main_pass ls))) = zs_source (get_session k (main_pass ls)))
   \<and> zs_app (get_session k (name_passes ls (main_pass ls))) \<in> request_names ls \<union> range (\<lambda>j. zs_app (get_session j (main_pass ls)))"
  using fills_passes [of ls "main_pass ls"] name_in [of k "name_passes ls (main_pass ls)"]
  unfolding fills_def app_names_of_def by blast

section \<open>An inferred name has evidence\<close>

definition close_to :: "zpa_session \<Rightarrow> zpa_session \<Rightarrow> bool" where
  "close_to s t = (case (anchor_of s, anchor_of t) of (Some a, Some b) \<Rightarrow> \<bar>b - a\<bar> \<le> neighbour_window | _ \<Rightarrow> False)"

text \<open>A session marked as inferred has the name of another one within a minute.\<close>

definition evident :: "sessions \<Rightarrow> bool" where
  "evident d = (\<forall>k. zs_source (get_session k d) = ''neighbor'' \<longrightarrow>
     (\<exists>j. j \<noteq> k \<and> zs_app (get_session j d) = zs_app (get_session k d) \<and> zs_app (get_session j d) \<noteq> []
       \<and> close_to (get_session k d) (get_session j d)))"

lemma anchor_named [simp]: "anchor_of (s\<lparr>zs_app := name, zs_source := src\<rparr>) = anchor_of s"
  by (simp add: anchor_of_def)

lemma evident_set:
  assumes d: "evident d" and empty: "zs_app (get_session k d) = []" and name: "name \<noteq> []"
    and src: "src = ''neighbor'' \<longrightarrow> (\<exists>j. j \<noteq> k \<and> zs_app (get_session j d) = name \<and> close_to (get_session k d) (get_session j d))"
  shows "evident (dict_set k ((get_session k d)\<lparr>zs_app := name, zs_source := src\<rparr>) d)" (is "evident ?e")
  unfolding evident_def
proof (intro allI impI)
  fix i
  assume i: "zs_source (get_session i ?e) = ''neighbor''"
  show "\<exists>j. j \<noteq> i \<and> zs_app (get_session j ?e) = zs_app (get_session i ?e) \<and> zs_app (get_session j ?e) \<noteq> []
      \<and> close_to (get_session i ?e) (get_session j ?e)"
  proof (cases "i = k")
    case True
    with i src obtain j where "j \<noteq> k" "zs_app (get_session j d) = name" "close_to (get_session k d) (get_session j d)"
      by (auto simp: get_set)
    with True name show ?thesis by (intro exI [of _ j]) (simp add: get_set close_to_def)
  next
    case False
    with i d obtain j where j: "j \<noteq> i" "zs_app (get_session j d) = zs_app (get_session i d)" "zs_app (get_session j d) \<noteq> []"
        "close_to (get_session i d) (get_session j d)" by (auto simp: get_set evident_def)
    with empty have "j \<noteq> k" by auto
    with j False show ?thesis by (intro exI [of _ j]) (simp add: get_set)
  qed
qed

lemma candidate_evidence:
  assumes "distinct order" "i < length order" "anchor_of (get_session (order ! i) d) = Some anchor" "n \<in> set (candidate_names order i anchor d)"
  shows "n \<noteq> [] \<and> (\<exists>j. j \<noteq> order ! i \<and> zs_app (get_session j d) = n \<and> close_to (get_session (order ! i) d) (get_session j d))"
proof -
  from assms(4) obtain j where j: "j \<in> {i - 1, i + 1}" "j \<noteq> i" "j < length order" "n = zs_app (get_session (order ! j) d)" "n \<noteq> []"
      "case anchor_of (get_session (order ! j) d) of None \<Rightarrow> False | Some t \<Rightarrow> \<bar>t - anchor\<bar> \<le> neighbour_window"
    using assms(2) by (fastforce simp: candidate_names_def split: if_splits)
  then have "order ! j \<noteq> order ! i" using assms(1,2) by (simp add: nth_eq_iff_index_eq)
  moreover have "close_to (get_session (order ! i) d) (get_session (order ! j) d)"
    using j(6) assms(3) by (simp add: close_to_def split: option.splits)
  ultimately show ?thesis using j(4,5) by blast
qed

lemma evident_neighbour:
  assumes "evident d" "distinct order" "i < length order"
  shows "evident (neighbour_one order i d)"
proof (cases "zs_app (get_session (order ! i) d) = []")
  case True
  show ?thesis
  proof (cases "anchor_of (get_session (order ! i) d)")
    case None
    with assms show ?thesis by (simp add: neighbour_one_def Let_def)
  next
    case (Some anchor)
    show ?thesis
    proof (cases "agreed_name (candidate_names order i anchor d)")
      case None
      with assms Some True show ?thesis by (simp add: neighbour_one_def Let_def)
    next
      case (Some n)
      have n: "n \<noteq> []" "\<exists>j. j \<noteq> order ! i \<and> zs_app (get_session j d) = n \<and> close_to (get_session (order ! i) d) (get_session j d)"
        using candidate_evidence [OF assms(2,3) \<open>anchor_of _ = Some anchor\<close> agreed_name_in [OF Some]] by auto
      have "evident (dict_set (order ! i) ((get_session (order ! i) d)\<lparr>zs_app := n, zs_source := ''neighbor''\<rparr>) d)"
        by (rule evident_set [OF assms(1) True n(1)]) (simp add: n(2))
      with Some True \<open>anchor_of _ = Some anchor\<close> show ?thesis by (simp add: neighbour_one_def Let_def)
    qed
  qed
next
  case False
  with assms show ?thesis by (simp add: neighbour_one_def Let_def)
qed

text \<open>No earlier pass infers.\<close>

definition read_source :: "zpa_session \<Rightarrow> bool" where
  "read_source s = (zs_source s \<noteq> ''neighbor'')"

lemma read_handled:
  "read_source s \<Longrightarrow> read_source (on_setup m b i t s)" "read_source s \<Longrightarrow> read_source (on_ack m b i t s)"
  "read_source s \<Longrightarrow> read_source (on_setup_time m i t s)" "read_source s \<Longrightarrow> read_source (on_client_proto m i t s)"
  "read_source s \<Longrightarrow> read_source (on_got_data i t s)" "read_source s \<Longrightarrow> read_source (on_keepalive m i t s)"
  "read_source s \<Longrightarrow> read_source (on_client_end m i t s)" "read_source s \<Longrightarrow> read_source (on_end_connection m i t s)"
  "read_source s \<Longrightarrow> read_source (on_disconnect m i t s)" "read_source s \<Longrightarrow> read_source (on_write m i t s)"
  "read_source s \<Longrightarrow> read_source (on_read m i t s)" "read_source s \<Longrightarrow> read_source (on_end m i t s)"
  by (simp_all add: read_source_def zs_defs attach_line_def Let_def split: option.split)

lemma read_request: "read_source s \<Longrightarrow> read_source (on_request q i t s)"
  by (cases "zs_app s = []"; cases "found_text req_app_rx q")
    (simp_all add: read_source_def on_request_def attach_line_def Let_def)

lemma dispatch_read: "dispatch b = Some (tag, h) \<Longrightarrow> read_source s \<Longrightarrow> read_source (h i t s)"
  by (drule dispatch_handler) (auto simp: handlers_def intro: read_handled read_request)

definition all_read :: "sessions \<Rightarrow> bool" where
  "all_read d = (\<forall>k. read_source (get_session k d))"

lemma read_main_pass: "all_read (main_pass ls)"
proof (induction ls rule: rev_induct)
  case Nil
  show ?case by (simp add: all_read_def main_pass_def positioned_def get_session_def read_source_def new_session_def)
next
  case (snoc x ls)
  then have d: "read_source (get_session k (main_pass ls))" for k by (simp add: all_read_def)
  show ?case unfolding main_pass_snoc
  proof (cases rule: session_line_cases [of x "length ls" "main_pass ls"])
    case none
    with snoc show "all_read (session_line (length ls) x (main_pass ls))" by simp
  next
    case (opened tag h)
    with d show "all_read (session_line (length ls) x (main_pass ls))" by (simp add: all_read_def get_set dispatch_read)
  next
    case (loose tag)
    with d show "all_read (session_line (length ls) x (main_pass ls))"
      by (simp add: all_read_def get_set read_source_def attach_line_def)
  qed
qed

lemma read_fill_requests: "all_read d \<Longrightarrow> all_read (fill_requests ls d)"
  unfolding all_read_def fill_requests_def Let_def get_map_sessions
  by (auto simp: read_source_def from_request_def Let_def new_session_def split: option.split)

lemma read_fill_mtunnels: "all_read d \<Longrightarrow> all_read (fill_mtunnels d)"
proof -
  have "all_read e \<Longrightarrow> all_read (fold (xref_one owner) ks e)" for owner ks e
    by (induction ks arbitrary: e) (auto simp: xref_one_def Let_def all_read_def get_set read_source_def split: option.split)
  then show "all_read d \<Longrightarrow> all_read (fill_mtunnels d)" by (simp add: fill_mtunnels_def)
qed

lemma evident_passes: "evident (name_passes ls (main_pass ls))"
proof -
  let ?d = "fill_mtunnels (fill_requests ls (main_pass ls))"
  have "all_read ?d" by (intro read_fill_mtunnels read_fill_requests read_main_pass)
  then have d: "evident ?d" by (simp add: evident_def all_read_def read_source_def)
  have "dict_keys ?d = dict_keys (main_pass ls)"
    using fills_trans [OF fills_requests fills_mtunnels, of ls "main_pass ls"] by (simp add: fills_def)
  then have "distinct (dict_keys ?d)" using fine_main_pass [of ls] by (simp add: fine_table_def)
  then have order: "distinct (tag_order ?d)" by (simp add: tag_order_def distinct_sort)
  have "evident (fold (neighbour_one (tag_order ?d)) is e)" if "evident e" "\<forall>i \<in> set is. i < length (tag_order ?d)" for "is" e
    using that by (induction "is" arbitrary: e) (simp_all add: evident_neighbour order)
  with d show ?thesis unfolding name_passes_def fill_neighbours_def by simp
qed


text \<open>
  Inference goes on from names that were inferred, between tags that are neighbours in the list only, and
  over up to a minute; the field's comment speaks of adjacent tags within 30 seconds.
\<close>

definition acked :: "string \<Rightarrow> string \<Rightarrow> int \<Rightarrow> string \<times> zpa_session" where
  "acked tag app t = (tag, (new_session tag)\<lparr>zs_app := app, zs_ack_ts := Some t\<rparr>)"

lemma inference_cascades:
  "map (\<lambda>(k, s). (k, zs_app s, zs_source s))
     (fill_neighbours [acked ''1'' ''crm'' 0, acked ''40'' [] (45 * 1000000), acked ''900'' [] (90 * 1000000)])
   = [(''1'', ''crm'', []), (''40'', ''crm'', ''neighbor''), (''900'', ''crm'', ''neighbor'')]"
  by code_simp

section \<open>The result\<close>

definition lists_in :: "'a set \<Rightarrow> ('b, 'a list) dict \<Rightarrow> bool" where
  "lists_in K acc = (distinct (dict_keys acc) \<and> (\<forall>w. set (dict_getd acc w []) \<subseteq> K))"

lemma getd_set: "dict_getd (dict_set w v acc) u [] = (if u = w then v else dict_getd acc u [])"
  by (simp add: dict_getd_def dict_get_set)

lemma lists_in_add: "lists_in K acc \<Longrightarrow> k \<in> K \<Longrightarrow> lists_in K (dict_set w (dict_getd acc w [] @ [k]) acc)"
  by (auto simp: lists_in_def alist.ok_put getd_set)

lemma tags_where_in: "lists_in (set (dict_keys d)) (tags_where key d)"
proof -
  have run: "lists_in K (fold (\<lambda>(k, s) acc. case key s of None \<Rightarrow> acc | Some w \<Rightarrow> dict_set w (dict_getd acc w [] @ [k]) acc) xs acc)"
    if "lists_in K acc" "fst ` set xs \<subseteq> K" for xs acc K
    using that by (induction xs arbitrary: acc) (auto simp: lists_in_add split: option.split)
  have "lists_in (set (dict_keys d)) []" by (simp add: lists_in_def dict_getd_def)
  then show ?thesis unfolding tags_where_def by (rule run) simp
qed

lemma getd_keys: "set (dict_getd (tags_where key d) w []) \<subseteq> set (dict_keys d)"
  using tags_where_in [of d key] by (simp add: lists_in_def)

lemma tags_where_keys: "(w, ks) \<in> set (tags_where key d) \<Longrightarrow> set ks \<subseteq> set (dict_keys d)"
proof -
  assume "(w, ks) \<in> set (tags_where key d)"
  with tags_where_in [of d key] have "dict_getd (tags_where key d) w [] = ks" by (simp add: lists_in_def dict_getd_def)
  with getd_keys show ?thesis by metis
qed

lemma context_tags_keys: "set (context_tags (tags_where f d) (tags_where g d) b) \<subseteq> set (dict_keys d)"
proof -
  have app: "set (case List.find q (tags_where f d) of None \<Rightarrow> [] | Some (app, ks) \<Rightarrow> ks) \<subseteq> set (dict_keys d)" for q
  proof (cases "List.find q (tags_where f d)")
    case (Some p)
    then have "(fst p, snd p) \<in> set (tags_where f d)" using find_Some [OF Some] by simp
    with Some tags_where_keys show ?thesis by (cases p) fastforce
  qed simp
  have conn: "set (case x of None \<Rightarrow> [] | Some c \<Rightarrow> dict_getd (tags_where g d) c []) \<subseteq> set (dict_keys d)" for x
    using getd_keys [of g d] by (cases x) simp_all
  have opt: "set xs \<subseteq> K \<Longrightarrow> set (if c then xs else []) \<subseteq> K" for c and xs :: "string list" and K by (cases c) simp_all
  show ?thesis unfolding context_tags_def set_append by (intro Un_least opt app conn)
qed

lemma attach_once_fine:
  assumes "fine_table n d" "k \<in> set (dict_keys d)" "i < n"
  shows "fine_table n (attach_once i k d) \<and> dict_keys (attach_once i k d) = dict_keys d"
proof -
  have "fine_session n k (attach_line i (get_session k d))" if "i \<notin> set (zs_lines (get_session k d))"
    using fine_get [OF assms(1), of k] that assms(3) by (auto simp: fine_session_def attach_line_def)
  with assms show ?thesis by (auto simp: attach_once_def Let_def keys_kept intro!: fine_set)
qed

lemma attach_all_fine:
  "fine_table n d \<Longrightarrow> set ks \<subseteq> set (dict_keys d) \<Longrightarrow> i < n \<Longrightarrow>
    fine_table n (fold (attach_once i) ks d) \<and> dict_keys (fold (attach_once i) ks d) = dict_keys d"
proof (induction ks arbitrary: d)
  case (Cons k ks)
  have one: "fine_table n (attach_once i k d) \<and> dict_keys (attach_once i k d) = dict_keys d"
    using Cons.prems by (intro attach_once_fine) auto
  with Cons.prems have "set ks \<subseteq> set (dict_keys (attach_once i k d))" by simp
  from Cons.IH [OF conjunct1 [OF one] this Cons.prems(3)] one show ?case by simp
qed simp

lemma add_context_fine:
  assumes "fine_table (length ls) d"
  shows "fine_table (length ls) (add_context ls d) \<and> dict_keys (add_context ls d) = dict_keys d"
proof -
  let ?f = "\<lambda>(i, ln). context_line (app_to_sessions d) (conn_to_sessions d) i ln"
  have "fine_table n (fold ?f ps e) \<and> dict_keys (fold ?f ps e) = dict_keys d"
    if "fine_table n e" "dict_keys e = dict_keys d" "\<forall>(i, ln) \<in> set ps. i < n" for n ps e
    using that
  proof (induction ps arbitrary: e)
    case (Cons p ps)
    obtain i ln where p: "p = (i, ln)" by (cases p)
    have "fine_table n (context_line (app_to_sessions d) (conn_to_sessions d) i ln e)
        \<and> dict_keys (context_line (app_to_sessions d) (conn_to_sessions d) i ln e) = dict_keys d"
      using attach_all_fine [OF Cons.prems(1), of "context_tags (app_to_sessions d) (conn_to_sessions d) (body ln)" i]
        Cons.prems p context_tags_keys [of _ d _ "body ln"]
      by (simp add: context_line_def app_to_sessions_def conn_to_sessions_def)
    with Cons p show ?case by simp
  qed simp
  moreover have "\<forall>(i, ln) \<in> set (positioned ls). i < length ls" by (auto simp: positioned_def dest: set_zip_leftD)
  ultimately show ?thesis using assms unfolding add_context_def by blast
qed

lemma fills_fine: "fills N d e \<Longrightarrow> fine_table n d \<Longrightarrow> fine_table n e"
proof -
  assume f: "fills N d e" and d: "fine_table n d"
  then have keys: "dict_keys e = dict_keys d" "distinct (dict_keys e)" by (simp_all add: fills_def fine_table_def)
  have "fine_session n k s" if "(k, s) \<in> set e" for k s
  proof -
    from that keys(2) have "s = get_session k e" by (simp add: get_in)
    with f fine_get [OF d, of k] show ?thesis by (simp add: fills_def fine_session_def)
  qed
  with keys(2) show ?thesis by (auto simp: fine_table_def)
qed

definition final_table :: "log_index \<Rightarrow> zpa_app list \<Rightarrow> sessions" where
  "final_table idx apps = map_sessions (sort_lines (lines idx))
     (link_registry apps (add_context (lines idx) (name_passes (lines idx) (main_pass (lines idx)))))"

lemma fine_final:
  "fine_table (length (lines idx)) (final_table idx apps) \<and> dict_keys (final_table idx apps) = dict_keys (main_pass (lines idx))"
proof -
  let ?ls = "lines idx"
  let ?named = "name_passes ?ls (main_pass ?ls)"
  have "fine_table (length ?ls) ?named" by (rule fills_fine [OF fills_passes fine_main_pass])
  from add_context_fine [OF this] fills_passes [of ?ls "main_pass ?ls"]
  have ctx: "fine_table (length ?ls) (add_context ?ls ?named)" "dict_keys (add_context ?ls ?named) = dict_keys (main_pass ?ls)"
    by (simp_all add: fills_def)
  then have "fine_table (length ?ls) (link_registry apps (add_context ?ls ?named))"
    "dict_keys (link_registry apps (add_context ?ls ?named)) = dict_keys (main_pass ?ls)"
    by (auto simp: link_registry_def fine_session_def intro!: fine_map_sessions)
  then show ?thesis unfolding final_table_def
    by (auto simp: sort_lines_def fine_session_def distinct_sort intro!: fine_map_sessions)
qed

lemma extract_final: "extract_zpa_sessions idx apps = sort_key session_start (map snd (final_table idx apps))"
  by (simp add: extract_zpa_sessions_def final_table_def Let_def)

text \<open>
  C20: There is one session for each tag that a line of the log opens, in the order of their start; each has lines of the log,
  none twice, in the order of their time.
\<close>

theorem zpa_sessions_spec:
  "distinct (map zs_tag (extract_zpa_sessions idx apps))
   \<and> set (map zs_tag (extract_zpa_sessions idx apps)) = {tag. Some tag \<in> set (map opened_by (lines idx))}
   \<and> sorted (map session_start (extract_zpa_sessions idx apps))
   \<and> list_all (\<lambda>s. distinct (zs_lines s) \<and> set (zs_lines s) \<subseteq> {..<length (lines idx)} \<and> sorted (map (\<lambda>i. ts (lines idx ! i)) (zs_lines s)))
       (extract_zpa_sessions idx apps)"
proof (intro conjI)
  let ?d = "final_table idx apps"
  have fine: "fine_table (length (lines idx)) ?d" and keys: "dict_keys ?d = dict_keys (main_pass (lines idx))"
    using fine_final by auto
  have tags: "map zs_tag (map snd ?d) = dict_keys ?d"
    using fine by (auto simp: fine_table_def fine_session_def)
  have sorted_tags: "distinct (map zs_tag (sort_key session_start xs)) = distinct (map zs_tag xs)" for xs
    by (simp add: distinct_map distinct_sort)
  show "distinct (map zs_tag (extract_zpa_sessions idx apps))"
    using fine by (simp only: extract_final sorted_tags tags fine_table_def)
  show "set (map zs_tag (extract_zpa_sessions idx apps)) = {tag. Some tag \<in> set (map opened_by (lines idx))}"
    unfolding keys_main_pass [symmetric] keys [symmetric] tags [symmetric] by (simp add: extract_final image_image)
  show "sorted (map session_start (extract_zpa_sessions idx apps))" by (simp add: extract_final)
  have "sorted (map (\<lambda>i. ts (lines idx ! i)) (zs_lines s))" if "(k, s) \<in> set ?d" for k s
    using that by (auto simp: final_table_def map_sessions_def sort_lines_def)
  moreover have "distinct (zs_lines s) \<and> set (zs_lines s) \<subseteq> {..<length (lines idx)}" if "(k, s) \<in> set ?d" for k s
    using fine that by (auto simp: fine_table_def fine_session_def)
  ultimately show "list_all (\<lambda>s. distinct (zs_lines s) \<and> set (zs_lines s) \<subseteq> {..<length (lines idx)}
      \<and> sorted (map (\<lambda>i. ts (lines idx ! i)) (zs_lines s))) (extract_zpa_sessions idx apps)"
    unfolding list_all_iff extract_final set_sort set_map by (metis (no_types, lifting) imageE surjective_pairing)
qed

section \<open>Applications\<close>

definition outcomes :: "app_stats \<Rightarrow> nat" where
  "outcomes r = as_closed r + as_open r + as_failed r + as_other r"

lemma widen_counts [simp]: "as_total (widen x r) = as_total r" "as_name (widen x r) = as_name r" "outcomes (widen x r) = outcomes r"
  by (simp_all add: widen_def outcomes_def split: option.split)

lemma count_session_counts:
  "as_total (count_session s r) = as_total r" "as_name (count_session s r) = as_name r" "outcomes (count_session s r) = outcomes r + 1"
  by (simp_all add: count_session_def count_outcome_def Let_def outcomes_def split: option.split)
    (simp_all add: widen_def split: option.split)

lemma app_row_counts: "as_total (app_row name ss) = length ss" "as_name (app_row name ss) = name" "outcomes (app_row name ss) = length ss"
proof -
  have "as_total (fold count_session ss r) = as_total r \<and> as_name (fold count_session ss r) = as_name r
      \<and> outcomes (fold count_session ss r) = outcomes r + length ss" for r
    by (induction ss arbitrary: r) (simp_all add: count_session_counts)
  then show "as_total (app_row name ss) = length ss" "as_name (app_row name ss) = name" "outcomes (app_row name ss) = length ss"
    by (simp_all add: app_row_def outcomes_def)
qed

lemma lengths_set: "distinct (dict_keys d) \<Longrightarrow>
  sum_list (map (length \<circ> snd) (dict_set k (dict_getd d k [] @ [x]) d)) = sum_list (map (length \<circ> snd) d) + 1"
proof (induction d)
  case (Cons p d)
  then show ?case by (cases p) (auto simp: dict_set_def dict_getd_def)
qed (simp add: dict_set_def dict_getd_def)

lemma by_app_total: "distinct (dict_keys (by_app ss)) \<and> sum_list (map (length \<circ> snd) (by_app ss)) = length ss"
proof (induction ss rule: rev_induct)
  case (snoc s ss)
  obtain key where "by_app (ss @ [s]) = dict_set key (dict_getd (by_app ss) key [] @ [s]) (by_app ss)"
    by (simp add: by_app_def Let_def)
  with snoc show ?case by (simp only: lengths_set alist.ok_put) simp
qed (simp add: by_app_def)

text \<open>
  The rows by application split the sessions: each session is in one row, under one outcome, and every row has a name of its
  own.
\<close>

theorem app_rows_split:
  "distinct (map as_name (app_rows ss)) \<and> sum_list (map as_total (app_rows ss)) = length ss
   \<and> sum_list (map outcomes (app_rows ss)) = length ss"
proof -
  have "map as_name (app_rows ss) = dict_keys (by_app ss)" "map as_total (app_rows ss) = map (length \<circ> snd) (by_app ss)"
    "map outcomes (app_rows ss) = map (length \<circ> snd) (by_app ss)"
    by (auto simp: app_rows_def app_row_counts)
  with by_app_total [of ss] show ?thesis by simp
qed

text \<open>
  A request the broker has not answered counts against the success rate, under \<open>other\<close>, which the documentation reserves for
  closures that are not normal; open sessions are left out because they are in flight.
\<close>

lemma incomplete_counts: "decisive (app_row ''crm'' [(new_session ''1'')\<lparr>zs_request_ts := Some 0\<rparr>]) = 1"
  by code_simp

end
