(* ===== verification/Session_Correlator.thy ===== *)
theory Session_Correlator
  imports Zpa_Sessions
begin

text \<open>
  The connections behind a search (\<open>session_correlator.py\<close>): the tunnel lines that mention a
  query, grouped by connection, the lines around each group, and what they tell of the
  connection.  The variant that reads the index is modelled; the one that reads the files
  again is not.
\<close>

section \<open>Sessions\<close>

record phase_line =
  pl_phase :: string
  pl_ts :: int
  pl_component :: string
  pl_line :: string

record conn_session =
  cn_id :: "string option"
  cn_pid :: string
  cn_host :: "string option"
  cn_pivot :: int
  cn_start :: int
  cn_end :: int
  cn_ips :: "string list"
  cn_pac :: string
  cn_chain :: string
  cn_request :: string
  cn_broker_ip :: string
  cn_broker_name :: string
  cn_broker_type :: nat
  cn_sme :: string
  cn_service :: string
  cn_outcome :: string
  cn_status :: "nat option"
  cn_latency :: "nat option"
  cn_in :: "nat option"
  cn_out :: "nat option"
  cn_errors :: "string list"
  cn_lines :: "phase_line list"
  cn_count :: nat

definition session_phases :: "string list" where
  "session_phases = [''Resolve'', ''Policy'', ''Decision'', ''Setup'', ''Data'', ''Teardown'', ''Error'']"

definition mentions_any :: "string list \<Rightarrow> string \<Rightarrow> bool" where
  "mentions_any ws b = list_ex (\<lambda>w. occurs w b) ws"

text \<open>The checks of the classifier in their order: the phase, and the test of a body.\<close>

definition phase_checks :: "(string \<times> (string \<Rightarrow> bool)) list" where
  "phase_checks =
    [(''Error'', mentions_any [''BRK_MT_SETUP_FAIL'', ''BRK_MT_CLOSED'']),
     (''Error'', mentions_any [''SAML_EXPIRED'', ''AUTHENTICATION_REQUIRED'']),
     (''Resolve'', \<lambda>b. occurs ''failed'' (py_lower b) \<and> mentions_any [''dns'', ''resolve''] (py_lower b)),
     (''Error'', \<lambda>b. mentions_any [''errorMessage'', ''ZSCALER ERROR''] b \<or> occurs ''failed'' (py_lower b)),
     (''Error'', mentions_any [''zpn_mtunnel_request_ack error:'', ''zpn_mtunnel_end error:'']),
     (''Resolve'', mentions_any [''resolveDnsWithFamilyPriority'', ''GetHostByName'']),
     (''Resolve'', mentions_any [''Got mtunnel request:'', ''mtunnel request from client'']),
     (''Resolve'', mentions_any [''zpn_dns_client_check'', ''ZPN domain:'', ''Send DNS request to broker'']),
     (''Policy'', mentions_any [''PAC Parse Host:'', ''Encoded URL:'', ''Encoded Host:'', ''pacparser_find_proxy'']),
     (''Decision'', mentions_any [''getTunnelRequestType'', ''Tunnel api request:'', ''Tunnel api response:'']),
     (''Decision'', mentions_any [''zpa_domain_match'', ''App Cache'', ''Found in App Cache'', ''Domain Found'']),
     (''Setup'', mentions_any [''SNI-Host='', ''readFromClient:'', ''TLS Handshake'', ''Connected to ZEN'', ''TUN-Proxy: connection'',
        ''Use Sme:'', ''Sme IP:'', ''Client socket'']),
     (''Setup'', \<lambda>b. occurs ''===>'' b \<and> occurs ''ZPN Connection'' b),
     (''Setup'', \<lambda>b. occurs ''ZPN Client Socket'' b \<and> occurs ''Successfully set'' b),
     (''Setup'', mentions_any [''SO_OOBINLINE'', ''zpn_mtunnel_request_ack'']),
     (''Setup'', \<lambda>b. occurs ''client for tag_id:'' b \<and> occurs ''proto='' b),
     (''Setup'', \<lambda>b. occurs ''Setup Time:'' b \<and> occurs ''tag_id:'' b),
     (''Setup'', \<lambda>b. occurs ''zpn_mtunnel_request'' b \<and> \<not> occurs ''_ack'' b \<and> \<not> occurs ''_end'' b),
     (''Data'', mentions_any [''txBytes'', ''rxBytes'', ''Send:'', ''Recv:'', ''bytes sent'', ''bytes received'']),
     (''Data'', mentions_any [''Got data for tag_id:'', ''Updating mtunnel entry tag_id:'']),
     (''Teardown'', mentions_any [''Connection closed'', ''RST'', ''FIN '', ''Close connection'', ''Tunnel closed'']),
     (''Teardown'', mentions_any [''Sending mtunnel end'', ''zpn_mtunnel_end''])]"

definition phase_for :: "string \<Rightarrow> string" where
  "phase_for b = (case List.find (\<lambda>(p, test). test b) phase_checks of None \<Rightarrow> ''Decision'' | Some (p, test) \<Rightarrow> p)"

definition infer_pac_decision :: "string \<Rightarrow> string" where
  "infer_pac_decision proxies = (let pc = py_upper (py_strip proxies) in
     if proxies = [] then []
     else if prefix ''DIRECT'' pc \<and> \<not> occurs ''PROXY'' pc then ''DIRECT''
     else if occurs ''PROXY'' pc then ''TUNNEL'' else [])"

section \<open>What the lines tell\<close>

definition octets_rx :: rx where
  "octets_rx = RSeqs [digits_rx, RLit (CHR ''.''), digits_rx, RLit (CHR ''.''), digits_rx, RLit (CHR ''.''), digits_rx]"

definition ip_chars :: "cset list" where
  "ip_chars = [CRange (CHR ''0'') (CHR ''9''), CRange (CHR ''a'') (CHR ''f''), CRange (CHR ''A'') (CHR ''F''), CLit (CHR ''.''), CLit (CHR '':'')]"

definition line_id_rx :: rx where
  "line_id_rx = RSeqs [RBound, RStr ''ID='', RGroup 1 digits_rx, RBound]"

definition ip_list_rx :: rx where
  "ip_list_rx = RSeqs [RStr ''IP List:'', ws_rx, RGroup 1 (RPlus (RSet (ip_chars @ [CLit (CHR '' '')])))]"

definition preferred_rx :: rx where
  "preferred_rx = RSeqs [RStr ''Preferred ip:'', ws_rx, RGroup 1 (RPlus (RSet ip_chars))]"

definition not_newline :: rx where
  "not_newline = RNot [CLit (CHR 0x0A)]"

definition chain_rx :: rx where
  "chain_rx = RSeqs [RStr ''PAC Parse Host:'', lazy_dots, RStr ''Proxy='', RGroup 1 (RSeq not_newline (RStarLazy not_newline)),
     RAlt (RSeqs [ws1_rx, RPlus (RSet [CWord]), RLit (CHR ''='')]) REnd]"

definition action_rx :: rx where
  "action_rx = RSeqs [RStr ''PAC Parse Action:'', ws_rx, RStr ''Proxy:'', ws_rx, RGroup 1 (RPlus (RNot [CSpace]))]"

definition zphm_rx :: rx where
  "zphm_rx = RSeqs [RStr ''Using ZPHM proxy:'', ws_rx, ROpt (RLit (CHR ''['')), RGroup 1 (RPlus (RNot [CSpace, CLit (CHR '']'')]))]"

definition bypass_rx :: rx where
  "bypass_rx = RStr ''Bypassing proxy for url=''"

definition action_direct_rx :: rx where
  "action_direct_rx = RSeqs [RBound, RStr ''PAC Parse Action:'', ws_rx, RStr ''Direct'', RBound]"

definition proxy_direct_rx :: rx where
  "proxy_direct_rx = RSeqs [RBound, RStr ''Proxy:'', ws_rx, RStr ''DIRECT'', RBound]"

definition pac_direct_rx :: rx where
  "pac_direct_rx = RSeqs [RBound, RStr ''PAC'', lazy_dots, RStr ''DIRECT'', RBound]"

definition json_any_text :: "string \<Rightarrow> rx" where
  "json_any_text key = json_value key (RSeqs [RLit (CHR 0x22), RGroup 1 (RStar (RNot [CLit (CHR 0x22)])), RLit (CHR 0x22)])"

definition broker_type_rx :: rx where
  "broker_type_rx = json_value ''brokerType'' (RGroup 1 digits_rx)"

definition sme_rxs :: "rx list" where
  "sme_rxs = [RSeqs [RStr ''Connected to ZEN'', lazy_dots, RGroup 1 octets_rx],
     RSeqs [RStr ''Use Sme:'', ws_rx, RLit (CHR ''1''), ws1_rx, RStr ''Sme IP:'', ws_rx, RGroup 1 octets_rx],
     RSeqs [RBound, RStr ''Sme IP:'', ws_rx, RGroup 1 octets_rx]]"

definition byte_count_rx :: "string \<Rightarrow> rx" where
  "byte_count_rx s = RSeqs [RStr s, RSet [CLit (CHR ''=''), CLit (CHR '':'')], ws_rx, RGroup 1 digits_rx]"

definition http_status_rx :: rx where
  "http_status_rx = RSeqs [RBound, RStr ''HTTP/'', RPlus (RSet [CRange (CHR ''0'') (CHR ''9''), CLit (CHR ''.'')]), ws1_rx,
     RGroup 1 (RTimes 3 (RSet [CDigit])), RBound]"

definition chain_ip_rx :: rx where
  "chain_ip_rx = RSeqs [RStr ''PROXY'', ws1_rx, RGroup 1 octets_rx]"

text \<open>\<open>str.split()\<close>\<close>

fun split_words :: "string \<Rightarrow> string \<Rightarrow> string list" where
  "split_words w [] = (if w = [] then [] else [w])"
| "split_words w (c # s) = (if py_isspace c then (if w = [] then split_words [] s else w # split_words [] s) else split_words (w @ [c]) s)"

text \<open>\<open>pl.line.split("] ", 1)[-1]\<close>\<close>

definition after_bracket :: "string \<Rightarrow> string" where
  "after_bracket s = (case partition_at ''] '' s of (a, sep, b) \<Rightarrow> if sep = [] then s else b)"

definition read_ips :: "string \<Rightarrow> conn_session \<Rightarrow> conn_session" where
  "read_ips b s = (if occurs ''resolveDnsWithFamilyPriority'' b \<and> cn_ips s = [] then
      (case found_text ip_list_rx b of
         Some w \<Rightarrow> s\<lparr>cn_ips := split_words [] (py_strip w)\<rparr>
       | None \<Rightarrow> (case found_text preferred_rx b of Some w \<Rightarrow> s\<lparr>cn_ips := [w]\<rparr> | None \<Rightarrow> s))
    else s)"

definition read_chain :: "string \<Rightarrow> conn_session \<Rightarrow> conn_session" where
  "read_chain b s = (if cn_chain s \<noteq> [] then s
     else (case found_text chain_rx b of None \<Rightarrow> s
       | Some w \<Rightarrow> s\<lparr>cn_chain := py_strip w, cn_pac := infer_pac_decision (py_strip w)\<rparr>))"

definition tunnelled :: "string \<Rightarrow> conn_session \<Rightarrow> conn_session" where
  "tunnelled proxies s = s\<lparr>cn_pac := ''TUNNEL'', cn_chain := (if cn_chain s = [] then proxies else cn_chain s)\<rparr>"

definition read_decision :: "string \<Rightarrow> conn_session \<Rightarrow> conn_session" where
  "read_decision b s = (if cn_pac s \<noteq> [] then s
     else (case found_text action_rx b of
         Some w \<Rightarrow> tunnelled (''PROXY '' @ w) s
       | None \<Rightarrow> (case found_text zphm_rx b of
             Some w \<Rightarrow> tunnelled (''ZPHM PROXY '' @ w) s
           | None \<Rightarrow>
               if rx_search True bypass_rx b \<noteq> None then s\<lparr>cn_pac := ''BYPASS''\<rparr>
               else if rx_search True action_direct_rx b \<noteq> None \<or> rx_search False proxy_direct_rx b \<noteq> None
                 \<or> rx_search False pac_direct_rx b \<noteq> None then s\<lparr>cn_pac := ''DIRECT''\<rparr>
               else s)))"

definition read_broker :: "string \<Rightarrow> conn_session \<Rightarrow> conn_session" where
  "read_broker b s = (if \<not> occurs ''Tunnel api request:'' b then s
     else (let s1 = s\<lparr>cn_request := b\<rparr>;
               s2 = (case found_text (json_any_text ''brokerIp'') b of None \<Rightarrow> s1 | Some w \<Rightarrow> s1\<lparr>cn_broker_ip := w\<rparr>);
               s3 = (case found_text (json_any_text ''brokerName'') b of None \<Rightarrow> s2 | Some w \<Rightarrow> s2\<lparr>cn_broker_name := w\<rparr>) in
           (case found_text broker_type_rx b of None \<Rightarrow> s3
            | Some w \<Rightarrow> (let t = nat_of_digits w in
                s3\<lparr>cn_broker_type := t, cn_service := (if t = 0 then ''ZIA'' else if t = 1 then ''ZPA'' else [])\<rparr>))))"

definition read_sme :: "string \<Rightarrow> conn_session \<Rightarrow> conn_session" where
  "read_sme b s = (if cn_sme s \<noteq> [] then s
     else (case first_hit (map (\<lambda>r. found_text r b) sme_rxs) of None \<Rightarrow> s | Some w \<Rightarrow> s\<lparr>cn_sme := w\<rparr>))"

definition read_counts :: "string \<Rightarrow> conn_session \<Rightarrow> conn_session" where
  "read_counts b s =
     (let s1 = (case found_text (byte_count_rx ''txBytes'') b of None \<Rightarrow> s | Some w \<Rightarrow> s\<lparr>cn_out := Some (nat_of_digits w)\<rparr>);
          s2 = (case found_text (byte_count_rx ''rxBytes'') b of None \<Rightarrow> s1 | Some w \<Rightarrow> s1\<lparr>cn_in := Some (nat_of_digits w)\<rparr>) in
      s2\<lparr>cn_status := or_else (cn_status s2) (map_option nat_of_digits (found_text http_status_rx b))\<rparr>)"

definition read_error :: "string \<Rightarrow> conn_session \<Rightarrow> conn_session" where
  "read_error b s = (if mentions_any [''errorMessage'', ''ERROR''] b then s\<lparr>cn_errors := cn_errors s @ [take 240 b]\<rparr> else s)"

definition enrich_line :: "phase_line \<Rightarrow> conn_session \<Rightarrow> conn_session" where
  "enrich_line pl s = (let b = after_bracket (pl_line pl) in
     read_error b (read_counts b (read_sme b (read_broker b (read_decision b (read_chain b (read_ips b s)))))))"

definition fill_id :: "conn_session \<Rightarrow> conn_session" where
  "fill_id s = (if blank_text (cn_id s) then s\<lparr>cn_id := or_else (first_hit (map (\<lambda>pl. found_text line_id_rx (pl_line pl)) (cn_lines s))) (cn_id s)\<rparr> else s)"

definition fill_sme :: "conn_session \<Rightarrow> conn_session" where
  "fill_sme s =
     (let s1 = (if cn_sme s = [] \<and> cn_chain s \<noteq> [] then
            (case found_text chain_ip_rx (cn_chain s) of None \<Rightarrow> s | Some w \<Rightarrow> s\<lparr>cn_sme := w\<rparr>) else s) in
      if cn_pac s1 = ''DIRECT'' \<or> cn_pac s1 = ''BYPASS'' then s1\<lparr>cn_sme := []\<rparr> else s1)"

definition infer_service :: "conn_session \<Rightarrow> conn_session" where
  "infer_service s = (if cn_service s \<noteq> [] then s
     else s\<lparr>cn_service := (if cn_pac s = ''DIRECT'' \<or> cn_pac s = ''BYPASS'' then ''direct''
        else if cn_broker_ip s \<noteq> [] then ''ZIA''
        else if cn_pac s = ''TUNNEL'' then ''ZIA''
        else if list_ex (\<lambda>pl. mentions_any [''Use Sme: 1'', ''TUN-Proxy: connection''] (pl_line pl)) (cn_lines s) then ''ZIA''
        else ''unknown'')\<rparr>)"

definition infer_outcome :: "conn_session \<Rightarrow> conn_session" where
  "infer_outcome s =
     (let em = py_lower (join_with '' '' (cn_errors s)) in
      if cn_errors s \<noteq> [] then s\<lparr>cn_outcome :=
          (if mentions_any [''reset'', ''rst''] em then ''reset''
           else if mentions_any [''timeout'', ''timed out''] em then ''timeout''
           else if mentions_any [''block'', ''denied'', ''403''] em then ''blocked'' else ''error'')\<rparr>
      else (case cn_status s of
          Some n \<Rightarrow> if 400 \<le> n then s\<lparr>cn_outcome := (if n = 403 \<or> n = 407 then ''blocked'' else ''error'')\<rparr>
            else if cn_broker_ip s \<noteq> [] \<or> cn_sme s \<noteq> [] \<or> List.member [''TUNNEL'', ''BYPASS'', ''DIRECT''] (cn_pac s)
            then s\<lparr>cn_outcome := ''allowed''\<rparr> else s
        | None \<Rightarrow> if cn_broker_ip s \<noteq> [] \<or> cn_sme s \<noteq> [] \<or> List.member [''TUNNEL'', ''BYPASS'', ''DIRECT''] (cn_pac s)
            then s\<lparr>cn_outcome := ''allowed''\<rparr> else s))"

text \<open>
  \<open>int(seconds * 1000)\<close> in double precision.  A quotient is rounded to 53 bits, half to even: its
  binary fraction is the number of parts and the number of bits after the point.
\<close>

definition half_even :: "nat \<Rightarrow> nat \<Rightarrow> nat" where
  "half_even n d = (let q = n div d; r = n mod d in
     if 2 * r < d then q else if d < 2 * r then q + 1 else if even q then q else q + 1)"

function binary_places :: "nat \<Rightarrow> nat \<Rightarrow> nat" where
  "binary_places p q = (if p = 0 \<or> q = 0 \<or> 2 ^ 52 * q \<le> p then 0 else Suc (binary_places (2 * p) q))"
  by pat_completeness auto
termination
  by (relation "measure (\<lambda>(p, q). 2 ^ 52 * q - p)") auto

declare binary_places.simps [simp del]

definition double_ratio :: "nat \<Rightarrow> nat \<Rightarrow> nat \<times> nat" where
  "double_ratio p q = (let k = binary_places p q in (half_even (p * 2 ^ k) q, k))"

definition latency_of :: "int \<Rightarrow> nat" where
  "latency_of us = (let (m, k) = double_ratio (nat us) 1000000; (n, j) = double_ratio (m * 1000) (2 ^ k) in n div 2 ^ j)"

definition set_latency :: "conn_session \<Rightarrow> conn_session" where
  "set_latency s = (if cn_start s < cn_end s then s\<lparr>cn_latency := Some (latency_of (cn_end s - cn_start s))\<rparr> else s)"

definition enrich_session :: "conn_session \<Rightarrow> conn_session" where
  "enrich_session s = (let s1 = fill_id s in
     set_latency (infer_outcome (infer_service (fill_sme (fold enrich_line (cn_lines s1) s1)))))"

section \<open>Synthetic probes\<close>

definition zdx_probe_rx :: rx where
  "zdx_probe_rx = RSeqs [RStr ''ZWB:'', ws_rx, RStr ''Starting monitor:'', ws_rx, RStr ''http'', ROpt (RLit (CHR ''s'')), RStr ''://'',
     RGroup 1 (RPlus (RNot [CSpace, CLit (CHR '';'')]))]"

definition probe_host :: "string \<Rightarrow> string" where
  "probe_host h = hd (split_on (CHR '':'') (hd (split_on (CHR ''/'') (py_lower h))))"

definition probe_line :: "indexed_line \<Rightarrow> (string, int list) dict \<Rightarrow> (string, int list) dict" where
  "probe_line ln d =
     (if component ln \<noteq> ''upm'' \<or> \<not> occurs ''ZWB:'' (body ln) \<or> \<not> occurs ''Starting monitor:'' (body ln) then d
      else (case found_text zdx_probe_rx (body ln) of
          None \<Rightarrow> d
        | Some h \<Rightarrow> dict_set (probe_host h) (dict_getd d (probe_host h) [] @ [ts ln]) d))"

definition build_zdx_probe_index :: "indexed_line list \<Rightarrow> (string, int list) dict" where
  "build_zdx_probe_index ls = fold probe_line ls []"

text \<open>The differences of the seconds are exact in double precision from 2004 to 2038.\<close>

definition is_probe :: "(string, int list) dict \<Rightarrow> string \<Rightarrow> int \<Rightarrow> bool" where
  "is_probe d h t = (h \<noteq> [] \<and> list_ex (\<lambda>u. \<bar>u - t\<bar> \<le> 5000000) (dict_getd d (py_lower h) []))"

section \<open>Groups\<close>

type_synonym groups = "(string \<times> string, indexed_line list) dict"

definition pivot_hits :: "indexed_line list \<Rightarrow> string \<Rightarrow> indexed_line list" where
  "pivot_hits ls q = filter (\<lambda>ln. component ln = ''tunnel'' \<and> occurs (py_lower q) (py_lower (body ln))) ls"

definition add_to :: "'k \<Rightarrow> 'v \<Rightarrow> ('k, 'v list) dict \<Rightarrow> ('k, 'v list) dict" where
  "add_to k x d = dict_set k (dict_getd d k [] @ [x]) d"

definition id_groups :: "indexed_line list \<Rightarrow> (string, indexed_line list) dict" where
  "id_groups hits1 = fold (\<lambda>ln d. if blank_text (session_id ln) then d else add_to (the (session_id ln)) ln d) hits1 []"

definition first_ts_of :: "indexed_line list \<Rightarrow> int" where
  "first_ts_of xs = (case xs of [] \<Rightarrow> 0 | x # ys \<Rightarrow> fold (\<lambda>y m. min (ts y) m) ys (ts x))"

definition hosts_of :: "indexed_line list \<Rightarrow> string list" where
  "hosts_of xs = concat (map (\<lambda>x. if blank_text (host x) then [] else [the (host x)]) xs)"

text \<open>The nearest group within two seconds, unless line and group both have hosts and the line's is not among them.\<close>

definition nearer :: "indexed_line \<Rightarrow> string \<times> int \<times> string list \<Rightarrow> string option \<times> int \<Rightarrow> string option \<times> int" where
  "nearer ln g best = (case g of (sid, t, hs) \<Rightarrow>
     if \<not> blank_text (host ln) \<and> hs \<noteq> [] \<and> \<not> List.member hs (the (host ln)) then best
     else if \<bar>ts ln - t\<bar> < snd best then (Some sid, \<bar>ts ln - t\<bar>) else best)"

definition nearest_group :: "(string \<times> int \<times> string list) list \<Rightarrow> indexed_line \<Rightarrow> string option" where
  "nearest_group gs ln = fst (fold (nearer ln) gs (None, 2000000))"

text \<open>\<open>int(ts.timestamp() // 10)\<close> and the key of a group without an ID.\<close>

definition unix_epoch :: int where
  "unix_epoch = 62135596800000000"

definition host_key :: "indexed_line \<Rightarrow> string \<times> string" where
  "host_key ln = (''host'', pid ln @ ''|'' @ the (host ln) @ ''|'' @ str_of_int ((ts ln - unix_epoch) div 10000000))"

definition place_hit :: "(string \<times> int \<times> string list) list \<Rightarrow> indexed_line \<Rightarrow> groups \<Rightarrow> groups" where
  "place_hit gs ln d = (case nearest_group gs ln of Some sid \<Rightarrow> add_to (''id'', sid) ln d | None \<Rightarrow> d)"

definition place_orphan :: "(string \<times> int \<times> string list) list \<Rightarrow> indexed_line \<Rightarrow> groups \<Rightarrow> groups" where
  "place_orphan gs ln d = (if nearest_group gs ln \<noteq> None \<or> blank_text (host ln) then d else add_to (host_key ln) ln d)"

definition session_groups :: "indexed_line list \<Rightarrow> groups" where
  "session_groups hits1 =
     (let ids = id_groups hits1; gs = map (\<lambda>(sid, l). (sid, first_ts_of l, hosts_of l)) ids;
          loose = filter (\<lambda>ln. blank_text (session_id ln)) hits1;
          tagged = map (\<lambda>(sid, l). ((''id'', sid), l)) ids in
      fold (place_orphan gs) loose (fold (place_hit gs) loose tagged))"

section \<open>The lines of a group\<close>

definition numbers_of :: "indexed_line list \<Rightarrow> string list" where
  "numbers_of xs = concat (map (\<lambda>x. if blank_text (session_id x) then [] else [the (session_id x)]) xs)"

definition has_id :: "string list \<Rightarrow> indexed_line \<Rightarrow> bool" where
  "has_id sids ln = (case session_id ln of None \<Rightarrow> False | Some w \<Rightarrow> List.member sids w)"

definition has_host :: "string list \<Rightarrow> indexed_line \<Rightarrow> bool" where
  "has_host hs ln = (\<not> blank_text (host ln) \<and> List.member hs (the (host ln)))"

definition belongs :: "string list \<Rightarrow> string list \<Rightarrow> indexed_line \<Rightarrow> bool" where
  "belongs sids hs ln =
     (if sids \<noteq> [] then has_id sids ln
        \<or> (has_host hs ln \<and> session_id ln = None \<and> List.member [''Resolve'', ''Policy''] (phase_for (body ln)))
      else has_host hs ln)"

definition group_pivot :: "indexed_line list \<Rightarrow> indexed_line" where
  "group_pivot bucket1 = hd (sort_key ts bucket1)"

definition related_lines :: "indexed_line list \<Rightarrow> int \<Rightarrow> indexed_line list \<Rightarrow> indexed_line list" where
  "related_lines ls window bucket1 = (let t = ts (group_pivot bucket1) in
     filter (\<lambda>ln. t - window * 1000000 \<le> ts ln \<and> ts ln \<le> t + window * 1000000 \<and> belongs (numbers_of bucket1) (hosts_of bucket1) ln) ls)"

text \<open>\<open>max(host_counts, key=host_counts.get)\<close>: the first of the most frequent.\<close>

definition host_counts :: "indexed_line list \<Rightarrow> (string, nat) dict" where
  "host_counts ls = fold (\<lambda>h. dict_add h 1) (hosts_of ls) []"

definition primary_host :: "indexed_line list \<Rightarrow> string option" where
  "primary_host ls = (case host_counts ls of [] \<Rightarrow> None
     | (h, n) # hs \<Rightarrow> Some (fst (fold (\<lambda>(k, c) (b, m). if m < c then (k, c) else (b, m)) hs (h, n))))"

definition clock_text :: "int \<Rightarrow> string" where
  "clock_text t = (let ms = nat (t div 1000) in
     pad 2 (ms div 3600000 mod 24) @ '':'' @ pad 2 (ms div 60000 mod 60) @ '':'' @ pad 2 (ms div 1000 mod 60) @ ''.'' @ pad 3 (ms mod 1000))"

definition phase_line_of :: "indexed_line \<Rightarrow> phase_line" where
  "phase_line_of ln = \<lparr>pl_phase = phase_for (body ln), pl_ts = ts ln, pl_component = component ln,
     pl_line = clock_text (ts ln) @ '' ['' @ pid ln @ '':'' @ tid ln @ ''] '' @ level ln @ '' '' @ body ln\<rparr>"

definition bare_session :: "indexed_line list \<Rightarrow> indexed_line list \<Rightarrow> conn_session" where
  "bare_session bucket1 related = (let p = group_pivot bucket1 in
     \<lparr>cn_id = session_id p, cn_pid = pid p, cn_host = primary_host related, cn_pivot = ts p, cn_start = ts (hd related),
       cn_end = ts (last related), cn_ips = [], cn_pac = [], cn_chain = [], cn_request = [], cn_broker_ip = [], cn_broker_name = [],
       cn_broker_type = 0, cn_sme = [], cn_service = [], cn_outcome = ''unknown'', cn_status = None, cn_latency = None, cn_in = None,
       cn_out = None, cn_errors = [], cn_lines = map phase_line_of related, cn_count = length related\<rparr>)"

definition mark_probe :: "(string, int list) dict \<Rightarrow> conn_session \<Rightarrow> conn_session" where
  "mark_probe probes s = (if \<not> blank_text (cn_host s) \<and> is_probe probes (the (cn_host s)) (cn_pivot s)
     then s\<lparr>cn_service := ''ZDX probe (synthetic monitoring)''\<rparr> else s)"

definition build_session :: "(string, int list) dict \<Rightarrow> indexed_line list \<Rightarrow> int \<Rightarrow> indexed_line list \<Rightarrow> conn_session option" where
  "build_session probes ls window bucket1 = (let related = related_lines ls window bucket1 in
     if related = [] then None else Some (mark_probe probes (enrich_session (bare_session bucket1 related))))"

definition chosen_groups :: "indexed_line list \<Rightarrow> string \<Rightarrow> nat \<Rightarrow> indexed_line list list" where
  "chosen_groups ls q most = take most (sort_key (\<lambda>b. - first_ts_of b) (map snd (session_groups (pivot_hits ls q))))"

definition find_sessions_for_query_via_index :: "log_index \<Rightarrow> string \<Rightarrow> int \<Rightarrow> nat \<Rightarrow> conn_session list" where
  "find_sessions_for_query_via_index idx q window most = (let ls = lines idx in
     List.map_filter (build_session (build_zdx_probe_index ls) ls window) (chosen_groups ls q most))"

definition group_phases :: "conn_session \<Rightarrow> (string, phase_line list) dict" where
  "group_phases s = fold (\<lambda>pl. add_to (pl_phase pl) pl) (cn_lines s) (map (\<lambda>p. (p, [])) session_phases)"

end
