(* ===== verification/Session_Correlator_Facts.thy ===== *)
theory Session_Correlator_Facts
  imports Session_Correlator "HOL-Library.Multiset"
begin

text \<open>
  What the search keeps apart: each line that mentions the query is in one group at most, a
  group has one connection, and the lines collected for it name no other.
\<close>

section \<open>Groups\<close>

lemma getd_add_to: "dict_getd (add_to k x d) j [] = dict_getd d j [] @ (if j = k then [x] else [])"
  by (simp add: add_to_def dict_getd_def dict_get_set)

lemma distinct_add_to: "distinct (dict_keys d) \<Longrightarrow> distinct (dict_keys (add_to k x d))"
  unfolding add_to_def by (rule alist.ok_put)

lemma keys_add_to: "set (dict_keys (add_to k x d)) = insert k (set (dict_keys d))"
  unfolding add_to_def by (rule dict_keys_set)

lemma getd_in: "distinct (dict_keys d) \<Longrightarrow> (k, l) \<in> set d \<Longrightarrow> dict_getd d k [] = l"
  by (simp add: dict_getd_def)

text \<open>The elements of all groups together.\<close>

definition grouped :: "('k, 'v list) dict \<Rightarrow> 'v multiset" where
  "grouped d = mset (concat (map snd d))"

lemma grouped_add_to: "distinct (dict_keys d) \<Longrightarrow> grouped (add_to k x d) = add_mset x (grouped d)"
proof (induction d)
  case Nil
  then show ?case by (simp add: grouped_def add_to_def dict_set_def dict_getd_def)
next
  case (Cons p d)
  obtain j l where p: "p = (j, l)" by (cases p)
  show ?case
  proof (cases "j = k")
    case True
    then show ?thesis by (simp add: p grouped_def add_to_def dict_set_def dict_getd_def)
  next
    case False
    with Cons p have "grouped (add_to k x d) = add_mset x (grouped d)" by simp
    moreover have "add_to k x (p # d) = p # add_to k x d" using False by (simp add: p add_to_def dict_set_def dict_getd_def)
    ultimately show ?thesis by (simp add: grouped_def)
  qed
qed

text \<open>The groups of a table, by a key for each element that has one.\<close>

definition add_if :: "('v \<Rightarrow> 'k option) \<Rightarrow> 'v \<Rightarrow> ('k, 'v list) dict \<Rightarrow> ('k, 'v list) dict" where
  "add_if key x d = (case key x of None \<Rightarrow> d | Some k \<Rightarrow> add_to k x d)"

lemma fold_add_if:
  assumes "distinct (dict_keys d)"
  shows "distinct (dict_keys (fold (add_if key) xs d))
    \<and> grouped (fold (add_if key) xs d) = grouped d + mset (filter (\<lambda>x. key x \<noteq> None) xs)
    \<and> dict_getd (fold (add_if key) xs d) k [] = dict_getd d k [] @ filter (\<lambda>x. key x = Some k) xs"
  using assms
proof (induction xs arbitrary: d)
  case (Cons x xs)
  have "distinct (dict_keys (add_if key x d))" using Cons.prems by (simp add: add_if_def distinct_add_to split: option.split)
  from Cons.IH [OF this] Cons.prems show ?case
    by (cases "key x") (simp_all add: add_if_def grouped_add_to getd_add_to)
qed simp

text \<open>The three rounds of the grouping as one rule each.\<close>

definition id_key :: "indexed_line \<Rightarrow> string option" where
  "id_key ln = (if blank_text (session_id ln) then None else session_id ln)"

definition near_key :: "(string \<times> int \<times> string list) list \<Rightarrow> indexed_line \<Rightarrow> (string \<times> string) option" where
  "near_key gs ln = map_option (\<lambda>sid. (''id'', sid)) (nearest_group gs ln)"

definition orphan_key :: "(string \<times> int \<times> string list) list \<Rightarrow> indexed_line \<Rightarrow> (string \<times> string) option" where
  "orphan_key gs ln = (if nearest_group gs ln \<noteq> None \<or> blank_text (host ln) then None else Some (host_key ln))"

lemma id_groups_alt: "id_groups hs = fold (add_if id_key) hs []"
proof -
  have "(\<lambda>ln d. if blank_text (session_id ln) then d else add_to (the (session_id ln)) ln d) = add_if id_key"
    by (intro ext) (auto simp: add_if_def id_key_def blank_text_def split: option.split)
  then show ?thesis by (simp add: id_groups_def)
qed

lemma place_hit_alt: "place_hit gs = add_if (near_key gs)"
  by (intro ext) (simp add: place_hit_def add_if_def near_key_def split: option.split)

lemma place_orphan_alt: "place_orphan gs = add_if (orphan_key gs)"
  by (intro ext) (simp add: place_orphan_def add_if_def orphan_key_def)

definition group_summaries :: "indexed_line list \<Rightarrow> (string \<times> int \<times> string list) list" where
  "group_summaries hs = map (\<lambda>(sid, l). (sid, first_ts_of l, hosts_of l)) (id_groups hs)"

text \<open>The group a hit belongs to.\<close>

definition group_of :: "indexed_line list \<Rightarrow> indexed_line \<Rightarrow> (string \<times> string) option" where
  "group_of hs ln = (case id_key ln of Some sid \<Rightarrow> Some (''id'', sid)
     | None \<Rightarrow> or_else (near_key (group_summaries hs) ln) (orphan_key (group_summaries hs) ln))"

lemma blank_id_key: "blank_text (session_id ln) \<longleftrightarrow> id_key ln = None"
  by (auto simp: id_key_def blank_text_def split: option.split)

lemma keep_both:
  "mset (filter P xs) + (mset (filter Q (filter (\<lambda>x. \<not> P x) xs)) + mset (filter R (filter (\<lambda>x. \<not> P x) xs)))
    = mset (filter (\<lambda>x. P x \<or> Q x \<or> R x) xs)" if "\<And>x. \<not> (Q x \<and> R x)"
proof (induction xs)
  case (Cons x xs)
  with that [of x] show ?case by (cases "P x"; cases "Q x"; cases "R x") (simp_all del: mset_filter)
qed simp


section \<open>One connection at a time\<close>

lemma set_numbers_of: "set (numbers_of xs) = {w. \<exists>x \<in> set xs. id_key x = Some w}"
  by (auto simp: numbers_of_def id_key_def blank_text_def split: option.splits if_splits)

lemma group_members:
  assumes "(k, l) \<in> set (session_groups hs)" "x \<in> set l"
  shows "id_key x \<in> {None, Some (snd k)}"
proof -
  let ?gs = "group_summaries hs"
  let ?loose = "filter (\<lambda>ln. id_key ln = None) hs"
  let ?tagged = "map (\<lambda>(sid, l). ((''id'', sid), l)) (id_groups hs)"
  have ids: "distinct (dict_keys (id_groups hs))" "dict_getd (id_groups hs) sid [] = filter (\<lambda>x. id_key x = Some sid) hs" for sid
    using fold_add_if [of "[]" id_key hs] by (simp_all add: id_groups_alt dict_getd_def)
  have tagged: "distinct (dict_keys ?tagged)"
    using ids(1) by (auto simp: distinct_map inj_on_def comp_def case_prod_unfold)
  have start: "id_key y = Some (snd k)" if "y \<in> set (dict_getd ?tagged k [])" for y
  proof -
    from that obtain m where m: "dict_get ?tagged k = Some m" "y \<in> set m"
      by (cases "dict_get ?tagged k") (simp_all add: dict_getd_def)
    have "(k, m) \<in> set ?tagged" using m(1) by (rule map_of_SomeD)
    then obtain sid where sid: "k = (''id'', sid)" "(sid, m) \<in> set (id_groups hs)" by auto
    then have "m = filter (\<lambda>x. id_key x = Some sid) hs" using getd_in [OF ids(1)] ids(2) by metis
    with m(2) sid(1) show ?thesis by simp
  qed
  have eq: "session_groups hs = fold (add_if (orphan_key ?gs)) ?loose (fold (add_if (near_key ?gs)) ?loose ?tagged)"
    by (simp add: session_groups_def Let_def place_hit_alt place_orphan_alt blank_id_key group_summaries_def)
  note near = fold_add_if [OF tagged, of "near_key ?gs" ?loose]
  then have dn: "distinct (dict_keys (fold (add_if (near_key ?gs)) ?loose ?tagged))" by blast
  note all = fold_add_if [OF dn, of "orphan_key ?gs" ?loose k]
  have "l = dict_getd (session_groups hs) k []" using getd_in [of "session_groups hs" k l] all assms(1) unfolding eq by metis
  also have "\<dots> = dict_getd ?tagged k [] @ filter (\<lambda>x. near_key ?gs x = Some k) ?loose @ filter (\<lambda>x. orphan_key ?gs x = Some k) ?loose"
    unfolding eq using all near by simp
  finally have "x \<in> set (dict_getd ?tagged k []) \<or> x \<in> set ?loose" using assms(2) by auto
  then show ?thesis using start by auto
qed

lemma group_ids: "b \<in> snd ` set (session_groups hs) \<Longrightarrow> \<exists>sid. set (numbers_of b) \<subseteq> {sid}"
  using group_members by (fastforce simp: set_numbers_of)

lemma belongs_ids: "belongs sids hs ln \<Longrightarrow> sids \<noteq> [] \<Longrightarrow> session_id ln \<in> insert None (Some ` set sids)"
  by (auto simp: belongs_def has_id_def split: option.splits)

text \<open>
  C6: Connections are not mixed: a group has one connection number at most, and when it has one, every line collected for it
  carries that number or none at all.
\<close>

theorem one_connection:
  "list_all (\<lambda>b. (\<exists>sid. set (numbers_of b) \<subseteq> {sid})
      \<and> (numbers_of b = [] \<or> set (map session_id (related_lines ls window b)) \<subseteq> insert None (Some ` set (numbers_of b))))
    (chosen_groups ls q most)"
proof -
  have "\<exists>sid. set (numbers_of b) \<subseteq> {sid}" if "b \<in> set (chosen_groups ls q most)" for b
    using that by (intro group_ids) (auto simp: chosen_groups_def dest!: in_set_takeD)
  moreover have "set (map session_id (related_lines ls window b)) \<subseteq> insert None (Some ` set (numbers_of b))" if "numbers_of b \<noteq> []" for b
    using belongs_ids that by (fastforce simp: related_lines_def Let_def)
  ultimately show ?thesis unfolding list_all_iff by metis
qed

section \<open>The sessions found\<close>

lemma readers_keep [simp]:
  "cn_lines (read_ips b s) = cn_lines s" "cn_lines (read_chain b s) = cn_lines s" "cn_lines (read_decision b s) = cn_lines s"
  "cn_lines (read_broker b s) = cn_lines s" "cn_lines (read_sme b s) = cn_lines s" "cn_lines (read_counts b s) = cn_lines s"
  "cn_lines (read_error b s) = cn_lines s" "cn_lines (fill_id s) = cn_lines s" "cn_lines (fill_sme s) = cn_lines s"
  "cn_lines (infer_service s) = cn_lines s" "cn_lines (infer_outcome s) = cn_lines s" "cn_lines (set_latency s) = cn_lines s"
  "cn_lines (mark_probe d s) = cn_lines s"
  by (simp_all add: read_ips_def read_chain_def read_decision_def read_broker_def read_sme_def read_counts_def read_error_def fill_id_def
      fill_sme_def infer_service_def infer_outcome_def set_latency_def mark_probe_def tunnelled_def Let_def split: option.split)

lemma enrich_keeps: "cn_lines (enrich_session s) = cn_lines s"
proof -
  have "cn_lines (fold enrich_line pls t) = cn_lines t" for pls t
    by (induction pls arbitrary: t) (simp_all add: enrich_line_def Let_def)
  then show ?thesis by (simp add: enrich_session_def Let_def)
qed

lemma phase_for_known: "List.member session_phases (phase_for b)"
proof -
  have "list_all (\<lambda>(p, test). List.member session_phases p) phase_checks"
    by (simp add: phase_checks_def session_phases_def)
  then have "List.find (\<lambda>(p, test). test b) phase_checks = Some (p, test) \<Longrightarrow> List.member session_phases p" for p test
    using find_Some by (fastforce simp: list_all_iff)
  then show ?thesis by (auto simp: phase_for_def session_phases_def split: option.split)
qed

lemma group_phases_known:
  assumes "list_all (\<lambda>pl. List.member session_phases (pl_phase pl)) (cn_lines s)"
  shows "dict_keys (group_phases s) = session_phases \<and> dict_getd (group_phases s) p [] = filter (\<lambda>pl. pl_phase pl = p) (cn_lines s)"
proof -
  let ?empty = "map (\<lambda>p. (p, [])) session_phases"
  have "dict_keys (fold (\<lambda>pl. add_to (pl_phase pl) pl) pls d) = dict_keys d
      \<and> dict_getd (fold (\<lambda>pl. add_to (pl_phase pl) pl) pls d) p [] = dict_getd d p [] @ filter (\<lambda>pl. pl_phase pl = p) pls"
    if "list_all (\<lambda>pl. pl_phase pl \<in> set (dict_keys d)) pls" for pls d
    using that
  proof (induction pls arbitrary: d)
    case (Cons pl pls)
    have keys: "dict_keys (add_to (pl_phase pl) pl d) = dict_keys d"
      using Cons.prems by (simp add: add_to_def dict_set_def update_keys)
    then have "list_all (\<lambda>x. pl_phase x \<in> set (dict_keys (add_to (pl_phase pl) pl d))) pls"
      using Cons.prems keys by (simp add: list_all_iff)
    from Cons.IH [OF this] keys show ?case by (auto simp: getd_add_to)
  qed simp
  from this [of ?empty "cn_lines s"] assms show ?thesis
    by (simp add: group_phases_def comp_def dict_getd_def session_phases_def)
qed


section \<open>Where the reading goes wrong\<close>

definition sample_phase_line :: "string \<Rightarrow> phase_line" where
  "sample_phase_line s = \<lparr>pl_phase = phase_for s, pl_ts = 0, pl_component = ''tunnel'', pl_line = s\<rparr>"

definition blank_session :: conn_session where
  "blank_session = \<lparr>cn_id = None, cn_pid = [], cn_host = None, cn_pivot = 0, cn_start = 0, cn_end = 0, cn_ips = [], cn_pac = [],
     cn_chain = [], cn_request = [], cn_broker_ip = [], cn_broker_name = [], cn_broker_type = 0, cn_sme = [], cn_service = [],
     cn_outcome = ''unknown'', cn_status = None, cn_latency = None, cn_in = None, cn_out = None, cn_errors = [], cn_lines = [], cn_count = 0\<rparr>"

text \<open>The explicit decision for a direct connection is taken for a proxy of that name.\<close>

lemma direct_read_as_tunnel:
  "cn_pac (read_decision ''PAC Parse Action: Proxy: DIRECT'' blank_session) = ''TUNNEL''"
  by code_simp

text \<open>A word that contains the letters of a reset is taken for one.\<close>

lemma first_read_as_reset: "cn_outcome (infer_outcome (blank_session\<lparr>cn_errors := [''first''] \<rparr>)) = ''reset''"
  by code_simp

text \<open>The duration of a second and a millisecond loses the millisecond.\<close>

lemma latency_short: "latency_of 1001000 = 1000"
proof -
  have "double_ratio 1001000 1000000 = (4508103226997866, 52)"
    by (simp add: double_ratio_def half_even_def Let_def binary_places.simps)
  moreover have "double_ratio (4508103226997866 * 1000) (2 ^ 52) = (8804889115230207, 43)"
    by (simp add: double_ratio_def half_even_def Let_def binary_places.simps)
  ultimately show ?thesis by (simp add: latency_of_def)
qed

text \<open>A line without a host joins the nearest connection, whatever its host.\<close>

definition bare_line :: "int \<Rightarrow> string option \<Rightarrow> string option \<Rightarrow> indexed_line" where
  "bare_line t sid h = \<lparr>ts = t, pid = ''1'', tid = ''1'', level = ''DBG'', body = [], component = ''tunnel'', source_file = [], line_no = 1,
     session_id = sid, host = h\<rparr>"

lemma hostless_joins:
  "group_of [bare_line 0 (Some ''7'') (Some ''a.example''), bare_line 1000000 None None] (bare_line 1000000 None None) = Some (''id'', ''7'')"
  by code_simp

end
