(* ===== verification/Setupapi.thy ===== *)
theory Setupapi
  imports Py_Regex Py_Time "HOL-Library.Product_Lexorder" "HOL-Library.List_Lexorder" "HOL-Library.Char_ord"
begin

text \<open>
  The reader of the Windows device installation log (\<open>setupapi_extract.py\<close>): the grammar of its
  lines, the accumulator of one section, the pass over the lines with its counters, and the
  selections and counts on sections.  Lines are given as the file's iterator gives them, with
  their line ends.  The clock of this log is local and naive; a \<open>datetime\<close> is a number of
  microseconds.
\<close>

section \<open>The grammar of the lines\<close>

definition sp_ws :: rx where
  "sp_ws = RStar (RSet [CSpace])"

definition sp_ws1 :: rx where
  "sp_ws1 = RPlus (RSet [CSpace])"

definition sp_num :: "nat \<Rightarrow> rx" where
  "sp_num n = RTimes n (RSet [CDigit])"

definition stamp_text_rx :: rx where
  "stamp_text_rx = RSeqs [sp_num 4, RStr ''/'', sp_num 2, RStr ''/'', sp_num 2, sp_ws1,
     sp_num 2, RStr '':'', sp_num 2, RStr '':'', sp_num 2, RStr ''.'', sp_num 3]"

definition sp_header_rx :: rx where
  "sp_header_rx = RSeqs [RBegin, RStr ''>>>'', sp_ws1, RStr ''['', RGroup 1 (RStar RDot), RStr '']'', sp_ws, REnd]"

definition sp_start_rx :: rx where
  "sp_start_rx = RSeqs [RBegin, RStr ''>>>'', sp_ws1, RStr ''Section start'', sp_ws1, RGroup 1 stamp_text_rx, sp_ws, REnd]"

definition sp_end_rx :: rx where
  "sp_end_rx = RSeqs [RBegin, RStr ''<<<'', sp_ws1, RStr ''Section end'', sp_ws1, RGroup 1 stamp_text_rx, sp_ws, REnd]"

definition sp_exit_rx :: rx where
  "sp_exit_rx = RSeqs [RBegin, RStr ''<<<'', sp_ws1, RStr ''[Exit status:'', sp_ws, RGroup 1 (RStarLazy RDot), RStr '']'', sp_ws, REnd]"

definition sp_boot_rx :: rx where
  "sp_boot_rx = RSeqs [RBegin, RStr ''[Boot Session:'', sp_ws, RGroup 1 stamp_text_rx, RStr '']'', sp_ws, REnd]"

definition sp_log_rx :: rx where
  "sp_log_rx = RSeqs [RStr ''[Device Install Log]'', sp_ws, REnd]"

definition preamble_rx :: rx where
  "preamble_rx = RSeqs [RBegin, sp_ws1,
     RGroup 1 (RStrs [''OS Version'', ''Service Pack'', ''Suite'', ''ProductType'', ''Architecture'']),
     sp_ws, RStr ''='', sp_ws, RGroup 2 (RSeq RDot (RStarLazy RDot)), sp_ws, REnd]"

definition sp_body_rx :: rx where
  "sp_body_rx = RSeqs [RBegin, RGroup 1 (RUpTo 3 (RLit (CHR ''!''))), sp_ws1,
     RGroup 2 (RTimes 3 (RSet [CRange (CHR ''a'') (CHR ''z'')])), RStr '':'', RGroup 3 (RStar RDot), REnd]"

text \<open>
  \<open>_parse_ts\<close>: the patterns above fix the width of every field, so \<open>strptime\<close> reads two digits,
  or four, and the constructor refuses what is out of range; a minute or second above 59 is
  refused in either step.
\<close>

definition sp_words :: "string \<Rightarrow> string" where
  "sp_words s = join_with '' '' (filter (\<lambda>w. w \<noteq> []) (foldr (\<lambda>c ws. if py_isspace c then [] # ws else (c # hd ws) # tl ws) s [[]]))"

definition sp_parse_ts :: "string \<Rightarrow> int option" where
  "sp_parse_ts raw = (let s = sp_words raw; n = (\<lambda>i j. nat_of_digits (slice s i j)) in
     mk_dt \<lparr>cy = n 0 4, cmo = n 5 7, cd = n 8 10, ch = n 11 13, cmi = n 14 16, csec = n 17 19, cus = n 20 23 * 1000\<rparr>)"

text \<open>\<open>to_utc\<close>: a naive time and the offset in force; the result is out of range or aware.\<close>

definition sp_to_utc :: "int \<Rightarrow> int \<Rightarrow> int option" where
  "sp_to_utc t offset = dt_shift t (- offset)"

section \<open>The fields of a body line\<close>

definition kv_rx :: rx where
  "kv_rx = RSeqs [sp_ws, RSet [CLit (CHR '':''), CLit (CHR ''=''), CLit (CHR ''-'')], sp_ws]"

definition visible_rx :: rx where
  "visible_rx = RSeq (RNot [CSpace]) (RStarLazy RDot)"

definition sp_field_rx :: "string \<Rightarrow> rx" where
  "sp_field_rx name = RSeqs [RBegin, sp_ws, RStr name, kv_rx, RGroup 1 visible_rx, sp_ws, REnd]"

definition scalar_fields :: "(string list \<times> rx \<times> string) list" where
  "scalar_fields =
     [([''inf''], sp_field_rx ''Provider'', ''provider''),
      ([''inf'', ''utl'', ''dvs'', ''sto'', ''ndv''], sp_field_rx ''Driver Version'', ''driver_version_raw''),
      ([''inf''], sp_field_rx ''Catalog File'', ''catalog_file''),
      ([''inf''], sp_field_rx ''Driver Store Path'', ''driver_store_path''),
      ([''inf''], sp_field_rx ''Published Inf Path'', ''published_inf_path''),
      ([''sig''], sp_field_rx ''Signer Name'', ''signer_name''),
      ([''sig'', ''utl'', ''dvi''], sp_field_rx ''Signer Score'', ''signer_score''),
      ([''sig''], sp_field_rx ''Signer Status'', ''signer_status''),
      ([''dvi''], sp_field_rx ''Version'', ''node_version''),
      ([''dvi''], sp_field_rx ''DrvDate'', ''node_drvdate'')]"

definition dashed_rx :: "string list \<Rightarrow> rx" where
  "dashed_rx names = RSeqs [RBegin, sp_ws, RStrs names, sp_ws1, RStr ''-'', sp_ws1, RGroup 1 (RSeq RDot (RStarLazy RDot)), sp_ws, REnd]"

definition devdesc_rx :: rx where
  "devdesc_rx = dashed_rx [''DevDesc'', ''Description'']"

definition hwid_rx :: rx where
  "hwid_rx = dashed_rx [''HardwareID'']"

definition infname_rx :: rx where
  "infname_rx = dashed_rx [''InfName'', ''Driver INF'']"

definition null_markers :: "string list" where
  "null_markers = [''<none>'', ''(none)'', ''n/a'']"

definition hex_set :: rx where
  "hex_set = RSet [CRange (CHR ''0'') (CHR ''9''), CRange (CHR ''a'') (CHR ''f''), CRange (CHR ''A'') (CHR ''F'')]"

definition classguid_rx :: rx where
  "classguid_rx = RSeqs [RBegin, sp_ws, RStr ''Class GUID'', kv_rx,
     RGroup 1 (RSeqs [RStr ''{'', RPlus (RSet [CRange (CHR ''0'') (CHR ''9''), CRange (CHR ''a'') (CHR ''f''),
       CRange (CHR ''A'') (CHR ''F''), CLit (CHR ''-'')]), RStr ''}'']), sp_ws, REnd]"

definition in_quotes :: "string \<Rightarrow> rx" where
  "in_quotes words1 = RSeqs [RStr words1, RStr [CHR 0x27], RGroup 1 (RPlus (RNot [CLit (CHR 0x27)])), RStr [CHR 0x27]]"

definition created_dev_rx :: rx where
  "created_dev_rx = in_quotes ''Created device ''"

definition devinst_rx :: rx where
  "devinst_rx = RSeqs [RBegin, sp_ws, RStr ''Device Instance ID'', sp_ws, ROpt (RSet [CLit (CHR '':''), CLit (CHR ''='')]), sp_ws,
     RGroup 1 visible_rx, sp_ws, REnd]"

definition svc_equals :: "string \<Rightarrow> rx" where
  "svc_equals word1 = RSeqs [RStr word1, sp_ws, RStr ''='', sp_ws, RGroup 1 (RPlus (RNot [CLit (CHR '',''), CSpace]))]"

definition addsvc_rx :: rx where
  "addsvc_rx = svc_equals ''AddService''"

definition delsvc_rx :: rx where
  "delsvc_rx = svc_equals ''DelService''"

definition addsvc_brace_rx :: rx where
  "addsvc_brace_rx = RSeqs [RStr ''{Add Service:'', sp_ws,
     RGroup 1 (RSeq (RNot [CLit (CHR ''}'')]) (RStarLazy (RNot [CLit (CHR ''}'')]))), sp_ws, RStr ''}'']"

definition deleted_svc_rx :: rx where
  "deleted_svc_rx = in_quotes ''Deleted service ''"

definition created_svc_rx :: rx where
  "created_svc_rx = RSeqs [RStr ''Created '', ROpt (RStr ''new ''), in_quotes ''service '']"

definition cmd_rx :: rx where
  "cmd_rx = RSeqs [RBegin, sp_ws, RGroup 1 visible_rx, sp_ws, REnd]"

definition drvver_rx :: rx where
  "drvver_rx = RSeqs [RBegin,
     RGroup 1 (RSeqs [RSet [CDigit], RUpTo 1 (RSet [CDigit]), RStr ''/'', RSet [CDigit], RUpTo 1 (RSet [CDigit]), RStr ''/'', sp_num 4]),
     sp_ws, RStr '','', sp_ws,
     RGroup 2 (RSeq (RSet [CRange (CHR ''0'') (CHR ''9'')]) (RStar (RSet [CRange (CHR ''0'') (CHR ''9''), CLit (CHR ''.'')]))), sp_ws, REnd]"

text \<open>\<open>strptime(raw, "%m/%d/%Y")\<close>: the pattern the library makes of the format, on the whole text.\<close>

definition mdy_rx :: rx where
  "mdy_rx = (let r = (\<lambda>a b. RSet [CRange a b]) in RSeqs
     [RGroup 1 (RAlts [RSeq (RStr ''1'') (r (CHR ''0'') (CHR ''2'')), RSeq (RStr ''0'') (r (CHR ''1'') (CHR ''9'')), r (CHR ''1'') (CHR ''9'')]),
      RStr ''/'',
      RGroup 2 (RAlts [RSeq (RStr ''3'') (r (CHR ''0'') (CHR ''1'')), RSeq (r (CHR ''1'') (CHR ''2'')) (RSet [CDigit]),
        RSeq (RStr ''0'') (r (CHR ''1'') (CHR ''9'')), r (CHR ''1'') (CHR ''9''), RSeq (RStr '' '') (r (CHR ''1'') (CHR ''9''))]),
      RStr ''/'', RGroup 3 (sp_num 4)])"

definition grp1 :: "nat \<Rightarrow> rpos \<Rightarrow> string" where
  "grp1 n t = (case rx_group n t of None \<Rightarrow> [] | Some w \<Rightarrow> w)"

text \<open>A \<open>date\<close> is the time of its midnight.\<close>

definition parse_mdy :: "string \<Rightarrow> int option" where
  "parse_mdy raw = (case rx_match False mdy_rx raw of
     None \<Rightarrow> None
   | Some t \<Rightarrow> if fst (snd t) \<noteq> [] then None
       else mk_dt \<lparr>cy = nat_of_digits (grp1 3 t), cmo = nat_of_digits (grp1 1 t), cd = nat_of_digits (lstrip_by py_isspace (grp1 2 t)),
         ch = 0, cmi = 0, csec = 0, cus = 0\<rparr>)"

section \<open>The vendor label\<close>

definition vendor_markers :: "(string \<times> string list) list" where
  "vendor_markers =
     [(''Zscaler'', [''zapprd'', ''zs_zapprd'', ''zscaler'', ''zsatdi'', ''zsafilterdriver'']),
      (''Npcap/WinPcap'', [''npcap'', ''winpcap'', ''insecure_npcap'']),
      (''WireGuard'', [''wireguard'', ''wintun'']),
      (''OpenVPN'', [''ovpn-dco'', ''openvpn'', ''tap0901'', ''tap-windows'']),
      (''Palo Alto GlobalProtect'', [''pangp'', ''pangpd'', ''globalprotect'']),
      (''SonicWall'', [''snwlva'', ''sonicwall'']),
      (''NordLayer/NordVPN'', [''tapnordlayer'', ''nordlayer'', ''nordvpn'']),
      (''Citrix'', [''citrix'']),
      (''Microsoft Defender'', [''sensendr'', ''wdnisdrv'', ''mssecflt'', ''windows defender'']),
      (''Cisco AnyConnect/Umbrella'', [''acsock'', ''vpnva'', ''anyconnect'', ''umbrella'', ''csc_'']),
      (''Fortinet'', [''forticlient'', ''fortissl'', ''fortinet'']),
      (''Check Point'', [''checkpoint'', ''cpepctrl'', ''trac'']),
      (''Netskope'', [''netskope'', ''stagentsvc'']),
      (''CrowdStrike'', [''csagent'', ''crowdstrike'', ''csfirmware'']),
      (''SentinelOne'', [''sentinel'', ''sentinelone'']),
      (''Sophos'', [''sophos'']),
      (''Symantec/Broadcom'', [''symantec'', ''teefer'', ''srtsp'']),
      (''VMware'', [''vmnet'', ''vmware'']),
      (''VirtualBox'', [''vboxnet'']),
      (''Juniper/Pulse'', [''pulse'', ''juniper'', ''jnprva''])]"

text \<open>The texts are given as they are; an absent one (\<open>None\<close>) is the empty text, which the join leaves out as well.\<close>

definition vendor_for :: "string list \<Rightarrow> string option" where
  "vendor_for texts = (let blob = py_lower (join_with '' '' (filter (\<lambda>t. t \<noteq> []) texts)) in
     if blob = [] then None
     else map_option fst (List.find (\<lambda>(label1, ms). list_ex (\<lambda>m. occurs m blob) ms) vendor_markers))"

section \<open>The section being read\<close>

record sp_acc =
  ac_kind :: string
  ac_target :: "string option"
  ac_header :: string
  ac_first :: nat
  ac_last :: nat
  ac_start :: "int option"
  ac_end :: "int option"
  ac_exit :: "string option"
  ac_boot :: "int option"
  ac_block :: nat
  ac_scalars :: "(string, string) dict"
  ac_inf_names :: "string list"
  ac_descs :: "string list"
  ac_hwids :: "string list"
  ac_devinsts :: "string list"
  ac_guids :: "string list"
  ac_svc_add :: "string list"
  ac_svc_del :: "string list"
  ac_warnings :: "string list"
  ac_errors :: "string list"
  ac_body :: "string list"
  ac_count :: nat
  ac_command :: "string option"

text \<open>\<open>keep_body\<close> and \<open>max_body_lines\<close>.\<close>

type_synonym body_mode = "bool \<times> nat"

definition new_acc :: "string \<Rightarrow> nat \<Rightarrow> int option \<Rightarrow> nat \<Rightarrow> sp_acc" where
  "new_acc header n boot block = (case partition_at '' - '' header of (kind, _, target) \<Rightarrow>
     \<lparr>ac_kind = py_strip kind, ac_target = (if py_strip target = [] then None else Some (py_strip target)), ac_header = header,
       ac_first = n, ac_last = n, ac_start = None, ac_end = None, ac_exit = None, ac_boot = boot, ac_block = block,
       ac_scalars = [], ac_inf_names = [], ac_descs = [], ac_hwids = [], ac_devinsts = [],
       ac_guids = [], ac_svc_add = [], ac_svc_del = [], ac_warnings = [], ac_errors = [], ac_body = [], ac_count = 0, ac_command = None\<rparr>)"

definition push_cap :: nat where
  "push_cap = 32"

definition push_value :: "string \<Rightarrow> string list \<Rightarrow> string list" where
  "push_value w bucket1 = (let v = py_strip w in
     if v = [] \<or> List.member bucket1 v then bucket1 else if length bucket1 < push_cap then bucket1 @ [v] else bucket1)"

text \<open>A bucket is named by the update of its field.\<close>

type_synonym name_bucket = "(string list \<Rightarrow> string list) \<Rightarrow> sp_acc \<Rightarrow> sp_acc"

definition push_group :: "name_bucket \<Rightarrow> rpos option \<Rightarrow> sp_acc \<Rightarrow> sp_acc" where
  "push_group upd m a = (case m of None \<Rightarrow> a | Some t \<Rightarrow> upd (push_value (grp1 1 t)) a)"

definition is_null :: "string \<Rightarrow> bool" where
  "is_null v = List.member null_markers (py_lower v)"

text \<open>The first row of the table that is open for the tag, has no value yet and matches the payload.\<close>

fun read_scalar :: "(string list \<times> rx \<times> string) list \<Rightarrow> string \<Rightarrow> string \<Rightarrow> sp_acc \<Rightarrow> sp_acc" where
  "read_scalar [] tag payload a = a"
| "read_scalar ((tags, r, name) # rows) tag payload a =
     (if \<not> List.member tags tag \<or> dict_get (ac_scalars a) name \<noteq> None then read_scalar rows tag payload a
      else (case rx_match False r payload of
          None \<Rightarrow> read_scalar rows tag payload a
        | Some m \<Rightarrow> (let v = py_strip (grp1 1 m) in
            if v = [] \<or> is_null v then a else a\<lparr>ac_scalars := dict_set name v (ac_scalars a)\<rparr>)))"

definition keep_line :: "body_mode \<Rightarrow> string \<Rightarrow> sp_acc \<Rightarrow> sp_acc" where
  "keep_line md line a = a\<lparr>ac_count := ac_count a + 1,
     ac_body := (if fst md \<and> length (ac_body a) < snd md then ac_body a @ [line] else ac_body a)\<rparr>"

definition read_bang :: "string \<Rightarrow> string \<Rightarrow> sp_acc \<Rightarrow> sp_acc" where
  "read_bang bang line a =
     (if bang = ''!!!'' then a\<lparr>ac_errors := (if length (ac_errors a) < 64 then ac_errors a @ [py_strip line] else ac_errors a)\<rparr>
      else if bang = ''!'' then a\<lparr>ac_warnings := (if length (ac_warnings a) < 64 then ac_warnings a @ [py_strip line] else ac_warnings a)\<rparr>
      else a)"

definition read_guid :: "string \<Rightarrow> string \<Rightarrow> sp_acc \<Rightarrow> sp_acc" where
  "read_guid tag payload a =
     (if List.member [''inf'', ''utl'', ''dvs'', ''set'', ''dvi''] tag
      then (case rx_match False classguid_rx payload of None \<Rightarrow> a | Some m \<Rightarrow> ac_guids_update (push_value (py_lower (grp1 1 m))) a) else a)"

definition read_desc :: "string \<Rightarrow> string \<Rightarrow> sp_acc \<Rightarrow> sp_acc" where
  "read_desc tag payload a =
     (if List.member [''dvi'', ''utl'', ''ndv'', ''dvs''] tag
      then (case rx_match False devdesc_rx payload of
          None \<Rightarrow> a
        | Some m \<Rightarrow> if is_null (py_strip (grp1 1 m)) then a else ac_descs_update (push_value (grp1 1 m)) a) else a)"

definition read_device :: "string \<Rightarrow> string \<Rightarrow> sp_acc \<Rightarrow> sp_acc" where
  "read_device tag payload a =
     (if List.member [''dvi'', ''utl'', ''ndv'', ''dvs'', ''sto''] tag
      then push_group ac_devinsts_update (rx_match False devinst_rx payload)
        (push_group ac_devinsts_update (rx_search False created_dev_rx payload)
          (push_group ac_inf_names_update (rx_match False infname_rx payload)
            (push_group ac_hwids_update (rx_match False hwid_rx payload) a))) else a)"

definition service_patterns :: "(rx \<times> name_bucket) list" where
  "service_patterns = [(addsvc_rx, ac_svc_add_update), (addsvc_brace_rx, ac_svc_add_update), (created_svc_rx, ac_svc_add_update),
     (delsvc_rx, ac_svc_del_update), (deleted_svc_rx, ac_svc_del_update)]"

definition read_services :: "string \<Rightarrow> string \<Rightarrow> sp_acc \<Rightarrow> sp_acc" where
  "read_services tag payload a =
     (if List.member [''inf'', ''dvi''] tag
      then fold (\<lambda>(r, upd). push_group upd (rx_search False r payload)) service_patterns a else a)"

definition feed_section :: "body_mode \<Rightarrow> string \<Rightarrow> nat \<Rightarrow> sp_acc \<Rightarrow> sp_acc" where
  "feed_section md line n a0 = (let a1 = a0\<lparr>ac_last := n\<rparr> in case rx_match False sp_body_rx line of
       None \<Rightarrow> keep_line md line a1
     | Some m \<Rightarrow> (let tag = grp1 2 m; payload = grp1 3 m; a = read_bang (grp1 1 m) line (keep_line md line a1) in
         if tag = ''cmd'' \<and> ac_command a = None
         then (case rx_match False cmd_rx payload of None \<Rightarrow> a | Some c \<Rightarrow> a\<lparr>ac_command := Some (grp1 1 c)\<rparr>)
         else read_services tag payload (read_device tag payload (read_desc tag payload
           (read_scalar scalar_fields tag payload (read_guid tag payload a))))))"

section \<open>A section of the log\<close>

record setup_section =
  sp_kind :: string
  sp_target :: "string option"
  sp_header :: string
  sp_start :: "int option"
  sp_end :: "int option"
  sp_boot :: "int option"
  sp_exit :: "string option"
  sp_exit_code :: "nat option"
  sp_succeeded :: "bool option"
  sp_reboot :: bool
  sp_command :: "string option"
  sp_provider :: "string option"
  sp_guids :: "string list"
  sp_net_class :: "string option"
  sp_version_raw :: "string option"
  sp_version :: "string option"
  sp_driver_date :: "int option"
  sp_catalog :: "string option"
  sp_inf_names :: "string list"
  sp_store_path :: "string option"
  sp_published :: "string option"
  sp_descs :: "string list"
  sp_hwids :: "string list"
  sp_devinsts :: "string list"
  sp_svc_add :: "string list"
  sp_svc_del :: "string list"
  sp_signer :: "string option"
  sp_score :: "string option"
  sp_status :: "string option"
  sp_warnings :: "string list"
  sp_errors :: "string list"
  sp_source :: string
  sp_first :: nat
  sp_last :: nat
  sp_count :: nat
  sp_body :: "string list"
  sp_block :: nat
  sp_vendor :: "string option"

definition network_class_guids :: "(string, string) dict" where
  "network_class_guids =
     [(''{4d36e972-e325-11ce-bfc1-08002be10318}'', ''Net''), (''{4d36e973-e325-11ce-bfc1-08002be10318}'', ''NetTrans''),
      (''{4d36e974-e325-11ce-bfc1-08002be10318}'', ''NetService''), (''{4d36e975-e325-11ce-bfc1-08002be10318}'', ''NetClient'')]"

definition hex_code_rx :: rx where
  "hex_code_rx = RSeqs [RStr ''(0x'', RGroup 1 (RPlus hex_set), RStr '')'']"

definition hex_digit_of :: "char \<Rightarrow> nat" where
  "hex_digit_of c = (let n = code_of c in if n \<le> 57 then n - 48 else if n \<le> 70 then n - 55 else n - 87)"

definition hex_number :: "string \<Rightarrow> nat" where
  "hex_number s = foldl (\<lambda>n c. n * 16 + hex_digit_of c) 0 s"

definition exit_succeeded :: "string option \<Rightarrow> bool option" where
  "exit_succeeded status = map_option (\<lambda>t. prefix ''SUCCESS'' (py_upper t)) status"

definition exit_code_of :: "string option \<Rightarrow> nat option" where
  "exit_code_of status = (case status of
     None \<Rightarrow> None
   | Some t \<Rightarrow> if prefix ''SUCCESS'' (py_upper t) then Some 0
       else map_option (\<lambda>m. hex_number (grp1 1 m)) (rx_search False hex_code_rx t))"

definition scalar :: "string \<Rightarrow> sp_acc \<Rightarrow> string option" where
  "scalar name a = dict_get (ac_scalars a) name"

text \<open>The combined form of the driver's version and date comes first, the two lines of a driver node second.\<close>

definition driver_version_of :: "sp_acc \<Rightarrow> string option" where
  "driver_version_of a = or_else
     (map_option (\<lambda>v. case rx_match False drvver_rx v of None \<Rightarrow> v | Some m \<Rightarrow> grp1 2 m) (scalar ''driver_version_raw'' a))
     (scalar ''node_version'' a)"

definition driver_date_of :: "sp_acc \<Rightarrow> int option" where
  "driver_date_of a = or_else
     (case scalar ''driver_version_raw'' a of
        None \<Rightarrow> None
      | Some v \<Rightarrow> (case rx_match False drvver_rx v of None \<Rightarrow> None | Some m \<Rightarrow> parse_mdy (grp1 1 m)))
     (case scalar ''node_drvdate'' a of None \<Rightarrow> None | Some d \<Rightarrow> parse_mdy d)"

definition version_raw_of :: "sp_acc \<Rightarrow> string option" where
  "version_raw_of a = or_else (scalar ''driver_version_raw'' a)
     (map_option (\<lambda>v. case scalar ''node_drvdate'' a of None \<Rightarrow> v | Some d \<Rightarrow> d @ '', '' @ v) (driver_version_of a))"

definition inf_base :: "string \<Rightarrow> string" where
  "inf_base target = last (split_on (CHR 0x5C) (map (\<lambda>c. if c = CHR ''/'' then CHR 0x5C else c) target))"

definition inf_names_of :: "sp_acc \<Rightarrow> string list" where
  "inf_names_of a = (case ac_target a of
     None \<Rightarrow> ac_inf_names a
   | Some t \<Rightarrow> if suffix ''.inf'' (py_lower t) \<and> \<not> List.member (ac_inf_names a) (inf_base t)
       then inf_base t # ac_inf_names a else ac_inf_names a)"

definition text_or_empty :: "string option \<Rightarrow> string" where
  "text_or_empty x = (case x of None \<Rightarrow> [] | Some w \<Rightarrow> w)"

definition vendor_of :: "sp_acc \<Rightarrow> string option" where
  "vendor_of a = vendor_for ([ac_header a, text_or_empty (ac_command a), text_or_empty (scalar ''provider'' a),
       text_or_empty (scalar ''driver_store_path'' a)]
     @ ac_descs a @ ac_hwids a @ inf_names_of a @ ac_svc_add a @ ac_svc_del a @ ac_devinsts a)"

definition build_section :: "string \<Rightarrow> sp_acc \<Rightarrow> setup_section" where
  "build_section src a =
     \<lparr>sp_kind = ac_kind a, sp_target = ac_target a, sp_header = ac_header a, sp_start = ac_start a, sp_end = ac_end a,
       sp_boot = ac_boot a, sp_exit = ac_exit a, sp_exit_code = exit_code_of (ac_exit a),
       sp_succeeded = exit_succeeded (ac_exit a),
       sp_reboot = (case ac_exit a of None \<Rightarrow> False | Some t \<Rightarrow> occurs ''REBOOT_REQUIRED'' (py_upper t)),
       sp_command = ac_command a, sp_provider = scalar ''provider'' a, sp_guids = ac_guids a,
       sp_net_class = map_option (\<lambda>g. dict_getd network_class_guids g []) (List.find (\<lambda>g. dict_get network_class_guids g \<noteq> None) (ac_guids a)),
       sp_version_raw = version_raw_of a, sp_version = driver_version_of a, sp_driver_date = driver_date_of a,
       sp_catalog = scalar ''catalog_file'' a, sp_inf_names = inf_names_of a, sp_store_path = scalar ''driver_store_path'' a,
       sp_published = scalar ''published_inf_path'' a, sp_descs = ac_descs a, sp_hwids = ac_hwids a, sp_devinsts = ac_devinsts a,
       sp_svc_add = ac_svc_add a, sp_svc_del = ac_svc_del a, sp_signer = scalar ''signer_name'' a,
       sp_score = scalar ''signer_score'' a, sp_status = scalar ''signer_status'' a, sp_warnings = ac_warnings a,
       sp_errors = ac_errors a, sp_source = src, sp_first = ac_first a, sp_last = ac_last a, sp_count = ac_count a,
       sp_body = ac_body a, sp_block = ac_block a, sp_vendor = vendor_of a\<rparr>"

text \<open>The properties of a section; \<open>class_guid\<close> is the first of the list.\<close>

definition class_guid :: "setup_section \<Rightarrow> string option" where
  "class_guid s = (case sp_guids s of [] \<Rightarrow> None | g # _ \<Rightarrow> Some g)"

definition section_us :: "setup_section \<Rightarrow> int option" where
  "section_us s = (case (sp_start s, sp_end s) of (Some a, Some b) \<Rightarrow> Some (b - a) | _ \<Rightarrow> None)"

definition unterminated :: "setup_section \<Rightarrow> bool" where
  "unterminated s = (sp_exit s = None)"

definition class_guid_ambiguous :: "setup_section \<Rightarrow> bool" where
  "class_guid_ambiguous s = (1 < length (sp_guids s))"

definition policy_check_kind :: string where
  "policy_check_kind = ''Device Installation Restrictions Policy Check''"

definition is_policy_check :: "setup_section \<Rightarrow> bool" where
  "is_policy_check s = (sp_kind s = policy_check_kind)"

definition network_kinds :: "string list" where
  "network_kinds = [''Install network driver'', ''Deinstall network driver'']"

definition is_network :: "setup_section \<Rightarrow> bool" where
  "is_network s = (List.member network_kinds (sp_kind s) \<or> sp_net_class s \<noteq> None
     \<or> (case sp_command s of None \<Rightarrow> False | Some c \<Rightarrow> occurs ''netcfg.exe'' (py_lower c)))"

definition section_names :: "setup_section \<Rightarrow> string list" where
  "section_names s = fold (\<lambda>v seen. if v = [] \<or> List.member seen v then seen else seen @ [v])
     ([text_or_empty (sp_target s)] @ sp_descs s @ sp_hwids s @ sp_inf_names s @ sp_svc_add s @ sp_svc_del s @ sp_devinsts s) []"

definition haystack :: "setup_section \<Rightarrow> string" where
  "haystack s = py_lower (join_with '' '' ([sp_header s, text_or_empty (sp_provider s), text_or_empty (sp_command s),
     text_or_empty (sp_store_path s), text_or_empty (sp_published s), text_or_empty (sp_catalog s)] @ section_names s))"

section \<open>The pass over the lines\<close>

text \<open>What a line is, in the order of the tests; the marks of a section count inside one only, the preamble outside only.\<close>

datatype sp_event =
    Header string
  | Started "int option"
  | Ended "int option"
  | Exited string
  | Booted "int option"
  | Log_header
  | Preamble string string
  | Body
  | Filler
  | Unrecognised

definition section_mark :: "string \<Rightarrow> sp_event option" where
  "section_mark line = (case rx_match False sp_start_rx line of
       Some m \<Rightarrow> Some (Started (sp_parse_ts (grp1 1 m)))
     | None \<Rightarrow> (case rx_match False sp_end_rx line of
           Some m \<Rightarrow> Some (Ended (sp_parse_ts (grp1 1 m)))
         | None \<Rightarrow> map_option (\<lambda>m. Exited (py_strip (grp1 1 m))) (rx_match False sp_exit_rx line)))"

definition line_event :: "bool \<Rightarrow> string \<Rightarrow> sp_event" where
  "line_event opened line = (case rx_match False sp_header_rx line of
       Some m \<Rightarrow> Header (grp1 1 m)
     | None \<Rightarrow> (case (if opened then section_mark line else None) of
         Some e \<Rightarrow> e
       | None \<Rightarrow> (case rx_match False sp_boot_rx line of
           Some m \<Rightarrow> Booted (sp_parse_ts (grp1 1 m))
         | None \<Rightarrow>
             if rx_search False sp_log_rx line \<noteq> None then Log_header
             else (case (if opened then None else rx_match False preamble_rx line) of
                 Some m \<Rightarrow> Preamble (grp1 1 m) (grp1 2 m)
               | None \<Rightarrow> if opened then Body
                   else if py_strip line = [] \<or> py_strip line = ''[BeginLog]'' then Filler else Unrecognised))))"

record sp_state =
  ps_preamble :: "(string, string) dict"
  ps_boots :: "int list"
  ps_sections :: "setup_section list"
  ps_acc :: "sp_acc option"
  ps_boot :: "int option"
  ps_block :: nat
  ps_total :: nat
  ps_inside :: nat
  ps_structural :: nat
  ps_unrecognised :: nat
  ps_bytes :: nat
  ps_error :: "string option"

definition sp_start_state :: sp_state where
  "sp_start_state = \<lparr>ps_preamble = [], ps_boots = [], ps_sections = [], ps_acc = None, ps_boot = None, ps_block = 0,
     ps_total = 0, ps_inside = 0, ps_structural = 0, ps_unrecognised = 0, ps_bytes = 0, ps_error = None\<rparr>"

definition close_open :: "string \<Rightarrow> sp_state \<Rightarrow> sp_state" where
  "close_open src s = (case ps_acc s of None \<Rightarrow> s
     | Some a \<Rightarrow> s\<lparr>ps_sections := ps_sections s @ [build_section src a], ps_acc := None\<rparr>)"

definition in_acc :: "(sp_acc \<Rightarrow> sp_acc) \<Rightarrow> sp_state \<Rightarrow> sp_state" where
  "in_acc f s = s\<lparr>ps_acc := map_option f (ps_acc s)\<rparr>"

definition structural :: "sp_state \<Rightarrow> sp_state" where
  "structural s = s\<lparr>ps_structural := ps_structural s + 1\<rparr>"

definition take_event :: "body_mode \<Rightarrow> string \<Rightarrow> string \<Rightarrow> sp_event \<Rightarrow> sp_state \<Rightarrow> sp_state" where
  "take_event md src line e s = (let n = ps_total s in case e of
       Header head1 \<Rightarrow> structural (close_open src s) \<lparr>ps_acc := Some (new_acc head1 n (ps_boot s) (ps_block s))\<rparr>
     | Started t \<Rightarrow> structural (in_acc (\<lambda>a. a\<lparr>ac_start := t, ac_last := n\<rparr>) s)
     | Ended t \<Rightarrow> structural (in_acc (\<lambda>a. a\<lparr>ac_end := t, ac_last := n\<rparr>) s)
     | Exited status \<Rightarrow> close_open src (structural (in_acc (\<lambda>a. a\<lparr>ac_exit := Some status, ac_last := n\<rparr>) s))
     | Booted t \<Rightarrow> structural (case t of None \<Rightarrow> s | Some b \<Rightarrow> s\<lparr>ps_boots := ps_boots s @ [b], ps_boot := Some b\<rparr>)
     | Log_header \<Rightarrow> structural (s\<lparr>ps_block := ps_block s + 1\<rparr>)
     | Preamble k v \<Rightarrow> structural (if dict_get (ps_preamble s) k = None then s\<lparr>ps_preamble := dict_set k v (ps_preamble s)\<rparr> else s)
     | Body \<Rightarrow> (in_acc (feed_section md line n) s)\<lparr>ps_inside := ps_inside s + 1\<rparr>
     | Filler \<Rightarrow> structural s
     | Unrecognised \<Rightarrow> s\<lparr>ps_unrecognised := ps_unrecognised s + 1\<rparr>)"

definition without_eol :: "string \<Rightarrow> string" where
  "without_eol raw = rstrip_by (\<lambda>c. c = CHR 0x0D \<or> c = CHR 0x0A) raw"

definition take_line :: "body_mode \<Rightarrow> string \<Rightarrow> string \<Rightarrow> sp_state \<Rightarrow> sp_state" where
  "take_line md src line s = take_event md src line (line_event (ps_acc s \<noteq> None) line) s"

definition count_line :: "string \<Rightarrow> sp_state \<Rightarrow> sp_state" where
  "count_line raw s = s\<lparr>ps_total := ps_total s + 1, ps_bytes := ps_bytes s + length raw\<rparr>"

record sp_budget =
  max_bytes :: nat
  max_lines :: nat

definition budget_error :: "sp_budget \<Rightarrow> sp_state \<Rightarrow> string" where
  "budget_error b s = ''stopped at line '' @ str_of_nat (ps_total s) @ '' / '' @ str_of_nat (ps_bytes s) @ '' bytes (max_lines=''
     @ str_of_nat (max_lines b) @ '', max_bytes='' @ str_of_nat (max_bytes b) @ '')''"

definition sp_over :: "sp_budget \<Rightarrow> sp_state \<Rightarrow> bool" where
  "sp_over b s = (max_lines b < ps_total s \<or> max_bytes b < ps_bytes s)"

fun read_log :: "sp_budget \<Rightarrow> body_mode \<Rightarrow> string \<Rightarrow> string list \<Rightarrow> sp_state \<Rightarrow> sp_state" where
  "read_log b md src [] s = s"
| "read_log b md src (raw # raws) s = (let s1 = count_line raw s in
     if sp_over b s1 then s1\<lparr>ps_error := Some (budget_error b s1)\<rparr>
     else read_log b md src raws (take_line md src (without_eol raw) s1))"

record setup_log =
  sl_source :: string
  sl_present :: bool
  sl_error :: "string option"
  sl_preamble :: "(string, string) dict"
  sl_boots :: "int list"
  sl_sections :: "setup_section list"
  sl_total :: nat
  sl_inside :: nat
  sl_structural :: nat
  sl_unrecognised :: nat
  sl_bytes :: nat
  sl_truncated :: bool

definition parse_lines :: "sp_budget \<Rightarrow> body_mode \<Rightarrow> string \<Rightarrow> string list \<Rightarrow> setup_log" where
  "parse_lines b md src raws = (let s = close_open src (read_log b md src raws sp_start_state) in
     \<lparr>sl_source = src, sl_present = True, sl_error = ps_error s, sl_preamble = ps_preamble s, sl_boots = ps_boots s,
       sl_sections = ps_sections s, sl_total = ps_total s, sl_inside = ps_inside s, sl_structural = ps_structural s,
       sl_unrecognised = ps_unrecognised s, sl_bytes = ps_bytes s, sl_truncated = (ps_error s \<noteq> None)\<rparr>)"

text \<open>\<open>parse_file\<close>: what the file system answers is a value; a size, and the lines or the error of reading them.\<close>

datatype sp_disk =
    No_file
  | Stat_failed string
  | Of_size nat "string + string list"

definition empty_log :: "string \<Rightarrow> bool \<Rightarrow> string \<Rightarrow> setup_log" where
  "empty_log src there err = \<lparr>sl_source = src, sl_present = there, sl_error = Some err, sl_preamble = [], sl_boots = [],
     sl_sections = [], sl_total = 0, sl_inside = 0, sl_structural = 0, sl_unrecognised = 0, sl_bytes = 0, sl_truncated = False\<rparr>"

definition parse_setup_file :: "sp_budget \<Rightarrow> body_mode \<Rightarrow> string \<Rightarrow> sp_disk \<Rightarrow> setup_log" where
  "parse_setup_file b md path disk1 =
     (if path = [] then empty_log [] False ''no path given''
      else (case disk1 of
          No_file \<Rightarrow> empty_log path False ''file not found''
        | Stat_failed msg \<Rightarrow> empty_log path False (''stat failed: '' @ msg)
        | Of_size size1 content \<Rightarrow>
            if size1 = 0 then empty_log path True ''file is empty''
            else (case content of
                Inl msg \<Rightarrow> empty_log path False (''read failed: '' @ msg)
              | Inr raws \<Rightarrow> parse_lines b md path raws)))"

text \<open>\<open>find_setupapi_logs\<close> on what \<open>os.walk\<close> yields, nothing for a root that is missing.\<close>

definition is_setup_name :: "string \<Rightarrow> bool" where
  "is_setup_name fn = (prefix ''setupapi.dev'' (py_lower fn) \<and> suffix ''.log'' (py_lower fn))"

definition find_setupapi_logs :: "(string \<times> string list) list \<Rightarrow> string list" where
  "find_setupapi_logs walk = sort (concat (map (\<lambda>(dir, fns). map (\<lambda>fn. (if suffix ''/'' dir then dir else dir @ ''/'') @ fn)
     (filter is_setup_name fns)) walk))"

text \<open>\<open>iter_sections\<close>: a pass of its own that hands out one section at a time.\<close>

definition iter_line :: "body_mode \<Rightarrow> string \<Rightarrow> nat \<Rightarrow> string \<Rightarrow> sp_acc option \<times> int option \<times> nat
    \<Rightarrow> setup_section list \<times> sp_acc option \<times> int option \<times> nat" where
  "iter_line md src n line st = (case st of (acc, boot, block) \<Rightarrow>
     (case rx_match False sp_header_rx line of
        Some m \<Rightarrow> (case acc of None \<Rightarrow> [] | Some a \<Rightarrow> [build_section src a], Some (new_acc (grp1 1 m) n boot block), boot, block)
      | None \<Rightarrow> (case (acc, if acc = None then None else section_mark line) of
          (Some a, Some (Started t)) \<Rightarrow> ([], Some (a\<lparr>ac_start := t, ac_last := n\<rparr>), boot, block)
        | (Some a, Some (Ended t)) \<Rightarrow> ([], Some (a\<lparr>ac_end := t, ac_last := n\<rparr>), boot, block)
        | (Some a, Some (Exited status)) \<Rightarrow> ([build_section src (a\<lparr>ac_exit := Some status, ac_last := n\<rparr>)], None, boot, block)
        | _ \<Rightarrow> (case rx_match False sp_boot_rx line of
            Some m \<Rightarrow> ([], acc, or_else (sp_parse_ts (grp1 1 m)) boot, block)
          | None \<Rightarrow> if rx_search False sp_log_rx line \<noteq> None then ([], acc, boot, block + 1)
              else ([], map_option (feed_section md line n) acc, boot, block)))))"

fun iter_from :: "body_mode \<Rightarrow> string \<Rightarrow> nat \<Rightarrow> string list \<Rightarrow> sp_acc option \<times> int option \<times> nat \<Rightarrow> setup_section list" where
  "iter_from md src n [] st = (case fst st of None \<Rightarrow> [] | Some a \<Rightarrow> [build_section src a])"
| "iter_from md src n (raw # raws) st = (case iter_line md src (n + 1) (without_eol raw) st of
     (found, st1) \<Rightarrow> found @ iter_from md src (n + 1) raws st1)"

definition iter_sections :: "body_mode \<Rightarrow> string \<Rightarrow> string list \<Rightarrow> setup_section list" where
  "iter_sections md src raws = iter_from md src 0 raws (None, None, 0)"

end
