(* ===== verification/Setupapi_Facts.thy ===== *)
theory Setupapi_Facts
  imports Setupapi
begin

text \<open>
  What the reader of the device installation log promises: every line is counted once, a section
  is made of its own lines and of no others, the pass that hands out sections one by one finds
  the same ones, and the lists of a section are bounded.
\<close>

section \<open>The pass as a run of steps\<close>

definition sp_step :: "body_mode \<Rightarrow> string \<Rightarrow> sp_state \<Rightarrow> string \<Rightarrow> sp_state" where
  "sp_step md src s raw = take_line md src (without_eol raw) (count_line raw s)"

definition sp_run :: "body_mode \<Rightarrow> string \<Rightarrow> string list \<Rightarrow> sp_state" where
  "sp_run md src raws = foldl (sp_step md src) sp_start_state raws"

lemma sp_run_simps [simp]:
  "sp_run md src [] = sp_start_state" "sp_run md src (raws @ [raw]) = sp_step md src (sp_run md src raws) raw"
  by (simp_all add: sp_run_def)

text \<open>The pass reads a prefix of the lines; it stops at the first line that exceeds the budget, which it counts.\<close>

lemma read_log_prefix:
  "\<exists>k \<le> length raws. read_log b md src raws s =
     (if k = length raws then foldl (sp_step md src) s raws
      else let s1 = count_line (raws ! k) (foldl (sp_step md src) s (take k raws)) in s1\<lparr>ps_error := Some (budget_error b s1)\<rparr>)"
proof (induction raws arbitrary: s)
  case Nil
  then show ?case by simp
next
  case (Cons raw raws)
  show ?case
  proof (cases "sp_over b (count_line raw s)")
    case True
    then show ?thesis by (intro exI [of _ 0]) (simp add: Let_def)
  next
    case False
    obtain k where "k \<le> length raws" "read_log b md src raws (sp_step md src s raw) =
        (if k = length raws then foldl (sp_step md src) (sp_step md src s raw) raws
         else let s1 = count_line (raws ! k) (foldl (sp_step md src) (sp_step md src s raw) (take k raws)) in s1\<lparr>ps_error := Some (budget_error b s1)\<rparr>)"
      using Cons.IH by blast
    with False show ?thesis by (intro exI [of _ "Suc k"]) (simp add: sp_step_def Let_def)
  qed
qed

lemma count_line_simps [simp]:
  "ps_acc (count_line raw s) = ps_acc s" "ps_sections (count_line raw s) = ps_sections s" "ps_total (count_line raw s) = Suc (ps_total s)"
  "ps_inside (count_line raw s) = ps_inside s" "ps_structural (count_line raw s) = ps_structural s"
  "ps_unrecognised (count_line raw s) = ps_unrecognised s" "ps_boot (count_line raw s) = ps_boot s" "ps_block (count_line raw s) = ps_block s"
  "ps_bytes (count_line raw s) = ps_bytes s + length raw" "ps_error (count_line raw s) = ps_error s"
  by (simp_all add: count_line_def)

lemma close_open_simps [simp]:
  "ps_total (close_open src s) = ps_total s" "ps_inside (close_open src s) = ps_inside s" "ps_structural (close_open src s) = ps_structural s"
  "ps_unrecognised (close_open src s) = ps_unrecognised s" "ps_bytes (close_open src s) = ps_bytes s" "ps_error (close_open src s) = ps_error s"
  "ps_boot (close_open src s) = ps_boot s" "ps_block (close_open src s) = ps_block s" "ps_acc (close_open src s) = None"
  "ps_sections (close_open src s) = ps_sections s @ (case ps_acc s of None \<Rightarrow> [] | Some a \<Rightarrow> [build_section src a])"
  by (simp_all add: close_open_def split: option.split)

lemma in_acc_simps [simp]:
  "ps_total (in_acc f s) = ps_total s" "ps_inside (in_acc f s) = ps_inside s" "ps_structural (in_acc f s) = ps_structural s"
  "ps_unrecognised (in_acc f s) = ps_unrecognised s" "ps_bytes (in_acc f s) = ps_bytes s" "ps_error (in_acc f s) = ps_error s"
  "ps_boot (in_acc f s) = ps_boot s" "ps_block (in_acc f s) = ps_block s" "ps_sections (in_acc f s) = ps_sections s"
  "ps_acc (in_acc f s) = map_option f (ps_acc s)"
  by (simp_all add: in_acc_def)

lemma structural_simps [simp]:
  "ps_total (structural s) = ps_total s" "ps_inside (structural s) = ps_inside s" "ps_structural (structural s) = Suc (ps_structural s)"
  "ps_unrecognised (structural s) = ps_unrecognised s" "ps_bytes (structural s) = ps_bytes s" "ps_error (structural s) = ps_error s"
  "ps_boot (structural s) = ps_boot s" "ps_block (structural s) = ps_block s" "ps_sections (structural s) = ps_sections s"
  "ps_acc (structural s) = ps_acc s"
  by (simp_all add: structural_def)

lemma take_event_counts:
  "ps_total (take_event md src line e s) = ps_total s" "ps_bytes (take_event md src line e s) = ps_bytes s"
  "ps_error (take_event md src line e s) = ps_error s"
  "ps_inside (take_event md src line e s) + ps_structural (take_event md src line e s) + ps_unrecognised (take_event md src line e s)
    = Suc (ps_inside s + ps_structural s + ps_unrecognised s)"
  by (cases e; simp add: take_event_def Let_def split: option.split)+

section \<open>Every line is counted\<close>

definition counts_ok :: "string list \<Rightarrow> sp_state \<Rightarrow> bool" where
  "counts_ok raws s = (ps_total s = length raws \<and> ps_inside s + ps_structural s + ps_unrecognised s = length raws
     \<and> ps_bytes s = sum_list (map length raws) \<and> ps_error s = None)"

lemma log_counts_run: "counts_ok raws (sp_run md src raws)"
  by (induction raws rule: rev_induct)
    (simp_all add: counts_ok_def sp_start_state_def sp_step_def take_line_def take_event_counts)

lemma parse_lines_run:
  obtains k where "k \<le> length raws"
    "sl_sections (parse_lines b md src raws) = ps_sections (close_open src (sp_run md src (take k raws)))"
    "sl_inside (parse_lines b md src raws) = ps_inside (sp_run md src (take k raws))"
    "sl_structural (parse_lines b md src raws) = ps_structural (sp_run md src (take k raws))"
    "sl_unrecognised (parse_lines b md src raws) = ps_unrecognised (sp_run md src (take k raws))"
    "sl_total (parse_lines b md src raws) = min (Suc k) (length raws)"
    "sl_truncated (parse_lines b md src raws) = (k < length raws)"
    "sl_bytes (parse_lines b md src raws) = sum_list (map length (take (Suc k) raws))"
proof -
  obtain k where k: "k \<le> length raws" and run: "read_log b md src raws sp_start_state =
     (if k = length raws then sp_run md src raws
      else let s1 = count_line (raws ! k) (sp_run md src (take k raws)) in s1\<lparr>ps_error := Some (budget_error b s1)\<rparr>)"
    using read_log_prefix [of raws b md src sp_start_state] unfolding sp_run_def by blast
  have c: "counts_ok (take k raws) (sp_run md src (take k raws))" by (rule log_counts_run)
  have bytes: "sum_list (map length (take (Suc k) raws)) = sum_list (map length (take k raws)) + length (raws ! k)" if "k < length raws"
    using that by (simp add: take_Suc_conv_app_nth)
  show ?thesis
    by (rule that [OF k]) (use run c k bytes in \<open>auto simp: parse_lines_def Let_def counts_ok_def min_def\<close>)
qed

text \<open>
  Every line that is read is counted as one of three kinds; the line that exceeds the budget is counted in the total alone.
\<close>

definition log_accounted :: "string list \<Rightarrow> setup_log \<Rightarrow> bool" where
  "log_accounted raws l =
     (sl_total l = sl_inside l + sl_structural l + sl_unrecognised l + (if sl_truncated l then 1 else 0)
      \<and> sl_bytes l = sum_list (map length (take (sl_total l) raws)) \<and> (sl_truncated l \<or> sl_total l = length raws))"

theorem setup_lines_accounted: "log_accounted raws (parse_lines b md src raws)"
proof -
  let ?l = "parse_lines b md src raws"
  obtain k where k: "k \<le> length raws" "sl_inside ?l = ps_inside (sp_run md src (take k raws))"
    "sl_structural ?l = ps_structural (sp_run md src (take k raws))" "sl_unrecognised ?l = ps_unrecognised (sp_run md src (take k raws))"
    "sl_total ?l = min (Suc k) (length raws)" "sl_truncated ?l = (k < length raws)" "sl_bytes ?l = sum_list (map length (take (Suc k) raws))"
    by (rule parse_lines_run)
  with log_counts_run [of "take k raws" md src] show ?thesis by (auto simp: log_accounted_def counts_ok_def min_def)
qed

section \<open>The two passes\<close>

definition iter_state :: "sp_state \<Rightarrow> sp_acc option \<times> int option \<times> nat" where
  "iter_state s = (ps_acc s, ps_boot s, ps_block s)"

lemma section_mark_cases:
  assumes "section_mark line = Some e"
  obtains t where "e = Started t" | t where "e = Ended t" | w where "e = Exited w"
  using assms by (auto simp: section_mark_def split: option.splits)

lemma iter_step:
  "iter_line md src (Suc (ps_total s)) (without_eol raw) (iter_state s) =
    (drop (length (ps_sections s)) (ps_sections (sp_step md src s raw)), iter_state (sp_step md src s raw))"
proof (cases "rx_match False sp_header_rx (without_eol raw)")
  case (Some m)
  then show ?thesis
    by (simp add: iter_line_def iter_state_def sp_step_def take_line_def line_event_def take_event_def split: option.split)
next
  case None
  show ?thesis
  proof (cases "ps_acc s")
    case None': None
    with None show ?thesis
      by (simp add: iter_line_def iter_state_def sp_step_def take_line_def line_event_def take_event_def or_else_def split: option.split)
  next
    case (Some a)
    show ?thesis
    proof (cases "section_mark (without_eol raw)")
      case None': None
      with None Some show ?thesis
        by (simp add: iter_line_def iter_state_def sp_step_def take_line_def line_event_def take_event_def or_else_def split: option.split)
    next
      case mark: (Some e)
      then show ?thesis
        by (rule section_mark_cases)
          (use None Some mark in \<open>simp_all add: iter_line_def iter_state_def sp_step_def take_line_def line_event_def take_event_def\<close>)
    qed
  qed
qed

lemma step_sections: "\<exists>new. ps_sections (sp_step md src s raw) = ps_sections s @ new"
  by (auto simp: sp_step_def take_line_def take_event_def Let_def split: sp_event.split option.split)

lemma iter_from_run:
  "ps_sections (close_open src (foldl (sp_step md src) s raws)) = ps_sections s @ iter_from md src (ps_total s) raws (iter_state s)"
proof (induction raws arbitrary: s)
  case Nil
  then show ?case by (simp add: iter_state_def)
next
  case (Cons raw raws)
  obtain new where new: "ps_sections (sp_step md src s raw) = ps_sections s @ new" using step_sections by blast
  have "ps_total (sp_step md src s raw) = Suc (ps_total s)" by (simp add: sp_step_def take_line_def take_event_counts)
  with Cons.IH [of "sp_step md src s raw"] new show ?case by (simp add: iter_step)
qed

text \<open>
  The pass that hands out sections one at a time finds the sections of the full pass, on the lines within the budget.
\<close>

theorem iter_sections_agree:
  "sl_sections (parse_lines b md src raws) =
    iter_sections md src (take (sl_inside (parse_lines b md src raws) + sl_structural (parse_lines b md src raws)
      + sl_unrecognised (parse_lines b md src raws)) raws)"
proof -
  let ?l = "parse_lines b md src raws"
  obtain k where k: "k \<le> length raws" "sl_sections ?l = ps_sections (close_open src (sp_run md src (take k raws)))"
    "sl_inside ?l = ps_inside (sp_run md src (take k raws))" "sl_structural ?l = ps_structural (sp_run md src (take k raws))"
    "sl_unrecognised ?l = ps_unrecognised (sp_run md src (take k raws))"
    by (rule parse_lines_run)
  have "sl_inside ?l + sl_structural ?l + sl_unrecognised ?l = k"
    using log_counts_run [of "take k raws" md src] k by (simp add: counts_ok_def)
  with k(2) iter_from_run [of src md sp_start_state "take k raws"] show ?thesis
    by (simp add: sp_run_def iter_sections_def iter_state_def sp_start_state_def del: close_open_simps)
qed

section \<open>A section is made of its own lines\<close>

text \<open>What one line adds to the section that is open; the specification reads a range of lines, from a header on.\<close>

definition acc_step :: "body_mode \<Rightarrow> nat \<Rightarrow> string \<Rightarrow> sp_acc \<Rightarrow> sp_acc" where
  "acc_step md n line a = (case line_event True line of
       Started t \<Rightarrow> a\<lparr>ac_start := t, ac_last := n\<rparr>
     | Ended t \<Rightarrow> a\<lparr>ac_end := t, ac_last := n\<rparr>
     | Exited status \<Rightarrow> a\<lparr>ac_exit := Some status, ac_last := n\<rparr>
     | Body \<Rightarrow> feed_section md line n a
     | _ \<Rightarrow> a)"

fun acc_steps :: "body_mode \<Rightarrow> nat \<Rightarrow> string list \<Rightarrow> sp_acc \<Rightarrow> sp_acc" where
  "acc_steps md n [] a = a"
| "acc_steps md n (raw # raws) a = acc_steps md (Suc n) raws (acc_step md n (without_eol raw) a)"

definition header_of :: "string \<Rightarrow> string" where
  "header_of raw = (case rx_match False sp_header_rx (without_eol raw) of None \<Rightarrow> [] | Some m \<Rightarrow> grp1 1 m)"

definition read_range :: "body_mode \<Rightarrow> int option \<Rightarrow> nat \<Rightarrow> nat \<Rightarrow> string list \<Rightarrow> sp_acc" where
  "read_range md boot block n raws = acc_steps md (Suc n) (tl raws) (new_acc (header_of (hd raws)) n boot block)"

lemma acc_steps_snoc: "acc_steps md n (raws @ [raw]) a = acc_step md (n + length raws) (without_eol raw) (acc_steps md n raws a)"
  by (induction raws arbitrary: n a) simp_all

text \<open>The lines from the first to the last of a section, counted from one.\<close>

definition lines_between :: "nat \<Rightarrow> nat \<Rightarrow> string list \<Rightarrow> string list" where
  "lines_between i j raws = slice raws (i - 1) j"

lemma lines_between_snoc:
  assumes "1 \<le> i" "i \<le> length raws"
  shows "lines_between i (length raws) raws = drop (i - 1) raws" "j \<le> length raws \<Longrightarrow> lines_between i j (raws @ [raw]) = lines_between i j raws"
    "lines_between i (Suc (length raws)) (raws @ [raw]) = lines_between i (length raws) raws @ [raw]"
  using assms by (auto simp: lines_between_def slice_def)

lemma read_range_snoc: "raws \<noteq> [] \<Longrightarrow> read_range md boot block n (raws @ [raw]) = acc_step md (n + length raws) (without_eol raw) (read_range md boot block n raws)"
  by (cases raws) (simp_all add: read_range_def acc_steps_snoc)

text \<open>Reading a body line moves the last line of the section and keeps its place.\<close>

lemma push_group_keeps:
  assumes "\<And>f b. ac_first (upd f b) = ac_first b" "\<And>f b. ac_last (upd f b) = ac_last b" "\<And>f b. ac_count (upd f b) = ac_count b"
  shows "ac_first (push_group upd m a) = ac_first a" "ac_last (push_group upd m a) = ac_last a" "ac_count (push_group upd m a) = ac_count a"
  using assms by (simp_all add: push_group_def split: option.split)

lemma read_scalar_keeps [simp]:
  "ac_first (read_scalar rows tag payload a) = ac_first a" "ac_last (read_scalar rows tag payload a) = ac_last a"
  "ac_count (read_scalar rows tag payload a) = ac_count a"
  by (induction rows tag payload a rule: read_scalar.induct) (simp_all add: Let_def split: option.split)

lemma section_readers_keep [simp]:
  "ac_first (read_bang bang line a) = ac_first a" "ac_last (read_bang bang line a) = ac_last a" "ac_count (read_bang bang line a) = ac_count a"
  "ac_first (read_guid tag payload a) = ac_first a" "ac_last (read_guid tag payload a) = ac_last a" "ac_count (read_guid tag payload a) = ac_count a"
  "ac_first (read_desc tag payload a) = ac_first a" "ac_last (read_desc tag payload a) = ac_last a" "ac_count (read_desc tag payload a) = ac_count a"
  by (simp_all add: read_bang_def read_guid_def read_desc_def split: option.split)

lemma pushers_keep [simp]:
  "ac_first (read_device tag payload a) = ac_first a" "ac_last (read_device tag payload a) = ac_last a" "ac_count (read_device tag payload a) = ac_count a"
  "ac_first (read_services tag payload a) = ac_first a" "ac_last (read_services tag payload a) = ac_last a" "ac_count (read_services tag payload a) = ac_count a"
  by (simp_all add: read_device_def read_services_def service_patterns_def push_group_keeps)

lemma feed_section_place [simp]:
  "ac_first (feed_section md line n a) = ac_first a" "ac_last (feed_section md line n a) = n" "ac_count (feed_section md line n a) = Suc (ac_count a)"
  by (simp_all add: feed_section_def Let_def keep_line_def split: option.split)

lemma acc_step_place: "ac_first (acc_step md n line a) = ac_first a"
  by (simp add: acc_step_def split: sp_event.split)

definition acc_ok :: "body_mode \<Rightarrow> string list \<Rightarrow> sp_acc \<Rightarrow> bool" where
  "acc_ok md raws a = (1 \<le> ac_first a \<and> ac_first a \<le> ac_last a \<and> ac_last a \<le> length raws
     \<and> (\<exists>boot block. a = read_range md boot block (ac_first a) (lines_between (ac_first a) (ac_last a) raws)
          \<and> a = read_range md boot block (ac_first a) (lines_between (ac_first a) (length raws) raws)))"

definition section_ok :: "body_mode \<Rightarrow> string \<Rightarrow> string list \<Rightarrow> setup_section \<Rightarrow> bool" where
  "section_ok md src raws s = (1 \<le> sp_first s \<and> sp_first s \<le> sp_last s \<and> sp_last s \<le> length raws
     \<and> (\<exists>boot block. s = build_section src (read_range md boot block (sp_first s) (lines_between (sp_first s) (sp_last s) raws))))"

lemma section_place [simp]: "sp_first (build_section src a) = ac_first a" "sp_last (build_section src a) = ac_last a"
  by (simp_all add: build_section_def)

lemma section_of_acc:
  assumes "acc_ok md raws a"
  shows "section_ok md src raws (build_section src a)"
proof -
  obtain boot block where "a = read_range md boot block (ac_first a) (lines_between (ac_first a) (ac_last a) raws)"
    using assms unfolding acc_ok_def by blast
  then have "build_section src a = build_section src (read_range md boot block (ac_first a) (lines_between (ac_first a) (ac_last a) raws))"
    by (rule arg_cong)
  with assms show ?thesis unfolding acc_ok_def section_ok_def section_place by blast
qed

lemma section_ok_snoc: "section_ok md src raws s \<Longrightarrow> section_ok md src (raws @ [raw]) s"
  by (auto simp: section_ok_def lines_between_snoc)

lemma new_acc_place [simp]: "ac_first (new_acc h n boot block) = n" "ac_last (new_acc h n boot block) = n" "ac_count (new_acc h n boot block) = 0"
  by (simp_all add: new_acc_def split: prod.split)

lemma acc_ok_new: "acc_ok md (raws @ [raw]) (new_acc (header_of raw) (Suc (length raws)) boot block)"
proof -
  have "lines_between (Suc (length raws)) (Suc (length raws)) (raws @ [raw]) = [raw]"
    by (simp add: lines_between_def slice_def)
  then show ?thesis by (auto simp: acc_ok_def read_range_def)
qed

lemma acc_ok_steps:
  assumes "acc_ok md raws a"
  shows "acc_step md (Suc (length raws)) (without_eol raw) a = a \<Longrightarrow> acc_ok md (raws @ [raw]) a"
    "ac_last (acc_step md (Suc (length raws)) (without_eol raw) a) = Suc (length raws) \<Longrightarrow>
       acc_ok md (raws @ [raw]) (acc_step md (Suc (length raws)) (without_eol raw) a)"
proof -
  let ?i = "ac_first a" and ?n = "Suc (length raws)"
  obtain boot block where bounds: "1 \<le> ?i" "?i \<le> ac_last a" "ac_last a \<le> length raws" and
      a: "a = read_range md boot block ?i (lines_between ?i (ac_last a) raws)" "a = read_range md boot block ?i (lines_between ?i (length raws) raws)"
    using assms unfolding acc_ok_def by blast
  from bounds have ne: "lines_between ?i (length raws) raws \<noteq> []" and len: "?i + length (lines_between ?i (length raws) raws) = ?n"
    by (simp_all add: lines_between_snoc)
  have whole: "read_range md boot block ?i (lines_between ?i ?n (raws @ [raw])) = acc_step md ?n (without_eol raw) a"
    using bounds read_range_snoc [OF ne, of md boot block ?i raw] a(2) len by (simp add: lines_between_snoc)
  show "acc_ok md (raws @ [raw]) a" if same: "acc_step md ?n (without_eol raw) a = a"
    unfolding acc_ok_def
  proof (intro conjI exI [of _ boot] exI [of _ block])
    show "a = read_range md boot block ?i (lines_between ?i (length (raws @ [raw])) (raws @ [raw]))" using whole same by simp
    show "a = read_range md boot block ?i (lines_between ?i (ac_last a) (raws @ [raw]))" using bounds a(1) by (simp add: lines_between_snoc)
  qed (use bounds in simp_all)
  show "acc_ok md (raws @ [raw]) (acc_step md ?n (without_eol raw) a)" if "ac_last (acc_step md ?n (without_eol raw) a) = ?n"
    unfolding acc_ok_def acc_step_place that
  proof (intro conjI exI [of _ boot] exI [of _ block])
    show "acc_step md ?n (without_eol raw) a = read_range md boot block ?i (lines_between ?i ?n (raws @ [raw]))"
      "acc_step md ?n (without_eol raw) a = read_range md boot block ?i (lines_between ?i (length (raws @ [raw])) (raws @ [raw]))"
      using whole by simp_all
  qed (use bounds in simp_all)
qed

definition sections_ok :: "body_mode \<Rightarrow> string \<Rightarrow> string list \<Rightarrow> sp_state \<Rightarrow> bool" where
  "sections_ok md src raws s = (ps_total s = length raws \<and> list_all (section_ok md src raws) (ps_sections s)
     \<and> sorted_wrt (\<lambda>x y. sp_last x < sp_first y) (ps_sections s)
     \<and> (case ps_acc s of None \<Rightarrow> True | Some a \<Rightarrow> acc_ok md raws a \<and> list_all (\<lambda>x. sp_last x < ac_first a) (ps_sections s)))"

lemma event_header: "line_event opened (without_eol raw) = Header h \<Longrightarrow> header_of raw = h"
  by (auto simp: line_event_def header_of_def split: option.splits if_splits elim: section_mark_cases)

lemma step_inside:
  assumes "ps_acc s = Some a" "\<forall>h. line_event True line \<noteq> Header h" "\<forall>w. line_event True line \<noteq> Exited w" "ps_total s = n"
  shows "ps_acc (take_event md src line (line_event True line) (count_line raw s)) = Some (acc_step md (Suc n) line a)
    \<and> ps_sections (take_event md src line (line_event True line) (count_line raw s)) = ps_sections s"
  using assms by (cases "line_event True line") (simp_all add: take_event_def acc_step_def split: option.split)

lemma sections_ok_step:
  assumes "sections_ok md src raws s"
  shows "sections_ok md src (raws @ [raw]) (sp_step md src s raw)"
proof -
  let ?line = "without_eol raw" and ?n = "Suc (length raws)"
  let ?e = "line_event (ps_acc s \<noteq> None) ?line"
  have total: "ps_total s = length raws" and secs: "list_all (section_ok md src raws) (ps_sections s)"
    and order: "sorted_wrt (\<lambda>x y. sp_last x < sp_first y) (ps_sections s)"
    using assms by (simp_all add: sections_ok_def)
  have step: "sp_step md src s raw = take_event md src ?line ?e (count_line raw s)" by (simp add: sp_step_def take_line_def)
  have kept: "list_all (section_ok md src (raws @ [raw])) (ps_sections s)"
    using secs by (auto simp: list_all_iff intro: section_ok_snoc)
  have within: "list_all (\<lambda>x. sp_last x < ?n) (ps_sections s)"
    using secs by (auto simp: list_all_iff section_ok_def)
  have fresh: "acc_ok md (raws @ [raw]) (new_acc h ?n boot block)" if "?e = Header h" for h boot block
    using acc_ok_new [of md raws raw boot block] event_header [OF that] by simp
  show ?thesis
  proof (cases "ps_acc s")
    case None
    then show ?thesis
      using total kept order within fresh
      by (cases ?e) (auto simp: step sections_ok_def take_event_def Let_def split: option.split)
  next
    case (Some a)
    have a: "acc_ok md raws a" and before_a: "list_all (\<lambda>x. sp_last x < ac_first a) (ps_sections s)"
      using assms Some by (simp_all add: sections_ok_def)
    have e: "?e = line_event True ?line" using Some by simp
    have inside: "ps_acc (sp_step md src s raw) = Some (acc_step md ?n ?line a) \<and> ps_sections (sp_step md src s raw) = ps_sections s"
      if "\<forall>h. ?e \<noteq> Header h" "\<forall>w. ?e \<noteq> Exited w"
      using step_inside [OF Some that [unfolded e] total] unfolding step e .
    have same: "acc_ok md (raws @ [raw]) (acc_step md ?n ?line a)"
    proof (cases "acc_step md ?n ?line a = a")
      case True
      with acc_ok_steps(1) [OF a] show ?thesis by simp
    next
      case False
      then have "ac_last (acc_step md ?n ?line a) = ?n" by (auto simp: acc_step_def split: sp_event.splits)
      with acc_ok_steps(2) [OF a] show ?thesis by simp
    qed
    have closed: "section_ok md src (raws @ [raw]) (build_section src (acc_step md ?n ?line a))" using same by (rule section_of_acc)
    have old: "section_ok md src (raws @ [raw]) (build_section src a)" using section_of_acc [OF a] by (rule section_ok_snoc)
    have last: "ac_last a < ?n" using a by (simp add: acc_ok_def)
    show ?thesis
    proof (cases ?e)
      case (Header h)
      then show ?thesis
        using total kept order within fresh old last before_a Some
        by (auto simp: step sections_ok_def take_event_def Let_def sorted_wrt_append list_all_iff)
    next
      case (Exited w)
      then have "acc_step md ?n ?line a = a\<lparr>ac_exit := Some w, ac_last := ?n\<rparr>" unfolding e by (simp add: acc_step_def)
      with closed have "section_ok md src (raws @ [raw]) (build_section src (a\<lparr>ac_exit := Some w, ac_last := ?n\<rparr>))" by simp
      then show ?thesis
        using total kept order before_a Some Exited
        by (simp add: step sections_ok_def take_event_def Let_def sorted_wrt_append list_all_iff)
    qed (use inside same total kept order before_a in \<open>simp_all add: sections_ok_def sp_step_def take_line_def take_event_counts acc_step_place\<close>)
  qed
qed

lemma sections_ok_run: "sections_ok md src raws (sp_run md src raws)"
proof (induction raws rule: rev_induct)
  case Nil
  show ?case by (simp add: sections_ok_def sp_start_state_def)
next
  case (snoc raw raws)
  then show ?case by (simp add: sections_ok_step)
qed

lemma section_ok_append: "section_ok md src raws s \<Longrightarrow> section_ok md src (raws @ extra) s"
proof (induction extra rule: rev_induct)
  case (snoc raw extra)
  then show ?case using section_ok_snoc [of md src "raws @ extra" s raw] by simp
qed simp

lemma sections_of_run:
  "list_all (section_ok md src raws) (ps_sections (close_open src (sp_run md src raws)))"
  "sorted_wrt (\<lambda>x y. sp_last x < sp_first y) (ps_sections (close_open src (sp_run md src raws)))"
  using sections_ok_run [of md src raws] section_of_acc
  by (auto simp: sections_ok_def sorted_wrt_append list_all_iff split: option.splits)

text \<open>The lines inside sections are the body lines that the sections count.\<close>

definition inside_ok :: "sp_state \<Rightarrow> bool" where
  "inside_ok s = (ps_inside s = sum_list (map sp_count (ps_sections s)) + (case ps_acc s of None \<Rightarrow> 0 | Some a \<Rightarrow> ac_count a))"

lemma section_count [simp]: "sp_count (build_section src a) = ac_count a"
  by (simp add: build_section_def)

lemma body_inside: "line_event opened line = Body \<Longrightarrow> opened"
  by (auto simp: line_event_def split: option.splits if_splits elim: section_mark_cases)

lemma inside_ok_step: "inside_ok s \<Longrightarrow> inside_ok (sp_step md src s raw)"
  using body_inside [of "ps_acc s \<noteq> None" "without_eol raw"]
  by (cases "line_event (ps_acc s \<noteq> None) (without_eol raw)"; cases "ps_acc s")
    (simp_all add: inside_ok_def sp_step_def take_line_def take_event_def Let_def split: option.split)

interpretation device_log: machine "sp_step md src" inside_ok for md src
  by unfold_locales (rule inside_ok_step)

lemma inside_ok_run: "inside_ok (sp_run md src raws)"
  unfolding sp_run_def by (rule device_log.inv_run) (simp add: inside_ok_def sp_start_state_def)

text \<open>
  C30: A section is made of the lines from its header to its last line and of no others: it is what reading that range alone
  gives, up to the boot session and the block that precede it.  The ranges follow one another without overlap, and the body
  lines of the sections are the lines counted as inside a section.
\<close>

theorem sections_confined:
  "list_all (section_ok md src raws) (sl_sections (parse_lines b md src raws))
   \<and> sorted_wrt (\<lambda>x y. sp_last x < sp_first y) (sl_sections (parse_lines b md src raws))
   \<and> sum_list (map sp_count (sl_sections (parse_lines b md src raws))) = sl_inside (parse_lines b md src raws)"
proof -
  let ?l = "parse_lines b md src raws"
  obtain k where k: "sl_sections ?l = ps_sections (close_open src (sp_run md src (take k raws)))"
    "sl_inside ?l = ps_inside (sp_run md src (take k raws))"
    by (rule parse_lines_run)
  have "list_all (section_ok md src raws) (sl_sections ?l)"
    using sections_of_run(1) [of md src "take k raws"] section_ok_append [of md src "take k raws" _ "drop k raws"]
    by (auto simp: k list_all_iff)
  moreover have "sum_list (map sp_count (sl_sections ?l)) = sl_inside ?l"
    using inside_ok_run [of md src "take k raws"] by (simp add: k inside_ok_def split: option.split)
  ultimately show ?thesis using sections_of_run(2) [of src md "take k raws"] k by simp
qed

section \<open>The lists of a section\<close>

definition names_ok :: "string list \<Rightarrow> bool" where
  "names_ok xs = (distinct xs \<and> length xs \<le> push_cap)"

definition acc_bounded :: "body_mode \<Rightarrow> sp_acc \<Rightarrow> bool" where
  "acc_bounded md a = (list_all names_ok [ac_inf_names a, ac_descs a, ac_hwids a, ac_devinsts a, ac_guids a, ac_svc_add a, ac_svc_del a]
     \<and> length (ac_warnings a) \<le> 64 \<and> length (ac_errors a) \<le> 64 \<and> length (ac_body a) \<le> (if fst md then snd md else 0)
     \<and> length (ac_body a) \<le> ac_count a)"

lemma bucket_push: "names_ok xs \<Longrightarrow> names_ok (push_value w xs)"
  by (simp add: names_ok_def push_value_def Let_def)

lemma bounded_push_group:
  assumes "acc_bounded md a" "\<And>w. acc_bounded md (upd (push_value w) a)"
  shows "acc_bounded md (push_group upd m a)"
  using assms by (simp add: push_group_def split: option.split)

lemma bounded_scalar: "acc_bounded md a \<Longrightarrow> acc_bounded md (read_scalar rows tag payload a)"
proof -
  have "acc_bounded md (a\<lparr>ac_scalars := d\<rparr>) = acc_bounded md a" for a d by (simp add: acc_bounded_def)
  then show "acc_bounded md a \<Longrightarrow> acc_bounded md (read_scalar rows tag payload a)"
    by (induction rows tag payload a rule: read_scalar.induct) (simp_all add: Let_def split: option.split)
qed

lemma bounded_readers:
  "acc_bounded md a \<Longrightarrow> acc_bounded md (keep_line md line a)" "acc_bounded md a \<Longrightarrow> acc_bounded md (read_bang bang line a)"
  "acc_bounded md a \<Longrightarrow> acc_bounded md (read_guid tag payload a)" "acc_bounded md a \<Longrightarrow> acc_bounded md (read_desc tag payload a)"
  by (auto simp: acc_bounded_def keep_line_def read_bang_def read_guid_def read_desc_def bucket_push split: option.split)

lemma bounded_pushes:
  "acc_bounded md a \<Longrightarrow> acc_bounded md (push_group ac_inf_names_update m a)" "acc_bounded md a \<Longrightarrow> acc_bounded md (push_group ac_hwids_update m a)"
  "acc_bounded md a \<Longrightarrow> acc_bounded md (push_group ac_devinsts_update m a)" "acc_bounded md a \<Longrightarrow> acc_bounded md (push_group ac_svc_add_update m a)"
  "acc_bounded md a \<Longrightarrow> acc_bounded md (push_group ac_svc_del_update m a)"
  by (rule bounded_push_group; simp add: acc_bounded_def bucket_push)+

lemma bounded_feed:
  assumes "acc_bounded md a"
  shows "acc_bounded md (feed_section md line n a)"
proof -
  have "acc_bounded md (a\<lparr>ac_last := n\<rparr>)" using assms by (simp add: acc_bounded_def)
  moreover have "acc_bounded md b \<Longrightarrow> acc_bounded md (b\<lparr>ac_command := c\<rparr>)" for b c by (simp add: acc_bounded_def)
  moreover have "acc_bounded md b \<Longrightarrow> acc_bounded md (read_device tag payload b)" for b tag payload
    by (simp add: read_device_def bounded_pushes)
  moreover have "acc_bounded md b \<Longrightarrow> acc_bounded md (read_services tag payload b)" for b tag payload
    by (simp add: read_services_def service_patterns_def bounded_pushes)
  ultimately show ?thesis
    by (simp add: feed_section_def Let_def bounded_readers bounded_scalar split: option.split)
qed

lemma bounded_step: "acc_bounded md a \<Longrightarrow> acc_bounded md (acc_step md n line a)"
  using bounded_feed [of md a line n] by (cases "line_event True line") (simp_all add: acc_step_def, simp_all add: acc_bounded_def)

lemma bounded_steps: "acc_bounded md a \<Longrightarrow> acc_bounded md (acc_steps md n raws a)"
  by (induction raws arbitrary: n a) (simp_all add: bounded_step)

lemma bounded_range: "acc_bounded md (read_range md boot block n raws)"
  unfolding read_range_def
  by (rule bounded_steps) (simp add: acc_bounded_def new_acc_def names_ok_def push_cap_def split: prod.split)

text \<open>
  The names of a section are listed once each and 32 of a kind at most, one more for the file its header names; of its
  marked lines 64 are kept, and of its text as many as asked for.
\<close>

definition section_bounded :: "body_mode \<Rightarrow> setup_section \<Rightarrow> bool" where
  "section_bounded md s = (list_all names_ok [sp_descs s, sp_hwids s, sp_devinsts s, sp_guids s, sp_svc_add s, sp_svc_del s]
     \<and> distinct (sp_inf_names s) \<and> length (sp_inf_names s) \<le> Suc push_cap \<and> length (sp_warnings s) \<le> 64 \<and> length (sp_errors s) \<le> 64
     \<and> length (sp_body s) \<le> (if fst md then snd md else 0) \<and> length (sp_body s) \<le> sp_count s)"

lemma section_bounded_build: "acc_bounded md a \<Longrightarrow> section_bounded md (build_section src a)"
  by (auto simp: acc_bounded_def section_bounded_def build_section_def inf_names_of_def names_ok_def split: option.split)

theorem section_lists_bounded: "list_all (section_bounded md) (sl_sections (parse_lines b md src raws))"
proof -
  let ?l = "parse_lines b md src raws"
  obtain k where k: "sl_sections ?l = ps_sections (close_open src (sp_run md src (take k raws)))"
    by (rule parse_lines_run)
  have "section_bounded md s" if "section_ok md src (take k raws) s" for s
    using that section_bounded_build [OF bounded_range] unfolding section_ok_def by metis
  with sections_of_run(1) [of md src "take k raws"] show ?thesis by (auto simp: k list_all_iff)
qed

section \<open>A value of a section stays\<close>

lemma read_scalar_stays: "dict_get (ac_scalars a) k = Some v \<Longrightarrow> dict_get (ac_scalars (read_scalar rows tag payload a)) k = Some v"
  by (induction rows tag payload a rule: read_scalar.induct) (auto simp: Let_def dict_get_set split: option.split)

lemma readers_scalars [simp]:
  "ac_scalars (keep_line md line a) = ac_scalars a" "ac_scalars (read_bang bang line a) = ac_scalars a"
  "ac_scalars (read_guid tag payload a) = ac_scalars a" "ac_scalars (read_desc tag payload a) = ac_scalars a"
  "ac_scalars (read_device tag payload a) = ac_scalars a" "ac_scalars (read_services tag payload a) = ac_scalars a"
  by (simp_all add: keep_line_def read_bang_def read_guid_def read_desc_def read_device_def read_services_def service_patterns_def
      push_group_def split: option.split)

lemma acc_step_stays: "scalar k a = Some v \<Longrightarrow> scalar k (acc_step md n line a) = Some v"
  by (auto simp: acc_step_def feed_section_def Let_def scalar_def read_scalar_stays split: sp_event.split option.split)

lemma acc_steps_stays: "scalar k a = Some v \<Longrightarrow> scalar k (acc_steps md n raws a) = Some v"
  by (induction raws arbitrary: n a) (simp_all add: acc_step_stays)

text \<open>The first value a field has in a section is the one it keeps: reading on in the section does not change it.\<close>

theorem first_value_stays:
  assumes "scalar k (read_range md boot block n (raw # raws)) = Some v"
  shows "scalar k (read_range md boot block n (raw # raws @ extra)) = Some v"
proof -
  have "acc_steps md m (xs @ ys) a = acc_steps md (m + length xs) ys (acc_steps md m xs a)" for m xs ys a
    by (induction xs arbitrary: m a) simp_all
  then show ?thesis using assms by (simp add: read_range_def acc_steps_stays)
qed

section \<open>Where the comments say otherwise\<close>

text \<open>The line that exceeds the budget is in the total and in none of the three kinds.\<close>

lemma unclassified_line:
  "(let l = parse_lines \<lparr>max_bytes = 100, max_lines = 1\<rparr> (False, 0) [] [''a'', ''b''] in
     (sl_total l, sl_inside l + sl_structural l + sl_unrecognised l)) = (2, 1)"
  by code_simp

text \<open>The sections after the first preamble of a file are in block 1; block 0 is for a file without a preamble.\<close>

lemma block_of_plain_file:
  "map sp_block (sl_sections (parse_lines \<lparr>max_bytes = 1000, max_lines = 100\<rparr> (False, 0) []
     [''[Device Install Log]'', ''>>>  [Restart Device]'', ''<<<  [Exit status: SUCCESS]''])) = [1]"
  by code_simp

text \<open>A short marker takes a product for another: a path with \<open>extracted\<close> in it names Check Point.\<close>

lemma vendor_by_accident: "vendor_for [''C:/Temp/extracted/nic.inf''] = Some ''Check Point''"
  by code_simp

end
