(* ===== verification/Setupapi_Query.thy ===== *)
theory Setupapi_Query
  imports Setupapi "HOL-Library.Multiset"
begin

text \<open>
  The selections, counts and the summary of network drivers over the sections of device
  installation logs (\<open>setupapi_extract.py\<close>, query helpers), and what they promise.
\<close>

section \<open>Selections\<close>

text \<open>A log, or a sequence of logs and sections; other items of a sequence are passed over.\<close>

datatype sp_item =
    Log_item setup_log
  | Section_item setup_section
  | Other_item

datatype sp_input =
    One_log setup_log
  | Items "sp_item list"

fun item_sections :: "sp_item \<Rightarrow> setup_section list" where
  "item_sections (Log_item l) = sl_sections l"
| "item_sections (Section_item s) = [s]"
| "item_sections Other_item = []"

fun as_sections :: "sp_input \<Rightarrow> setup_section list" where
  "as_sections (One_log l) = sl_sections l"
| "as_sections (Items xs) = concat (map item_sections xs)"

type_synonym sp_key = "bool \<times> int \<times> string \<times> nat"

definition time_key :: "setup_section \<Rightarrow> sp_key" where
  "time_key s = (sp_start s = None, (case sp_start s of None \<Rightarrow> 0 | Some t \<Rightarrow> t), sp_source s, sp_first s)"

definition in_time_order :: "setup_section list \<Rightarrow> setup_section list" where
  "in_time_order ss = sort_key time_key ss"

record sp_select =
  want_contains :: "string option"
  want_kind :: "string option"
  want_kinds :: "string list"
  want_vendor :: "string option"
  network_only :: bool
  include_policy :: bool
  failures_only :: bool
  since_local :: "int option"
  until_local :: "int option"

definition any_section :: sp_select where
  "any_section = \<lparr>want_contains = None, want_kind = None, want_kinds = [], want_vendor = None, network_only = False,
     include_policy = False, failures_only = False, since_local = None, until_local = None\<rparr>"

definition started_within :: "(int \<Rightarrow> bool) \<Rightarrow> setup_section \<Rightarrow> bool" where
  "started_within p s = (case sp_start s of None \<Rightarrow> True | Some t \<Rightarrow> p t)"

definition narrowed :: "bool \<Rightarrow> (setup_section \<Rightarrow> bool) \<Rightarrow> setup_section list \<Rightarrow> setup_section list" where
  "narrowed active p rows = (if active then filter p rows else rows)"

definition narrowed_by :: "'a option \<Rightarrow> ('a \<Rightarrow> setup_section \<Rightarrow> bool) \<Rightarrow> setup_section list \<Rightarrow> setup_section list" where
  "narrowed_by x p rows = (case x of None \<Rightarrow> rows | Some v \<Rightarrow> filter (p v) rows)"

definition select_sections :: "sp_select \<Rightarrow> sp_input \<Rightarrow> setup_section list" where
  "select_sections c src = in_time_order
     (narrowed_by (until_local c) (\<lambda>u. started_within (\<lambda>t. t \<le> u))
       (narrowed_by (since_local c) (\<lambda>u. started_within (\<lambda>t. u \<le> t))
         (narrowed (text_or_empty (want_contains c) \<noteq> []) (\<lambda>s. occurs (py_lower (text_or_empty (want_contains c))) (haystack s))
           (narrowed (failures_only c) (\<lambda>s. sp_succeeded s = Some False)
             (narrowed (network_only c) is_network
               (narrowed_by (want_vendor c) (\<lambda>v s. sp_vendor s = Some v)
                 (narrowed (want_kinds c \<noteq> []) (\<lambda>s. List.member (want_kinds c) (sp_kind s))
                   (narrowed_by (want_kind c) (\<lambda>k s. sp_kind s = k)
                     (narrowed (\<not> include_policy c) (\<lambda>s. \<not> is_policy_check s) (as_sections src))))))))))"

definition device_timeline :: "sp_select \<Rightarrow> sp_input \<Rightarrow> string \<Rightarrow> setup_section list" where
  "device_timeline c src needle = select_sections (c\<lparr>want_contains := Some needle\<rparr>) src"

section \<open>Counts\<close>

definition counted_rows :: "bool \<Rightarrow> sp_input \<Rightarrow> setup_section list" where
  "counted_rows policy src = narrowed (\<not> policy) (\<lambda>s. \<not> is_policy_check s) (as_sections src)"

text \<open>The most frequent first, then by name.\<close>

definition descending :: "(string, nat) dict \<Rightarrow> (string, nat) dict" where
  "descending d = sort_key (\<lambda>(k, n). (- int n, k)) d"

definition section_tally :: "(setup_section \<Rightarrow> string) \<Rightarrow> setup_section list \<Rightarrow> (string, nat) dict" where
  "section_tally f rows = descending (fold (\<lambda>s. dict_add (f s) 1) rows [])"

definition kind_counts :: "bool \<Rightarrow> sp_input \<Rightarrow> (string, nat) dict" where
  "kind_counts policy src = section_tally sp_kind (counted_rows policy src)"

definition exit_text :: "setup_section \<Rightarrow> string" where
  "exit_text s = (case sp_exit s of None \<Rightarrow> ''<unterminated>'' | Some t \<Rightarrow> t)"

definition exit_status_counts :: "bool \<Rightarrow> sp_input \<Rightarrow> (string, nat) dict" where
  "exit_status_counts policy src = section_tally exit_text (counted_rows policy src)"

definition unterminated_count :: "setup_log \<Rightarrow> nat" where
  "unterminated_count l = length (filter unterminated (sl_sections l))"

definition substantive_sections :: "setup_log \<Rightarrow> setup_section list" where
  "substantive_sections l = filter (\<lambda>s. \<not> is_policy_check s) (sl_sections l)"

definition span_local :: "setup_log \<Rightarrow> (int \<times> int) option" where
  "span_local l = (let stamps = List.map_filter sp_start (sl_sections l); ends = List.map_filter sp_end (sl_sections l) in
     case stamps of [] \<Rightarrow> None | t # ts \<Rightarrow> Some (fold min ts t, fold max (ends @ stamps) t))"

section \<open>Network drivers\<close>

record driver_event =
  de_when :: "int option"
  de_action :: string
  de_name :: string
  de_vendor :: "string option"
  de_version :: "string option"
  de_date :: "int option"
  de_provider :: "string option"
  de_service :: "string option"
  de_class :: "string option"
  de_exit :: "string option"
  de_succeeded :: "bool option"
  de_signer :: "string option"
  de_source :: string
  de_first :: nat
  de_last :: nat
  de_kind :: string

definition action_by_kind :: "(string, string) dict" where
  "action_by_kind =
     [(''Install network driver'', ''install''), (''Deinstall network driver'', ''uninstall''), (''SetupCopyOEMInf'', ''stage''),
      (''Setup Import Driver Package'', ''stage''), (''Stage Driver Updates'', ''stage''),
      (''Driver Install (DrvSetupInstallDriver)'', ''install''), (''Device Install (DiInstallDriver)'', ''install''),
      (''Device Install (DiInstallDevice)'', ''install''), (''Device Install (Hardware initiated)'', ''install''),
      (''Device Install (UpdateDriverForPlugAndPlayDevices)'', ''update''),
      (''Device Install (Install Windows Update driver)'', ''update''), (''Install Driver Updates'', ''update''),
      (''Restart Device'', ''restart''), (''Delete Device'', ''delete''), (''Uninstall device subtree'', ''uninstall''),
      (''Uninstall device subtree (DiUninstallDevice)'', ''uninstall''),
      (''Driver Uninstall (DrvSetupUninstallDriver)'', ''uninstall''), (''SetupUninstallOEMInf'', ''unstage''),
      (''Unstage Driver Updates'', ''unstage''), (''Uninstall Driver Updates'', ''unstage''),
      (''Enable Device Install'', ''enable''), (''Disable Device Install'', ''disable''),
      (''Device and Driver Disk Cleanup Handler'', ''cleanup''), (''Verify Driver Store Integrity'', ''verify''),
      (''Device Installation Restrictions Policy Check'', ''policy-check'')]"

definition first_of :: "string list \<Rightarrow> string option" where
  "first_of xs = (case xs of [] \<Rightarrow> None | x # _ \<Rightarrow> Some x)"

definition driver_event_of :: "setup_section \<Rightarrow> driver_event" where
  "driver_event_of s =
     \<lparr>de_when = sp_start s, de_action = dict_getd action_by_kind (sp_kind s) (sp_kind s),
       de_name = text_or_empty (or_else (first_of (sp_descs s)) (or_else (first_of (sp_hwids s)) (sp_target s))),
       de_vendor = sp_vendor s, de_version = sp_version s, de_date = sp_driver_date s, de_provider = sp_provider s,
       de_service = or_else (first_of (sp_svc_add s)) (first_of (sp_svc_del s)), de_class = sp_net_class s, de_exit = sp_exit s,
       de_succeeded = sp_succeeded s, de_signer = sp_status s, de_source = sp_source s, de_first = sp_first s, de_last = sp_last s,
       de_kind = sp_kind s\<rparr>"

definition network_driver_events :: "sp_input \<Rightarrow> driver_event list" where
  "network_driver_events src = map driver_event_of (in_time_order (filter is_network (as_sections src)))"

section \<open>What a selection returns\<close>

definition meets :: "sp_select \<Rightarrow> setup_section \<Rightarrow> bool" where
  "meets c s = ((include_policy c \<or> \<not> is_policy_check s)
     \<and> (case want_kind c of None \<Rightarrow> True | Some k \<Rightarrow> sp_kind s = k) \<and> (want_kinds c = [] \<or> sp_kind s \<in> set (want_kinds c))
     \<and> (case want_vendor c of None \<Rightarrow> True | Some v \<Rightarrow> sp_vendor s = Some v) \<and> (network_only c \<longrightarrow> is_network s)
     \<and> (failures_only c \<longrightarrow> sp_succeeded s = Some False)
     \<and> (case want_contains c of None \<Rightarrow> True | Some w \<Rightarrow> sublist (py_lower w) (haystack s))
     \<and> (case (sp_start s, since_local c) of (Some t, Some u) \<Rightarrow> u \<le> t | _ \<Rightarrow> True)
     \<and> (case (sp_start s, until_local c) of (Some t, Some u) \<Rightarrow> t \<le> u | _ \<Rightarrow> True))"

lemma narrowed_filter: "narrowed active p rows = filter (\<lambda>s. active \<longrightarrow> p s) rows"
  by (simp add: narrowed_def)

lemma narrowed_by_filter: "narrowed_by x p rows = filter (\<lambda>s. case x of None \<Rightarrow> True | Some v \<Rightarrow> p v s) rows"
  by (simp add: narrowed_by_def split: option.split)

lemma time_bounds:
  "(case x of None \<Rightarrow> True | Some u \<Rightarrow> started_within (\<lambda>t. t \<le> u) s) = (case (sp_start s, x) of (Some t, Some u) \<Rightarrow> t \<le> u | _ \<Rightarrow> True)"
  "(case x of None \<Rightarrow> True | Some u \<Rightarrow> started_within (\<lambda>t. u \<le> t) s) = (case (sp_start s, x) of (Some t, Some u) \<Rightarrow> u \<le> t | _ \<Rightarrow> True)"
  by (simp_all add: started_within_def split: option.split)

lemma text_wanted:
  "(text_or_empty x \<noteq> [] \<longrightarrow> occurs (py_lower (text_or_empty x)) h) = (case x of None \<Rightarrow> True | Some w \<Rightarrow> sublist (py_lower w) h)"
  by (auto simp: text_or_empty_def occurs_iff_sublist split: option.split)

lemma select_filter: "select_sections c src = in_time_order (filter (meets c) (as_sections src))"
proof -
  have "(not_kinds = [] \<or> k \<in> set not_kinds) = (not_kinds \<noteq> [] \<longrightarrow> List.member not_kinds k)" for not_kinds and k :: string by auto
  then show ?thesis
    unfolding select_sections_def narrowed_filter narrowed_by_filter filter_filter meets_def [abs_def] time_bounds text_wanted
    by (simp only: conj_assoc imp_conv_disj not_not)
qed

text \<open>
  A selection is the sections that meet all its conditions, each as often as it was given, ordered by time with those
  without a time last; a section without a time meets every bound on the time.
\<close>

theorem select_spec:
  "mset (select_sections c src) = mset (filter (meets c) (as_sections src))
   \<and> sorted (map time_key (select_sections c src))
   \<and> filter (\<lambda>s. time_key s = k) (select_sections c src) = filter (\<lambda>s. meets c s \<and> time_key s = k) (as_sections src)"
  by (simp add: select_filter in_time_order_def sort_key_stable conj_commute)

section \<open>What the counts say\<close>

lemma section_tally_fold:
  "distinct (dict_keys d) \<Longrightarrow> distinct (dict_keys (fold (\<lambda>s. dict_add (f s) 1) rows d))
    \<and> dict_total (fold (\<lambda>s. dict_add (f s) 1) rows d) = dict_total d + length rows
    \<and> dict_getd (fold (\<lambda>s. dict_add (f s) 1) rows d) k 0 = dict_getd d k 0 + length (filter (\<lambda>s. f s = k) rows)"
  by (induction rows arbitrary: d) (simp_all add: distinct_dict_add dict_total_add dict_getd_add)

lemma descending_same:
  "distinct (dict_keys d) \<Longrightarrow> distinct (dict_keys (descending d))" "dict_total (descending d) = dict_total d"
  "distinct (dict_keys d) \<Longrightarrow> dict_getd (descending d) k v = dict_getd d k v"
proof -
  have m: "mset (descending d) = mset d" by (simp add: descending_def)
  have "mset (dict_keys (descending d)) = mset (dict_keys d)" using arg_cong [OF m, of "image_mset fst"] by simp
  then show keys: "distinct (dict_keys d) \<Longrightarrow> distinct (dict_keys (descending d))" by (metis mset_eq_imp_distinct_iff)
  show "dict_total (descending d) = dict_total d"
    using arg_cong [OF m, of "image_mset snd"] unfolding dict_total_def by (metis mset_map sum_mset_sum_list)
  show "dict_getd (descending d) k v = dict_getd d k v" if "distinct (dict_keys d)"
    using map_of_inject_set [OF keys [OF that] that] mset_eq_setD [OF m] by (simp add: dict_getd_def)
qed

text \<open>
  The counts by kind and by exit status list every kind and status once, the most frequent first; each number is that of
  the sections, and they add up to all sections in question, the unterminated ones included.
\<close>

definition tally_right :: "(setup_section \<Rightarrow> string) \<Rightarrow> setup_section list \<Rightarrow> (string, nat) dict \<Rightarrow> bool" where
  "tally_right f rows d = (distinct (dict_keys d) \<and> dict_total d = length rows \<and> sorted (map (\<lambda>(k, n). - int n) d)
     \<and> list_all (\<lambda>s. dict_getd d (f s) 0 = length (filter (\<lambda>t. f t = f s) rows)) rows)"

lemma tally_right: "tally_right f rows (section_tally f rows)"
proof -
  have d: "distinct (dict_keys (fold (\<lambda>s. dict_add (f s) 1) rows []))" using section_tally_fold [of "[]" f rows] by simp
  have "sorted (map (\<lambda>(k, n). (- int n, k)) (section_tally f rows))" by (simp add: section_tally_def descending_def)
  then have "sorted (map (\<lambda>(k, n). - int n) (section_tally f rows))"
    unfolding sorted_map by (rule sorted_wrt_mono_rel [rotated]) (auto simp: less_eq_prod_def)
  then show ?thesis
    using section_tally_fold [of "[]" f rows] d
    by (simp add: tally_right_def section_tally_def descending_same list_all_iff, simp add: dict_total_def dict_getd_def)
qed

theorem setup_counts:
  "tally_right sp_kind (counted_rows p src) (kind_counts p src) \<and> tally_right exit_text (counted_rows p src) (exit_status_counts p src)"
  unfolding kind_counts_def exit_status_counts_def by (simp add: tally_right)

text \<open>Every section of the network stack is in the summary, known vendor or not, in the order of time.\<close>

theorem network_summary:
  "mset (network_driver_events src) = image_mset driver_event_of (mset (filter is_network (as_sections src)))
   \<and> length (network_driver_events src) = length (filter is_network (as_sections src))"
  by (simp add: network_driver_events_def in_time_order_def)

end
